(* ===== verification/Prelude.thy ===== *)
theory Prelude
  imports Complex_Main "HOL-Library.AList"
begin

text \<open>
  Shared vocabulary of the development: the values a Python program computes with, the
  result type of code that may raise, loops that may raise, insertion-ordered
  dictionaries, and the generic lemmas on lists, counts and graphs that the component
  theories use.

  \<^item> A Python \<open>dict\<close> is an association list in insertion order; \<open>d[k] = v\<close> is
    \<^const>\<open>AList.update\<close> (it keeps the position of an existing key and appends a new
    one), \<open>d.get(k)\<close> is \<^const>\<open>map_of\<close>, \<open>d.pop(k, None)\<close> is \<^const>\<open>AList.delete\<close>.
  \<^item> Code that may raise returns \<open>'e + 'a\<close>, with \<^const>\<open>Inl\<close> the exception.
  \<^item> A float is an exact rational: rounding, infinities and NaN are not modelled.
\<close>

named_theorems result_simps \<open>unfolding of the result type of code that may raise\<close>
named_theorems dict_simps \<open>reads after writes of insertion-ordered dictionaries\<close>

section \<open>Values\<close>

type_synonym name = string
type_synonym instant = rat

text \<open>
  The values that flow through contexts, results and metadata: the JSON values, and the
  values that JSON has no form for. A date carries its ISO text, a path its text, any other
  object the text \<open>str\<close> gives for it.
\<close>

datatype pyval =
    PNone
  | PBool bool
  | PInt int
  | PFloat rat
  | PStr string
  | PList "pyval list"
  | PDict "(string \<times> pyval) list"
  | PTuple "pyval list"
  | PDatetime string
  | PPath string
  | PObject string

type_synonym pydict = "(string \<times> pyval) list"

section \<open>Results of code that may raise\<close>

definition rbind :: "'e + 'a \<Rightarrow> ('a \<Rightarrow> 'e + 'b) \<Rightarrow> 'e + 'b" where
  "rbind r f = (case r of Inl e \<Rightarrow> Inl e | Inr x \<Rightarrow> f x)"

lemma rbind_Inl [simp]: "rbind (Inl e) f = Inl e"
  and rbind_Inr [simp]: "rbind (Inr x) f = f x"
  by (simp_all add: rbind_def)

lemma rbind_eq_Inr [result_simps]:
  "rbind r f = Inr y \<longleftrightarrow> (\<exists>x. r = Inr x \<and> f x = Inr y)"
  by (cases r) simp_all

lemma rbind_eq_Inl [result_simps]:
  "rbind r f = Inl e \<longleftrightarrow> r = Inl e \<or> (\<exists>x. r = Inr x \<and> f x = Inl e)"
  by (cases r) simp_all

lemma rbind_cong [fundef_cong]:
  "r = r' \<Longrightarrow> (\<And>x. r' = Inr x \<Longrightarrow> f x = g x) \<Longrightarrow> rbind r f = rbind r' g"
  by (cases r') simp_all

text \<open>A \<open>for\<close> loop whose body may raise: the first exception ends it.\<close>

fun rfold :: "('a \<Rightarrow> 's \<Rightarrow> 'e + 's) \<Rightarrow> 'a list \<Rightarrow> 's \<Rightarrow> 'e + 's" where
  "rfold f [] s = Inr s"
| "rfold f (x # xs) s = rbind (f x s) (rfold f xs)"

lemma rfold_append:
  "rfold f (xs @ ys) s = rbind (rfold f xs s) (rfold f ys)"
proof (induction xs arbitrary: s)
  case Nil
  then show ?case by simp
next
  case (Cons x xs)
  then show ?case by (cases "f x s") simp_all
qed

text \<open>
  The loop rule: a body that returns normally and keeps an invariant, which may depend on
  the elements still to come, makes the loop return normally and establish it.
\<close>

lemma rfold_invariant:
  assumes "I xs s"
    and "\<And>x xs s. I (x # xs) s \<Longrightarrow> \<exists>s'. f x s = Inr s' \<and> I xs s'"
  shows "\<exists>s'. rfold f xs s = Inr s' \<and> I [] s'"
  using assms(1)
proof (induction xs arbitrary: s)
  case Nil
  then show ?case by simp
next
  case (Cons x xs)
  obtain s' where "f x s = Inr s'" "I xs s'"
    using assms(2) [OF Cons.prems] by blast
  with Cons.IH show ?case by simp
qed

section \<open>Insertion-ordered dictionaries\<close>

lemmas map_of_update [simp, dict_simps] = update_conv'
lemmas map_of_delete [simp, dict_simps] = delete_conv'

lemma map_of_update_neq [dict_simps]:
  "k \<noteq> k' \<Longrightarrow> map_of (AList.update k v d) k' = map_of d k'"
  by simp

lemma keys_update [dict_simps]:
  "set (map fst (AList.update k v d)) = insert k (set (map fst d))"
  by (auto simp: dom_update)

lemma map_of_in_keys: "map_of d k = Some v \<Longrightarrow> k \<in> set (map fst d)"
  by (force dest: map_of_SomeD)

lemma in_keys_map_of: "k \<in> set (map fst d) \<Longrightarrow> \<exists>v. map_of d k = Some v"
  by (metis map_of_eq_None_iff list.set_map option.exhaust_sel)

text \<open>\<open>d.update(u)\<close>: the entries of \<open>u\<close> written one by one.\<close>

definition dict_update :: "('k \<times> 'v) list \<Rightarrow> ('k \<times> 'v) list \<Rightarrow> ('k \<times> 'v) list" where
  "dict_update d u = fold (\<lambda>(k, v). AList.update k v) u d"

lemma map_of_dict_update [dict_simps]:
  "distinct (map fst u) \<Longrightarrow> map_of (dict_update d u) = map_of d ++ map_of u"
proof (induction u arbitrary: d)
  case Nil
  then show ?case by (simp add: dict_update_def)
next
  case (Cons kv u)
  obtain k v where kv: "kv = (k, v)" by fastforce
  with Cons have "map_of (dict_update d (kv # u)) = (map_of d)(k \<mapsto> v) ++ map_of u"
    by (simp add: dict_update_def)
  moreover have "map_of u k = None"
    using Cons.prems kv by (simp add: map_of_eq_None_iff)
  ultimately show ?case
    by (auto simp: kv map_add_def fun_eq_iff split: option.splits)
qed

lemma keys_dict_update [dict_simps]:
  "set (map fst (dict_update d u)) = set (map fst d) \<union> set (map fst u)"
proof (induction u arbitrary: d)
  case Nil
  then show ?case by (simp add: dict_update_def)
next
  case (Cons kv u)
  obtain k v where kv: "kv = (k, v)" by fastforce
  have "dict_update d (kv # u) = dict_update (AList.update k v d) u"
    by (simp add: dict_update_def kv)
  with Cons.IH [of "AList.update k v d"] show ?case
    by (auto simp: kv dom_update)
qed

lemma distinct_dict_update [simp]:
  "distinct (map fst d) \<Longrightarrow> distinct (map fst (dict_update d u))"
proof (induction u arbitrary: d)
  case Nil
  then show ?case by (simp add: dict_update_def)
next
  case (Cons kv u)
  obtain k v where kv: "kv = (k, v)" by fastforce
  have "dict_update d (kv # u) = dict_update (AList.update k v d) u"
    by (simp add: dict_update_def kv)
  with Cons.IH [of "AList.update k v d"] Cons.prems show ?case
    by (simp add: distinct_update)
qed

lemma map_of_filter_keys [dict_simps]:
  "map_of (filter (\<lambda>kv. fst kv \<notin> A) d) k = (if k \<in> A then None else map_of d k)"
  by (induction d) auto

text \<open>
  Counting the entries of a dictionary with a property: an update at a key whose current
  value has the property, by a value that has not, lowers the count. Loops that mark nodes
  or count down in-degrees terminate by this measure.
\<close>

definition count_vals :: "('v \<Rightarrow> bool) \<Rightarrow> ('k \<times> 'v) list \<Rightarrow> nat" where
  "count_vals P d = length (filter (\<lambda>kv. P (snd kv)) d)"

lemma count_vals_update_less:
  "map_of d k = Some v \<Longrightarrow> P v \<Longrightarrow> \<not> P w \<Longrightarrow>
    count_vals P (AList.update k w d) < count_vals P d"
  by (induction d) (auto simp: count_vals_def)

lemma count_vals_update_eq:
  "map_of d k = Some v \<Longrightarrow> P v = P w \<Longrightarrow>
    count_vals P (AList.update k w d) = count_vals P d"
  by (induction d) (auto simp: count_vals_def)

lemma count_vals_update_le:
  "\<not> P w \<Longrightarrow> count_vals P (AList.update k w d) \<le> count_vals P d"
  by (induction d) (auto simp: count_vals_def)

lemma count_vals_update_Suc:
  "map_of d k = Some v \<Longrightarrow> P v \<Longrightarrow> \<not> P w \<Longrightarrow>
    Suc (count_vals P (AList.update k w d)) = count_vals P d"
  by (induction d) (auto simp: count_vals_def)

section \<open>Lists and graphs\<close>

lemma count_list_append [simp]:
  "count_list (xs @ ys) x = count_list xs x + count_list ys x"
  by (induction xs) auto

lemma count_list_zero_iff: "count_list xs x = 0 \<longleftrightarrow> x \<notin> set xs"
  by (induction xs) auto

text \<open>
  A node all of whose edges lead into an acyclic region that is closed under edges and
  does not contain it can be added to the region.
\<close>

lemma acyclic_add_source:
  assumes "acyclic (E \<inter> B \<times> B)" "x \<notin> B"
    and "\<And>y. (x, y) \<in> E \<Longrightarrow> y \<in> B" "\<And>b y. b \<in> B \<Longrightarrow> (b, y) \<in> E \<Longrightarrow> y \<in> B"
  shows "acyclic (E \<inter> insert x B \<times> insert x B)"
proof -
  let ?F = "E \<inter> insert x B \<times> insert x B"
  have sub: "(a, b) \<in> E \<inter> B \<times> B" if "(a, b) \<in> ?F" "a \<in> B" for a b
    using that assms(4) by auto
  have stay: "b \<in> B \<and> (a, b) \<in> (E \<inter> B \<times> B)\<^sup>+" if "(a, b) \<in> ?F\<^sup>+" "a \<in> B" for a b
    using that
  proof (induction rule: trancl_induct)
    case (base y)
    then show ?case using sub by blast
  next
    case (step y z)
    then have "(y, z) \<in> E \<inter> B \<times> B" using sub by blast
    with step show ?case by (auto intro: trancl_into_trancl)
  qed
  have leave: "b \<in> B" if "(x, b) \<in> ?F\<^sup>+" for b
    using that by (induction rule: trancl_induct) (use assms(2,3) stay in auto)
  show ?thesis
  proof (rule acyclicI, rule allI, rule notI)
    fix a
    assume a: "(a, a) \<in> ?F\<^sup>+"
    then have "a \<in> insert x B" by (auto dest: tranclD)
    with a leave assms(2) have "a \<in> B" by auto
    with stay [OF a] assms(1) show False by (auto simp: acyclic_def)
  qed
qed

text \<open>In a finite acyclic graph a nonempty set of nodes has a member without
  predecessors in the set.\<close>

lemma acyclic_minimal:
  assumes "finite E" "acyclic E" "x \<in> A"
  shows "\<exists>y\<in>A. \<forall>z. (z, y) \<in> E \<longrightarrow> z \<notin> A"
  using finite_acyclic_wf [OF assms(1,2)] assms(3) wfE_min by metis

lemma trancl_mono_in: "(x, y) \<in> E\<^sup>+ \<Longrightarrow> (\<And>a b. (a, b) \<in> E \<Longrightarrow> a \<in> A \<Longrightarrow> b \<in> A) \<Longrightarrow>
    x \<in> A \<Longrightarrow> y \<in> A"
  by (induction rule: trancl_induct) blast+

lemma find_append:
  "List.find P (xs @ ys) = (case List.find P xs of None \<Rightarrow> List.find P ys | Some x \<Rightarrow> Some x)"
  by (induction xs) auto

end
