(* ===== verification/Py_Strings.thy ===== *)
theory Py_Strings
  imports Prelude
begin

text \<open>
  The string methods of Python that the modelled code calls, on strings of ASCII
  characters: \<open>strip\<close>, \<open>upper\<close>, \<open>lower\<close>, \<open>replace\<close> of one character, \<open>split\<close> at a
  separator character, \<open>startswith\<close> and the \<open>in\<close> test for one character.
\<close>

section \<open>Characters\<close>

abbreviation ord_of :: "char \<Rightarrow> nat" where
  "ord_of c \<equiv> of_char c"

text \<open>\<open>str.isspace\<close> on ASCII: tab to carriage return, the four separators, space.\<close>

definition is_space :: "char \<Rightarrow> bool" where
  "is_space c \<longleftrightarrow> ord_of c = 32 \<or> (9 \<le> ord_of c \<and> ord_of c \<le> 13)
     \<or> (28 \<le> ord_of c \<and> ord_of c \<le> 31)"

definition upper_char :: "char \<Rightarrow> char" where
  "upper_char c = (if 97 \<le> ord_of c \<and> ord_of c \<le> 122 then char_of (ord_of c - 32) else c)"

definition lower_char :: "char \<Rightarrow> char" where
  "lower_char c = (if 65 \<le> ord_of c \<and> ord_of c \<le> 90 then char_of (ord_of c + 32) else c)"

lemma ord_of_char_of: "n < 256 \<Longrightarrow> ord_of (char_of (n :: nat)) = n"
  by simp

lemma ord_upper_char:
  "ord_of (upper_char c) = (if 97 \<le> ord_of c \<and> ord_of c \<le> 122 then ord_of c - 32 else ord_of c)"
  by (auto simp: upper_char_def)

lemma upper_char_idem [simp]: "upper_char (upper_char c) = upper_char c"
  by (auto simp: upper_char_def [of "upper_char c"] ord_upper_char)

lemma ord_lower_char:
  "ord_of (lower_char c) = (if 65 \<le> ord_of c \<and> ord_of c \<le> 90 then ord_of c + 32 else ord_of c)"
  by (auto simp: lower_char_def)

lemma lower_char_idem [simp]: "lower_char (lower_char c) = lower_char c"
  by (auto simp: lower_char_def [of "lower_char c"] ord_lower_char)

lemma is_space_upper [simp]: "is_space (upper_char c) = is_space c"
  by (auto simp: is_space_def ord_upper_char)

lemma is_space_lower [simp]: "is_space (lower_char c) = is_space c"
  by (auto simp: is_space_def ord_lower_char)

section \<open>Strings\<close>

definition lstrip :: "string \<Rightarrow> string" where
  "lstrip s = dropWhile is_space s"

definition strip :: "string \<Rightarrow> string" where
  "strip s = rev (lstrip (rev (lstrip s)))"

definition upper :: "string \<Rightarrow> string" where
  "upper s = map upper_char s"

definition lower :: "string \<Rightarrow> string" where
  "lower s = map lower_char s"

text \<open>\<open>s.replace(a, b)\<close> for one-character \<open>a\<close> and \<open>b\<close>.\<close>

definition replace_char :: "char \<Rightarrow> char \<Rightarrow> string \<Rightarrow> string" where
  "replace_char a b s = map (\<lambda>c. if c = a then b else c) s"

definition startswith :: "string \<Rightarrow> string \<Rightarrow> bool" where
  "startswith s p \<longleftrightarrow> take (length p) s = p"

text \<open>\<open>p in s\<close>.\<close>

fun contains :: "string \<Rightarrow> string \<Rightarrow> bool" where
  "contains [] p = (p = [])"
| "contains (c # cs) p = (startswith (c # cs) p \<or> contains cs p)"

text \<open>\<open>sep.join(parts)\<close>.\<close>

fun join :: "string \<Rightarrow> string list \<Rightarrow> string" where
  "join sep [] = []"
| "join sep [p] = p"
| "join sep (p # q # ps) = p @ sep @ join sep (q # ps)"

text \<open>\<open>s.split(sep)\<close> for a one-character separator: always at least one part.\<close>

fun split_on :: "char \<Rightarrow> string \<Rightarrow> string list" where
  "split_on sep [] = [[]]"
| "split_on sep (c # cs) =
     (if c = sep then [] # split_on sep cs
      else case split_on sep cs of
             [] \<Rightarrow> [[c]]
           | p # ps \<Rightarrow> (c # p) # ps)"

text \<open>\<open>s.split(sep, 1)[0]\<close>: everything before the first separator.\<close>

definition before_char :: "char \<Rightarrow> string \<Rightarrow> string" where
  "before_char sep s = takeWhile (\<lambda>c. c \<noteq> sep) s"

text \<open>\<open>str(n)\<close> of a nonnegative integer.\<close>

fun show_nat :: "nat \<Rightarrow> string" where
  "show_nat n = (if n < 10 then [char_of (48 + n)] else show_nat (n div 10) @ [char_of (48 + n mod 10)])"

declare show_nat.simps [simp del]

definition show_int :: "int \<Rightarrow> string" where
  "show_int i = (if i < 0 then CHR ''-'' # show_nat (nat (- i)) else show_nat (nat i))"

lemma before_char_id: "sep \<notin> set s \<Longrightarrow> before_char sep s = s"
  by (auto simp: before_char_def takeWhile_eq_all_conv)

lemma upper_idem [simp]: "upper (upper s) = upper s"
  by (simp add: upper_def)

lemma lower_idem [simp]: "lower (lower s) = lower s"
  by (simp add: lower_def)

lemma replace_char_idem [simp]: "a \<noteq> b \<Longrightarrow> replace_char a b (replace_char a b s) = replace_char a b s"
  by (auto simp: replace_char_def)

lemma replace_char_absent: "a \<notin> set s \<Longrightarrow> replace_char a b s = s"
  by (induction s) (auto simp: replace_char_def)

lemma split_on_nonempty [simp]: "split_on sep s \<noteq> []"
  by (induction s) (auto split: list.splits)

lemma split_on_join: "concat (map (\<lambda>p. p @ [sep]) (split_on sep s)) = s @ [sep]"
  by (induction s) (auto split: list.splits)

lemma split_on_no_sep: "p \<in> set (split_on sep s) \<Longrightarrow> sep \<notin> set p"
  by (induction s arbitrary: p) (auto split: list.splits if_splits)

lemma hd_split_on: "hd (split_on sep s) = before_char sep s"
  by (induction s) (auto simp: before_char_def split: list.splits)

lemma lstrip_no_leading: "lstrip s = c # cs \<Longrightarrow> \<not> is_space c"
  by (induction s) (auto simp: lstrip_def split: if_splits)

lemma lstrip_id: "s = [] \<or> \<not> is_space (hd s) \<Longrightarrow> lstrip s = s"
  by (cases s) (auto simp: lstrip_def)

lemma strip_id:
  "s = [] \<or> (\<not> is_space (hd s) \<and> \<not> is_space (last s)) \<Longrightarrow> strip s = s"
  by (auto simp: strip_def lstrip_id hd_rev)

lemma dropWhile_suffix: "\<exists>p. s = p @ dropWhile P s"
  by (metis takeWhile_dropWhile_id)

lemma strip_ends: "strip s = [] \<or> (\<not> is_space (hd (strip s)) \<and> \<not> is_space (last (strip s)))"
proof -
  define l where "l = lstrip s"
  define r where "r = lstrip (rev l)"
  have st: "strip s = rev r" by (simp add: strip_def l_def r_def)
  show ?thesis
  proof (cases r)
    case Nil
    then show ?thesis by (simp add: st)
  next
    case (Cons c cs)
    then have c: "\<not> is_space c" using lstrip_no_leading [of "rev l"] r_def by simp
    obtain p where "rev l = p @ r" using dropWhile_suffix unfolding r_def lstrip_def by blast
    then have l: "l = rev r @ rev p" by (metis rev_append rev_rev_ident)
    with Cons have "hd l = last r" by (simp add: hd_append hd_rev)
    moreover have "l \<noteq> []" using l Cons by simp
    then have "\<not> is_space (hd l)"
      using lstrip_no_leading [of s "hd l" "tl l"] l_def by simp
    moreover have "hd (rev r) = last r" "last (rev r) = hd r"
      by (simp_all add: hd_rev last_rev)
    ultimately show ?thesis using c Cons st \<open>hd l = last r\<close> by simp
  qed
qed

lemma strip_idem [simp]: "strip (strip s) = strip s"
  using strip_ends by (intro strip_id) blast

end
