(* ===== verification/Exec_Context.thy ===== *)
theory Exec_Context
  imports Py_Strings "HOL-Library.Char_ord" "HOL-Library.List_Lexorder"
begin

text \<open>
  The execution context of \<open>engine/context.py\<close>: scoped variables with masking, step
  tracking, event handlers, checkpoints, and the service container.

  A context is the chain of frames from itself to the root: the own frame first, then its
  \<open>_parent\<close>, and so on. A frame holds the fields of one \<open>ExecutionContext\<close> object. Every
  write goes to the first frame; a parent that changes after the child was made is a
  different tail under the same child frame, so a child always reads the current parent.
  \<open>jmespath.search\<close> is a parameter: \<^const>\<open>None\<close> when it raises \<open>JMESPathError\<close>. A handler
  is an identity together with what its call does; the fields it receives are recorded.
  Locks guard code that does not await in between, so each operation is one step.
\<close>

section \<open>Service container\<close>

record service_container =
  singletons :: pydict
  factories :: "(name \<times> (unit \<Rightarrow> pyval)) list"

datatype service_error = ServiceNotRegistered name

definition register_singleton :: "name \<Rightarrow> pyval \<Rightarrow> service_container \<Rightarrow> service_container" where
  "register_singleton t x c = c\<lparr>singletons := AList.update t x (singletons c)\<rparr>"

definition register_factory ::
  "name \<Rightarrow> (unit \<Rightarrow> pyval) \<Rightarrow> service_container \<Rightarrow> service_container" where
  "register_factory t f c = c\<lparr>factories := AList.update t f (factories c)\<rparr>"

definition resolve :: "service_container \<Rightarrow> name \<Rightarrow> pyval" where
  "resolve c t =
     (case map_of (singletons c) t of
        Some x \<Rightarrow> x
      | None \<Rightarrow> (case map_of (factories c) t of Some f \<Rightarrow> f () | None \<Rightarrow> PNone))"

definition resolve_required :: "service_container \<Rightarrow> name \<Rightarrow> service_error + pyval" where
  "resolve_required c t =
     (let x = resolve c t in if x = PNone then Inl (ServiceNotRegistered t) else Inr x)"

section \<open>Frames\<close>

record frame =
  fr_workflow_id :: string
  fr_run_id :: string
  variables :: pydict
  masked :: "string set"
  event_handlers :: "(string \<times> nat list) list"
  services :: service_container
  fr_start_time :: instant
  fr_metadata :: pydict
  current_step :: "name option"
  completed_steps :: "name list"
  failed_steps :: "name list"
  checkpoint_dir :: "string option"

type_synonym exec_context = "frame list"
type_synonym jmespath = "string \<Rightarrow> pydict \<Rightarrow> pyval option"

datatype ctx_error =
    EmptyKey
  | PathKey
  | ProtectedKey name
  | EmptyForkName
  | NoCheckpointDirectory
  | CheckpointNotFound string
  | JSONDecodeError
  | CheckpointNotObject
  | CheckpointVariablesNotMapping
  | CheckpointIdentityType string
  | CheckpointIdentityMismatch string
  | CheckpointStepsNotList
  | CheckpointStepsEntry
  | FingerprintsNotMapping

definition protected_variable_keys :: "string set" where
  "protected_variable_keys =
     {''workflow_id'', ''run_id'', ''current_step'', ''completed_steps'', ''failed_steps'',
      ''metadata'', ''services'', ''start_time'', ''checkpoint_dir''}"

definition is_path_expression :: "string \<Rightarrow> bool" where
  "is_path_expression key \<longleftrightarrow> CHR ''.'' \<in> set key \<or> CHR ''['' \<in> set key"

definition mask_root :: "string \<Rightarrow> string" where
  "mask_root key = before_char (CHR ''['') (before_char (CHR ''.'') key)"

definition validate_variable_key :: "bool \<Rightarrow> string \<Rightarrow> ctx_error + unit" where
  "validate_variable_key allow_protected key =
     (if strip key = [] then Inl EmptyKey
      else if CHR ''.'' \<in> set key \<or> CHR ''['' \<in> set key \<or> CHR '']'' \<in> set key then Inl PathKey
      else if \<not> allow_protected \<and> key \<in> protected_variable_keys then Inl (ProtectedKey key)
      else Inr ())"

text \<open>Write to the context's own frame.\<close>

definition on_frame :: "(frame \<Rightarrow> frame) \<Rightarrow> exec_context \<Rightarrow> exec_context" where
  "on_frame f ctx = f (hd ctx) # tl ctx"

section \<open>Scopes\<close>

definition child :: "name option \<Rightarrow> exec_context \<Rightarrow> exec_context" where
  "child step_name ctx =
     \<lparr>fr_workflow_id = fr_workflow_id (hd ctx), fr_run_id = fr_run_id (hd ctx),
      variables = [], masked = {}, event_handlers = [], services = services (hd ctx),
      fr_start_time = fr_start_time (hd ctx), fr_metadata = fr_metadata (hd ctx),
      current_step = (case step_name of None \<Rightarrow> None | Some n \<Rightarrow> if n = [] then None else Some n),
      completed_steps = [], failed_steps = [], checkpoint_dir = checkpoint_dir (hd ctx)\<rparr> # ctx"

definition fork_session :: "string \<Rightarrow> string \<Rightarrow> exec_context \<Rightarrow> ctx_error + exec_context" where
  "fork_session uuid name ctx =
     (if strip name = [] then Inl EmptyForkName
      else Inr (on_frame
        (\<lambda>f. f\<lparr>fr_run_id := uuid,
               fr_metadata := AList.update ''forked_from_run'' (PStr (fr_run_id (hd ctx)))
                 (AList.update ''fork_name'' (PStr name) (fr_metadata (hd ctx)))\<rparr>)
        (child (current_step (hd ctx)) ctx)))"

section \<open>Variables\<close>

text \<open>What a frame itself holds for a key or a path.\<close>

definition local_hit :: "jmespath \<Rightarrow> string \<Rightarrow> frame \<Rightarrow> pyval option" where
  "local_hit search key f =
     (if is_path_expression key
      then (case search key (variables f) of
              Some r \<Rightarrow> if r = PNone then None else Some r
            | None \<Rightarrow> None)
      else map_of (variables f) key)"

text \<open>
  \<open>get\<close> takes the lock of one frame at a time; the list is what it finds in each frame at
  the moment it holds that frame's lock.
\<close>

fun get_async :: "jmespath \<Rightarrow> string \<Rightarrow> pyval \<Rightarrow> exec_context \<Rightarrow> pyval" where
  "get_async search key dflt [] = dflt"
| "get_async search key dflt (f # parents) =
     (let hit = local_hit search key f;
          is_masked = (mask_root key \<in> masked f)
      in case hit of
           Some v \<Rightarrow> v
         | None \<Rightarrow>
             if is_masked then dflt
             else if parents \<noteq> [] then get_async search key dflt parents
             else dflt)"

fun get_sync :: "jmespath \<Rightarrow> string \<Rightarrow> pyval \<Rightarrow> exec_context \<Rightarrow> pyval" where
  "get_sync search key dflt [] = dflt"
| "get_sync search key dflt (f # parents) =
     (if is_path_expression key \<and>
         (case search key (variables f) of None \<Rightarrow> False | Some r \<Rightarrow> r \<noteq> PNone)
      then the (search key (variables f))
      else if \<not> is_path_expression key \<and> map_of (variables f) key \<noteq> None
      then the (map_of (variables f) key)
      else if mask_root key \<in> masked f then dflt
      else get_sync search key dflt parents)"

fun has_var :: "string \<Rightarrow> exec_context \<Rightarrow> bool" where
  "has_var key [] = False"
| "has_var key (f # parents) =
     (if map_of (variables f) key \<noteq> None then True
      else if key \<in> masked f then False
      else has_var key parents)"

fun all_variables :: "exec_context \<Rightarrow> pydict" where
  "all_variables [] = []"
| "all_variables (f # parents) =
     (if parents \<noteq> []
      then dict_update (filter (\<lambda>kv. fst kv \<notin> masked f) (all_variables parents)) (variables f)
      else variables f)"

section \<open>Events\<close>

datatype handler_fate = HandlerReturns | HandlerRaises | HandlerCancelled

record event =
  ev_type :: string
  ev_data :: pydict

text \<open>
  The handlers of a chain are called frame by frame, in registration order; an exception
  is logged, a cancellation ends the emission and propagates (the flag).
\<close>

type_synonym emission = "(nat \<times> event) list \<times> bool"

fun call_handlers :: "(nat \<Rightarrow> handler_fate) \<Rightarrow> event \<Rightarrow> nat list \<Rightarrow> emission" where
  "call_handlers fate e [] = ([], False)"
| "call_handlers fate e (h # hs) =
     (if fate h = HandlerCancelled then ([(h, e)], True)
      else case call_handlers fate e hs of (calls, c) \<Rightarrow> ((h, e) # calls, c))"

fun emit :: "(nat \<Rightarrow> handler_fate) \<Rightarrow> event \<Rightarrow> exec_context \<Rightarrow> emission" where
  "emit fate e [] = ([], False)"
| "emit fate e (f # parents) =
     (case call_handlers fate e (case map_of (event_handlers f) (ev_type e) of
                                   None \<Rightarrow> [] | Some hs \<Rightarrow> hs) of
        (calls, True) \<Rightarrow> (calls, True)
      | (calls, False) \<Rightarrow>
          (case emit fate e parents of (calls', c) \<Rightarrow> (calls @ calls', c)))"

definition on_event :: "string \<Rightarrow> nat \<Rightarrow> exec_context \<Rightarrow> exec_context" where
  "on_event t h = on_frame (\<lambda>f. f\<lparr>event_handlers :=
     AList.update t ((case map_of (event_handlers f) t of None \<Rightarrow> [] | Some hs \<Rightarrow> hs) @ [h])
       (event_handlers f)\<rparr>)"

definition off_event :: "string \<Rightarrow> nat \<Rightarrow> exec_context \<Rightarrow> exec_context \<times> bool" where
  "off_event t h ctx =
     (case map_of (event_handlers (hd ctx)) t of
        Some hs \<Rightarrow>
          (if h \<in> set hs
           then (on_frame (\<lambda>f. f\<lparr>event_handlers :=
                   AList.update t (remove1 h hs) (event_handlers f)\<rparr>) ctx, True)
           else (ctx, False))
      | None \<Rightarrow> (ctx, False))"

section \<open>Writes\<close>

definition get_or_none :: "string \<Rightarrow> pydict \<Rightarrow> pyval" where
  "get_or_none k d = (case map_of d k of None \<Rightarrow> PNone | Some v \<Rightarrow> v)"

definition set_sync :: "string \<Rightarrow> pyval \<Rightarrow> exec_context \<Rightarrow> ctx_error + exec_context" where
  "set_sync key v ctx =
     rbind (validate_variable_key False key) (\<lambda>_.
       Inr (on_frame (\<lambda>f. f\<lparr>variables := AList.update key v (variables f),
                           masked := masked f - {key}\<rparr>) ctx))"

definition variable_set_event :: "string \<Rightarrow> pyval \<Rightarrow> exec_context \<Rightarrow> event" where
  "variable_set_event key v ctx =
     \<lparr>ev_type = ''variable_set'',
      ev_data = [(''key'', PStr key),
                 (''old_value'', get_or_none key (variables (hd ctx))), (''new_value'', v)]\<rparr>"

definition set_async ::
  "(nat \<Rightarrow> handler_fate) \<Rightarrow> string \<Rightarrow> pyval \<Rightarrow> exec_context \<Rightarrow>
    ctx_error + (exec_context \<times> emission)" where
  "set_async fate key v ctx =
     rbind (validate_variable_key False key) (\<lambda>_.
       let ctx' = on_frame (\<lambda>f. f\<lparr>variables := AList.update key v (variables f),
                                 masked := masked f - {key}\<rparr>) ctx
       in Inr (ctx', emit fate (variable_set_event key v ctx) ctx'))"

definition set_internal_sync :: "string \<Rightarrow> pyval \<Rightarrow> exec_context \<Rightarrow> ctx_error + exec_context" where
  "set_internal_sync key v ctx =
     rbind (validate_variable_key True key) (\<lambda>_.
       Inr (on_frame (\<lambda>f. f\<lparr>variables := AList.update key v (variables f)\<rparr>) ctx))"

definition set_internal ::
  "(nat \<Rightarrow> handler_fate) \<Rightarrow> string \<Rightarrow> pyval \<Rightarrow> exec_context \<Rightarrow>
    ctx_error + (exec_context \<times> emission)" where
  "set_internal fate key v ctx =
     rbind (validate_variable_key True key) (\<lambda>_.
       let ctx' = on_frame (\<lambda>f. f\<lparr>variables := AList.update key v (variables f)\<rparr>) ctx
       in Inr (ctx', emit fate (variable_set_event key v ctx) ctx'))"

definition update_vars :: "pydict \<Rightarrow> exec_context \<Rightarrow> ctx_error + exec_context" where
  "update_vars kwargs ctx =
     rbind (rfold (\<lambda>kv _. validate_variable_key False (fst kv)) kwargs ()) (\<lambda>_.
       Inr (on_frame (\<lambda>f. f\<lparr>variables := dict_update (variables f) kwargs\<rparr>) ctx))"

definition delete_var :: "string \<Rightarrow> exec_context \<Rightarrow> exec_context \<times> bool" where
  "delete_var key ctx =
     (if map_of (variables (hd ctx)) key \<noteq> None
      then (on_frame (\<lambda>f. f\<lparr>variables := AList.delete key (variables f)\<rparr>) ctx, True)
      else (ctx, False))"

definition mask_inherited :: "string \<Rightarrow> exec_context \<Rightarrow> exec_context" where
  "mask_inherited key =
     on_frame (\<lambda>f. f\<lparr>variables := AList.delete key (variables f),
                    masked := insert key (masked f)\<rparr>)"

text \<open>\<open>get_sync("steps")\<close> has no path in its key, so \<open>jmespath\<close> is not consulted.\<close>

definition merge_step_view :: "jmespath \<Rightarrow> name \<Rightarrow> pyval \<Rightarrow> exec_context \<Rightarrow> exec_context" where
  "merge_step_view search step_name step_view ctx =
     (let inherited = get_sync search ''steps'' PNone ctx;
          existing = get_or_none ''steps'' (variables (hd ctx));
          base = (case existing of PDict d \<Rightarrow> existing | _ \<Rightarrow> inherited);
          steps_state = (case base of PDict d \<Rightarrow> d | _ \<Rightarrow> [])
      in on_frame (\<lambda>f. f\<lparr>variables :=
           AList.update ''steps'' (PDict (AList.update step_name step_view steps_state))
             (variables f)\<rparr>) ctx)"

section \<open>Interpolation\<close>

text \<open>
  \<open>re.sub(r"\$\{([^}]+)\}", ...)\<close>: at \<open>${\<close> the group takes everything up to the next \<open>}\<close>,
  which must exist and leave the group nonempty; any other character is copied.
  \<open>str(value)\<close> is a parameter.
\<close>

fun span_to_brace :: "string \<Rightarrow> (string \<times> string) option" where
  "span_to_brace [] = None"
| "span_to_brace (c # cs) =
     (if c = CHR ''}'' then Some ([], cs)
      else case span_to_brace cs of
             None \<Rightarrow> None
           | Some (g, rest) \<Rightarrow> Some (c # g, rest))"

lemma span_to_brace_length:
  "span_to_brace cs = Some (g, rest) \<Longrightarrow> length rest < length cs"
  by (induction cs arbitrary: g rest) (auto split: if_splits option.splits prod.splits simp: less_Suc_eq)

lemma span_to_brace_split:
  "span_to_brace cs = Some (g, rest) \<Longrightarrow> cs = g @ CHR ''}'' # rest \<and> CHR ''}'' \<notin> set g"
  by (induction cs arbitrary: g rest) (auto split: if_splits option.splits prod.splits)

function interpolate ::
  "jmespath \<Rightarrow> (pyval \<Rightarrow> string) \<Rightarrow> exec_context \<Rightarrow> string \<Rightarrow> string" where
  "interpolate search py_str ctx template =
     (case template of
        [] \<Rightarrow> []
      | c # cs \<Rightarrow>
          (case (if c = CHR ''$'' \<and> cs \<noteq> [] \<and> hd cs = CHR ''{'' then span_to_brace (tl cs)
                 else None) of
             Some (var_path, rest) \<Rightarrow>
               (if var_path = [] then c # interpolate search py_str ctx cs
                else py_str (get_sync search var_path (PStr (''${'' @ var_path @ ''}'')) ctx)
                       @ interpolate search py_str ctx rest)
           | None \<Rightarrow> c # interpolate search py_str ctx cs))"
  by pat_completeness auto
termination
  by (relation "measure (\<lambda>(_, _, _, t). length t)")
     (auto dest!: span_to_brace_length split: if_splits)

declare interpolate.simps [simp del]

section \<open>Step tracking\<close>

definition mark_step_start ::
  "(nat \<Rightarrow> handler_fate) \<Rightarrow> name \<Rightarrow> exec_context \<Rightarrow> exec_context \<times> emission" where
  "mark_step_start fate n ctx =
     (let ctx' = on_frame (\<lambda>f. f\<lparr>current_step := Some n\<rparr>) ctx
      in (ctx', emit fate \<lparr>ev_type = ''step_start'', ev_data = [(''step'', PStr n)]\<rparr> ctx'))"

definition mark_step_complete ::
  "(nat \<Rightarrow> handler_fate) \<Rightarrow> name \<Rightarrow> exec_context \<Rightarrow> exec_context \<times> emission" where
  "mark_step_complete fate n ctx =
     (let ctx' = on_frame (\<lambda>f. f\<lparr>completed_steps :=
                   (if n \<in> set (completed_steps f) then completed_steps f
                    else completed_steps f @ [n]),
                   current_step := None\<rparr>) ctx
      in (ctx', emit fate \<lparr>ev_type = ''step_end'',
                          ev_data = [(''step'', PStr n), (''success'', PBool True)]\<rparr> ctx'))"

definition mark_step_failed ::
  "(nat \<Rightarrow> handler_fate) \<Rightarrow> name \<Rightarrow> string \<Rightarrow> exec_context \<Rightarrow> exec_context \<times> emission" where
  "mark_step_failed fate n err ctx =
     (let ctx' = on_frame (\<lambda>f. f\<lparr>failed_steps :=
                   (if n \<in> set (failed_steps f) then failed_steps f else failed_steps f @ [n]),
                   current_step := None\<rparr>) ctx
      in (ctx', emit fate \<lparr>ev_type = ''step_error'',
                          ev_data = [(''step'', PStr n), (''error'', PStr err)]\<rparr> ctx'))"

definition is_step_complete :: "name \<Rightarrow> exec_context \<Rightarrow> bool" where
  "is_step_complete n ctx \<longleftrightarrow> n \<in> set (completed_steps (hd ctx))"

definition is_step_failed :: "name \<Rightarrow> exec_context \<Rightarrow> bool" where
  "is_step_failed n ctx \<longleftrightarrow> n \<in> set (failed_steps (hd ctx))"

section \<open>Checkpoints\<close>

text \<open>
  \<open>_serialize_variables\<close>, and what \<open>json.loads(json.dumps(x, default=str))\<close> makes of a
  value: tuples become lists, and a value JSON has no form for becomes its \<open>str\<close>.
\<close>

fun serialize :: "pyval \<Rightarrow> pyval" where
  "serialize (PList xs) = PList (map serialize xs)"
| "serialize (PTuple xs) = PList (map serialize xs)"
| "serialize (PDict d) = PDict (map (\<lambda>kv. (fst kv, serialize (snd kv))) d)"
| "serialize (PDatetime t) = PDict [(''__type__'', PStr ''datetime''), (''value'', PStr t)]"
| "serialize (PPath p) = PDict [(''__type__'', PStr ''path''), (''value'', PStr p)]"
| "serialize (PObject s) = PStr s"
| "serialize v = v"

fun json_value :: "pyval \<Rightarrow> pyval" where
  "json_value (PList xs) = PList (map json_value xs)"
| "json_value (PTuple xs) = PList (map json_value xs)"
| "json_value (PDict d) = PDict (map (\<lambda>kv. (fst kv, json_value (snd kv))) d)"
| "json_value (PDatetime t) = PStr t"
| "json_value (PPath p) = PStr p"
| "json_value (PObject s) = PStr s"
| "json_value v = v"

definition serialize_variables :: "frame \<Rightarrow> pydict" where
  "serialize_variables f = map (\<lambda>kv. (fst kv, serialize (snd kv))) (variables f)"

text \<open>
  The file system: \<open>json.loads\<close> of each file, \<^const>\<open>None\<close> for a file that is not JSON.
  \<open>sha256\<close> of a file's bytes is a parameter, \<^const>\<open>None\<close> when it cannot be read.
\<close>

type_synonym files = "(string \<times> pyval option) list"
type_synonym digest = "string \<Rightarrow> string option"

definition fingerprint_files :: "digest \<Rightarrow> string list \<Rightarrow> pydict" where
  "fingerprint_files sha paths =
     fold (\<lambda>p. AList.update p (PStr (case sha p of None \<Rightarrow> ''__missing__'' | Some h \<Rightarrow> h))) paths []"

definition checkpoint_data :: "digest \<Rightarrow> string list \<Rightarrow> string \<Rightarrow> frame \<Rightarrow> pyval" where
  "checkpoint_data sha tracked now f = PDict
     [(''workflow_id'', PStr (fr_workflow_id f)), (''run_id'', PStr (fr_run_id f)),
      (''variables'', PDict (serialize_variables f)),
      (''completed_steps'', PList (map PStr (completed_steps f))),
      (''failed_steps'', PList (map PStr (failed_steps f))),
      (''metadata'', PDict (fr_metadata f)),
      (''file_fingerprints'', PDict (fingerprint_files sha tracked)),
      (''timestamp'', PStr now)]"

text \<open>\<open>stamp\<close> is the formatted time of the default name, \<open>now\<close> the ISO time saved.\<close>

definition checkpoint_file :: "string option \<Rightarrow> string \<Rightarrow> string \<Rightarrow> string" where
  "checkpoint_file name stamp dir =
     dir @ ''/'' @ (case name of None \<Rightarrow> ''checkpoint_'' @ stamp
                  | Some n \<Rightarrow> if n = [] then ''checkpoint_'' @ stamp else n) @ ''.json''"

definition save_checkpoint ::
  "digest \<Rightarrow> (nat \<Rightarrow> handler_fate) \<Rightarrow> string option \<Rightarrow> string list \<Rightarrow> string \<Rightarrow> string \<Rightarrow>
    exec_context \<Rightarrow> files \<Rightarrow> ctx_error + (string \<times> files \<times> emission)" where
  "save_checkpoint sha fate name tracked stamp now ctx fs =
     (case checkpoint_dir (hd ctx) of
        None \<Rightarrow> Inl NoCheckpointDirectory
      | Some dir \<Rightarrow>
          let path = checkpoint_file name stamp dir
          in Inr (path,
                  AList.update path (Some (json_value (checkpoint_data sha tracked now (hd ctx)))) fs,
                  emit fate \<lparr>ev_type = ''checkpoint_save'', ev_data = [(''path'', PStr path)]\<rparr> ctx))"

definition is_running_context :: "frame \<Rightarrow> bool" where
  "is_running_context f \<longleftrightarrow>
     completed_steps f \<noteq> [] \<or> failed_steps f \<noteq> [] \<or>
     (case current_step f of None \<Rightarrow> False | Some n \<Rightarrow> n \<noteq> [])"

definition validate_checkpoint_identity ::
  "string \<Rightarrow> pyval \<Rightarrow> string \<Rightarrow> frame \<Rightarrow> ctx_error + string" where
  "validate_checkpoint_identity field_name candidate current f =
     (case candidate of
        PNone \<Rightarrow> Inr current
      | PStr s \<Rightarrow>
          (if is_running_context f \<and> s \<noteq> current
           then Inl (CheckpointIdentityMismatch field_name) else Inr s)
      | _ \<Rightarrow> Inl (CheckpointIdentityType field_name))"

fun str_list :: "pyval list \<Rightarrow> string list option" where
  "str_list [] = Some []"
| "str_list (PStr s # xs) = map_option ((#) s) (str_list xs)"
| "str_list (_ # xs) = None"

definition validate_checkpoint_completed_steps :: "pyval \<Rightarrow> ctx_error + string list" where
  "validate_checkpoint_completed_steps steps =
     (case steps of
        PList xs \<Rightarrow> (case str_list xs of None \<Rightarrow> Inl CheckpointStepsEntry | Some ns \<Rightarrow> Inr ns)
      | _ \<Rightarrow> Inl CheckpointStepsNotList)"

definition validate_checkpoint_variables :: "pyval \<Rightarrow> ctx_error + pydict" where
  "validate_checkpoint_variables v =
     (case v of
        PDict d \<Rightarrow> rbind (rfold (\<lambda>kv _. validate_variable_key False (fst kv)) d ()) (\<lambda>_. Inr d)
      | _ \<Rightarrow> Inl CheckpointVariablesNotMapping)"

definition get_default :: "string \<Rightarrow> pyval \<Rightarrow> pydict \<Rightarrow> pyval" where
  "get_default k v d = (case map_of d k of None \<Rightarrow> v | Some x \<Rightarrow> x)"

text \<open>
  The four fields that are validated before anything is assigned, and the whole
  operation. \<open>failed_steps\<close> and \<open>metadata\<close> are taken as they come:
  \<open>RestoredWith v\<close> is a context whose \<open>failed_steps\<close> is now the JSON value \<open>v\<close> that is no
  list of names (the frame keeps the old list; no later operation is modelled on it),
  \<open>CrashedInUpdate\<close> the state in which \<open>metadata.update\<close> of a number or \<open>null\<close> raises
  \<open>TypeError\<close>, and \<open>UpdateFromSequence\<close> the state before \<open>metadata.update\<close> of a nonempty
  list or string, whose effect is not modelled.
\<close>

record restored =
  rs_variables :: pydict
  rs_workflow_id :: string
  rs_run_id :: string
  rs_completed :: "name list"

definition validate_checkpoint :: "frame \<Rightarrow> pydict \<Rightarrow> ctx_error + restored" where
  "validate_checkpoint f data =
     rbind (validate_checkpoint_variables (get_default ''variables'' (PDict []) data)) (\<lambda>vs.
     rbind (validate_checkpoint_identity ''workflow_id'' (get_or_none ''workflow_id'' data)
              (fr_workflow_id f) f) (\<lambda>wid.
     rbind (validate_checkpoint_identity ''run_id'' (get_or_none ''run_id'' data)
              (fr_run_id f) f) (\<lambda>rid.
     rbind (validate_checkpoint_completed_steps (get_default ''completed_steps'' (PList []) data)) (\<lambda>cs.
       Inr \<lparr>rs_variables = vs, rs_workflow_id = wid, rs_run_id = rid, rs_completed = cs\<rparr>))))"

datatype restore_outcome =
    Rejected ctx_error
  | Restored exec_context emission
  | RestoredWith pyval exec_context emission
  | CrashedInUpdate exec_context
  | UpdateFromSequence exec_context

definition restore_checkpoint ::
  "(nat \<Rightarrow> handler_fate) \<Rightarrow> string \<Rightarrow> files \<Rightarrow> exec_context \<Rightarrow> restore_outcome" where
  "restore_checkpoint fate path fs ctx =
     (case map_of fs path of
        None \<Rightarrow> Rejected (CheckpointNotFound path)
      | Some None \<Rightarrow> Rejected JSONDecodeError
      | Some (Some (PDict data)) \<Rightarrow>
          (case validate_checkpoint (hd ctx) data of
             Inl e \<Rightarrow> Rejected e
           | Inr r \<Rightarrow>
               let failed = get_default ''failed_steps'' (PList []) data;
                   names = (case failed of PList xs \<Rightarrow> str_list xs | _ \<Rightarrow> None);
                   ctx1 = on_frame (\<lambda>f. f\<lparr>variables := rs_variables r,
                            fr_workflow_id := rs_workflow_id r, fr_run_id := rs_run_id r,
                            completed_steps := rs_completed r,
                            failed_steps := (case names of None \<Rightarrow> failed_steps f | Some ns \<Rightarrow> ns)\<rparr>) ctx;
                   finish = (\<lambda>ctx2.
                     let em = emit fate \<lparr>ev_type = ''checkpoint_restore'',
                                         ev_data = [(''path'', PStr path)]\<rparr> ctx2
                     in if names = None then RestoredWith failed ctx2 em else Restored ctx2 em)
               in (case get_default ''metadata'' (PDict []) data of
                     PDict m \<Rightarrow> finish (on_frame (\<lambda>f. f\<lparr>fr_metadata := dict_update (fr_metadata f) m\<rparr>) ctx1)
                   | PList [] \<Rightarrow> finish ctx1
                   | PStr [] \<Rightarrow> finish ctx1
                   | PList _ \<Rightarrow> UpdateFromSequence ctx1
                   | PStr _ \<Rightarrow> UpdateFromSequence ctx1
                   | _ \<Rightarrow> CrashedInUpdate ctx1))
      | Some (Some _) \<Rightarrow> Rejected CheckpointNotObject)"

text \<open>\<open>data.get(...) or {}\<close>: a missing, \<open>null\<close> or otherwise falsy value is the empty mapping.\<close>

definition py_truthy :: "pyval \<Rightarrow> bool" where
  "py_truthy v = (case v of
      PNone \<Rightarrow> False | PBool b \<Rightarrow> b | PInt i \<Rightarrow> i \<noteq> 0 | PFloat x \<Rightarrow> x \<noteq> 0 | PStr s \<Rightarrow> s \<noteq> []
    | PList xs \<Rightarrow> xs \<noteq> [] | PDict d \<Rightarrow> d \<noteq> [] | PTuple xs \<Rightarrow> xs \<noteq> [] | _ \<Rightarrow> True)"

definition detect_changed_files ::
  "digest \<Rightarrow> string \<Rightarrow> files \<Rightarrow> ctx_error + string list" where
  "detect_changed_files sha path fs =
     (case map_of fs path of
        None \<Rightarrow> Inl (CheckpointNotFound path)
      | Some None \<Rightarrow> Inl JSONDecodeError
      | Some (Some (PDict data)) \<Rightarrow>
          (let rec_val = get_default ''file_fingerprints'' (PDict []) data;
               recorded = (if py_truthy rec_val then rec_val else PDict [])
           in case recorded of
                PDict d \<Rightarrow>
                  (let current = fingerprint_files sha (map fst d)
                   in Inr (sort (map fst (filter (\<lambda>kv. map_of current (fst kv) \<noteq> Some (snd kv)) d))))
              | _ \<Rightarrow> Inl FingerprintsNotMapping)
      | Some (Some _) \<Rightarrow> Inl CheckpointNotObject)"

definition build_changed_files_notice :: "string list \<Rightarrow> string" where
  "build_changed_files_notice changed =
     (if changed = [] then []
      else ''[Resume notice] The following files changed on disk since this '' @
           ''session was checkpointed; re-read them before relying on prior '' @
           ''tool results:'' @ [CHR 0x0A] @
           concat (map (\<lambda>p. ''  - '' @ p @ [CHR 0x0A]) changed))"

section \<open>Well-formed contexts and their view\<close>

text \<open>A dict holds a key once.\<close>

definition ctx_wf :: "exec_context \<Rightarrow> bool" where
  "ctx_wf ctx \<longleftrightarrow> ctx \<noteq> [] \<and> (\<forall>f\<in>set ctx. distinct (map fst (variables f)))"

text \<open>What a context makes visible: the abstraction every read refers to.\<close>

definition view :: "exec_context \<Rightarrow> string \<Rightarrow> pyval option" where
  "view ctx = map_of (all_variables ctx)"

lemma distinct_filter_keys: "distinct (map fst d) \<Longrightarrow> distinct (map fst (filter P d))"
  by (induction d) auto

lemma distinct_all_variables:
  "(\<And>f. f \<in> set ctx \<Longrightarrow> distinct (map fst (variables f))) \<Longrightarrow>
     distinct (map fst (all_variables ctx))"
  by (induction ctx) (auto simp: distinct_filter_keys)

lemma view_Cons:
  assumes "distinct (map fst (variables f))"
  shows "view (f # ps) k =
    (case map_of (variables f) k of
       Some v \<Rightarrow> Some v
     | None \<Rightarrow> if k \<in> masked f then None else view ps k)"
proof (cases "ps = []")
  case True
  then show ?thesis by (simp add: view_def split: option.split)
next
  case False
  with assms show ?thesis
    by (auto simp: view_def map_of_dict_update map_of_filter_keys map_add_def split: option.split)
qed

lemma view_Nil [simp]: "view [] k = None"
  by (simp add: view_def)

lemma mask_root_plain: "\<not> is_path_expression key \<Longrightarrow> mask_root key = key"
  by (simp add: mask_root_def is_path_expression_def before_char_id)

lemma get_async_eq_get_sync: "get_async search key dflt ctx = get_sync search key dflt ctx"
proof (induction ctx)
  case (Cons f ps)
  then show ?case
    by (cases "ps = []") (auto simp: local_hit_def Let_def split: option.split)
qed simp

lemma get_sync_view:
  assumes "\<not> is_path_expression key" "\<forall>f\<in>set ctx. distinct (map fst (variables f))"
  shows "get_sync search key dflt ctx = (case view ctx key of None \<Rightarrow> dflt | Some v \<Rightarrow> v)"
  using assms(2)
proof (induction ctx)
  case (Cons f ps)
  then show ?case
    using assms(1) by (auto simp: view_Cons mask_root_plain split: option.splits)
qed simp

lemma has_var_view:
  "\<forall>f\<in>set ctx. distinct (map fst (variables f)) \<Longrightarrow> has_var key ctx \<longleftrightarrow> view ctx key \<noteq> None"
  by (induction ctx) (auto simp: view_Cons split: option.splits)

lemma ctx_wf_distinct: "ctx_wf ctx \<Longrightarrow> \<forall>f\<in>set ctx. distinct (map fst (variables f))"
  by (simp add: ctx_wf_def)

section \<open>The operations on the view\<close>

lemma ctx_wf_Cons: "ctx_wf ctx \<Longrightarrow> \<exists>f ps. ctx = f # ps \<and> distinct (map fst (variables f))"
  by (cases ctx) (auto simp: ctx_wf_def)

lemma view_on_frame:
  assumes "ctx_wf ctx" "distinct (map fst (variables (g (hd ctx))))"
  shows "view (on_frame g ctx) k =
    (case map_of (variables (g (hd ctx))) k of
       Some v \<Rightarrow> Some v
     | None \<Rightarrow> if k \<in> masked (g (hd ctx)) then None else view (tl ctx) k)"
  using assms by (simp add: on_frame_def view_Cons)

lemma view_eq:
  assumes "ctx_wf ctx"
  shows "view ctx k =
    (case map_of (variables (hd ctx)) k of
       Some v \<Rightarrow> Some v
     | None \<Rightarrow> if k \<in> masked (hd ctx) then None else view (tl ctx) k)"
proof -
  obtain f ps where "ctx = f # ps" "distinct (map fst (variables f))"
    using assms ctx_wf_Cons by blast
  then show ?thesis by (simp add: view_Cons split: option.split)
qed

lemma ctx_wf_on_frame:
  "ctx_wf ctx \<Longrightarrow> distinct (map fst (variables (g (hd ctx)))) \<Longrightarrow> ctx_wf (on_frame g ctx)"
  by (cases ctx) (auto simp: ctx_wf_def on_frame_def)

lemma ctx_wf_hd: "ctx_wf ctx \<Longrightarrow> distinct (map fst (variables (hd ctx)))"
  by (cases ctx) (auto simp: ctx_wf_def)

lemma distinct_delete_keys: "distinct (map fst d) \<Longrightarrow> distinct (map fst (AList.delete k d))"
  by (simp add: distinct_delete)

text \<open>Writing a variable updates the view at that key, hiding one removes it, and a
  child scope starts with its parent's view.\<close>

lemma view_write:
  assumes "ctx_wf ctx"
  shows "view (on_frame (\<lambda>f. f\<lparr>variables := AList.update key v (variables f),
                                masked := m f\<rparr>) ctx) =
    (\<lambda>k. if k = key then Some v
         else case map_of (variables (hd ctx)) k of
                Some w \<Rightarrow> Some w
              | None \<Rightarrow> if k \<in> m (hd ctx) then None else view (tl ctx) k)"
  using assms by (simp add: view_on_frame distinct_update ctx_wf_hd fun_eq_iff)

lemma set_sync_view:
  assumes "ctx_wf ctx" "set_sync key v ctx = Inr ctx'"
  shows "view ctx' = (view ctx)(key \<mapsto> v)" "ctx_wf ctx'"
proof -
  from assms(2) have eq: "ctx' = on_frame (\<lambda>f. f\<lparr>variables := AList.update key v (variables f),
                           masked := masked f - {key}\<rparr>) ctx"
    by (auto simp: set_sync_def result_simps)
  show "view ctx' = (view ctx)(key \<mapsto> v)"
    unfolding eq view_write [OF assms(1)]
    by (rule ext) (auto simp: view_eq [OF assms(1)] split: option.splits)
  show "ctx_wf ctx'"
    unfolding eq by (rule ctx_wf_on_frame [OF assms(1)]) (simp add: ctx_wf_hd [OF assms(1)] distinct_update)
qed

lemma set_async_sync:
  "set_async fate key v ctx = Inr (ctx', em) \<Longrightarrow> set_sync key v ctx = Inr ctx'"
  by (auto simp: set_async_def set_sync_def result_simps Let_def)

lemma set_internal_view:
  assumes "ctx_wf ctx" "set_internal_sync key v ctx = Inr ctx'"
  shows "view ctx' = (view ctx)(key \<mapsto> v)" "ctx_wf ctx'"
proof -
  from assms(2) have eq: "ctx' = on_frame (\<lambda>f. f\<lparr>variables := AList.update key v (variables f)\<rparr>) ctx"
    by (auto simp: set_internal_sync_def result_simps)
  show "view ctx' = (view ctx)(key \<mapsto> v)"
    unfolding eq
    by (rule ext) (auto simp: view_on_frame assms(1) ctx_wf_hd distinct_update
          view_eq [OF assms(1)] split: option.splits)
  show "ctx_wf ctx'"
    unfolding eq by (rule ctx_wf_on_frame [OF assms(1)]) (simp add: ctx_wf_hd [OF assms(1)] distinct_update)
qed

lemma mask_inherited_view:
  assumes "ctx_wf ctx"
  shows "view (mask_inherited key ctx) = (view ctx)(key := None)" "ctx_wf (mask_inherited key ctx)"
proof -
  show "view (mask_inherited key ctx) = (view ctx)(key := None)"
    unfolding mask_inherited_def
    by (rule ext) (auto simp: view_on_frame assms ctx_wf_hd distinct_delete_keys
          view_eq [OF assms] split: option.splits)
  show "ctx_wf (mask_inherited key ctx)"
    unfolding mask_inherited_def
    by (rule ctx_wf_on_frame [OF assms]) (simp add: ctx_wf_hd [OF assms] distinct_delete_keys)
qed

lemma child_view:
  assumes "ctx_wf ctx"
  shows "view (child n ctx) = view ctx" "ctx_wf (child n ctx)"
  using assms by (auto simp: child_def view_Cons ctx_wf_def fun_eq_iff)

lemma update_vars_view:
  assumes "ctx_wf ctx" "distinct (map fst kwargs)" "update_vars kwargs ctx = Inr ctx'"
  shows "view ctx' = view ctx ++ map_of kwargs" "ctx_wf ctx'"
proof -
  from assms(3) have eq: "ctx' = on_frame (\<lambda>f. f\<lparr>variables := dict_update (variables f) kwargs\<rparr>) ctx"
    by (auto simp: update_vars_def result_simps)
  show "view ctx' = view ctx ++ map_of kwargs"
    unfolding eq
    by (rule ext) (auto simp: view_on_frame assms ctx_wf_hd map_of_dict_update
          view_eq [OF assms(1)] map_add_def split: option.splits)
  show "ctx_wf ctx'"
    unfolding eq by (rule ctx_wf_on_frame [OF assms(1)]) (simp add: ctx_wf_hd [OF assms(1)])
qed

text \<open>The entries of the shared \<open>steps\<close> namespace that a context makes visible.\<close>

definition steps_view :: "exec_context \<Rightarrow> pydict" where
  "steps_view ctx = (case view ctx ''steps'' of Some (PDict d) \<Rightarrow> d | _ \<Rightarrow> [])"

lemma merge_step_view_base:
  assumes "ctx_wf ctx"
  shows "(case (case get_or_none ''steps'' (variables (hd ctx)) of
                  PDict d \<Rightarrow> get_or_none ''steps'' (variables (hd ctx))
                | _ \<Rightarrow> get_sync search ''steps'' PNone ctx) of PDict d \<Rightarrow> d | _ \<Rightarrow> []) =
     steps_view ctx"
proof -
  have plain: "\<not> is_path_expression ''steps''" by (simp add: is_path_expression_def)
  have "get_sync search ''steps'' PNone ctx =
      (case view ctx ''steps'' of None \<Rightarrow> PNone | Some v \<Rightarrow> v)"
    using get_sync_view [OF plain ctx_wf_distinct [OF assms]] .
  then show ?thesis
    by (auto simp: steps_view_def get_or_none_def view_eq [OF assms]
        split: option.splits pyval.splits)
qed

lemma merge_step_view_view:
  assumes "ctx_wf ctx"
  shows "view (merge_step_view search n v ctx) =
           (view ctx)(''steps'' \<mapsto> PDict (AList.update n v (steps_view ctx)))"
    and "ctx_wf (merge_step_view search n v ctx)"
proof -
  let ?g = "\<lambda>f. f\<lparr>variables := AList.update ''steps'' (PDict (AList.update n v (steps_view ctx)))
             (variables f)\<rparr>"
  have eq: "merge_step_view search n v ctx = on_frame ?g ctx"
    unfolding merge_step_view_def Let_def merge_step_view_base [OF assms] ..
  show "view (merge_step_view search n v ctx) =
      (view ctx)(''steps'' \<mapsto> PDict (AList.update n v (steps_view ctx)))"
    unfolding eq
    by (rule ext) (auto simp: view_on_frame assms ctx_wf_hd distinct_update
          view_eq [OF assms] split: option.splits)
  show "ctx_wf (merge_step_view search n v ctx)"
    unfolding eq by (rule ctx_wf_on_frame [OF assms]) (simp add: ctx_wf_hd [OF assms] distinct_update)
qed

lemma merge_step_view_steps:
  "ctx_wf ctx \<Longrightarrow> steps_view (merge_step_view search n v ctx) = AList.update n v (steps_view ctx)"
  by (simp add: steps_view_def [of "merge_step_view search n v ctx"] merge_step_view_view)

section \<open>The variable store as an interface\<close>

text \<open>
  What a component that writes variables through a context relies on: a write is visible at
  its key and nowhere else, and a hidden key reads as unset.
\<close>

locale variable_store =
  fixes ok :: "'s \<Rightarrow> bool"
    and look :: "'s \<Rightarrow> 'k \<Rightarrow> 'v option"
    and put :: "'k \<Rightarrow> 'v \<Rightarrow> 's \<Rightarrow> 'e + 's"
    and hide :: "'k \<Rightarrow> 's \<Rightarrow> 's"
  assumes put_look: "ok s \<Longrightarrow> put k v s = Inr s' \<Longrightarrow> look s' = (look s)(k \<mapsto> v)"
    and put_ok: "ok s \<Longrightarrow> put k v s = Inr s' \<Longrightarrow> ok s'"
    and hide_look: "ok s \<Longrightarrow> look (hide k s) = (look s)(k := None)"
    and hide_ok: "ok s \<Longrightarrow> ok (hide k s)"
begin

lemma puts_look:
  "ok s \<Longrightarrow> rfold (\<lambda>kv. put (fst kv) (snd kv)) kvs s = Inr s' \<Longrightarrow>
     look s' = look s ++ map_of (rev kvs) \<and> ok s'"
proof (induction kvs arbitrary: s)
  case (Cons kv kvs)
  then obtain s1 where s1: "put (fst kv) (snd kv) s = Inr s1"
      "rfold (\<lambda>kv. put (fst kv) (snd kv)) kvs s1 = Inr s'"
    by (auto simp: result_simps)
  with Cons.prems have "ok s1" "look s1 = (look s)(fst kv \<mapsto> snd kv)"
    using put_look put_ok by blast+
  with Cons.IH [OF \<open>ok s1\<close> s1(2)] show ?case
    by (auto simp: map_add_def fun_eq_iff split: option.splits)
qed simp

lemma hides_look:
  "ok s \<Longrightarrow> look (fold hide ks s) = (\<lambda>k. if k \<in> set ks then None else look s k) \<and> ok (fold hide ks s)"
  by (induction ks arbitrary: s) (auto simp: hide_look hide_ok fun_eq_iff)

end

interpretation ctx_store: variable_store ctx_wf view set_sync mask_inherited
  by unfold_locales (auto simp: set_sync_view mask_inherited_view)

section \<open>Events reach every handler\<close>

definition handlers_for :: "string \<Rightarrow> frame \<Rightarrow> nat list" where
  "handlers_for t f = (case map_of (event_handlers f) t of None \<Rightarrow> [] | Some hs \<Rightarrow> hs)"

lemma call_handlers_all:
  "(\<And>h. h \<in> set hs \<Longrightarrow> fate h \<noteq> HandlerCancelled) \<Longrightarrow>
     call_handlers fate e hs = (map (\<lambda>h. (h, e)) hs, False)"
  by (induction hs) auto

lemma emit_all:
  "(\<And>h. fate h \<noteq> HandlerCancelled) \<Longrightarrow>
     emit fate e ctx = (map (\<lambda>h. (h, e)) (concat (map (handlers_for (ev_type e)) ctx)), False)"
  by (induction ctx) (auto simp: call_handlers_all handlers_for_def)

section \<open>Checkpoint properties\<close>

lemma json_serialize [simp]: "json_value (serialize v) = serialize v"
  by (induction v rule: serialize.induct) (auto simp: comp_def)

text \<open>The values JSON represents faithfully.\<close>

fun json_plain :: "pyval \<Rightarrow> bool" where
  "json_plain (PList xs) = list_all json_plain xs"
| "json_plain (PDict d) = list_all (\<lambda>kv. json_plain (snd kv)) d"
| "json_plain (PTuple xs) = False"
| "json_plain (PDatetime t) = False"
| "json_plain (PPath p) = False"
| "json_plain (PObject s) = False"
| "json_plain v = True"

lemma serialize_plain: "json_plain v \<Longrightarrow> serialize v = v"
  by (induction v rule: json_plain.induct) (auto simp: list_all_iff intro!: map_idI)

lemma json_value_plain: "json_plain v \<Longrightarrow> json_value v = v"
  by (induction v rule: json_plain.induct) (auto simp: list_all_iff intro!: map_idI)

lemma serialize_variables_plain:
  "list_all (\<lambda>kv. json_plain (snd kv)) (variables f) \<Longrightarrow> serialize_variables f = variables f"
  by (auto simp: serialize_variables_def list_all_iff serialize_plain intro!: map_idI)

lemma str_list_map [simp]: "str_list (map PStr ns) = Some ns"
  by (induction ns) auto

lemma str_list_SomeD: "str_list xs = Some ns \<Longrightarrow> xs = map PStr ns"
  by (induction xs arbitrary: ns rule: str_list.induct) auto

text \<open>The keys the public writes accept.\<close>

definition valid_key :: "string \<Rightarrow> bool" where
  "valid_key k \<longleftrightarrow> validate_variable_key False k = Inr ()"

lemma validate_keys_Inr:
  "rfold (\<lambda>kv _. validate_variable_key False (fst kv)) d () = Inr () \<longleftrightarrow>
     (\<forall>kv\<in>set d. valid_key (fst kv))"
  by (induction d) (auto simp: valid_key_def result_simps)

lemma valid_key_plain: "valid_key k \<Longrightarrow> \<not> is_path_expression k"
  by (auto simp: valid_key_def validate_variable_key_def is_path_expression_def split: if_splits)

lemma valid_key_unprotected: "valid_key k \<Longrightarrow> k \<notin> protected_variable_keys"
  by (auto simp: valid_key_def validate_variable_key_def split: if_splits)

lemma validate_checkpoint_variables_Inr:
  "validate_checkpoint_variables v = Inr d \<longleftrightarrow> v = PDict d \<and> (\<forall>kv\<in>set d. valid_key (fst kv))"
  by (cases v) (auto simp: validate_checkpoint_variables_def result_simps validate_keys_Inr)

lemma set_sync_iff_valid: "(\<exists>ctx'. set_sync k v ctx = Inr ctx') \<longleftrightarrow> valid_key k"
  by (auto simp: set_sync_def valid_key_def result_simps)

text \<open>The frame a restored checkpoint leaves.\<close>

definition restored_frame :: "frame \<Rightarrow> frame \<Rightarrow> frame" where
  "restored_frame saved f =
     f\<lparr>variables := serialize_variables saved, fr_workflow_id := fr_workflow_id saved,
       fr_run_id := fr_run_id saved, completed_steps := completed_steps saved,
       failed_steps := failed_steps saved,
       fr_metadata := dict_update (fr_metadata f)
         (map (\<lambda>kv. (fst kv, json_value (snd kv))) (fr_metadata saved))\<rparr>"

lemma json_value_serialize_variables:
  "map (\<lambda>kv. (fst kv, json_value (snd kv))) (serialize_variables f) = serialize_variables f"
  by (simp add: serialize_variables_def comp_def)

lemma map_json_value_PStr [simp]: "map (json_value \<circ> PStr) ns = map PStr ns"
  by simp

lemma restore_saved:
  assumes "save_checkpoint sha fate name tracked stamp now ctx fs = Inr (path, fs', em)"
    and "\<forall>kv\<in>set (variables (hd ctx)). valid_key (fst kv)"
    and "is_running_context (hd ctx2) \<Longrightarrow>
           fr_workflow_id (hd ctx2) = fr_workflow_id (hd ctx) \<and> fr_run_id (hd ctx2) = fr_run_id (hd ctx)"
  shows "\<exists>em'. restore_checkpoint fate' path fs' ctx2 =
           Restored (on_frame (restored_frame (hd ctx)) ctx2) em'"
proof -
  from assms(1) obtain dir where
    fl: "map_of fs' path = Some (Some (json_value (checkpoint_data sha tracked now (hd ctx))))"
    by (auto simp: save_checkpoint_def Let_def split: option.splits)
  have vars: "rfold (\<lambda>kv _. validate_variable_key False (fst kv)) (serialize_variables (hd ctx)) () = Inr ()"
    using assms(2) by (auto simp: validate_keys_Inr serialize_variables_def)
  show ?thesis
    using fl vars assms(3)
    by (auto simp: restore_checkpoint_def checkpoint_data_def validate_checkpoint_def
        get_default_def get_or_none_def validate_checkpoint_variables_def
        validate_checkpoint_identity_def validate_checkpoint_completed_steps_def
        json_value_serialize_variables restored_frame_def on_frame_def comp_def Let_def)
qed

lemma validate_checkpoint_Inr_variables:
  "validate_checkpoint f data = Inr r \<Longrightarrow> \<forall>kv\<in>set (rs_variables r). valid_key (fst kv)"
  by (auto simp: validate_checkpoint_def result_simps validate_checkpoint_variables_Inr)

lemma validate_checkpoint_identity_running:
  "validate_checkpoint_identity nm c cur f = Inr i \<Longrightarrow> is_running_context f \<Longrightarrow> i = cur"
  by (auto simp: validate_checkpoint_identity_def split: pyval.splits if_splits)

lemma validate_checkpoint_Inr_identity:
  "validate_checkpoint f data = Inr r \<Longrightarrow> is_running_context f \<Longrightarrow>
     rs_workflow_id r = fr_workflow_id f \<and> rs_run_id r = fr_run_id f"
  by (auto simp: validate_checkpoint_def result_simps dest: validate_checkpoint_identity_running)

lemma restore_Restored:
  assumes "restore_checkpoint fate path fs ctx = Restored ctx' em"
  shows "\<exists>data r. map_of fs path = Some (Some (PDict data)) \<and> validate_checkpoint (hd ctx) data = Inr r \<and>
    variables (hd ctx') = rs_variables r \<and> fr_workflow_id (hd ctx') = rs_workflow_id r \<and>
    fr_run_id (hd ctx') = rs_run_id r \<and> completed_steps (hd ctx') = rs_completed r \<and> tl ctx' = tl ctx"
proof -
  from assms obtain data where d: "map_of fs path = Some (Some (PDict data))"
    by (auto simp: restore_checkpoint_def split: option.splits pyval.splits)
  from assms d obtain r where r: "validate_checkpoint (hd ctx) data = Inr r"
    by (auto simp: restore_checkpoint_def split: sum.splits)
  from assms have "variables (hd ctx') = rs_variables r \<and> fr_workflow_id (hd ctx') = rs_workflow_id r \<and>
      fr_run_id (hd ctx') = rs_run_id r \<and> completed_steps (hd ctx') = rs_completed r \<and> tl ctx' = tl ctx"
    by (cases "get_default ''metadata'' (PDict []) data")
       (auto simp: restore_checkpoint_def d r on_frame_def Let_def split: list.splits if_splits)
  with d r show ?thesis by blast
qed

text \<open>Fingerprints.\<close>

definition fingerprint :: "digest \<Rightarrow> string \<Rightarrow> string" where
  "fingerprint sha p = (case sha p of None \<Rightarrow> ''__missing__'' | Some h \<Rightarrow> h)"

lemma fingerprint_fold:
  "map_of (fold (\<lambda>p. AList.update p (PStr (fingerprint sha p))) ps d) q =
     (if q \<in> set ps then Some (PStr (fingerprint sha q)) else map_of d q)"
  by (induction ps arbitrary: d) auto

lemma fingerprint_keys_fold:
  "set (map fst (fold (\<lambda>p. AList.update p (PStr (fingerprint sha p))) ps d)) = set ps \<union> set (map fst d)"
  by (induction ps arbitrary: d) (auto simp: dom_update)

lemma fingerprint_distinct_fold:
  "distinct (map fst d) \<Longrightarrow> distinct (map fst (fold (\<lambda>p. AList.update p (PStr (fingerprint sha p))) ps d))"
  by (induction ps arbitrary: d) (auto simp: distinct_update)

lemma fingerprint_files_eq:
  "fingerprint_files sha ps = fold (\<lambda>p. AList.update p (PStr (fingerprint sha p))) ps []"
  by (simp add: fingerprint_files_def fingerprint_def)

lemma map_of_fingerprint_files [simp]:
  "map_of (fingerprint_files sha ps) q = (if q \<in> set ps then Some (PStr (fingerprint sha q)) else None)"
  by (simp add: fingerprint_files_eq fingerprint_fold)

lemma keys_fingerprint_files [simp]: "set (map fst (fingerprint_files sha ps)) = set ps"
  using fingerprint_keys_fold [of sha ps "[]"] by (simp add: fingerprint_files_eq)

lemma distinct_fingerprint_files [simp]: "distinct (map fst (fingerprint_files sha ps))"
  by (simp add: fingerprint_files_eq fingerprint_distinct_fold)

lemma fingerprint_files_entry:
  "kv \<in> set (fingerprint_files sha ps) \<longleftrightarrow> fst kv \<in> set ps \<and> snd kv = PStr (fingerprint sha (fst kv))"
  by (cases kv) (auto simp: map_of_eq_Some_iff [symmetric] simp del: list.set_map split: if_splits)

lemma json_value_fingerprints [simp]:
  "map (\<lambda>kv. (fst kv, json_value (snd kv))) (fingerprint_files sha ps) = fingerprint_files sha ps"
  by (rule map_idI) (auto simp: fingerprint_files_entry)

lemma detect_after_save:
  assumes "save_checkpoint sha fate name tracked stamp now ctx fs = Inr (path, fs', em)"
  shows "\<exists>changed. detect_changed_files sha' path fs' = Inr changed \<and> sorted changed \<and> distinct changed \<and>
    set changed = {p \<in> set tracked. fingerprint sha' p \<noteq> fingerprint sha p}"
proof -
  let ?d = "fingerprint_files sha tracked"
  let ?changed = "sort (map fst (filter (\<lambda>kv. map_of (fingerprint_files sha' (map fst ?d)) (fst kv) \<noteq> Some (snd kv)) ?d))"
  from assms have fl: "map_of fs' path = Some (Some (json_value (checkpoint_data sha tracked now (hd ctx))))"
    by (auto simp: save_checkpoint_def Let_def split: option.splits)
  have keys: "set (map fst ?d) = set tracked" by (rule keys_fingerprint_files)
  have "detect_changed_files sha' path fs' = Inr ?changed"
    using fl by (auto simp: detect_changed_files_def checkpoint_data_def get_default_def py_truthy_def Let_def)
  moreover have "set ?changed = {p \<in> set tracked. fingerprint sha' p \<noteq> fingerprint sha p}"
    using keys by (force simp: fingerprint_files_entry)
  moreover have "distinct ?changed" by (simp add: distinct_filter_keys)
  ultimately show ?thesis by (intro exI [of _ ?changed]) simp
qed

section \<open>Properties\<close>

definition sample_frame :: frame where
  "sample_frame =
     \<lparr>fr_workflow_id = ''w'', fr_run_id = ''r'', variables = [], masked = {}, event_handlers = [],
      services = \<lparr>singletons = [], factories = []\<rparr>, fr_start_time = 0, fr_metadata = [],
      current_step = None, completed_steps = [], failed_steps = [], checkpoint_dir = None\<rparr>"

definition sample_child :: exec_context where
  "sample_child =
     [sample_frame\<lparr>variables := [(''y'', PInt 2)], masked := {''x''}\<rparr>,
      sample_frame\<lparr>variables := [(''x'', PInt 1), (''z'', PNone), (''steps'', PDict [(''a'', PNone)])],
        checkpoint_dir := Some ''ckpt''\<rparr>]"

lemma sample_child_wf: "ctx_wf sample_child"
  by (simp add: ctx_wf_def sample_child_def)

lemma not_path_x: "\<not> is_path_expression ''x''"
  by (simp add: is_path_expression_def)

text \<open>
  The reads agree: for a plain variable name, \<open>get\<close>, \<open>get_sync\<close> and a lookup in
  \<open>all_variables\<close> give the same value through any depth of scopes and masks, and \<open>has\<close> is
  true exactly when \<open>all_variables\<close> has the key.
\<close>

theorem context_reads_agree:
  assumes "ctx_wf ctx" "\<not> is_path_expression key"
  shows "get_async search key dflt ctx = get_sync search key dflt ctx \<and>
    get_sync search key dflt ctx = (case map_of (all_variables ctx) key of None \<Rightarrow> dflt | Some v \<Rightarrow> v) \<and>
    (has_var key ctx \<longleftrightarrow> key \<in> set (map fst (all_variables ctx)))"
  using get_async_eq_get_sync get_sync_view [OF assms(2) ctx_wf_distinct [OF assms(1)]]
    has_var_view [OF ctx_wf_distinct [OF assms(1)], of key]
  by (auto simp: view_def map_of_eq_None_iff simp del: not_None_eq)

theorem context_reads_agree_witness:
  "get_async (\<lambda>_ _. None) ''x'' (PInt 7) sample_child = PInt 7 \<and> \<not> has_var ''x'' sample_child"
  using context_reads_agree [OF sample_child_wf not_path_x, of "\<lambda>_ _. None" "PInt 7"]
  by (simp add: sample_child_def dict_update_def)



text \<open>
  Merging a step's view keeps every other step's entry, also on a fork whose \<open>steps\<close>
  namespace still lives in the parent: the visible entries afterwards are the visible
  entries before, updated at that step.
\<close>

theorem merge_step_view_keeps_entries:
  assumes "ctx_wf ctx"
  shows "map_of (all_variables (merge_step_view search n v ctx)) =
    (map_of (all_variables ctx))(''steps'' \<mapsto> PDict (AList.update n v
       (case map_of (all_variables ctx) ''steps'' of Some (PDict d) \<Rightarrow> d | _ \<Rightarrow> [])))"
  using merge_step_view_view(1) [OF assms] by (simp add: view_def steps_view_def)

theorem merge_step_view_keeps_entries_witness:
  "map_of (all_variables (merge_step_view (\<lambda>_ _. None) ''b'' (PInt 1) sample_child)) ''steps'' =
     Some (PDict [(''a'', PNone), (''b'', PInt 1)])"
  using merge_step_view_keeps_entries [OF sample_child_wf, of "\<lambda>_ _. None" "''b''" "PInt 1"]
  by (simp add: sample_child_def dict_update_def)


definition sample_saved :: exec_context where
  "sample_saved = [sample_frame\<lparr>variables := [(''x'', PList [PInt 1])], completed_steps := [''a''],
     checkpoint_dir := Some ''ckpt''\<rparr>]"




text \<open>
  Change detection is exact: after a save, \<open>detect_changed_files\<close> returns, sorted and
  without repetition, exactly the tracked files whose content fingerprint (with a sentinel
  for files that cannot be read) differs from the one taken at the save.
\<close>

theorem detect_changed_files_exact:
  assumes "save_checkpoint sha fate name tracked stamp now ctx fs = Inr (path, fs', em)"
  shows "\<exists>changed. detect_changed_files sha' path fs' = Inr changed \<and> sorted changed \<and> distinct changed \<and>
    set changed = {p \<in> set tracked. (case sha' p of None \<Rightarrow> ''__missing__'' | Some h \<Rightarrow> h) \<noteq>
                                    (case sha p of None \<Rightarrow> ''__missing__'' | Some h \<Rightarrow> h)}"
  using detect_after_save [OF assms, of sha'] by (simp add: fingerprint_def)

theorem detect_changed_files_exact_witness:
  "\<exists>path fs' em changed.
     save_checkpoint (\<lambda>_. Some ''h'') (\<lambda>_. HandlerReturns) None [''f'', ''g''] ''t'' ''n'' sample_saved [] =
       Inr (path, fs', em) \<and>
     detect_changed_files (\<lambda>p. if p = ''g'' then None else Some ''h'') path fs' = Inr changed \<and>
     set changed = {''g''}"
proof -
  obtain path fs' em where s:
    "save_checkpoint (\<lambda>_. Some ''h'') (\<lambda>_. HandlerReturns) None [''f'', ''g''] ''t'' ''n'' sample_saved [] = Inr (path, fs', em)"
    by (simp add: save_checkpoint_def sample_saved_def Let_def)
  from detect_changed_files_exact [OF s, of "\<lambda>p. if p = ''g'' then None else Some ''h''"] s show ?thesis
    by (auto split: if_splits)
qed

text \<open>
  A checkpoint whose \<open>metadata\<close> is \<open>null\<close> passes every validation, and the operation raises
  only after the context has been overwritten.
\<close>

lemma restore_crash_changes_context:
  "restore_checkpoint (\<lambda>_. HandlerReturns) ''f''
     [(''f'', Some (PDict [(''run_id'', PStr ''evil''), (''metadata'', PNone)]))] [sample_frame] =
   CrashedInUpdate [sample_frame\<lparr>fr_run_id := ''evil''\<rparr>]"
  by (simp add: restore_checkpoint_def validate_checkpoint_def get_default_def get_or_none_def
      validate_checkpoint_variables_def validate_checkpoint_identity_def on_frame_def
      validate_checkpoint_completed_steps_def is_running_context_def sample_frame_def Let_def)

end
