(* ===== verification/Py_Regex.thy ===== *)
theory Py_Regex
  imports Py_Strings
begin

text \<open>
  The regular expressions the modelled code matches with \<open>re\<close>: a backtracking matcher that
  lists its successes in the order in which Python tries them, so that the first one is
  Python's match. A position in the text is the part already read (backwards) and the rest;
  a success also carries the groups captured.
\<close>

datatype rx =
    RChar "char \<Rightarrow> bool"
  | REps
  | RSeq rx rx
  | RAlt rx rx
  | RStar rx
  | RLazy rx
  | RWordB
  | RBol
  | REol
  | RGroup nat rx
  | RNotBehind "char \<Rightarrow> bool"
  | RNotAhead "char \<Rightarrow> bool"

type_synonym captures = "(nat \<times> string) list"
type_synonym rx_state = "string \<times> string \<times> captures"

definition is_word :: "char \<Rightarrow> bool" where
  "is_word c \<longleftrightarrow> (48 \<le> ord_of c \<and> ord_of c \<le> 57) \<or> (65 \<le> ord_of c \<and> ord_of c \<le> 90) \<or>
     (97 \<le> ord_of c \<and> ord_of c \<le> 122) \<or> c = CHR ''_''"

definition head_is :: "(char \<Rightarrow> bool) \<Rightarrow> string \<Rightarrow> bool" where
  "head_is P s \<longleftrightarrow> (case s of [] \<Rightarrow> False | c # _ \<Rightarrow> P c)"

definition rest_len :: "rx_state \<Rightarrow> nat" where
  "rest_len s = length (fst (snd s))"

function rx_match :: "rx \<Rightarrow> rx_state \<Rightarrow> rx_state list" where
  "rx_match (RChar P) (pre, cs, g) = (case cs of [] \<Rightarrow> [] | c # rest \<Rightarrow> if P c then [(c # pre, rest, g)] else [])"
| "rx_match REps s = [s]"
| "rx_match (RSeq r q) s = concat (map (rx_match q) (rx_match r s))"
| "rx_match (RAlt r q) s = rx_match r s @ rx_match q s"
| "rx_match (RStar r) s =
     concat (map (\<lambda>s'. if rest_len s' < rest_len s then rx_match (RStar r) s' else []) (rx_match r s)) @ [s]"
| "rx_match (RLazy r) s =
     s # concat (map (\<lambda>s'. if rest_len s' < rest_len s then rx_match (RLazy r) s' else []) (rx_match r s))"
| "rx_match RWordB (pre, cs, g) = (if head_is is_word pre \<noteq> head_is is_word cs then [(pre, cs, g)] else [])"
| "rx_match RBol (pre, cs, g) = (if pre = [] \<or> head_is (\<lambda>c. c = CHR 10) pre then [(pre, cs, g)] else [])"
| "rx_match REol (pre, cs, g) = (if cs = [] \<or> head_is (\<lambda>c. c = CHR 10) cs then [(pre, cs, g)] else [])"
| "rx_match (RGroup i r) (pre, cs, g) =
     map (\<lambda>(pre', cs', g'). (pre', cs', AList.update i (take (length cs - length cs') cs) g')) (rx_match r (pre, cs, g))"
| "rx_match (RNotBehind P) (pre, cs, g) = (if head_is P pre then [] else [(pre, cs, g)])"
| "rx_match (RNotAhead P) (pre, cs, g) = (if head_is P cs then [] else [(pre, cs, g)])"
  by pat_completeness auto
termination
  by (relation "inv_image (less_than <*lex*> less_than) (\<lambda>(r, s). (size r, rest_len s))") auto

text \<open>A match found: where it starts, what it consumes, what follows, the groups.\<close>

record rx_found =
  f_before :: string
  f_text :: string
  f_after :: string
  f_groups :: captures

definition match_at :: "rx \<Rightarrow> string \<Rightarrow> string \<Rightarrow> rx_found option" where
  "match_at r pre cs =
     (case rx_match r (pre, cs, []) of
        [] \<Rightarrow> None
      | (_, cs', g) # _ \<Rightarrow> Some \<lparr>f_before = rev pre, f_text = take (length cs - length cs') cs, f_after = cs', f_groups = g\<rparr>)"

fun search_from :: "rx \<Rightarrow> string \<Rightarrow> string \<Rightarrow> rx_found option" where
  "search_from r pre [] = match_at r pre []"
| "search_from r pre (c # cs) =
     (case match_at r pre (c # cs) of
        Some f \<Rightarrow> Some f
      | None \<Rightarrow> search_from r (c # pre) cs)"

definition rx_search :: "rx \<Rightarrow> string \<Rightarrow> rx_found option" where
  "rx_search r s = search_from r [] s"

definition rx_fullmatch :: "rx \<Rightarrow> string \<Rightarrow> bool" where
  "rx_fullmatch r s \<longleftrightarrow> list_ex (\<lambda>(_, rest, _). rest = []) (rx_match r ([], s, []))"

text \<open>\<open>finditer\<close> of a pattern that matches no empty text: the matches one after the other,
  each with the text between it and the one before.\<close>

function find_iter :: "rx \<Rightarrow> string \<Rightarrow> string \<Rightarrow> rx_found list" where
  "find_iter r pre cs =
     (case search_from r pre cs of
        None \<Rightarrow> []
      | Some f \<Rightarrow>
          if length (f_after f) < length cs
          then f\<lparr>f_before := drop (length pre) (f_before f)\<rparr> # find_iter r (rev (f_text f) @ rev (f_before f)) (f_after f)
          else [f\<lparr>f_before := drop (length pre) (f_before f)\<rparr>])"
  by pat_completeness auto
termination by (relation "measure (\<lambda>(_, _, cs). length cs)") auto

declare find_iter.simps [simp del]

text \<open>The spans \<open>(start, end)\<close> of the matches in the text.\<close>

fun iter_spans :: "nat \<Rightarrow> rx_found list \<Rightarrow> (nat \<times> nat) list" where
  "iter_spans k [] = []"
| "iter_spans k (f # fs) =
     (let a = k + length (f_before f); b = a + length (f_text f) in (a, b) # iter_spans b fs)"

definition match_spans :: "rx \<Rightarrow> string \<Rightarrow> (nat \<times> nat) list" where
  "match_spans r s = iter_spans 0 (find_iter r [] s)"

section \<open>Building blocks\<close>

definition rany :: rx where
  "rany = RChar (\<lambda>_. True)"

definition rnocase :: "char \<Rightarrow> rx" where
  "rnocase c = RChar (\<lambda>d. lower_char d = lower_char c)"

definition rchar :: "char \<Rightarrow> rx" where
  "rchar c = RChar (\<lambda>d. d = c)"

definition rspace :: rx where
  "rspace = RChar is_space"

definition rplus :: "rx \<Rightarrow> rx" where
  "rplus r = RSeq r (RStar r)"

definition ropt :: "rx \<Rightarrow> rx" where
  "ropt r = RAlt r REps"

fun rrep :: "nat \<Rightarrow> rx \<Rightarrow> rx" where
  "rrep 0 r = REps"
| "rrep (Suc n) r = RSeq r (rrep n r)"

definition ratleast :: "nat \<Rightarrow> rx \<Rightarrow> rx" where
  "ratleast n r = RSeq (rrep n r) (RStar r)"

fun rword :: "string \<Rightarrow> rx" where
  "rword [] = REps"
| "rword (c # cs) = RSeq (rnocase c) (rword cs)"

fun rtext :: "string \<Rightarrow> rx" where
  "rtext [] = REps"
| "rtext (c # cs) = RSeq (rchar c) (rtext cs)"

fun ralts :: "rx list \<Rightarrow> rx" where
  "ralts [] = RChar (\<lambda>_. False)"
| "ralts [r] = r"
| "ralts (r # q # rs) = RAlt r (ralts (q # rs))"

fun rseq :: "rx list \<Rightarrow> rx" where
  "rseq [] = REps"
| "rseq (r # rs) = RSeq r (rseq rs)"

section \<open>Where matches lie\<close>

lemma rx_match_reads: "(pre', cs', g') \<in> set (rx_match r s) \<Longrightarrow> \<exists>u. fst (snd s) = u @ cs' \<and> pre' = rev u @ fst s"
proof (induction r s arbitrary: pre' cs' g' rule: rx_match.induct)
  case (3 r q s)
  then obtain p c g where m: "(p, c, g) \<in> set (rx_match r s)" "(pre', cs', g') \<in> set (rx_match q (p, c, g))" by auto
  from 3(1) [OF m(1)] 3(2) [OF m] show ?case by force
next
  case (5 r s)
  have "(pre', cs', g') \<in> insert s (\<Union>s' \<in> set (rx_match r s). if rest_len s' < rest_len s then set (rx_match (RStar r) s') else {})"
    using 5(3) by (subst (asm) rx_match.simps(5)) (auto simp del: rx_match.simps split: if_splits)
  then consider "(pre', cs', g') = s" | p c g where "(p, c, g) \<in> set (rx_match r s)" "rest_len (p, c, g) < rest_len s"
      "(pre', cs', g') \<in> set (rx_match (RStar r) (p, c, g))"
    by (auto simp del: rx_match.simps split: if_splits)
  then show ?case
  proof cases
    case 2
    from 5(1) [OF 2(1)] 5(2) [OF 2] show ?thesis by force
  qed (cases s, simp)
next
  case (6 r s)
  have "(pre', cs', g') \<in> insert s (\<Union>s' \<in> set (rx_match r s). if rest_len s' < rest_len s then set (rx_match (RLazy r) s') else {})"
    using 6(3) by (subst (asm) rx_match.simps(6)) (auto simp del: rx_match.simps split: if_splits)
  then consider "(pre', cs', g') = s" | p c g where "(p, c, g) \<in> set (rx_match r s)" "rest_len (p, c, g) < rest_len s"
      "(pre', cs', g') \<in> set (rx_match (RLazy r) (p, c, g))"
    by (auto simp del: rx_match.simps split: if_splits)
  then show ?case
  proof cases
    case 2
    from 6(1) [OF 2(1)] 6(2) [OF 2] show ?thesis by force
  qed (cases s, simp)
qed (auto split: list.splits if_splits)

lemma match_at_reads: "match_at r pre cs = Some f \<Longrightarrow> f_before f = rev pre \<and> f_text f @ f_after f = cs"
proof (cases "rx_match r (pre, cs, [])")
  case (Cons x xs)
  obtain p c g where x: "x = (p, c, g)" by (cases x)
  then have "\<exists>u. cs = u @ c" using rx_match_reads [of p c g r "(pre, cs, [])"] Cons by auto
  then show "match_at r pre cs = Some f \<Longrightarrow> f_before f = rev pre \<and> f_text f @ f_after f = cs"
    using Cons x by (auto simp: match_at_def)
qed (simp add: match_at_def)

lemma search_from_reads:
  "search_from r pre cs = Some f \<Longrightarrow> \<exists>b. f_before f = rev pre @ b \<and> cs = b @ f_text f @ f_after f"
proof (induction r pre cs rule: search_from.induct)
  case (1 r pre)
  then show ?case using match_at_reads [of r pre "[]" f] by simp
next
  case (2 r pre c cs)
  then show ?case using match_at_reads [of r pre "c # cs" f] by (fastforce split: option.splits)
qed

lemma iter_spans_within:
  "(a, b) \<in> set (iter_spans k (find_iter r pre cs)) \<Longrightarrow> k \<le> a \<and> a \<le> b \<and> b \<le> k + length cs"
proof (induction r pre cs arbitrary: k rule: find_iter.induct)
  case (1 r pre cs)
  show ?case
  proof (cases "search_from r pre cs")
    case None
    with 1(2) show ?thesis by (subst (asm) find_iter.simps) simp
  next
    case (Some f)
    obtain u where u: "f_before f = rev pre @ u" "cs = u @ f_text f @ f_after f" using search_from_reads [OF Some] by blast
    show ?thesis
    proof (cases "length (f_after f) < length cs")
      case True
      with 1(2) Some consider "(a, b) = (k + length u, k + length u + length (f_text f))" |
        "(a, b) \<in> set (iter_spans (k + length u + length (f_text f)) (find_iter r (rev (f_text f) @ rev (f_before f)) (f_after f)))"
        by (subst (asm) find_iter.simps) (auto simp: Let_def u(1))
      then show ?thesis using 1(1) [OF Some True] u(2) by cases fastforce+
    next
      case False
      with 1(2) Some u show ?thesis by (subst (asm) find_iter.simps) (auto simp: Let_def)
    qed
  qed
qed

lemma match_spans_within: "(a, b) \<in> set (match_spans r s) \<Longrightarrow> a \<le> b \<and> b \<le> length s"
  using iter_spans_within [of a b 0 r "[]" s] by (simp add: match_spans_def)

lemma rx_examples:
  "map_option f_groups (rx_search (rseq [rword ''id'', RStar rspace, RGroup 1 (rplus (RChar is_word))]) ''an ID  x7.'') =
     Some [(1, ''x7'')]"
  "rx_fullmatch (rseq [rword ''con'', ropt (rtext ''!'')]) ''CON!''"
  "rx_search (rseq [RWordB, rword ''no'', RWordB]) ''note'' = None"
  by code_simp+

end
