(* ===== verification/Artifact_Contracts.thy ===== *)
theory Artifact_Contracts
  imports Py_Regex
begin

text \<open>
  Typed contracts for the artifacts passed between steps, \<open>artifact_contracts.py\<close>: parsing
  of declarations, validation of file maps and FILE/ENDFILE payloads, and the promotion of
  aliases. \<open>repr\<close> of a string and the name of a value's type are parameters (they occur in
  messages only). The keys of a mapping are strings.
\<close>

section \<open>Contracts\<close>

record artifact_contract =
  ac_kind :: string
  ac_required :: bool
  ac_aliases :: "string list"

record contract_diagnostic =
  dg_field :: string
  dg_kind :: string
  dg_code :: string
  dg_message :: string

definition code_artifact :: string where
  "code_artifact = ''code_artifact''"

definition supported_kinds :: "string list" where
  "supported_kinds = [code_artifact]"

definition placeholder_keys :: "string list" where
  "placeholder_keys = [''description'', ''error'', ''message'', ''note'', ''placeholder'', ''status'']"

definition max_artifact_length :: nat where
  "max_artifact_length = 262144"

definition placeholder_scan_max_chars :: nat where
  "placeholder_scan_max_chars = 400"

definition diagnostic_dict :: "contract_diagnostic \<Rightarrow> pydict" where
  "diagnostic_dict d =
     [(''field'', PStr (dg_field d)), (''kind'', PStr (dg_kind d)), (''code'', PStr (dg_code d)),
      (''message'', PStr (dg_message d))]"

definition contract_error_text :: "contract_diagnostic list \<Rightarrow> string" where
  "contract_error_text ds =
     ''Artifact contract validation failed: '' @
       join ''; '' (map (\<lambda>d. dg_field d @ '': '' @ dg_message d) ds)"

text \<open>\<open>[\w.-]+\<close>, and the alternatives of the placeholder pattern between word boundaries.\<close>

definition rname :: rx where
  "rname = rplus (RChar (\<lambda>c. is_word c \<or> c = CHR ''.'' \<or> c = CHR ''-''))"

definition placeholder_text :: rx where
  "placeholder_text =
     rseq [RWordB,
       ralts [
         rseq [rword ''not '', ralts [rword ''available'', rword ''generated'', rword ''included'', rword ''provided'']],
         rseq [rword ''no '', ropt (ralts [rword ''backend '', rword ''source '']), rword ''code''],
         rword ''placeholder'',
         rseq [rword ''see '', rname, rword '' for '', ralts [rword ''implementation'', rword ''details'']],
         rseq [rword ''refer to '', rname],
         rseq [rword ''cannot '', ralts [rword ''generate'', rword ''provide'']],
         rseq [rword ''unable to '', ralts [rword ''generate'', rword ''provide'']]],
       RWordB]"

text \<open>\<open>^(?:con|prn|aux|nul|com[1-9]|lpt[1-9])(?:\..*)?$\<close>, for \<open>fullmatch\<close> on text without
  newlines.\<close>

definition windows_device :: rx where
  "windows_device =
     (let nine = RChar (\<lambda>c. 49 \<le> ord_of c \<and> ord_of c \<le> 57)
      in rseq [ralts [rword ''con'', rword ''prn'', rword ''aux'', rword ''nul'',
                      rseq [rword ''com'', nine], rseq [rword ''lpt'', nine]],
               ropt (rseq [rchar (CHR ''.''), RStar rany])])"

text \<open>\<open>^FILE:\s*(.+?)\n(.*?)^ENDFILE\s*$\<close> of \<open>engine/llm_output_parsing.py\<close>.\<close>

definition file_block :: rx where
  "file_block =
     rseq [RBol, rtext ''FILE:'', RStar rspace, RGroup 1 (rseq [rany, RLazy rany]), rchar (CHR 10),
       RGroup 2 (RLazy rany), RBol, rtext ''ENDFILE'', RStar rspace, REol]"

section \<open>Declarations\<close>

datatype contract_config_error =
    NotAMapping string
  | BadFieldName string
  | BadDeclaration string
  | UnknownFields string
  | UnsupportedKind string
  | UnhashableKind string
  | BadRequired string
  | BadAliases string
  | SelfAlias string
  | NameCollision string string
  | UnboundContracts "string list"

definition nonblank_str :: "pyval \<Rightarrow> bool" where
  "nonblank_str v = (case v of PStr s \<Rightarrow> strip s \<noteq> [] | _ \<Rightarrow> False)"

definition str_of :: "pyval \<Rightarrow> string" where
  "str_of v = (case v of PStr s \<Rightarrow> s | _ \<Rightarrow> [])"

definition check_kind :: "string \<Rightarrow> pyval option \<Rightarrow> contract_config_error + string" where
  "check_kind f kind =
     (case kind of
        Some (PStr k) \<Rightarrow> if k \<in> set supported_kinds then Inr k else Inl (UnsupportedKind f)
      | Some (PList xs) \<Rightarrow> Inl (UnhashableKind f)
      | Some (PDict d) \<Rightarrow> Inl (UnhashableKind f)
      | _ \<Rightarrow> Inl (UnsupportedKind f))"

definition check_required :: "string \<Rightarrow> pyval option \<Rightarrow> contract_config_error + bool" where
  "check_required f r =
     (case r of None \<Rightarrow> Inr True | Some (PBool b) \<Rightarrow> Inr b | Some v \<Rightarrow> Inl (BadRequired f))"

text \<open>\<open>tuple(dict.fromkeys(xs))\<close> keeps the first occurrences.\<close>

fun dedupe :: "string list \<Rightarrow> string list" where
  "dedupe [] = []"
| "dedupe (x # xs) = x # filter (\<lambda>y. y \<noteq> x) (dedupe xs)"

definition check_aliases :: "string \<Rightarrow> pyval option \<Rightarrow> contract_config_error + string list" where
  "check_aliases f a =
     (case a of
        None \<Rightarrow> Inr []
      | Some (PList xs) \<Rightarrow>
          if list_all nonblank_str xs
          then (let as = dedupe (map str_of xs) in if f \<in> set as then Inl (SelfAlias f) else Inr as)
          else Inl (BadAliases f)
      | Some v \<Rightarrow> Inl (BadAliases f))"

definition claim_name ::
  "string \<Rightarrow> string \<Rightarrow> (string \<times> string) list \<Rightarrow> contract_config_error + (string \<times> string) list" where
  "claim_name f n owners =
     (case map_of owners n of
        Some other \<Rightarrow> Inl (NameCollision f n)
      | None \<Rightarrow> Inr (AList.update n f owners))"

type_synonym contracts = "(string \<times> artifact_contract) list"

definition parse_declaration ::
  "string \<times> pyval \<Rightarrow> contracts \<times> (string \<times> string) list \<Rightarrow>
    contract_config_error + contracts \<times> (string \<times> string) list" where
  "parse_declaration fd s =
     (let f = fst fd
      in if strip f = [] then Inl (BadFieldName f)
         else case (case snd fd of PStr k \<Rightarrow> PDict [(''kind'', PStr k)] | d \<Rightarrow> d) of
                PDict decl \<Rightarrow>
                  if \<not> set (map fst decl) \<subseteq> {''kind'', ''required'', ''aliases''} then Inl (UnknownFields f)
                  else rbind (check_kind f (map_of decl ''kind'')) (\<lambda>kind.
                       rbind (check_required f (map_of decl ''required'')) (\<lambda>required.
                       rbind (check_aliases f (map_of decl ''aliases'')) (\<lambda>aliases.
                       rbind (rfold (claim_name f) (f # aliases) (snd s)) (\<lambda>owners.
                         Inr (AList.update f \<lparr>ac_kind = kind, ac_required = required, ac_aliases = aliases\<rparr> (fst s),
                              owners)))))
              | _ \<Rightarrow> Inl (BadDeclaration f))"

definition parse_artifact_contracts :: "string \<Rightarrow> pyval \<Rightarrow> contract_config_error + contracts" where
  "parse_artifact_contracts location raw =
     (case raw of
        PNone \<Rightarrow> Inr []
      | PDict d \<Rightarrow> rbind (rfold parse_declaration d ([], [])) (\<lambda>s. Inr (fst s))
      | _ \<Rightarrow> Inl (NotAMapping location))"

definition validate_contract_bindings :: "contracts \<Rightarrow> string list \<Rightarrow> contract_config_error + unit" where
  "validate_contract_bindings cs declared =
     (let unbound = filter (\<lambda>n. n \<notin> set declared) (map fst cs)
      in if unbound \<noteq> [] then Inl (UnboundContracts unbound) else Inr ())"

section \<open>Validation\<close>

record message_parts =
  repr_str :: "string \<Rightarrow> string"
  type_name :: "pyval \<Rightarrow> string"

definition diagnostic :: "string \<Rightarrow> string \<Rightarrow> string \<Rightarrow> contract_diagnostic" where
  "diagnostic f code msg = \<lparr>dg_field = f, dg_kind = code_artifact, dg_code = code, dg_message = msg\<rparr>"

definition bad_part :: "string \<Rightarrow> bool" where
  "bad_part part \<longleftrightarrow>
     part \<in> {[], ''.'', ''..''} \<or> (part \<noteq> [] \<and> last part \<in> {CHR ''.'', CHR '' ''}) \<or> rx_fullmatch windows_device part"

definition safe_relative_path :: "string \<Rightarrow> bool" where
  "safe_relative_path p =
     (if p = [] \<or> p \<noteq> strip p then False
      else if list_ex (\<lambda>c. ord_of c < 32 \<or> ord_of c = 127) p then False
      else let normalized = replace_char (CHR 92) (CHR ''/'') p
           in if startswith normalized ''/'' \<or> CHR '':'' \<in> set normalized then False
              else if list_ex bad_part (split_on (CHR ''/'') normalized) then False
              else \<not> startswith normalized ''/'')"

definition source_diagnostics :: "message_parts \<Rightarrow> string \<Rightarrow> string \<Rightarrow> pyval \<Rightarrow> contract_diagnostic list" where
  "source_diagnostics mp f p source =
     (case source of
        PStr s \<Rightarrow>
          if strip s = []
          then [diagnostic f ''empty_source'' (''file '' @ repr_str mp p @ '' must contain non-blank source text'')]
          else if length s \<le> placeholder_scan_max_chars \<and> rx_search placeholder_text s \<noteq> None
          then [diagnostic f ''placeholder'' (''file '' @ repr_str mp p @ '' contains placeholder or refusal prose'')]
          else []
      | _ \<Rightarrow> [diagnostic f ''empty_source'' (''file '' @ repr_str mp p @ '' must contain non-blank source text'')])"

definition entry_diagnostics :: "message_parts \<Rightarrow> string \<Rightarrow> string \<times> pyval \<Rightarrow> contract_diagnostic list" where
  "entry_diagnostics mp f e =
     (let p = fst e
      in if \<not> safe_relative_path p
         then [diagnostic f ''unsafe_path'' (''contains unsafe or non-relative file path '' @ repr_str mp p)]
         else (if lower p \<in> set placeholder_keys
               then [diagnostic f ''placeholder_object'' (''contains metadata key '' @ repr_str mp p @ '' instead of a file path'')]
               else []) @ source_diagnostics mp f p (snd e))"

definition entry_size :: "string \<times> pyval \<Rightarrow> nat" where
  "entry_size e =
     (if safe_relative_path (fst e)
      then length (fst e) + (case snd e of PStr s \<Rightarrow> length s | _ \<Rightarrow> 0) else 0)"

definition mapping_diagnostics :: "message_parts \<Rightarrow> string \<Rightarrow> pydict \<Rightarrow> contract_diagnostic list" where
  "mapping_diagnostics mp f d =
     (if d = [] then [diagnostic f ''empty'' ''must contain at least one file'']
      else concat (map (entry_diagnostics mp f) d) @
           (if sum_list (map entry_size d) > max_artifact_length
            then [diagnostic f ''too_large'' ''total file-map content exceeds 262144 characters''] else []))"

text \<open>The FILE blocks of a payload, when nothing but white space lies between them.\<close>

definition parse_complete_file_payload :: "string \<Rightarrow> pydict option" where
  "parse_complete_file_payload s =
     (let ms = find_iter file_block [] s;
          group = (\<lambda>m i. case map_of (f_groups m) i of Some t \<Rightarrow> t | None \<Rightarrow> [])
      in if ms = [] then None
         else if list_ex (\<lambda>m. strip (f_before m) \<noteq> []) ms then None
         else if strip (f_after (last ms)) \<noteq> [] then None
         else Some (fold (\<lambda>m. AList.update (strip (group m 1)) (PStr (group m 2))) ms []))"

definition validate_code_artifact :: "message_parts \<Rightarrow> string \<Rightarrow> pyval \<Rightarrow> contract_diagnostic list" where
  "validate_code_artifact mp f v =
     (case v of
        PNone \<Rightarrow> [diagnostic f ''missing'' ''is required but missing'']
      | PDict d \<Rightarrow> mapping_diagnostics mp f d
      | PStr s \<Rightarrow>
          let t = strip s in
          if t = [] then [diagnostic f ''empty'' ''must not be blank'']
          else if length t > max_artifact_length then [diagnostic f ''too_large'' ''exceeds 262144 characters'']
          else case parse_complete_file_payload t of
                 Some files \<Rightarrow> mapping_diagnostics mp f files
               | None \<Rightarrow>
                   if rx_search placeholder_text t \<noteq> None
                   then [diagnostic f ''placeholder'' ''contains placeholder, refusal, or reference-only prose'']
                   else [diagnostic f ''invalid_format'' ''must be a file map or complete FILE/ENDFILE payload'']
      | _ \<Rightarrow> [diagnostic f ''invalid_type'' (''must be a file map or FILE/ENDFILE string, got '' @ type_name mp v)])"

text \<open>\<open>_validate_value\<close>: contracts of another kind do not pass \<open>parse_artifact_contracts\<close>.\<close>

datatype artifact_error = ArtifactContractError "contract_diagnostic list" | UnsupportedContractKind string

definition validate_value ::
  "message_parts \<Rightarrow> string \<Rightarrow> pyval \<Rightarrow> artifact_contract \<Rightarrow> artifact_error + contract_diagnostic list" where
  "validate_value mp f v c =
     (if ac_kind c = code_artifact then Inr (validate_code_artifact mp f v)
      else Inl (UnsupportedContractKind (ac_kind c)))"

text \<open>The first candidate without diagnostics, or the diagnostics of all.\<close>

fun select_candidate ::
  "message_parts \<Rightarrow> pydict \<Rightarrow> artifact_contract \<Rightarrow> string list \<Rightarrow> contract_diagnostic list \<Rightarrow>
    artifact_error + string option \<times> contract_diagnostic list" where
  "select_candidate mp values c [] ds = Inr (None, ds)"
| "select_candidate mp values c (n # ns) ds =
     rbind (validate_value mp n (the (map_of values n)) c) (\<lambda>d.
       if d = [] then Inr (Some n, ds) else select_candidate mp values c ns (ds @ d))"

definition check_contract ::
  "message_parts \<Rightarrow> pydict \<Rightarrow> string \<times> artifact_contract \<Rightarrow> pydict \<times> contract_diagnostic list \<Rightarrow>
    artifact_error + pydict \<times> contract_diagnostic list" where
  "check_contract mp values fc s =
     (let f = fst fc; c = snd fc;
          present = filter (\<lambda>n. map_of values n \<noteq> None) (f # ac_aliases c)
      in rbind (select_candidate mp values c present []) (\<lambda>(sel, ds).
           case sel of
             Some n \<Rightarrow> Inr (AList.update f (the (map_of values n)) (fst s), snd s)
           | None \<Rightarrow>
               if ac_required c \<or> present \<noteq> []
               then Inr (fst s, snd s @ (if ds \<noteq> [] then ds else [diagnostic f ''missing'' ''is required but missing'']))
               else Inr s))"

definition validate_and_normalize_artifacts ::
  "message_parts \<Rightarrow> pydict \<Rightarrow> contracts \<Rightarrow> artifact_error + pydict" where
  "validate_and_normalize_artifacts mp values cs =
     rbind (rfold (check_contract mp values) cs (values, [])) (\<lambda>(normalized, ds).
       if ds \<noteq> [] then Inl (ArtifactContractError ds)
       else Inr (fold AList.delete (concat (map (ac_aliases \<circ> snd) cs)) normalized))"

definition expected_output_keys :: "string list \<Rightarrow> contracts \<Rightarrow> string list" where
  "expected_output_keys output_keys cs =
     fold (\<lambda>n keys. if n \<in> set keys then keys else keys @ [n])
       (concat (map (\<lambda>(f, c). f # ac_aliases c) cs)) output_keys"

end
