(* ===== verification/Step_Def.thy ===== *)
theory Step_Def
  imports Exec_Context Artifact_Contracts
begin

text \<open>
  Step definitions of \<open>engine/step.py\<close>: the retry policy, the declarative step with its
  builder methods, and the eligibility test \<open>should_run\<close>.

  Code supplied by the user of the engine (the step function, conditions, hooks) is a field
  of the definition: a function of the context it is given and of a state \<open>'w\<close> of the world
  outside, which it may change. \<open>random.uniform\<close> is a parameter.
\<close>

section \<open>Exceptions\<close>

text \<open>An exception object: the names of its class and of the class's bases (the method
  resolution order), and its text.\<close>

record exn =
  exn_mro :: "string list"
  exn_msg :: string

definition isinstance_of :: "exn \<Rightarrow> string list \<Rightarrow> bool" where
  "isinstance_of e types \<longleftrightarrow> (\<exists>t\<in>set types. t \<in> set (exn_mro e))"

definition exn_type_name :: "exn \<Rightarrow> string" where
  "exn_type_name e = (case exn_mro e of [] \<Rightarrow> [] | n # _ \<Rightarrow> n)"

definition value_error :: "string \<Rightarrow> exn" where
  "value_error m = \<lparr>exn_mro = [''ValueError'', ''Exception'', ''BaseException'', ''object''], exn_msg = m\<rparr>"

section \<open>Retry policy\<close>

datatype retry_strategy = RetryNone | RetryFixed | RetryExponential | RetryLinear

record retry_config =
  max_retries :: int
  strategy :: retry_strategy
  base_delay_seconds :: rat
  max_delay_seconds :: rat
  jitter :: rat
  retry_on :: "string list"
  no_retry_on :: "string list"

definition default_retry :: retry_config where
  "default_retry =
     \<lparr>max_retries = 3, strategy = RetryExponential, base_delay_seconds = 1,
      max_delay_seconds = 60, jitter = 1/10, retry_on = [''Exception''], no_retry_on = []\<rparr>"

definition base_delay :: "retry_config \<Rightarrow> int \<Rightarrow> rat" where
  "base_delay c attempt =
     (case strategy c of
        RetryNone \<Rightarrow> 0
      | RetryFixed \<Rightarrow> base_delay_seconds c
      | RetryLinear \<Rightarrow> base_delay_seconds c * of_int attempt
      | RetryExponential \<Rightarrow> base_delay_seconds c * (2 powi (attempt - 1)))"

definition get_delay :: "(rat \<Rightarrow> rat \<Rightarrow> rat) \<Rightarrow> retry_config \<Rightarrow> int \<Rightarrow> rat" where
  "get_delay uniform c attempt =
     (if strategy c = RetryNone then 0
      else let base = base_delay c attempt;
               delay = min base (max_delay_seconds c);
               jitter_range = delay * jitter c
           in max 0 (delay + uniform (- jitter_range) jitter_range))"

definition should_retry :: "retry_config \<Rightarrow> exn \<Rightarrow> bool" where
  "should_retry c e =
     (if isinstance_of e (no_retry_on c) then False else isinstance_of e (retry_on c))"

section \<open>Step definitions\<close>

datatype func_outcome =
    FuncReturns "pydict option"
  | FuncRaises exn
  | FuncCancelled
  | FuncTimedOut

type_synonym 'w step_function = "exec_context \<Rightarrow> 'w \<Rightarrow> func_outcome \<times> exec_context \<times> 'w"
type_synonym 'w hook = "exec_context \<Rightarrow> 'w \<Rightarrow> exn option \<times> exec_context \<times> 'w"
type_synonym condition = "exec_context \<Rightarrow> exn + bool"

record verification_policy =
  vp_enabled :: bool
  vp_max_retries :: nat
  token_budget_pct :: rat
  verification_commands :: "string list"
  stop_on_first_failure :: bool
  escalation_strategy :: string
  min_token_floor :: int

record 'w step_definition =
  sd_name :: name
  sd_description :: string
  func :: "'w step_function option"
  sd_tier :: int
  timeout_seconds :: "rat option"
  retry :: retry_config
  cond_when :: "condition option"
  cond_unless :: "condition option"
  loop_until :: "string option"
  loop_max :: int
  depends_on :: "name list"
  input_mapping :: pydict
  output_mapping :: "(string \<times> string) list"
  input_contracts :: contracts
  output_contracts :: contracts
  pre_hooks :: "'w hook list"
  post_hooks :: "'w hook list"
  error_hooks :: "'w hook list"
  verify :: "verification_policy option"
  sd_tags :: "string list"
  sd_metadata :: pydict

datatype step_def_error = BadTimeout rat

definition validate_timeout_seconds :: "rat option \<Rightarrow> step_def_error + unit" where
  "validate_timeout_seconds s =
     (case s of None \<Rightarrow> Inr () | Some t \<Rightarrow> if t \<le> 0 then Inl (BadTimeout t) else Inr ())"

text \<open>\<open>StepDefinition(name)\<close> with every other field at its default.\<close>

definition new_step :: "name \<Rightarrow> 'w step_definition" where
  "new_step n =
     \<lparr>sd_name = n, sd_description = [], func = None, sd_tier = 0, timeout_seconds = None,
      retry = default_retry, cond_when = None, cond_unless = None, loop_until = None,
      loop_max = 3, depends_on = [], input_mapping = [], output_mapping = [],
      input_contracts = [], output_contracts = [], pre_hooks = [], post_hooks = [],
      error_hooks = [], verify = None, sd_tags = [], sd_metadata = []\<rparr>"

text \<open>The \<open>@step\<close> decorator: falsy arguments take the defaults, and the constructor
  validates the timeout.\<close>

definition step_decorator ::
  "name \<Rightarrow> string \<Rightarrow> string option \<Rightarrow> int \<Rightarrow> rat option \<Rightarrow> name list option \<Rightarrow> retry_config option
    \<Rightarrow> 'w step_function \<Rightarrow> step_def_error + 'w step_definition" where
  "step_decorator n descr doc tr timeout deps rc f =
     rbind (validate_timeout_seconds timeout) (\<lambda>_. Inr
       ((new_step n)\<lparr>sd_description := (if descr \<noteq> [] then descr
                                      else case doc of None \<Rightarrow> [] | Some d \<Rightarrow> d),
         func := Some f, sd_tier := tr, timeout_seconds := timeout,
         depends_on := (case deps of None \<Rightarrow> [] | Some ds \<Rightarrow> ds),
         retry := (case rc of None \<Rightarrow> default_retry | Some c \<Rightarrow> c)\<rparr>))"

definition with_retry :: "int \<Rightarrow> retry_strategy \<Rightarrow> rat \<Rightarrow> 'w step_definition \<Rightarrow> 'w step_definition" where
  "with_retry m strat base s =
     s\<lparr>retry := default_retry\<lparr>max_retries := m, strategy := strat, base_delay_seconds := base\<rparr>\<rparr>"

definition with_timeout :: "rat \<Rightarrow> 'w step_definition \<Rightarrow> step_def_error + 'w step_definition" where
  "with_timeout t s =
     rbind (validate_timeout_seconds (Some t)) (\<lambda>_. Inr (s\<lparr>timeout_seconds := Some t\<rparr>))"

definition with_dependency :: "name list \<Rightarrow> 'w step_definition \<Rightarrow> 'w step_definition" where
  "with_dependency ns s = s\<lparr>depends_on := depends_on s @ ns\<rparr>"

definition with_input :: "pydict \<Rightarrow> 'w step_definition \<Rightarrow> 'w step_definition" where
  "with_input m s = s\<lparr>input_mapping := dict_update (input_mapping s) m\<rparr>"

definition with_output :: "(string \<times> string) list \<Rightarrow> 'w step_definition \<Rightarrow> 'w step_definition" where
  "with_output m s = s\<lparr>output_mapping := dict_update (output_mapping s) m\<rparr>"

definition with_pre_hook :: "'w hook \<Rightarrow> 'w step_definition \<Rightarrow> 'w step_definition" where
  "with_pre_hook h s = s\<lparr>pre_hooks := pre_hooks s @ [h]\<rparr>"

definition with_post_hook :: "'w hook \<Rightarrow> 'w step_definition \<Rightarrow> 'w step_definition" where
  "with_post_hook h s = s\<lparr>post_hooks := post_hooks s @ [h]\<rparr>"

definition with_verify :: "verification_policy \<Rightarrow> 'w step_definition \<Rightarrow> 'w step_definition" where
  "with_verify p s = s\<lparr>verify := Some p\<rparr>"

text \<open>A condition that raises ends the test with its exception.\<close>

definition should_run :: "'w step_definition \<Rightarrow> exec_context \<Rightarrow> exn + bool" where
  "should_run s ctx =
     (if list_ex (\<lambda>dep. \<not> is_step_complete dep ctx \<or> is_step_failed dep ctx) (depends_on s)
      then Inr False
      else rbind (case cond_when s of None \<Rightarrow> Inr True | Some c \<Rightarrow> c ctx) (\<lambda>w.
        if \<not> w then Inr False
        else rbind (case cond_unless s of None \<Rightarrow> Inr False | Some c \<Rightarrow> c ctx) (\<lambda>u.
          Inr (\<not> u))))"

section \<open>Properties\<close>

text \<open>The delay stays within the jittered cap, whatever the attempt.\<close>

lemma base_delay_nonneg:
  "0 \<le> base_delay_seconds c \<Longrightarrow> 1 \<le> attempt \<Longrightarrow> 0 \<le> base_delay c attempt"
  by (auto simp: base_delay_def split: retry_strategy.split)

lemma get_delay_bounds:
  assumes "\<And>a b. a \<le> b \<Longrightarrow> a \<le> uniform a b \<and> uniform a b \<le> b"
    and "0 \<le> base_delay_seconds c" "0 \<le> max_delay_seconds c" "0 \<le> jitter c" "1 \<le> attempt"
  shows "0 \<le> get_delay uniform c attempt"
    and "get_delay uniform c attempt \<le> max_delay_seconds c * (1 + jitter c)"
proof -
  define d where "d = min (base_delay c attempt) (max_delay_seconds c)"
  have d: "0 \<le> d" "d \<le> max_delay_seconds c"
    using base_delay_nonneg [OF assms(2,5)] assms(3) by (auto simp: d_def)
  have j: "uniform (- (d * jitter c)) (d * jitter c) \<le> d * jitter c"
    using assms(1) [of "- (d * jitter c)" "d * jitter c"] d assms(4) by simp
  have "d + uniform (- (d * jitter c)) (d * jitter c) \<le> d * (1 + jitter c)"
    using j by (simp add: distrib_left)
  also have "\<dots> \<le> max_delay_seconds c * (1 + jitter c)"
    using d assms(4) by (intro mult_right_mono) auto
  finally have le: "d + uniform (- (d * jitter c)) (d * jitter c) \<le> max_delay_seconds c * (1 + jitter c)" .
  have cap: "0 \<le> max_delay_seconds c * (1 + jitter c)" using assms(3,4) by simp
  show "0 \<le> get_delay uniform c attempt"
    by (simp add: get_delay_def Let_def)
  show "get_delay uniform c attempt \<le> max_delay_seconds c * (1 + jitter c)"
    using le cap by (simp add: get_delay_def Let_def d_def)
qed

text \<open>Exponential backoff doubles until it meets the cap.\<close>

lemma exponential_doubles:
  "strategy c = RetryExponential \<Longrightarrow> base_delay c (attempt + 1) = 2 * base_delay c attempt"
  by (simp add: base_delay_def power_int_add power_int_diff)

lemma should_run_dependencies:
  "should_run s ctx = Inr True \<Longrightarrow> dep \<in> set (depends_on s) \<Longrightarrow>
     is_step_complete dep ctx \<and> \<not> is_step_failed dep ctx"
  by (auto simp: should_run_def list_ex_iff split: if_splits)

end
