(* ===== verification/Dag.thy ===== *)
theory Dag
  imports Step_Def
begin

text \<open>
  Workflow graphs of \<open>engine/dag.py\<close>: registration of steps, the three validation passes
  with the iterative three-colour depth-first search, Kahn's ordering, and the discovery of
  ready steps.
\<close>

section \<open>Model\<close>

record 'w dag =
  dag_name :: name
  dag_description :: string
  dag_steps :: "(name \<times> 'w step_definition) list"

datatype dag_error =
    StepExists name
  | NoSteps name
  | MissingDependency name name
  | CycleDetected "name list"
  | DagKeyError name

definition dag_add :: "'w step_definition \<Rightarrow> 'w dag \<Rightarrow> dag_error + 'w dag" where
  "dag_add s g =
     (if map_of (dag_steps g) (sd_name s) \<noteq> None then Inl (StepExists (sd_name s))
      else Inr (g\<lparr>dag_steps := AList.update (sd_name s) s (dag_steps g)\<rparr>))"

definition add_many :: "'w step_definition list \<Rightarrow> 'w dag \<Rightarrow> dag_error + 'w dag" where
  "add_many steps g = rfold dag_add steps g"

definition check_missing_dependencies :: "'w dag \<Rightarrow> dag_error + unit" where
  "check_missing_dependencies g =
     rfold (\<lambda>(n, s) _.
       rfold (\<lambda>dep _. if map_of (dag_steps g) dep = None then Inl (MissingDependency n dep)
                       else Inr ())
         (depends_on s) ())
       (dag_steps g) ()"

type_synonym adjacency = "(name \<times> name list) list"

definition adj_get :: "adjacency \<Rightarrow> name \<Rightarrow> name list" where
  "adj_get adj n = (case map_of adj n of None \<Rightarrow> [] | Some ns \<Rightarrow> ns)"

definition build_adjacency_list :: "'w dag \<Rightarrow> adjacency" where
  "build_adjacency_list g =
     fold (\<lambda>(n, s). fold (\<lambda>dep adj. AList.update dep (adj_get adj dep @ [n]) adj) (depends_on s))
       (dag_steps g) (map (\<lambda>(n, s). (n, [])) (dag_steps g))"

subsection \<open>Cycle detection\<close>

datatype color = White | Gray | Black

type_synonym dfs_stack = "(name \<times> name list) list"

text \<open>
  The \<open>while stack\<close> loop. The top of the Python stack is the head of the list; a frame is a
  gray node with the dependents its iterator has still to give.
\<close>

function dfs_loop ::
  "adjacency \<Rightarrow> (name \<times> color) list \<Rightarrow> dfs_stack \<Rightarrow> dag_error + (name \<times> color) list" where
  "dfs_loop adj col [] = Inr col"
| "dfs_loop adj col ((node, []) # st) = dfs_loop adj (AList.update node Black col) st"
| "dfs_loop adj col ((node, neighbor # rest) # st) =
     (case map_of col neighbor of
        None \<Rightarrow> Inl (DagKeyError neighbor)
      | Some Gray \<Rightarrow>
          (let path = rev (map fst ((node, rest) # st))
           in Inl (CycleDetected (dropWhile (\<lambda>x. x \<noteq> neighbor) path @ [neighbor])))
      | Some White \<Rightarrow>
          dfs_loop adj (AList.update neighbor Gray col)
            ((neighbor, adj_get adj neighbor) # (node, rest) # st)
      | Some Black \<Rightarrow> dfs_loop adj col ((node, rest) # st))"
  by pat_completeness auto
termination
proof (relation "inv_image (less_than <*lex*> less_than)
    (\<lambda>(_, col, st). (count_vals (\<lambda>c. c = White) col, sum_list (map (\<lambda>f. Suc (length (snd f))) st)))",
    goal_cases)
  case (2 adj col node st)
  have "count_vals (\<lambda>c. c = White) (AList.update node Black col) \<le> count_vals (\<lambda>c. c = White) col"
    by (rule count_vals_update_le) simp
  then show ?case by auto
next
  case (3 adj col node neighbor rest st x2)
  then have "count_vals (\<lambda>c. c = White) (AList.update neighbor Gray col) < count_vals (\<lambda>c. c = White) col"
    by (intro count_vals_update_less) auto
  then show ?case by auto
qed auto

definition detect_cycles :: "'w dag \<Rightarrow> adjacency \<Rightarrow> dag_error + unit" where
  "detect_cycles g adj =
     rbind (rfold (\<lambda>root col.
              case map_of col root of
                None \<Rightarrow> Inl (DagKeyError root)
              | Some c \<Rightarrow>
                  if c \<noteq> White then Inr col
                  else dfs_loop adj (AList.update root Gray col) [(root, adj_get adj root)])
             (map fst (dag_steps g)) (map (\<lambda>(n, s). (n, White)) (dag_steps g)))
       (\<lambda>_. Inr ())"

definition validate :: "'w dag \<Rightarrow> dag_error + unit" where
  "validate g =
     (if length (dag_steps g) = 0 then Inl (NoSteps (dag_name g))
      else rbind (check_missing_dependencies g) (\<lambda>_.
             detect_cycles g (build_adjacency_list g)))"

subsection \<open>Kahn's ordering\<close>

type_synonym degrees = "(name \<times> int) list"

definition initial_in_degree :: "'w dag \<Rightarrow> degrees" where
  "initial_in_degree g = map (\<lambda>(n, s). (n, int (length (depends_on s)))) (dag_steps g)"

definition initial_ready :: "degrees \<Rightarrow> name list" where
  "initial_ready deg = map fst (filter (\<lambda>nd. snd nd = 0) deg)"

text \<open>One pass of the loop over the dependents of a finished step.\<close>

definition count_down :: "name \<Rightarrow> degrees \<times> name list \<Rightarrow> dag_error + (degrees \<times> name list)" where
  "count_down d s =
     (case map_of (fst s) d of
        None \<Rightarrow> Inl (DagKeyError d)
      | Some k \<Rightarrow> Inr (AList.update d (k - 1) (fst s), if k - 1 = 0 then snd s @ [d] else snd s))"

definition kahn_measure :: "degrees \<Rightarrow> name list \<Rightarrow> nat" where
  "kahn_measure deg ready = length ready + count_vals (\<lambda>k. 0 < k) deg"

lemma count_down_measure:
  assumes "count_down d (deg, ready) = Inr (deg', ready')"
  shows "kahn_measure deg' ready' \<le> kahn_measure deg ready"
proof -
  from assms obtain k where k: "map_of deg d = Some k" "deg' = AList.update d (k - 1) deg"
      "ready' = (if k - 1 = 0 then ready @ [d] else ready)"
    by (auto simp: count_down_def split: option.splits)
  show ?thesis
  proof (cases "k = 1")
    case True
    with k have "Suc (count_vals (\<lambda>k. 0 < k) deg') = count_vals (\<lambda>k. 0 < k) deg"
      by (auto intro!: count_vals_update_Suc)
    with True k show ?thesis by (simp add: kahn_measure_def)
  next
    case False
    with k have "count_vals (\<lambda>k. 0 < k) deg' = count_vals (\<lambda>k. 0 < k) deg"
      by (auto intro!: count_vals_update_eq)
    with False k show ?thesis by (simp add: kahn_measure_def)
  qed
qed

lemma count_down_all_measure:
  "rfold count_down ds (deg, ready) = Inr (deg', ready') \<Longrightarrow>
     kahn_measure deg' ready' \<le> kahn_measure deg ready"
proof (induction ds arbitrary: deg ready)
  case (Cons d ds)
  then obtain deg1 ready1 where "count_down d (deg, ready) = Inr (deg1, ready1)"
      "rfold count_down ds (deg1, ready1) = Inr (deg', ready')"
    by (auto simp: result_simps)
  with Cons.IH count_down_measure show ?case by fastforce
qed simp

function kahn_loop ::
  "adjacency \<Rightarrow> degrees \<Rightarrow> name list \<Rightarrow> name list \<Rightarrow> dag_error + name list" where
  "kahn_loop adj deg [] order = Inr order"
| "kahn_loop adj deg (current # ready) order =
     rbind (rfold count_down (adj_get adj current) (deg, ready)) (\<lambda>s.
       kahn_loop adj (fst s) (snd s) (order @ [current]))"
  by pat_completeness auto
termination
proof (relation "measure (\<lambda>(_, deg, ready, _). kahn_measure deg ready)", goal_cases)
  case (2 adj deg current ready order s)
  then have "kahn_measure (fst s) (snd s) \<le> kahn_measure deg ready"
    using count_down_all_measure [of _ deg ready "fst s" "snd s"] by simp
  then show ?case by (simp add: kahn_measure_def)
qed simp

definition get_execution_order :: "'w dag \<Rightarrow> dag_error + name list" where
  "get_execution_order g =
     rbind (validate g) (\<lambda>_.
       let adj = build_adjacency_list g;
           deg = initial_in_degree g
       in rbind (kahn_loop adj deg (initial_ready deg) []) (\<lambda>order.
            if length order \<noteq> length (dag_steps g) then Inl (CycleDetected order)
            else Inr order))"

definition get_ready_steps :: "'w dag \<Rightarrow> name set \<Rightarrow> name list" where
  "get_ready_steps g completed =
     map fst (filter (\<lambda>(n, s). n \<notin> completed \<and> list_all (\<lambda>dep. dep \<in> completed) (depends_on s))
       (dag_steps g))"

definition get_dependents :: "'w dag \<Rightarrow> name \<Rightarrow> name list" where
  "get_dependents g n = adj_get (build_adjacency_list g) n"

end
