(* ===== verification/Dag_Props.thy ===== *)
theory Dag_Props
  imports Dag
begin

text \<open>
  Correctness of \<open>engine/dag.py\<close>: the adjacency list inverts \<open>depends_on\<close> with
  multiplicity, validation accepts exactly the nonempty, closed and acyclic graphs and
  reports genuine missing dependencies and cycles, and Kahn's loop returns a topological
  ordering of every validated graph.
\<close>

section \<open>Graphs\<close>

definition dag_nodes :: "'w dag \<Rightarrow> name list" where
  "dag_nodes g = map fst (dag_steps g)"

definition dag_deps :: "'w dag \<Rightarrow> name \<Rightarrow> name list" where
  "dag_deps g n = (case map_of (dag_steps g) n of None \<Rightarrow> [] | Some s \<Rightarrow> depends_on s)"

definition dag_edges :: "'w dag \<Rightarrow> (name \<times> name) set" where
  "dag_edges g = {(d, n). d \<in> set (dag_deps g n)}"

text \<open>The steps are a dict: every name once.\<close>

definition dag_wf :: "'w dag \<Rightarrow> bool" where
  "dag_wf g \<longleftrightarrow> distinct (map fst (dag_steps g))"

lemma dag_deps_member: "dag_wf g \<Longrightarrow> (n, s) \<in> set (dag_steps g) \<Longrightarrow> dag_deps g n = depends_on s"
  by (simp add: dag_deps_def dag_wf_def)

lemma dag_deps_nonempty: "d \<in> set (dag_deps g n) \<Longrightarrow> n \<in> set (dag_nodes g)"
  by (cases "map_of (dag_steps g) n")
     (auto simp: dag_deps_def dag_nodes_def dest: map_of_SomeD intro: rev_image_eqI)

lemma dag_edges_iff: "(d, n) \<in> dag_edges g \<longleftrightarrow> d \<in> set (dag_deps g n)"
  by (simp add: dag_edges_def)

lemma dag_add_wf: "dag_wf g \<Longrightarrow> dag_add s g = Inr g' \<Longrightarrow> dag_wf g'"
  by (auto simp: dag_add_def dag_wf_def distinct_update split: if_splits)

lemma add_many_wf: "dag_wf g \<Longrightarrow> add_many ss g = Inr g' \<Longrightarrow> dag_wf g'"
  unfolding add_many_def
  by (induction ss arbitrary: g) (auto simp: result_simps dest: dag_add_wf)

section \<open>Adjacency\<close>

lemma adj_get_update [simp]:
  "adj_get (AList.update k ns adj) m = (if m = k then ns else adj_get adj m)"
  by (simp add: adj_get_def)

lemma adj_inner:
  "adj_get (fold (\<lambda>dep adj. AList.update dep (adj_get adj dep @ [n]) adj) deps adj) m =
     adj_get adj m @ replicate (count_list deps m) n"
  by (induction deps arbitrary: adj) (auto simp: replicate_app_Cons_same)

lemma adj_outer:
  "adj_get (fold (\<lambda>(n, s). fold (\<lambda>dep adj. AList.update dep (adj_get adj dep @ [n]) adj) (depends_on s))
       steps adj) m =
     adj_get adj m @ concat (map (\<lambda>(n, s). replicate (count_list (depends_on s) m) n) steps)"
  by (induction steps arbitrary: adj) (auto simp: adj_inner)

lemma adj_get_initial: "adj_get (map (\<lambda>(n, s). (n, [])) steps) m = []"
  by (induction steps) (auto simp: adj_get_def)

lemma adj_get_build:
  "adj_get (build_adjacency_list g) m =
     concat (map (\<lambda>(n, s). replicate (count_list (depends_on s) m) n) (dag_steps g))"
  by (simp add: build_adjacency_list_def adj_outer adj_get_initial)

lemma count_list_replicate [simp]: "count_list (replicate k x) y = (if x = y then k else 0)"
  by (induction k) auto

lemma count_concat_replicate:
  "distinct (map fst steps) \<Longrightarrow>
     count_list (concat (map (\<lambda>(n, s). replicate (count_list (depends_on s) m) n) steps)) d =
       (case map_of steps d of None \<Rightarrow> 0 | Some s \<Rightarrow> count_list (depends_on s) m)"
proof (induction steps)
  case (Cons ns steps)
  obtain n s where ns: "ns = (n, s)" by fastforce
  have "d = n \<Longrightarrow> map_of steps d = None"
    using Cons.prems ns by (simp add: map_of_eq_None_iff)
  with Cons ns show ?case by auto
qed simp

lemma count_adjacency:
  "dag_wf g \<Longrightarrow> count_list (adj_get (build_adjacency_list g) n) d = count_list (dag_deps g d) n"
  by (simp add: adj_get_build dag_wf_def count_concat_replicate dag_deps_def split: option.split)

lemma adj_iff_edge:
  assumes "dag_wf g"
  shows "d \<in> set (adj_get (build_adjacency_list g) n) \<longleftrightarrow> (n, d) \<in> dag_edges g"
  using count_adjacency [OF assms, of n d] count_list_zero_iff [of "adj_get (build_adjacency_list g) n" d]
    count_list_zero_iff [of "dag_deps g d" n]
  by (auto simp: dag_edges_iff)

section \<open>Missing dependencies\<close>

lemma check_deps_Inr:
  "rfold (\<lambda>dep _. if Q dep then Inl (e dep) else Inr ()) deps () = Inr () \<longleftrightarrow> (\<forall>d\<in>set deps. \<not> Q d)"
  by (induction deps) auto

lemma check_missing_Inr:
  "check_missing_dependencies g = Inr () \<longleftrightarrow>
     (\<forall>(n, s)\<in>set (dag_steps g). \<forall>d\<in>set (depends_on s). d \<in> set (dag_nodes g))"
proof -
  have "rfold (\<lambda>(n, s) _.
       rfold (\<lambda>dep _. if map_of ss dep = None then Inl (MissingDependency n dep) else Inr ())
         (depends_on s) ()) xs () = Inr () \<longleftrightarrow>
     (\<forall>(n, s)\<in>set xs. \<forall>d\<in>set (depends_on s). map_of ss d \<noteq> None)"
    for ss :: "(name \<times> 'a step_definition) list" and xs :: "(name \<times> 'a step_definition) list"
    by (induction xs) (auto simp: result_simps check_deps_Inr simp del: not_None_eq)
  then show ?thesis
    by (auto simp: check_missing_dependencies_def dag_nodes_def map_of_eq_None_iff)
qed

lemma check_deps_Inl:
  "rfold (\<lambda>dep _. if Q dep then Inl (e dep) else Inr ()) deps () = Inl x \<Longrightarrow>
     \<exists>d\<in>set deps. Q d \<and> x = e d"
  by (induction deps) (auto split: if_splits)

lemma check_missing_Inl:
  assumes "check_missing_dependencies g = Inl e"
  shows "\<exists>n s d. e = MissingDependency n d \<and> (n, s) \<in> set (dag_steps g) \<and>
     d \<in> set (depends_on s) \<and> d \<notin> set (dag_nodes g)"
proof -
  have "rfold (\<lambda>(n, s) _.
       rfold (\<lambda>dep _. if map_of ss dep = None then Inl (MissingDependency n dep) else Inr ())
         (depends_on s) ()) xs () = Inl e \<Longrightarrow>
     \<exists>n s d. e = MissingDependency n d \<and> (n, s) \<in> set xs \<and> d \<in> set (depends_on s) \<and> map_of ss d = None"
    for ss :: "(name \<times> 'a step_definition) list" and xs :: "(name \<times> 'a step_definition) list"
  proof (induction xs)
    case (Cons a xs)
    obtain n s where a: "a = (n, s)" by fastforce
    from Cons.prems a consider
        "rfold (\<lambda>dep _. if map_of ss dep = None then Inl (MissingDependency n dep) else Inr ())
           (depends_on s) () = Inl e"
      | "rfold (\<lambda>(n, s) _.
           rfold (\<lambda>dep _. if map_of ss dep = None then Inl (MissingDependency n dep) else Inr ())
             (depends_on s) ()) xs () = Inl e"
      by (auto simp: result_simps)
    then show ?case
    proof cases
      case 1
      then show ?thesis using a by (auto dest!: check_deps_Inl)
    next
      case 2
      then show ?thesis using Cons.IH by auto
    qed
  qed simp
  from this [OF assms [unfolded check_missing_dependencies_def]] show ?thesis
    by (auto simp: dag_nodes_def map_of_eq_None_iff)
qed

section \<open>Cycle detection\<close>

definition nodes_of_color :: "color \<Rightarrow> (name \<times> color) list \<Rightarrow> name set" where
  "nodes_of_color c col = {n. map_of col n = Some c}"

definition adj_rel :: "adjacency \<Rightarrow> (name \<times> name) set" where
  "adj_rel adj = {(a, b). b \<in> set (adj_get adj a)}"

text \<open>A closed walk: the first node again at the end, an edge between neighbours.\<close>

definition is_cycle :: "(name \<times> name) set \<Rightarrow> name list \<Rightarrow> bool" where
  "is_cycle E p \<longleftrightarrow> 2 \<le> length p \<and> hd p = last p \<and> successively (\<lambda>a b. (a, b) \<in> E) p"

text \<open>
  The stack: every frame has passed only dependents that are black or the frame above it,
  and the frame above is one of its dependents.
\<close>

fun stack_ok :: "adjacency \<Rightarrow> name set \<Rightarrow> name set \<Rightarrow> dfs_stack \<Rightarrow> bool" where
  "stack_ok adj B ab [] = True"
| "stack_ok adj B ab ((x, rest) # st) =
     (set rest \<subseteq> set (adj_get adj x) \<and> ab \<subseteq> set (adj_get adj x) \<and>
      set (adj_get adj x) \<subseteq> set rest \<union> B \<union> ab \<and> stack_ok adj B {x} st)"

definition dfs_inv :: "adjacency \<Rightarrow> name set \<Rightarrow> (name \<times> color) list \<Rightarrow> dfs_stack \<Rightarrow> bool" where
  "dfs_inv adj V col st \<longleftrightarrow>
     (\<forall>n. map_of col n \<noteq> None \<longleftrightarrow> n \<in> V) \<and>
     nodes_of_color Gray col = set (map fst st) \<and> distinct (map fst st) \<and>
     stack_ok adj (nodes_of_color Black col) {} st \<and>
     (\<forall>b\<in>nodes_of_color Black col. set (adj_get adj b) \<subseteq> nodes_of_color Black col) \<and>
     acyclic (adj_rel adj \<inter> nodes_of_color Black col \<times> nodes_of_color Black col) \<and>
     (\<forall>v\<in>V. set (adj_get adj v) \<subseteq> V)"

lemma nodes_of_color_update:
  "nodes_of_color c (AList.update n c' col) =
     (if c = c' then insert n (nodes_of_color c col) else nodes_of_color c col - {n})"
  by (auto simp: nodes_of_color_def)

lemma stack_ok_mono:
  "stack_ok adj B ab st \<Longrightarrow> B \<subseteq> B' \<Longrightarrow> stack_ok adj B' ab st"
  by (induction adj B ab st rule: stack_ok.induct) auto

lemma stack_ok_pop:
  "stack_ok adj B {x} st \<Longrightarrow> stack_ok adj (insert x B) {} st"
  by (cases st) (auto intro: stack_ok_mono)

lemma stack_ok_path:
  "stack_ok adj B ab st \<Longrightarrow> successively (\<lambda>a b. (b, a) \<in> adj_rel adj) (map fst st)"
proof (induction st arbitrary: ab)
  case (Cons f st)
  obtain x rest where f: "f = (x, rest)" by fastforce
  with Cons have "successively (\<lambda>a b. (b, a) \<in> adj_rel adj) (map fst st)" by auto
  with Cons.prems f show ?case
    by (cases st) (auto simp: adj_rel_def)
qed simp

lemma dropWhile_hd: "x \<in> set xs \<Longrightarrow> dropWhile (\<lambda>y. y \<noteq> x) xs \<noteq> [] \<and> hd (dropWhile (\<lambda>y. y \<noteq> x) xs) = x"
  by (induction xs) auto

lemma successively_dropWhile: "successively P xs \<Longrightarrow> successively P (dropWhile Q xs)"
  by (induction xs) (auto simp: successively_Cons)

lemma gray_neighbor_cycle:
  assumes "dfs_inv adj V col ((node, neighbor # rest) # st)" "map_of col neighbor = Some Gray"
  shows "is_cycle (adj_rel adj)
    (dropWhile (\<lambda>x. x \<noteq> neighbor) (rev (map fst ((node, rest) # st))) @ [neighbor])"
proof -
  let ?path = "rev (node # map fst st)"
  let ?c = "dropWhile (\<lambda>x. x \<noteq> neighbor) ?path"
  have "neighbor \<in> set ?path"
    using assms by (auto simp: dfs_inv_def nodes_of_color_def)
  from dropWhile_hd [OF this] have c: "?c \<noteq> []" "hd ?c = neighbor" by blast+
  have "successively (\<lambda>a b. (b, a) \<in> adj_rel adj) (node # map fst st)"
    using assms(1) stack_ok_path [of adj _ "{}" "(node, neighbor # rest) # st"]
    by (auto simp: dfs_inv_def)
  then have "successively (\<lambda>a b. (a, b) \<in> adj_rel adj) ?path"
    by (simp only: successively_rev)
  then have suc: "successively (\<lambda>a b. (a, b) \<in> adj_rel adj) ?c"
    by (rule successively_dropWhile)
  have last: "last ?c = node" using c(1)
    by (metis last.simps last_appendR last_rev list.sel(1) list.simps(3) rev.simps(2)
        takeWhile_dropWhile_id)
  have "(node, neighbor) \<in> adj_rel adj"
    using assms(1) by (auto simp: dfs_inv_def adj_rel_def)
  with suc last c have "successively (\<lambda>a b. (a, b) \<in> adj_rel adj) (?c @ [neighbor])"
    by (simp add: successively_append_iff)
  moreover have "2 \<le> length (?c @ [neighbor])" "hd (?c @ [neighbor]) = last (?c @ [neighbor])"
    using c by (simp_all add: Suc_le_eq)
  ultimately show ?thesis by (simp add: is_cycle_def)
qed

lemma dfs_inv_top:
  assumes "dfs_inv adj V col ((node, r) # st)"
  shows "map_of col node = Some Gray" "node \<in> V"
proof -
  have "node \<in> nodes_of_color Gray col" using assms by (simp add: dfs_inv_def)
  then show g: "map_of col node = Some Gray" by (simp add: nodes_of_color_def)
  show "node \<in> V" using assms g unfolding dfs_inv_def by (metis option.distinct(1))
qed

lemma dfs_inv_neighbor:
  assumes "dfs_inv adj V col ((node, neighbor # rest) # st)"
  shows "neighbor \<in> V" "\<exists>c. map_of col neighbor = Some c"
proof -
  show V: "neighbor \<in> V"
    using assms dfs_inv_top(2) [OF assms] unfolding dfs_inv_def by auto
  then show "\<exists>c. map_of col neighbor = Some c"
    using assms unfolding dfs_inv_def by (metis not_None_eq)
qed

lemma dfs_inv_pop:
  assumes "dfs_inv adj V col ((node, []) # st)"
  shows "dfs_inv adj V (AList.update node Black col) st"
proof -
  let ?B = "nodes_of_color Black col"
  have black: "nodes_of_color Black (AList.update node Black col) = insert node ?B"
    and gray: "nodes_of_color Gray (AList.update node Black col) = set (map fst st)"
    using assms by (auto simp: nodes_of_color_update dfs_inv_def)
  have nb: "node \<notin> ?B" "set (adj_get adj node) \<subseteq> ?B" "map_of col node = Some Gray"
    using assms dfs_inv_top(1) [OF assms] by (auto simp: dfs_inv_def nodes_of_color_def)
  have "acyclic (adj_rel adj \<inter> insert node ?B \<times> insert node ?B)"
    using assms nb by (intro acyclic_add_source) (auto simp: dfs_inv_def adj_rel_def)
  moreover have "stack_ok adj (insert node ?B) {} st"
    using assms by (auto simp: dfs_inv_def intro: stack_ok_pop)
  ultimately show ?thesis
    using assms nb dfs_inv_top [OF assms] unfolding dfs_inv_def black gray by auto
qed

lemma dfs_inv_push:
  assumes "dfs_inv adj V col ((node, neighbor # rest) # st)" "map_of col neighbor = Some White"
  shows "dfs_inv adj V (AList.update neighbor Gray col)
    ((neighbor, adj_get adj neighbor) # (node, rest) # st)"
proof -
  have black: "nodes_of_color Black (AList.update neighbor Gray col) = nodes_of_color Black col"
    and fresh: "neighbor \<notin> nodes_of_color Gray col"
    using assms(2) by (auto simp: nodes_of_color_update nodes_of_color_def)
  show ?thesis
    using assms(1) fresh dfs_inv_neighbor(1) [OF assms(1)] unfolding dfs_inv_def black
    by (auto simp: nodes_of_color_update)
qed

lemma dfs_inv_skip:
  assumes "dfs_inv adj V col ((node, neighbor # rest) # st)" "map_of col neighbor = Some Black"
  shows "dfs_inv adj V col ((node, rest) # st)"
  using assms by (auto simp: dfs_inv_def nodes_of_color_def)

lemma dfs_loop_correct:
  "dfs_inv adj V col st \<Longrightarrow>
     (case dfs_loop adj col st of
        Inr col' \<Rightarrow> dfs_inv adj V col' [] \<and>
          nodes_of_color Black col \<union> set (map fst st) \<subseteq> nodes_of_color Black col'
      | Inl e \<Rightarrow> \<exists>p. e = CycleDetected p \<and> is_cycle (adj_rel adj) p)"
proof (induction adj col st rule: dfs_loop.induct)
  case (2 adj col node st)
  then show ?case
    using dfs_inv_pop [OF 2(2)] by (auto simp: nodes_of_color_update split: sum.splits)
next
  case (3 adj col node neighbor rest st)
  then obtain c where c: "map_of col neighbor = Some c"
    using dfs_inv_neighbor(2) by blast
  show ?case
  proof (cases c)
    case White
    with 3(1) c dfs_inv_push [OF 3(3)] show ?thesis
      by (auto simp: nodes_of_color_update split: sum.splits)
  next
    case Gray
    with c gray_neighbor_cycle [OF 3(3)] show ?thesis by (simp add: Let_def)
  next
    case Black
    with 3(2) c dfs_inv_skip [OF 3(3)] show ?thesis by (auto split: sum.splits)
  qed
qed simp

lemma dfs_inv_enter:
  assumes "dfs_inv adj V col []" "map_of col r0 = Some White" "r0 \<in> V"
  shows "dfs_inv adj V (AList.update r0 Gray col) [(r0, adj_get adj r0)]"
proof -
  have "nodes_of_color Black (AList.update r0 Gray col) = nodes_of_color Black col"
    using assms(2) by (auto simp: nodes_of_color_update nodes_of_color_def)
  with assms show ?thesis
    unfolding dfs_inv_def by (auto simp: nodes_of_color_update)
qed

definition visit_root ::
  "adjacency \<Rightarrow> name \<Rightarrow> (name \<times> color) list \<Rightarrow> dag_error + (name \<times> color) list" where
  "visit_root adj r0 col =
     (case map_of col r0 of
        None \<Rightarrow> Inl (DagKeyError r0)
      | Some c \<Rightarrow>
          if c \<noteq> White then Inr col
          else dfs_loop adj (AList.update r0 Gray col) [(r0, adj_get adj r0)])"

lemma visit_root_correct:
  assumes "dfs_inv adj V col []" "r0 \<in> V"
  shows "case visit_root adj r0 col of
      Inr col' \<Rightarrow> dfs_inv adj V col' [] \<and>
        insert r0 (nodes_of_color Black col) \<subseteq> nodes_of_color Black col'
    | Inl e \<Rightarrow> \<exists>p. e = CycleDetected p \<and> is_cycle (adj_rel adj) p"
proof -
  have no_gray: "nodes_of_color Gray col = {}" using assms(1) by (simp add: dfs_inv_def)
  obtain c where c: "map_of col r0 = Some c"
    using assms unfolding dfs_inv_def by (metis not_None_eq)
  show ?thesis
  proof (cases "c = White")
    case True
    have "nodes_of_color Black col \<subseteq> nodes_of_color Black (AList.update r0 Gray col)"
      using c True by (auto simp: nodes_of_color_update nodes_of_color_def)
    with dfs_loop_correct [OF dfs_inv_enter [OF assms(1) _ assms(2)]] c True show ?thesis
      by (auto simp: visit_root_def split: sum.splits)
  next
    case False
    with no_gray c have "c = Black" by (cases c) (auto simp: nodes_of_color_def)
    with c assms show ?thesis by (simp add: visit_root_def nodes_of_color_def)
  qed
qed

lemma visit_roots_correct:
  "dfs_inv adj V col [] \<Longrightarrow> set roots \<subseteq> V \<Longrightarrow>
     (case rfold (visit_root adj) roots col of
        Inr col' \<Rightarrow> dfs_inv adj V col' [] \<and>
          set roots \<union> nodes_of_color Black col \<subseteq> nodes_of_color Black col'
      | Inl e \<Rightarrow> \<exists>p. e = CycleDetected p \<and> is_cycle (adj_rel adj) p)"
proof (induction roots arbitrary: col)
  case (Cons r roots)
  from visit_root_correct [OF Cons.prems(1), of r] Cons.prems(2)
  have v: "case visit_root adj r col of
      Inr col' \<Rightarrow> dfs_inv adj V col' [] \<and>
        insert r (nodes_of_color Black col) \<subseteq> nodes_of_color Black col'
    | Inl e \<Rightarrow> \<exists>p. e = CycleDetected p \<and> is_cycle (adj_rel adj) p" by simp
  show ?case
  proof (cases "visit_root adj r col")
    case (Inl e)
    with v show ?thesis by simp
  next
    case (Inr col1)
    with v have c1: "dfs_inv adj V col1 []"
      and b: "insert r (nodes_of_color Black col) \<subseteq> nodes_of_color Black col1" by auto
    from Cons.IH [OF c1] Cons.prems(2) Inr b show ?thesis by (auto split: sum.splits)
  qed
qed simp

lemma detect_cycles_eq:
  "detect_cycles g adj =
     rbind (rfold (visit_root adj) (dag_nodes g) (map (\<lambda>(n, s). (n, White)) (dag_steps g))) (\<lambda>_. Inr ())"
proof -
  have "(\<lambda>r0 col. case map_of col r0 of
                None \<Rightarrow> Inl (DagKeyError r0)
              | Some c \<Rightarrow>
                  if c \<noteq> White then Inr col
                  else dfs_loop adj (AList.update r0 Gray col) [(r0, adj_get adj r0)]) =
        visit_root adj"
    by (intro ext) (simp add: visit_root_def)
  then show ?thesis by (simp add: detect_cycles_def dag_nodes_def)
qed

lemma map_of_const_map: "map_of (map (\<lambda>(n, s). (n, c)) xs) k = (if k \<in> fst ` set xs then Some c else None)"
  by (induction xs) auto

lemma dfs_inv_initial:
  assumes "\<And>v. v \<in> set (dag_nodes g) \<Longrightarrow> set (adj_get adj v) \<subseteq> set (dag_nodes g)"
  shows "dfs_inv adj (set (dag_nodes g)) (map (\<lambda>(n, s). (n, White)) (dag_steps g)) []"
  using assms by (auto simp: dfs_inv_def dag_nodes_def nodes_of_color_def map_of_const_map acyclic_def)

section \<open>Validation\<close>

definition dag_closed :: "'w dag \<Rightarrow> bool" where
  "dag_closed g \<longleftrightarrow> (\<forall>n d. d \<in> set (dag_deps g n) \<longrightarrow> d \<in> set (dag_nodes g))"

lemma dag_closed_iff:
  assumes "dag_wf g"
  shows "dag_closed g \<longleftrightarrow> check_missing_dependencies g = Inr ()"
proof -
  have "dag_closed g \<longleftrightarrow> (\<forall>n d. n \<in> set (dag_nodes g) \<longrightarrow> d \<in> set (dag_deps g n) \<longrightarrow> d \<in> set (dag_nodes g))"
    by (auto simp: dag_closed_def dest: dag_deps_nonempty)
  also have "\<dots> \<longleftrightarrow> (\<forall>(n, s)\<in>set (dag_steps g). \<forall>d\<in>set (depends_on s). d \<in> set (dag_nodes g))"
    using dag_deps_member [OF assms] by (force simp: dag_nodes_def)
  finally show ?thesis by (simp add: check_missing_Inr)
qed

lemma adj_rel_build: "dag_wf g \<Longrightarrow> adj_rel (build_adjacency_list g) = dag_edges g"
  by (auto simp: adj_rel_def adj_iff_edge)

lemma cycle_trancl: "successively (\<lambda>a b. (a, b) \<in> E) (x # xs) \<Longrightarrow> xs \<noteq> [] \<Longrightarrow> (x, last xs) \<in> E\<^sup>+"
proof (induction xs arbitrary: x)
  case (Cons y ys)
  then show ?case by (cases ys) (auto intro: trancl_into_trancl2)
qed simp

lemma is_cycle_not_acyclic: "is_cycle E p \<Longrightarrow> \<not> acyclic E"
proof -
  assume c: "is_cycle E p"
  then obtain x xs where p: "p = x # xs" "xs \<noteq> []"
    by (cases p; cases "tl p") (auto simp: is_cycle_def)
  with c have "(x, x) \<in> E\<^sup>+"
    using cycle_trancl [of E x xs] by (auto simp: is_cycle_def)
  then show ?thesis by (auto simp: acyclic_def)
qed

lemma detect_cycles_correct:
  assumes "dag_wf g"
  shows "case detect_cycles g (build_adjacency_list g) of
      Inr _ \<Rightarrow> acyclic (dag_edges g)
    | Inl e \<Rightarrow> \<exists>p. e = CycleDetected p \<and> is_cycle (dag_edges g) p"
proof -
  let ?adj = "build_adjacency_list g"
  let ?V = "set (dag_nodes g)"
  have V: "set (adj_get ?adj v) \<subseteq> ?V" for v
    using adj_iff_edge [OF assms] by (auto simp: dag_edges_iff intro: dag_deps_nonempty)
  from visit_roots_correct [OF dfs_inv_initial [OF V] subset_refl]
  have r: "case rfold (visit_root ?adj) (dag_nodes g) (map (\<lambda>(n, s). (n, White)) (dag_steps g)) of
        Inr col' \<Rightarrow> dfs_inv ?adj ?V col' [] \<and> ?V \<subseteq> nodes_of_color Black col'
      | Inl e \<Rightarrow> \<exists>p. e = CycleDetected p \<and> is_cycle (dag_edges g) p"
    by (auto simp: adj_rel_build [OF assms] split: sum.splits)
  show ?thesis
  proof (cases "rfold (visit_root ?adj) (dag_nodes g) (map (\<lambda>(n, s). (n, White)) (dag_steps g))")
    case (Inl e)
    with r show ?thesis by (simp add: detect_cycles_eq)
  next
    case (Inr col')
    let ?B = "nodes_of_color Black col'"
    from Inr r have inv: "dfs_inv ?adj ?V col' []" and sub: "?V \<subseteq> ?B" by auto
    have closed: "y \<in> ?B" if "(x, y) \<in> dag_edges g" for x y
      using that sub by (auto simp: dag_edges_iff dest: dag_deps_nonempty)
    have "acyclic (dag_edges g \<inter> ?B \<times> ?B)"
      using inv by (simp add: dfs_inv_def adj_rel_build [OF assms])
    moreover have "x \<in> ?B" if "(x, x) \<in> (dag_edges g)\<^sup>+" for x
      using that closed by (auto elim: tranclE)
    moreover have "(x, y) \<in> (dag_edges g \<inter> ?B \<times> ?B)\<^sup>+ \<and> y \<in> ?B" if "(x, y) \<in> (dag_edges g)\<^sup>+" "x \<in> ?B" for x y
      using that
    proof (induction rule: trancl_induct)
      case (base y)
      then show ?case using closed by blast
    next
      case (step y z)
      then have "(y, z) \<in> dag_edges g \<inter> ?B \<times> ?B" using closed by blast
      with step show ?case by (auto intro: trancl_into_trancl)
    qed
    ultimately have "acyclic (dag_edges g)" unfolding acyclic_def by blast
    with Inr show ?thesis by (simp add: detect_cycles_eq)
  qed
qed

lemma validate_Inr_iff:
  assumes "dag_wf g"
  shows "validate g = Inr () \<longleftrightarrow> dag_steps g \<noteq> [] \<and> dag_closed g \<and> acyclic (dag_edges g)"
  using detect_cycles_correct [OF assms] dag_closed_iff [OF assms]
  by (auto simp: validate_def result_simps split: sum.splits dest: is_cycle_not_acyclic)

lemma validate_Inl:
  assumes "dag_wf g" "validate g = Inl e"
  shows "(dag_steps g = [] \<and> e = NoSteps (dag_name g)) \<or>
    (\<exists>n d. e = MissingDependency n d \<and> d \<in> set (dag_deps g n) \<and> d \<notin> set (dag_nodes g)) \<or>
    (\<exists>p. e = CycleDetected p \<and> is_cycle (dag_edges g) p)"
proof (cases "dag_steps g = []")
  case True
  with assms(2) show ?thesis by (simp add: validate_def)
next
  case False
  with assms(2) consider "check_missing_dependencies g = Inl e"
    | "detect_cycles g (build_adjacency_list g) = Inl e"
    by (auto simp: validate_def result_simps)
  then show ?thesis
  proof cases
    case 1
    from check_missing_Inl [OF this] dag_deps_member [OF assms(1)] show ?thesis by metis
  next
    case 2
    with detect_cycles_correct [OF assms(1)] show ?thesis by simp
  qed
qed

section \<open>The interface of a validated graph\<close>

text \<open>
  What an ordering or a scheduler relies on: the dependencies of a task are tasks, and no
  task depends on itself through others.
\<close>

locale task_graph =
  fixes valid :: "'g \<Rightarrow> bool" and nodes :: "'g \<Rightarrow> 'n list" and deps :: "'g \<Rightarrow> 'n \<Rightarrow> 'n list"
  assumes deps_closed: "valid g \<Longrightarrow> d \<in> set (deps g n) \<Longrightarrow> d \<in> set (nodes g) \<and> n \<in> set (nodes g)"
    and deps_acyclic: "valid g \<Longrightarrow> acyclic {(d, n). d \<in> set (deps g n)}"
begin

lemma edges_finite: "valid g \<Longrightarrow> finite {(d, n). d \<in> set (deps g n)}"
  by (rule finite_subset [of _ "set (nodes g) \<times> set (nodes g)"]) (auto dest: deps_closed)

lemma edges_wf: "valid g \<Longrightarrow> wf {(d, n). d \<in> set (deps g n)}"
  by (simp add: finite_acyclic_wf edges_finite deps_acyclic)

text \<open>Some unfinished task waits for nothing unfinished.\<close>

lemma unblocked:
  assumes "valid g" "n \<in> set (nodes g)" "n \<notin> S"
  shows "\<exists>m. m \<in> set (nodes g) \<and> m \<notin> S \<and> set (deps g m) \<subseteq> S"
proof -
  from acyclic_minimal [OF edges_finite [OF assms(1)] deps_acyclic [OF assms(1)],
      of n "set (nodes g) - S"] assms(2,3)
  obtain m where "m \<in> set (nodes g) - S" "\<forall>z. z \<in> set (deps g m) \<longrightarrow> z \<notin> set (nodes g) - S"
    by auto
  with deps_closed [OF assms(1)] show ?thesis by blast
qed

text \<open>Induction along the dependencies.\<close>

lemma deps_induct [consumes 1, case_names step]:
  assumes "valid g" "\<And>n. (\<And>d. d \<in> set (deps g n) \<Longrightarrow> P d) \<Longrightarrow> P n"
  shows "P n"
  using edges_wf [OF assms(1)]
proof (induction n)
  case (less n)
  then show ?case using assms(2) by blast
qed

lemma not_self_dependent: "valid g \<Longrightarrow> n \<notin> set (deps g n)"
  using deps_acyclic [of g] by (auto simp: acyclic_def)

end

definition valid_dag :: "'w dag \<Rightarrow> bool" where
  "valid_dag g \<longleftrightarrow> dag_wf g \<and> validate g = Inr ()"

interpretation dag_graph: task_graph valid_dag dag_nodes dag_deps
proof
  fix g :: "'a dag" and d n
  assume v: "valid_dag g"
  then show "acyclic {(d, n). d \<in> set (dag_deps g n)}"
    using validate_Inr_iff [of g] by (auto simp: valid_dag_def dag_edges_def)
  show "d \<in> set (dag_deps g n) \<Longrightarrow> d \<in> set (dag_nodes g) \<and> n \<in> set (dag_nodes g)"
    using v validate_Inr_iff [of g] by (auto simp: valid_dag_def dag_closed_def dest: dag_deps_nonempty)
qed

section \<open>Counting down\<close>

lemma count_down_all:
  assumes "\<And>d. d \<in> set ds \<Longrightarrow> \<exists>k. map_of deg d = Some k \<and> int (count_list ds d) \<le> k"
  shows "\<exists>deg' new. rfold count_down ds (deg, ready) = Inr (deg', ready @ new) \<and>
    (\<forall>n. map_of deg' n = map_option (\<lambda>k. k - int (count_list ds n)) (map_of deg n)) \<and>
    distinct new \<and> set new = {d \<in> set ds. map_of deg d = Some (int (count_list ds d))}"
  using assms
proof (induction ds arbitrary: deg ready)
  case Nil
  have "map_of deg n = map_option (\<lambda>k. k - int (count_list [] n)) (map_of deg n)" for n
    by (cases "map_of deg n") auto
  then show ?case by simp
next
  case (Cons d ds)
  obtain k where k: "map_of deg d = Some k" "1 + int (count_list ds d) \<le> k"
    using Cons.prems [of d] by auto
  define deg1 where "deg1 = AList.update d (k - 1) deg"
  define new1 where "new1 = (if k = 1 then [d] else [])"
  have step: "count_down d (deg, ready) = Inr (deg1, ready @ new1)"
    by (simp add: count_down_def k deg1_def new1_def)
  have pre: "\<exists>k. map_of deg1 x = Some k \<and> int (count_list ds x) \<le> k" if "x \<in> set ds" for x
    using Cons.prems [of x] that k by (cases "x = d") (auto simp: deg1_def)
  from Cons.IH [OF pre, of "ready @ new1"] obtain deg' new where
    rest: "rfold count_down ds (deg1, ready @ new1) = Inr (deg', (ready @ new1) @ new)"
    and deg': "\<forall>n. map_of deg' n = map_option (\<lambda>k. k - int (count_list ds n)) (map_of deg1 n)"
    and new: "distinct new" "set new = {x \<in> set ds. map_of deg1 x = Some (int (count_list ds x))}"
    by blast
  have "rfold count_down (d # ds) (deg, ready) = Inr (deg', ready @ (new1 @ new))"
    using step rest by simp
  moreover have "\<forall>n. map_of deg' n = map_option (\<lambda>k. k - int (count_list (d # ds) n)) (map_of deg n)"
    using deg' k by (auto simp: deg1_def)
  moreover have one: "k = 1 \<Longrightarrow> d \<notin> set ds"
    using k count_list_zero_iff [of ds d] by simp
  then have "distinct (new1 @ new)"
    using new by (auto simp: new1_def)
  moreover have "set (new1 @ new) = {x \<in> set (d # ds). map_of deg x = Some (int (count_list (d # ds) x))}"
  proof (rule set_eqI)
    fix x
    show "x \<in> set (new1 @ new) \<longleftrightarrow>
        x \<in> {x \<in> set (d # ds). map_of deg x = Some (int (count_list (d # ds) x))}"
    proof (cases "x = d")
      case True
      have "k = 1 + int (count_list ds d) \<longleftrightarrow> k = 1 \<or> (d \<in> set ds \<and> k = 1 + int (count_list ds d))"
        using k(2) count_list_zero_iff [of ds d] by auto
      with True k new(2) show ?thesis by (auto simp: new1_def deg1_def)
    next
      case False
      with new(2) show ?thesis by (auto simp: new1_def deg1_def)
    qed
  qed
  ultimately show ?case by blast
qed

lemma length_filter_insert:
  assumes "c \<notin> S"
  shows "length (filter (\<lambda>d. d \<notin> S) xs) =
    length (filter (\<lambda>d. d \<notin> insert c S) xs) + count_list xs c"
  using assms by (induction xs) auto

section \<open>Kahn's ordering\<close>

definition topo_order :: "'w dag \<Rightarrow> name list \<Rightarrow> bool" where
  "topo_order g order \<longleftrightarrow> distinct order \<and> set order = set (dag_nodes g) \<and>
     (\<forall>i<length order. set (dag_deps g (order ! i)) \<subseteq> set (take i order))"

text \<open>Unfinished dependencies of a step, counted with multiplicity.\<close>

definition pending_deps :: "'w dag \<Rightarrow> name set \<Rightarrow> name \<Rightarrow> nat" where
  "pending_deps g S n = length (filter (\<lambda>d. d \<notin> S) (dag_deps g n))"

lemma pending_deps_zero: "pending_deps g S n = 0 \<longleftrightarrow> set (dag_deps g n) \<subseteq> S"
  by (auto simp: pending_deps_def filter_empty_conv)

lemma pending_deps_insert:
  "c \<notin> S \<Longrightarrow> pending_deps g S n = pending_deps g (insert c S) n + count_list (dag_deps g n) c"
  unfolding pending_deps_def by (rule length_filter_insert)

definition kahn_inv :: "'w dag \<Rightarrow> name list \<Rightarrow> degrees \<Rightarrow> name list \<Rightarrow> bool" where
  "kahn_inv g order deg ready \<longleftrightarrow>
     distinct (order @ ready) \<and>
     (\<forall>n. map_of deg n = (if n \<in> set (dag_nodes g) then Some (int (pending_deps g (set order) n)) else None)) \<and>
     set (order @ ready) = {n \<in> set (dag_nodes g). set (dag_deps g n) \<subseteq> set order} \<and>
     (\<forall>i<length order. set (dag_deps g (order ! i)) \<subseteq> set (take i order))"

lemma kahn_inv_step:
  assumes "dag_wf g" "kahn_inv g order deg (c # ready)"
  shows "\<exists>deg' ready'. rfold count_down (adj_get (build_adjacency_list g) c) (deg, ready) = Inr (deg', ready')
    \<and> kahn_inv g (order @ [c]) deg' ready'"
proof -
  let ?ds = "adj_get (build_adjacency_list g) c"
  let ?S = "insert c (set order)"
  have c: "c \<notin> set order" "set (dag_deps g c) \<subseteq> set order" "c \<in> set (dag_nodes g)"
    using assms(2) by (auto simp: kahn_inv_def)
  have deg: "map_of deg n = (if n \<in> set (dag_nodes g) then Some (int (pending_deps g (set order) n)) else None)" for n
    using assms(2) by (simp add: kahn_inv_def)
  have cnt: "count_list ?ds n = count_list (dag_deps g n) c" for n
    by (rule count_adjacency [OF assms(1)])
  have ds: "n \<in> set ?ds \<longleftrightarrow> c \<in> set (dag_deps g n)" for n
    by (simp add: adj_iff_edge [OF assms(1)] dag_edges_iff)
  have pend: "pending_deps g (set order) n = pending_deps g ?S n + count_list ?ds n" for n
    using pending_deps_insert [OF c(1)] cnt by simp
  have "\<exists>k. map_of deg d = Some k \<and> int (count_list ?ds d) \<le> k" if "d \<in> set ?ds" for d
    using that ds dag_deps_nonempty deg pend by auto
  from count_down_all [OF this, of ready] obtain deg' new where
    fold: "rfold count_down ?ds (deg, ready) = Inr (deg', ready @ new)"
    and deg': "\<forall>n. map_of deg' n = map_option (\<lambda>k. k - int (count_list ?ds n)) (map_of deg n)"
    and new: "distinct new" "set new = {d \<in> set ?ds. map_of deg d = Some (int (count_list ?ds d))}"
    by blast
  have new_iff: "n \<in> set new \<longleftrightarrow> c \<in> set (dag_deps g n) \<and> set (dag_deps g n) \<subseteq> ?S" for n
    using new(2) ds deg pend pending_deps_zero [of g ?S n] dag_deps_nonempty [of c g n] by auto
  have old: "set order \<union> insert c (set ready) = {n \<in> set (dag_nodes g). set (dag_deps g n) \<subseteq> set order}"
    using assms(2) by (auto simp: kahn_inv_def)
  have "set (order @ [c]) \<union> set (ready @ new) = {n \<in> set (dag_nodes g). set (dag_deps g n) \<subseteq> ?S}"
  proof (intro equalityI subsetI)
    fix n assume "n \<in> set (order @ [c]) \<union> set (ready @ new)"
    then consider "n \<in> set order \<union> insert c (set ready)" | "n \<in> set new" by auto
    then show "n \<in> {n \<in> set (dag_nodes g). set (dag_deps g n) \<subseteq> ?S}"
      using old new_iff [of n] dag_deps_nonempty [of c g n] by cases auto
  next
    fix n assume n: "n \<in> {n \<in> set (dag_nodes g). set (dag_deps g n) \<subseteq> ?S}"
    show "n \<in> set (order @ [c]) \<union> set (ready @ new)"
    proof (cases "c \<in> set (dag_deps g n)")
      case True
      with n new_iff [of n] show ?thesis by simp
    next
      case False
      with n have "n \<in> set order \<union> insert c (set ready)" unfolding old by auto
      then show ?thesis by auto
    qed
  qed
  moreover have "set new \<inter> (set order \<union> insert c (set ready)) = {}"
    using new_iff c(1) unfolding old by auto
  then have "distinct ((order @ [c]) @ ready @ new)"
    using assms(2) new(1) by (auto simp: kahn_inv_def)
  moreover have "\<forall>n. map_of deg' n = (if n \<in> set (dag_nodes g) then Some (int (pending_deps g ?S n)) else None)"
    using deg' deg pend by auto
  moreover have "\<forall>i<length (order @ [c]). set (dag_deps g ((order @ [c]) ! i)) \<subseteq> set (take i (order @ [c]))"
    using assms(2) c(2) by (auto simp: kahn_inv_def nth_append less_Suc_eq)
  ultimately have "kahn_inv g (order @ [c]) deg' (ready @ new)"
    by (simp add: kahn_inv_def)
  with fold show ?thesis by blast
qed

lemma kahn_loop_correct:
  assumes "dag_wf g"
  shows "kahn_inv g order deg ready \<Longrightarrow>
    \<exists>order' deg'. kahn_loop (build_adjacency_list g) deg ready order = Inr order' \<and> kahn_inv g order' deg' []"
proof (induction "kahn_measure deg ready" arbitrary: order deg ready rule: less_induct)
  case less
  show ?case
  proof (cases ready)
    case Nil
    with less.prems show ?thesis by auto
  next
    case (Cons c rest)
    from kahn_inv_step [OF assms less.prems [unfolded Cons]] obtain deg' ready' where
      s: "rfold count_down (adj_get (build_adjacency_list g) c) (deg, rest) = Inr (deg', ready')"
      "kahn_inv g (order @ [c]) deg' ready'" by blast
    have "kahn_measure deg' ready' < kahn_measure deg ready"
      using count_down_all_measure [OF s(1)] Cons by (simp add: kahn_measure_def)
    from less.hyps [OF this s(2)] s(1) Cons show ?thesis by auto
  qed
qed

lemma kahn_inv_complete:
  assumes "valid_dag g" "kahn_inv g order deg []"
  shows "topo_order g order"
proof -
  have "set (dag_nodes g) \<subseteq> set order"
  proof
    fix n assume "n \<in> set (dag_nodes g)"
    then show "n \<in> set order"
      using dag_graph.unblocked [OF assms(1), of n "set order"] assms(2)
      by (auto simp: kahn_inv_def)
  qed
  with assms(2) show ?thesis by (auto simp: topo_order_def kahn_inv_def)
qed

lemma map_of_initial_in_degree:
  "dag_wf g \<Longrightarrow> map_of (initial_in_degree g) n =
     (if n \<in> set (dag_nodes g) then Some (int (length (dag_deps g n))) else None)"
  by (cases "map_of (dag_steps g) n")
     (auto simp: initial_in_degree_def dag_nodes_def dag_deps_def map_of_map map_of_eq_None_iff
       dest: map_of_SomeD intro: rev_image_eqI)

lemma set_initial_ready:
  assumes "dag_wf g"
  shows "set (initial_ready (initial_in_degree g)) = {n \<in> set (dag_nodes g). dag_deps g n = []}"
proof -
  have "map_of (initial_in_degree g) n = Some 0 \<longleftrightarrow> n \<in> set (dag_nodes g) \<and> dag_deps g n = []" for n
    by (simp add: map_of_initial_in_degree [OF assms])
  moreover have "n \<in> set (initial_ready (initial_in_degree g)) \<longleftrightarrow>
      map_of (initial_in_degree g) n = Some 0" for n
    using assms
    by (auto simp: initial_ready_def dag_wf_def initial_in_degree_def comp_def case_prod_beta'
        map_of_eq_Some_iff image_iff)
  ultimately show ?thesis by blast
qed

lemma distinct_initial_ready: "dag_wf g \<Longrightarrow> distinct (initial_ready (initial_in_degree g))"
  unfolding initial_ready_def
  by (rule distinct_filter_keys) (simp add: initial_in_degree_def dag_wf_def comp_def case_prod_beta')

lemma kahn_inv_initial:
  "dag_wf g \<Longrightarrow> kahn_inv g [] (initial_in_degree g) (initial_ready (initial_in_degree g))"
  by (auto simp: kahn_inv_def map_of_initial_in_degree set_initial_ready distinct_initial_ready
      pending_deps_def)

lemma topo_order_length:
  assumes "dag_wf g" "topo_order g order"
  shows "length order = length (dag_steps g)"
proof -
  have "length order = card (set (dag_nodes g))"
    using assms(2) distinct_card by (fastforce simp: topo_order_def)
  also have "\<dots> = length (dag_steps g)"
    using assms(1) distinct_card [of "dag_nodes g"] by (simp add: dag_wf_def dag_nodes_def)
  finally show ?thesis .
qed

lemma execution_order_valid:
  assumes "valid_dag g"
  shows "\<exists>order. get_execution_order g = Inr order \<and> topo_order g order"
proof -
  have wf: "dag_wf g" using assms by (simp add: valid_dag_def)
  from kahn_loop_correct [OF wf kahn_inv_initial [OF wf]] obtain order deg where
    o: "kahn_loop (build_adjacency_list g) (initial_in_degree g)
          (initial_ready (initial_in_degree g)) [] = Inr order" "kahn_inv g order deg []" by blast
  from kahn_inv_complete [OF assms o(2)] have topo: "topo_order g order" .
  with o(1) assms topo_order_length [OF wf topo] show ?thesis
    by (simp add: get_execution_order_def valid_dag_def)
qed

lemma execution_order_Inr_valid:
  "dag_wf g \<Longrightarrow> get_execution_order g = Inr order \<Longrightarrow> valid_dag g"
  by (auto simp: get_execution_order_def valid_dag_def result_simps)

section \<open>Ready steps\<close>

lemma set_get_ready_steps:
  assumes "dag_wf g"
  shows "set (get_ready_steps g S) = {n \<in> set (dag_nodes g). n \<notin> S \<and> set (dag_deps g n) \<subseteq> S}"
proof -
  have "n \<in> set (get_ready_steps g S) \<longleftrightarrow>
      (\<exists>s. (n, s) \<in> set (dag_steps g) \<and> n \<notin> S \<and> set (depends_on s) \<subseteq> S)" for n
    by (auto simp: get_ready_steps_def list_all_iff image_iff)
  also have "\<dots> n \<longleftrightarrow> n \<in> set (dag_nodes g) \<and> n \<notin> S \<and> set (dag_deps g n) \<subseteq> S" for n
    using dag_deps_member [OF assms, of n] by (auto simp: dag_nodes_def intro: rev_image_eqI)
  finally show ?thesis by blast
qed

section \<open>Properties\<close>

text \<open>A graph to evaluate the definitions on: a diamond with a doubled edge.\<close>

definition mk_step :: "name \<Rightarrow> name list \<Rightarrow> unit step_definition" where
  "mk_step n ds = (new_step n)\<lparr>depends_on := ds\<rparr>"

definition diamond :: "unit dag" where
  "diamond = \<lparr>dag_name = ''diamond'', dag_description = [],
     dag_steps = [(''d'', mk_step ''d'' [''b'', ''c'']), (''b'', mk_step ''b'' [''a'']),
                  (''c'', mk_step ''c'' [''a'', ''a'']), (''a'', mk_step ''a'' [])]\<rparr>"

lemma diamond_valid: "valid_dag diamond"
proof -
  have "dag_wf diamond" by (simp add: dag_wf_def diamond_def)
  moreover have "validate diamond = Inr ()" by code_simp
  ultimately show ?thesis by (simp add: valid_dag_def)
qed

text \<open>
  C1. Kahn's loop orders every validated graph: \<open>get_execution_order\<close> returns normally, and
  the list it returns has every step once, each after all steps it depends on. In
  particular its final defensive cycle error is never raised.
\<close>

theorem get_execution_order_topological:
  assumes "dag_wf g" "validate g = Inr ()"
  shows "\<exists>order. get_execution_order g = Inr order \<and> distinct order \<and>
    set order = set (dag_nodes g) \<and>
    (\<forall>i<length order. set (dag_deps g (order ! i)) \<subseteq> set (take i order))"
  using execution_order_valid [of g] assms by (auto simp: valid_dag_def topo_order_def)

theorem get_execution_order_topological_witness:
  "\<exists>order. get_execution_order diamond = Inr order \<and> distinct order \<and> set order = set (dag_nodes diamond)"
  using get_execution_order_topological [of diamond] diamond_valid by (auto simp: valid_dag_def)

text \<open>
  C2. Validation is sound and complete: \<open>validate\<close> returns normally exactly for the graphs
  that have steps, whose dependencies are all registered and whose dependency relation is
  acyclic. The three-colour search neither misses a cycle nor rejects an acyclic graph.
\<close>

theorem validate_sound_complete:
  assumes "dag_wf g"
  shows "validate g = Inr () \<longleftrightarrow>
    dag_steps g \<noteq> [] \<and> (\<forall>n d. d \<in> set (dag_deps g n) \<longrightarrow> d \<in> set (dag_nodes g)) \<and>
    acyclic (dag_edges g)"
  using validate_Inr_iff [OF assms] by (simp add: dag_closed_def)

theorem validate_sound_complete_witness:
  "acyclic (dag_edges diamond)"
  using validate_sound_complete [of diamond] diamond_valid by (simp add: valid_dag_def)

text \<open>
  C3. What validation reports is true of the graph: an empty graph, a step with a dependency
  that is not registered, or a path of at least two nodes that ends where it starts and
  follows a dependency edge at every step. No other exception (no \<open>KeyError\<close> on the
  colours) is possible.
\<close>

theorem validate_errors_genuine:
  assumes "dag_wf g" "validate g = Inl e"
  shows "(dag_steps g = [] \<and> e = NoSteps (dag_name g)) \<or>
    (\<exists>n d. e = MissingDependency n d \<and> d \<in> set (dag_deps g n) \<and> d \<notin> set (dag_nodes g)) \<or>
    (\<exists>p. e = CycleDetected p \<and> 2 \<le> length p \<and> hd p = last p \<and>
       successively (\<lambda>a b. (a, b) \<in> dag_edges g) p)"
  using validate_Inl [OF assms] by (auto simp: is_cycle_def)

definition triangle :: "unit dag" where
  "triangle = \<lparr>dag_name = ''t'', dag_description = [],
     dag_steps = [(''x'', mk_step ''x'' []), (''a'', mk_step ''a'' [''c'']),
                  (''b'', mk_step ''b'' [''a'', ''x'']), (''c'', mk_step ''c'' [''b''])]\<rparr>"

theorem validate_errors_genuine_witness:
  "\<exists>p. CycleDetected [''b'', ''c'', ''a'', ''b''] = CycleDetected p \<and>
     successively (\<lambda>a b. (a, b) \<in> dag_edges triangle) p"
proof -
  have "dag_wf triangle" by (simp add: dag_wf_def triangle_def)
  moreover have "validate triangle = Inl (CycleDetected [''b'', ''c'', ''a'', ''b''])" by code_simp
  ultimately show ?thesis using validate_errors_genuine [of triangle] by auto
qed

text \<open>
  The adjacency list is the inverse of \<open>depends_on\<close> with multiplicity: a step is listed
  under a dependency as often as it names it, so that counting in-degrees down by the
  adjacency list is exact even when a step names a dependency twice.
\<close>

theorem adjacency_inverts_depends_on:
  assumes "dag_wf g"
  shows "count_list (adj_get (build_adjacency_list g) n) d = count_list (dag_deps g d) n"
  by (rule count_adjacency [OF assms])

theorem adjacency_inverts_depends_on_witness:
  "count_list (adj_get (build_adjacency_list diamond) ''a'') ''c'' = 2"
proof -
  have "dag_wf diamond" using diamond_valid by (simp add: valid_dag_def)
  from adjacency_inverts_depends_on [OF this, of "''a''" "''c''"] show ?thesis
    by (simp add: dag_deps_def diamond_def mk_step_def)
qed

end
