(* ===== verification/Contracts.thy ===== *)
theory Contracts
  imports Py_Strings
begin

text \<open>
  The result contracts of \<open>contracts/messages.py\<close>: the status enumerations with their
  \<open>normalize\<close> class methods, \<open>StepResult\<close> and \<open>WorkflowResult\<close> with their computed
  fields and mutators. \<open>datetime.now(UTC)\<close> is an argument of the operations that read it.
\<close>

section \<open>Status enumerations\<close>

datatype step_status = PENDING | RUNNING | SUCCESS | FAILED | SKIPPED | RETRYING

fun step_status_value :: "step_status \<Rightarrow> string" where
  "step_status_value PENDING = ''pending''"
| "step_status_value RUNNING = ''running''"
| "step_status_value SUCCESS = ''success''"
| "step_status_value FAILED = ''failed''"
| "step_status_value SKIPPED = ''skipped''"
| "step_status_value RETRYING = ''retrying''"

datatype review_status = Approved | ApprovedWithNotes | NeedsFixes | Rejected

fun review_status_value :: "review_status \<Rightarrow> string" where
  "review_status_value Approved = ''APPROVED''"
| "review_status_value ApprovedWithNotes = ''APPROVED_WITH_NOTES''"
| "review_status_value NeedsFixes = ''NEEDS_FIXES''"
| "review_status_value Rejected = ''REJECTED''"

definition approved_with_notes_variants :: "string list" where
  "approved_with_notes_variants =
     [''APPROVED_WITH_NOTES'', ''APPROVED_WITH_COMMENTS'', ''CONDITIONAL_APPROVAL'',
      ''APPROVED_CONDITIONALLY'']"

definition approved_variants :: "string list" where
  "approved_variants =
     [''APPROVED'', ''PASS'', ''PASSED'', ''ACCEPT'', ''ACCEPTED'', ''OK'', ''LGTM'',
      ''NO_ISSUES'', ''NO_CHANGES_NEEDED'']"

definition rejected_variants :: "string list" where
  "rejected_variants =
     [''REJECTED'', ''REJECT'', ''FAIL'', ''FAILED'', ''CRITICAL'', ''BLOCKED'']"

definition review_clean :: "string \<Rightarrow> string" where
  "review_clean raw =
     replace_char (CHR ''-'') (CHR ''_'') (replace_char (CHR '' '') (CHR ''_'') (upper (strip raw)))"

definition review_normalize :: "string option \<Rightarrow> review_status" where
  "review_normalize raw =
     (case raw of
        None \<Rightarrow> NeedsFixes
      | Some s \<Rightarrow>
          let cleaned = review_clean s in
          if cleaned \<in> set approved_with_notes_variants then ApprovedWithNotes
          else if cleaned \<in> set approved_variants then Approved
          else if cleaned \<in> set rejected_variants then Rejected
          else NeedsFixes)"

datatype test_gate_status = GatePass | GateFail | GateError | GateSkipped

definition test_gate_normalize :: "string option \<Rightarrow> test_gate_status" where
  "test_gate_normalize raw =
     (case raw of
        None \<Rightarrow> GateFail
      | Some s \<Rightarrow>
          let cleaned = upper (strip s) in
          if cleaned \<in> set [''PASS'', ''PASSED'', ''SUCCESS'', ''GREEN'', ''OK''] then GatePass
          else if cleaned \<in> set [''SKIP'', ''SKIPPED'', ''NOT_RUN''] then GateSkipped
          else if cleaned \<in> set [''ERROR'', ''EXCEPTION'', ''CRASH''] then GateError
          else GateFail)"

datatype finding_severity = Critical | High | Medium | Low

definition severity_mapping :: "(string \<times> finding_severity) list" where
  "severity_mapping =
     [(''CRITICAL'', Critical), (''HIGH'', High), (''MEDIUM'', Medium), (''MODERATE'', Medium),
      (''LOW'', Low), (''INFO'', Low), (''INFORMATIONAL'', Low)]"

definition severity_normalize :: "string option \<Rightarrow> finding_severity" where
  "severity_normalize raw =
     (case raw of
        None \<Rightarrow> Medium
      | Some s \<Rightarrow>
          (case map_of severity_mapping (upper (strip s)) of
             None \<Rightarrow> Medium
           | Some sev \<Rightarrow> sev))"

section \<open>StepResult\<close>

record step_result =
  step_name :: name
  status :: step_status
  tier :: "int option"
  model_used :: "string option"
  input_data :: pydict
  output_data :: pydict
  error :: "string option"
  error_type :: "string option"
  start_time :: instant
  end_time :: "instant option"
  retry_count :: int
  metadata :: pydict

text \<open>\<open>StepResult(step_name=n, status=s)\<close>: every other field at its default.\<close>

definition new_step_result :: "name \<Rightarrow> step_status \<Rightarrow> instant \<Rightarrow> step_result" where
  "new_step_result n s now =
     \<lparr>step_name = n, status = s, tier = None, model_used = None, input_data = [],
      output_data = [], error = None, error_type = None, start_time = now,
      end_time = None, retry_count = 0, metadata = []\<rparr>"

definition is_success :: "step_result \<Rightarrow> bool" where
  "is_success r \<longleftrightarrow> status r = SUCCESS"

definition is_failed :: "step_result \<Rightarrow> bool" where
  "is_failed r \<longleftrightarrow> status r = FAILED"

definition is_complete :: "step_result \<Rightarrow> bool" where
  "is_complete r \<longleftrightarrow> status r \<in> {SUCCESS, FAILED, SKIPPED}"

definition duration_ms :: "step_result \<Rightarrow> rat option" where
  "duration_ms r = map_option (\<lambda>e. (e - start_time r) * 1000) (end_time r)"

text \<open>\<open>if error:\<close> is false for \<open>None\<close> and for the empty string.\<close>

definition step_mark_complete :: "bool \<Rightarrow> string option \<Rightarrow> instant \<Rightarrow> step_result \<Rightarrow> step_result" where
  "step_mark_complete success err now r =
     (let r' = r\<lparr>end_time := Some now, status := (if success then SUCCESS else FAILED)\<rparr>
      in case err of
           None \<Rightarrow> r'
         | Some e \<Rightarrow> (if e = [] then r' else r'\<lparr>error := Some e\<rparr>))"

section \<open>WorkflowResult\<close>

record workflow_result =
  workflow_id :: string
  workflow_name :: string
  steps_of :: "step_result list"
  overall_status :: step_status
  wf_end_time :: "instant option"
  final_output :: pydict
  wf_metadata :: pydict

definition success_rate :: "workflow_result \<Rightarrow> rat" where
  "success_rate w =
     (if steps_of w = [] then 0
      else of_nat (length (filter is_success (steps_of w))) / of_nat (length (steps_of w)) * 100)"

definition failed_steps_of :: "workflow_result \<Rightarrow> step_result list" where
  "failed_steps_of w = filter is_failed (steps_of w)"

definition total_retries :: "workflow_result \<Rightarrow> int" where
  "total_retries w = sum_list (map retry_count (steps_of w))"

definition add_step :: "step_result \<Rightarrow> workflow_result \<Rightarrow> workflow_result" where
  "add_step r w =
     (let w' = w\<lparr>steps_of := steps_of w @ [r]\<rparr>
      in if is_failed r \<and> overall_status w' \<noteq> FAILED then w'\<lparr>overall_status := FAILED\<rparr> else w')"

definition wf_mark_complete :: "bool \<Rightarrow> instant \<Rightarrow> workflow_result \<Rightarrow> workflow_result" where
  "wf_mark_complete success now w =
     w\<lparr>wf_end_time := Some now, overall_status := (if success then SUCCESS else FAILED)\<rparr>"

section \<open>Properties\<close>

lemma review_clean_value [simp]:
  "review_clean (review_status_value s) = review_status_value s"
  by (cases s; hypsubst; code_simp)

lemma review_normalize_value [simp]:
  "review_normalize (Some (review_status_value s)) = s"
  by (cases s; hypsubst; code_simp)

lemma add_step_steps [simp]: "steps_of (add_step r w) = steps_of w @ [r]"
  by (simp add: add_step_def Let_def)

lemma add_step_overall [simp]:
  "overall_status (add_step r w) = (if is_failed r then FAILED else overall_status w)"
  by (simp add: add_step_def Let_def)

lemma add_step_frame [simp]:
  "workflow_id (add_step r w) = workflow_id w"
  "workflow_name (add_step r w) = workflow_name w"
  "wf_end_time (add_step r w) = wf_end_time w"
  "final_output (add_step r w) = final_output w"
  "wf_metadata (add_step r w) = wf_metadata w"
  by (simp_all add: add_step_def Let_def)

lemma new_step_result_sel [simp]:
  "step_name (new_step_result n s now) = n"
  "status (new_step_result n s now) = s"
  "metadata (new_step_result n s now) = []"
  "error (new_step_result n s now) = None"
  by (simp_all add: new_step_result_def)

text \<open>Adding results one by one fails the workflow exactly when one of them failed.\<close>

lemma fold_add_step_overall:
  "overall_status (fold add_step rs w) =
     (if (\<exists>r\<in>set rs. is_failed r) then FAILED else overall_status w)"
  by (induction rs arbitrary: w) auto

end
