(* ===== verification/Step_State.thy ===== *)
theory Step_State
  imports Prelude
begin

text \<open>
  The step lifecycle state machine of \<open>engine/step_state.py\<close>: the states, the table of
  allowed transitions, and \<open>StepStateManager\<close>, whose \<open>transition\<close> validates against the
  table and whose \<open>set_state\<close> does not.
\<close>

datatype step_state =
  StPending | StReady | StRunning | StRetrying | StSuccess | StFailed | StSkipped | StCancelled

fun allowed_transitions :: "step_state \<Rightarrow> step_state list" where
  "allowed_transitions StPending = [StReady, StSkipped]"
| "allowed_transitions StReady = [StRunning, StCancelled]"
| "allowed_transitions StRunning = [StSuccess, StFailed, StRetrying, StSkipped, StCancelled]"
| "allowed_transitions StRetrying = [StRunning, StFailed, StCancelled]"
| "allowed_transitions StSuccess = []"
| "allowed_transitions StFailed = []"
| "allowed_transitions StSkipped = []"
| "allowed_transitions StCancelled = []"

type_synonym state_manager = "(name \<times> step_state) list"

datatype state_error = InvalidTransition name step_state step_state

definition get_state :: "state_manager \<Rightarrow> name \<Rightarrow> step_state" where
  "get_state m n = (case map_of m n of None \<Rightarrow> StPending | Some s \<Rightarrow> s)"

definition set_state :: "name \<Rightarrow> step_state \<Rightarrow> state_manager \<Rightarrow> state_manager" where
  "set_state n s m = AList.update n s m"

definition can_transition :: "step_state \<Rightarrow> step_state \<Rightarrow> bool" where
  "can_transition current new_state \<longleftrightarrow> new_state \<in> set (allowed_transitions current)"

definition transition :: "name \<Rightarrow> step_state \<Rightarrow> state_manager \<Rightarrow> state_error + state_manager" where
  "transition n new_state m =
     (let current = get_state m n
      in if \<not> can_transition current new_state
         then Inl (InvalidTransition n current new_state)
         else Inr (AList.update n new_state m))"

definition reset_state :: "name \<Rightarrow> state_manager \<Rightarrow> state_manager" where
  "reset_state n m = AList.delete n m"

section \<open>Lifecycles\<close>

text \<open>States with no outgoing transition.\<close>

definition terminal_state :: "step_state \<Rightarrow> bool" where
  "terminal_state s \<longleftrightarrow> allowed_transitions s = []"

lemma terminal_state_simps [simp]:
  "terminal_state StPending = False" "terminal_state StReady = False"
  "terminal_state StRunning = False" "terminal_state StRetrying = False"
  "terminal_state StSuccess" "terminal_state StFailed"
  "terminal_state StSkipped" "terminal_state StCancelled"
  by (simp_all add: terminal_state_def)

lemma get_state_empty [simp]: "get_state [] n = StPending"
  by (simp add: get_state_def)

lemma get_state_set [simp]:
  "get_state (set_state n s m) n' = (if n' = n then s else get_state m n')"
  by (simp add: get_state_def set_state_def)

lemma get_state_update [simp]:
  "get_state (AList.update n s m) n' = (if n' = n then s else get_state m n')"
  by (simp add: get_state_def)

lemma get_state_reset [simp]:
  "get_state (reset_state n m) n' = (if n' = n then StPending else get_state m n')"
  by (simp add: get_state_def reset_state_def)

lemma transition_Inr:
  "transition n s m = Inr m' \<longleftrightarrow> can_transition (get_state m n) s \<and> m' = set_state n s m"
  by (auto simp: transition_def set_state_def Let_def)

lemma transition_Inl:
  "transition n s m = Inl e \<longleftrightarrow>
     \<not> can_transition (get_state m n) s \<and> e = InvalidTransition n (get_state m n) s"
  by (auto simp: transition_def Let_def)

text \<open>A sequence of validated transitions of one step.\<close>

inductive lifecycle :: "step_state \<Rightarrow> step_state list \<Rightarrow> step_state \<Rightarrow> bool" where
  lifecycle_nil: "lifecycle s [] s"
| lifecycle_cons: "can_transition s t \<Longrightarrow> lifecycle t ts u \<Longrightarrow> lifecycle s (t # ts) u"

inductive_cases lifecycle_nilE: "lifecycle s [] u"
inductive_cases lifecycle_consE: "lifecycle s (t # ts) u"
inductive_simps lifecycle_simps: "lifecycle s [] u" "lifecycle s (t # ts) u"

lemma lifecycle_terminal: "lifecycle s ts u \<Longrightarrow> terminal_state s \<Longrightarrow> ts = [] \<and> u = s"
  by (erule lifecycle.cases) (auto simp: terminal_state_def can_transition_def)

text \<open>
  Apart from the retry cycle, states only move forward: every transition raises the rank
  or goes between \<open>RUNNING\<close> and \<open>RETRYING\<close>.
\<close>

fun state_rank :: "step_state \<Rightarrow> nat" where
  "state_rank StPending = 0"
| "state_rank StReady = 1"
| "state_rank StRunning = 2"
| "state_rank StRetrying = 2"
| "state_rank StSuccess = 3"
| "state_rank StFailed = 3"
| "state_rank StSkipped = 3"
| "state_rank StCancelled = 3"

lemma can_transition_rank:
  "can_transition s t \<Longrightarrow> state_rank s < state_rank t \<or> {s, t} = {StRunning, StRetrying}"
  by (cases s) (auto simp: can_transition_def)

lemma lifecycle_rank: "lifecycle s ts u \<Longrightarrow> state_rank s \<le> state_rank u"
proof (induction rule: lifecycle.induct)
  case (lifecycle_cons s t ts u)
  then show ?case using can_transition_rank [OF lifecycle_cons.hyps(1)]
    by (auto simp: doubleton_eq_iff)
qed simp

text \<open>\<open>SUCCESS\<close> is reached through \<open>RUNNING\<close> only.\<close>

lemma lifecycle_success_via_running:
  "lifecycle s ts u \<Longrightarrow> u = StSuccess \<Longrightarrow> s \<noteq> StSuccess \<Longrightarrow> StRunning \<in> set (s # ts)"
proof (induction rule: lifecycle.induct)
  case (lifecycle_cons s t ts u)
  show ?case
  proof (cases "t = StSuccess")
    case True
    with lifecycle_cons.hyps(1) have "s = StRunning"
      by (cases s) (auto simp: can_transition_def)
    then show ?thesis by simp
  next
    case False
    with lifecycle_cons show ?thesis by auto
  qed
qed simp

end
