(* ===== verification/Dag_Executor.thy ===== *)
theory Dag_Executor
  imports Dag_Props Contracts Step_State
begin

text \<open>
  The scheduler of \<open>engine/dag_executor.py\<close>. \<open>_RunState\<close> is a record, each module-level
  helper a function on it, and \<open>_scheduling_loop\<close> a machine whose program counter stands at
  the points where the coroutine is suspended or about to continue.

  What the scheduler does not decide is an action of its environment: a step task starts
  (\<open>_run_step\<close>), step code changes the shared context, \<open>asyncio.wait\<close> returns a batch of
  finished tasks with their outcomes in the order the scheduler goes through them, an
  observer returns or raises, the workflow timeout fires, or \<open>execute\<close> is cancelled. A run
  is a list of actions. \<open>datetime.now\<close> reads the next value of a clock, the order in which a
  Python set is iterated is a function \<open>iter_set\<close> of the run, and the fates of context
  event handlers and the text of a timeout are given. Tracing spans are left out.
\<close>

section \<open>Run state\<close>

datatype observer_fate = ObserverReturns | ObserverRaises

datatype run_event =
    WorkflowStart
  | StepStart name
  | StepEnd name step_result
  | WorkflowEnd step_status

record 'w run_state =
  rs_dag :: "'w dag"
  rs_ctx :: exec_context
  on_update :: bool
  rs_timeout :: "rat option"
  max_concurrency :: int
  states :: state_manager
  rs_result :: workflow_result
  adjacency_of :: adjacency
  in_degree :: degrees
  ready :: "name list"
  running :: "name set"
  completed :: "name set"
  skipped :: "name set"
  results :: "(name \<times> step_result) list"
  tasks :: "name set"
  events :: "run_event list"
  clock :: "nat \<Rightarrow> instant"
  ticks :: nat
  handler_fates :: "nat \<Rightarrow> handler_fate"
  iter_set :: "name set \<Rightarrow> name list"
  show_timeout :: "rat \<Rightarrow> string"

datatype sched_error =
    StateError state_error
  | GraphError dag_error
  | CancelledError

definition lift_state_error :: "state_error + 'a \<Rightarrow> sched_error + 'a" where
  "lift_state_error r = (case r of Inl e \<Rightarrow> Inl (StateError e) | Inr x \<Rightarrow> Inr x)"

definition lift_dag_error :: "dag_error + 'a \<Rightarrow> sched_error + 'a" where
  "lift_dag_error r = (case r of Inl e \<Rightarrow> Inl (GraphError e) | Inr x \<Rightarrow> Inr x)"

definition now :: "'w run_state \<Rightarrow> instant" where
  "now s = clock s (ticks s)"

definition tick :: "'w run_state \<Rightarrow> 'w run_state" where
  "tick s = s\<lparr>ticks := Suc (ticks s)\<rparr>"

text \<open>\<open>if name not in ctx.completed_steps: ctx.completed_steps.append(name)\<close>\<close>

definition ctx_complete :: "name \<Rightarrow> exec_context \<Rightarrow> exec_context" where
  "ctx_complete n = on_frame (\<lambda>f. f\<lparr>completed_steps :=
     (if n \<in> set (completed_steps f) then completed_steps f else completed_steps f @ [n])\<rparr>)"

section \<open>Observers\<close>

text \<open>
  The chain of an exception: objects with an identity, whether each is a \<open>CancelledError\<close>,
  and its \<open>__cause__\<close> and \<open>__context__\<close>. The objects of \<open>heap\<close> are finitely many.
\<close>

record exn_object =
  is_cancelled :: bool
  cause :: "nat option"
  context_of :: "nat option"

definition links :: "exn_object \<Rightarrow> nat list" where
  "links x = (case cause x of None \<Rightarrow> [] | Some c \<Rightarrow> [c]) @
             (case context_of x of None \<Rightarrow> [] | Some c \<Rightarrow> [c])"

function raised_while_cancelled_loop ::
  "(nat \<times> exn_object) list \<Rightarrow> nat list \<Rightarrow> nat set \<Rightarrow> bool" where
  "raised_while_cancelled_loop heap [] seen = False"
| "raised_while_cancelled_loop heap (link # pending) seen =
     (if link \<in> seen then raised_while_cancelled_loop heap pending seen
      else case map_of heap link of
             None \<Rightarrow> raised_while_cancelled_loop heap pending (insert link seen)
           | Some x \<Rightarrow>
               if is_cancelled x then True
               else raised_while_cancelled_loop heap (rev (links x) @ pending) (insert link seen))"
  by pat_completeness auto
termination
proof (relation "inv_image (less_than <*lex*> less_than)
    (\<lambda>(heap, pending, seen). (card (fst ` set heap - seen), length pending))", goal_cases)
  case (3 heap link pending seen)
  have "card (fst ` set heap - insert link seen) \<le> card (fst ` set heap - seen)"
    by (rule card_mono) auto
  then show ?case by auto
next
  case (4 heap link pending seen x)
  then have "link \<in> fst ` set heap" by (force dest: map_of_SomeD)
  with 4 have "fst ` set heap - insert link seen \<subset> fst ` set heap - seen" by auto
  then have "card (fst ` set heap - insert link seen) < card (fst ` set heap - seen)"
    by (intro psubset_card_mono) auto
  then show ?case by simp
qed auto

definition raised_while_cancelled :: "(nat \<times> exn_object) list \<Rightarrow> nat \<Rightarrow> bool" where
  "raised_while_cancelled heap exc = raised_while_cancelled_loop heap [exc] {}"

text \<open>
  What \<open>_notify\<close> makes of an observer's exception: the counts are \<open>task.cancelling()\<close> before
  and after the call.
\<close>

definition observer_masked_cancel ::
  "(nat \<times> exn_object) list \<Rightarrow> nat \<Rightarrow> nat \<Rightarrow> nat \<Rightarrow> bool" where
  "observer_masked_cancel heap exc cancels_before cancels_now \<longleftrightarrow>
     cancels_now > cancels_before \<or> (cancels_now \<noteq> 0 \<and> raised_while_cancelled heap exc)"

definition count_observer_error :: "workflow_result \<Rightarrow> workflow_result" where
  "count_observer_error w =
     w\<lparr>wf_metadata := AList.update ''observer_errors''
        (PInt ((case map_of (wf_metadata w) ''observer_errors'' of Some (PInt k) \<Rightarrow> k | _ \<Rightarrow> 0) + 1))
        (wf_metadata w)\<rparr>"

definition notify :: "observer_fate \<Rightarrow> run_event \<Rightarrow> 'w run_state \<Rightarrow> 'w run_state" where
  "notify fate ev s =
     (let s0 = tick s in
      if \<not> on_update s0 then s0
      else let s1 = s0\<lparr>events := events s0 @ [ev]\<rparr>
           in case fate of
                ObserverReturns \<Rightarrow> s1
              | ObserverRaises \<Rightarrow> s1\<lparr>rs_result := count_observer_error (rs_result s1)\<rparr>)"

section \<open>Helpers\<close>

text \<open>The part of \<open>_run_step\<close> before the step executor is called.\<close>

definition run_step_begin :: "observer_fate \<Rightarrow> name \<Rightarrow> 'w run_state \<Rightarrow> sched_error + 'w run_state" where
  "run_step_begin fate n s =
     rbind (lift_state_error (transition n StRunning (states s))) (\<lambda>m.
       Inr (notify fate (StepStart n) (s\<lparr>states := m\<rparr>)))"

definition mark_skipped :: "name \<Rightarrow> string \<Rightarrow> 'w run_state \<Rightarrow> 'w run_state" where
  "mark_skipped n reason s =
     (if n \<in> completed s \<or> n \<in> skipped s then s
      else let r0 = new_step_result n SKIPPED (now s);
               s1 = tick s;
               r = r0\<lparr>metadata := AList.update ''skip_reason'' (PStr reason) (metadata r0),
                      end_time := Some (now s1)\<rparr>
           in (tick s1)\<lparr>results := AList.update n r (results s),
                        rs_result := add_step r (rs_result s),
                        completed := insert n (completed s),
                        skipped := insert n (skipped s),
                        states := set_state n StSkipped (states s),
                        rs_ctx := ctx_complete n (rs_ctx s)\<rparr>)"

definition skip_dependent ::
  "string \<Rightarrow> name \<Rightarrow> 'w run_state \<times> name list \<Rightarrow> 'w run_state \<times> name list" where
  "skip_dependent reason d sq =
     (if d \<in> completed (fst sq) \<or> d \<in> skipped (fst sq) then sq
      else (mark_skipped d reason (fst sq), snd sq @ [d]))"

definition cascade_measure :: "'w run_state \<Rightarrow> name list \<Rightarrow> nat" where
  "cascade_measure s q =
     card ((\<Union>a\<in>set (adjacency_of s). set (snd a)) - (completed s \<union> skipped s)) + length q"

lemma mark_skipped_fields:
  "adjacency_of (mark_skipped n reason s) = adjacency_of s"
  "completed (mark_skipped n reason s) \<union> skipped (mark_skipped n reason s) =
     insert n (completed s \<union> skipped s)"
  by (auto simp: mark_skipped_def Let_def tick_def)

lemma adj_get_targets: "d \<in> set (adj_get adj n) \<Longrightarrow> d \<in> (\<Union>a\<in>set adj. set (snd a))"
  by (cases "map_of adj n") (auto simp: adj_get_def dest!: map_of_SomeD intro!: bexI [of _ "(n, _)"])

lemma skip_dependents_measure:
  assumes "fold (skip_dependent reason) ds (s, q) = (s', q')"
    and "set ds \<subseteq> (\<Union>a\<in>set (adjacency_of s). set (snd a))"
  shows "cascade_measure s' q' \<le> cascade_measure s q \<and> adjacency_of s' = adjacency_of s"
  using assms
proof (induction ds arbitrary: s q)
  case (Cons d ds)
  show ?case
  proof (cases "d \<in> completed s \<or> d \<in> skipped s")
    case True
    with Cons show ?thesis by (simp add: skip_dependent_def [of reason d])
  next
    case False
    let ?s1 = "mark_skipped d reason s"
    let ?T = "\<Union>a\<in>set (adjacency_of s). set (snd a)"
    have "fold (skip_dependent reason) ds (?s1, q @ [d]) = (s', q')"
      using Cons.prems(1) False by (simp add: skip_dependent_def [of reason d])
    moreover have "set ds \<subseteq> (\<Union>a\<in>set (adjacency_of ?s1). set (snd a))"
      using Cons.prems(2) by (simp add: mark_skipped_fields)
    ultimately have ih: "cascade_measure s' q' \<le> cascade_measure ?s1 (q @ [d])"
        "adjacency_of s' = adjacency_of ?s1" using Cons.IH by blast+
    have "?T - insert d (completed s \<union> skipped s) = (?T - (completed s \<union> skipped s)) - {d}" by auto
    moreover have "d \<in> ?T - (completed s \<union> skipped s)" using Cons.prems(2) False by auto
    moreover have "finite (?T - (completed s \<union> skipped s))" by auto
    ultimately have "Suc (card (?T - insert d (completed s \<union> skipped s))) = card (?T - (completed s \<union> skipped s))"
      by (metis card_Suc_Diff1)
    with ih show ?thesis by (simp add: cascade_measure_def mark_skipped_fields)
  qed
qed simp

function cascade_loop :: "string \<Rightarrow> name list \<Rightarrow> 'w run_state \<Rightarrow> 'w run_state" where
  "cascade_loop reason [] s = s"
| "cascade_loop reason (current # queue) s =
     (case fold (skip_dependent reason) (adj_get (adjacency_of s) current) (s, queue) of
        (s', queue') \<Rightarrow> cascade_loop reason queue' s')"
  by pat_completeness auto
termination
proof (relation "measure (\<lambda>(_, q, s). cascade_measure s q)", goal_cases)
  case (2 reason current queue s s' queue')
  then have "cascade_measure s' queue' \<le> cascade_measure s queue"
    using skip_dependents_measure adj_get_targets by (metis subsetI)
  then show ?case by (simp add: cascade_measure_def)
qed simp

definition cascade_skip :: "name \<Rightarrow> string \<Rightarrow> 'w run_state \<Rightarrow> 'w run_state" where
  "cascade_skip start reason s = cascade_loop reason [start] s"

text \<open>The \<open>while\<close> loop of \<open>_schedule_ready_steps\<close>, on the queue it pops from.\<close>

fun schedule_from :: "name list \<Rightarrow> 'w run_state \<Rightarrow> sched_error + 'w run_state" where
  "schedule_from [] s = Inr (s\<lparr>ready := []\<rparr>)"
| "schedule_from (n # rest) s =
     (if \<not> int (card (running s)) < max_concurrency s then Inr (s\<lparr>ready := n # rest\<rparr>)
      else if n \<in> completed s \<or> n \<in> skipped s then schedule_from rest s
      else rbind (lift_state_error (transition n StReady (states s))) (\<lambda>m.
             schedule_from rest (s\<lparr>running := insert n (running s), states := m,
                                   tasks := insert n (tasks s)\<rparr>)))"

definition schedule_ready_steps :: "'w run_state \<Rightarrow> sched_error + 'w run_state" where
  "schedule_ready_steps s = schedule_from (ready s) s"

definition unlock_downstream :: "name \<Rightarrow> 'w run_state \<Rightarrow> sched_error + 'w run_state" where
  "unlock_downstream n s =
     rbind (lift_dag_error
             (rfold (\<lambda>d dr. if d \<in> completed s \<or> d \<in> skipped s then Inr dr else count_down d dr)
               (adj_get (adjacency_of s) n) (in_degree s, ready s))) (\<lambda>dr.
       Inr (s\<lparr>in_degree := fst dr, ready := snd dr\<rparr>))"

definition transition_outcome_state ::
  "name \<Rightarrow> step_result \<Rightarrow> 'w run_state \<Rightarrow> sched_error + 'w run_state" where
  "transition_outcome_state n r s =
     (case status r of
        SUCCESS \<Rightarrow>
          rbind (lift_state_error (transition n StSuccess (states s))) (\<lambda>m. Inr (s\<lparr>states := m\<rparr>))
      | SKIPPED \<Rightarrow>
          rbind (lift_state_error (transition n StSkipped (states s))) (\<lambda>m.
            Inr (s\<lparr>states := m, rs_ctx := ctx_complete n (rs_ctx s),
                   skipped := insert n (skipped s)\<rparr>))
      | _ \<Rightarrow>
          rbind (lift_state_error (transition n StFailed (states s))) (\<lambda>m. Inr (s\<lparr>states := m\<rparr>)))"

definition terminal_statuses :: "step_status set" where
  "terminal_statuses = {SUCCESS, FAILED, SKIPPED}"

definition fail_nonterminal :: "instant \<Rightarrow> step_result \<Rightarrow> step_result" where
  "fail_nonterminal t r =
     (if status r \<in> terminal_statuses then r
      else let reason = ''step finished with non-terminal status '' @ [CHR 39] @
                          step_status_value (status r) @ [CHR 39]
           in r\<lparr>status := FAILED,
                error := Some (case error r of
                           Some e \<Rightarrow> if e = [] then reason else reason @ '': '' @ e
                         | None \<Rightarrow> reason),
                error_type := Some ''NonTerminalStatus'',
                end_time := Some (case end_time r of Some e \<Rightarrow> e | None \<Rightarrow> t),
                metadata := AList.update ''nonterminal_status''
                  (PStr (step_status_value (status r))) (metadata r)\<rparr>)"

definition mark_context_failed ::
  "(nat \<Rightarrow> handler_fate) \<Rightarrow> name \<Rightarrow> string \<Rightarrow> exec_context \<Rightarrow> exec_context" where
  "mark_context_failed fate n err ctx =
     fst (mark_step_failed fate n err
       (on_frame (\<lambda>f. f\<lparr>completed_steps := remove1 n (completed_steps f)\<rparr>) ctx))"

section \<open>Finished tasks\<close>

datatype task_outcome = TaskReturned step_result | TaskRaised exn

text \<open>
  The parts of \<open>_record_task_exception\<close> and \<open>_process_done_task\<close> before their first await:
  the new state, the result that \<open>step_end\<close> reports, and the error to record in the context
  (when there is one).
\<close>

definition record_task_exception ::
  "name \<Rightarrow> exn \<Rightarrow> 'w run_state \<Rightarrow> 'w run_state \<times> step_result \<times> string option" where
  "record_task_exception n e s =
     (let r0 = new_step_result n FAILED (now s);
          s1 = tick s;
          r = r0\<lparr>error := Some (exn_msg e), error_type := Some (exn_type_name e),
                 end_time := Some (now s1)\<rparr>;
          s2 = (tick s1)\<lparr>running := running s - {n}, results := AList.update n r (results s),
                 rs_result := (add_step r (rs_result s))\<lparr>overall_status := FAILED\<rparr>,
                 completed := insert n (completed s),
                 states := set_state n StFailed (states s)\<rparr>
      in (cascade_skip n ''unhandled exception'' s2, r, Some (exn_msg e)))"

definition process_result ::
  "name \<Rightarrow> step_result \<Rightarrow> 'w run_state \<Rightarrow> sched_error + ('w run_state \<times> step_result \<times> string option)" where
  "process_result n raw s =
     (let r = fail_nonterminal (now s) raw;
          s1 = (tick s)\<lparr>running := running s - {n}, results := AList.update n r (results s),
                 rs_result := add_step r (rs_result s), completed := insert n (completed s)\<rparr>;
          mark = (if status raw \<in> terminal_statuses then None
                  else Some (case error r of None \<Rightarrow> [] | Some e \<Rightarrow> e))
      in rbind (transition_outcome_state n r s1) (\<lambda>s2.
           if is_failed r
           then Inr (cascade_skip n ''dependency failed''
                       (s2\<lparr>rs_result := (rs_result s2)\<lparr>overall_status := FAILED\<rparr>\<rparr>), r, mark)
           else rbind (unlock_downstream n s2) (\<lambda>s3. Inr (s3, r, mark))))"

definition process_done_task ::
  "name \<Rightarrow> task_outcome \<Rightarrow> 'w run_state \<Rightarrow> sched_error + ('w run_state \<times> step_result \<times> string option)" where
  "process_done_task n out s =
     (case out of
        TaskRaised e \<Rightarrow> Inr (record_task_exception n e s)
      | TaskReturned raw \<Rightarrow> process_result n raw s)"

text \<open>The part after: the context entry and the \<open>step_end\<close> event.\<close>

definition finish_done_task ::
  "observer_fate \<Rightarrow> name \<Rightarrow> step_result \<Rightarrow> string option \<Rightarrow> 'w run_state \<Rightarrow> 'w run_state" where
  "finish_done_task fate n r mark s =
     (let s1 = (case mark of
                  None \<Rightarrow> s
                | Some err \<Rightarrow> s\<lparr>rs_ctx := mark_context_failed (handler_fates s) n err (rs_ctx s)\<rparr>)
      in notify fate (StepEnd n r) s1)"

section \<open>Timeout, cancellation, deadlock\<close>

definition deadlock :: "'w run_state \<Rightarrow> 'w run_state" where
  "deadlock s =
     (let remaining = set (map fst (dag_steps (rs_dag s))) - completed s - skipped s;
          s1 = fold (\<lambda>n. mark_skipped n ''scheduler deadlock'') (iter_set s remaining) s
      in s1\<lparr>rs_result := (rs_result s1)\<lparr>overall_status := FAILED,
             wf_metadata := AList.update ''error''
               (PStr (''Scheduler deadlock: '' @ show_nat (card remaining) @ '' step(s) could not be scheduled.''))
               (wf_metadata (rs_result s1))\<rparr>\<rparr>)"

text \<open>The context is the one the cancelled tasks leave behind.\<close>

definition cancel_in_flight :: "exec_context \<Rightarrow> 'w run_state \<Rightarrow> 'w run_state" where
  "cancel_in_flight ctx s = (if tasks s = {} then s else s\<lparr>tasks := {}, rs_ctx := ctx\<rparr>)"

definition timeout_msg :: "'w run_state \<Rightarrow> string" where
  "timeout_msg s = ''Workflow '' @ [CHR 39] @ dag_name (rs_dag s) @ [CHR 39] @ '' exceeded the '' @
     (case rs_timeout s of None \<Rightarrow> ''None'' | Some t \<Rightarrow> show_timeout s t) @
     ''s timeout. In-flight steps were cancelled.''"

definition fail_running :: "instant \<Rightarrow> name \<Rightarrow> 'w run_state \<Rightarrow> 'w run_state" where
  "fail_running t n s =
     (if n \<in> completed s then s
      else let r = (new_step_result n FAILED (now s))\<lparr>error := Some (timeout_msg s),
                     error_type := Some ''TimeoutError'', end_time := Some t\<rparr>
           in cascade_skip n ''workflow timeout''
                ((tick s)\<lparr>results := AList.update n r (results s), rs_result := add_step r (rs_result s),
                          completed := insert n (completed s),
                          states := set_state n StFailed (states s)\<rparr>))"

definition handle_timeout :: "exec_context \<Rightarrow> 'w run_state \<Rightarrow> 'w run_state" where
  "handle_timeout ctx s =
     (let s0 = cancel_in_flight ctx s;
          t = now s0;
          s1 = fold (fail_running t) (iter_set s0 (running s0)) (tick s0);
          remaining = set (map fst (dag_steps (rs_dag s1))) - completed s1 - skipped s1;
          s2 = fold (\<lambda>n. mark_skipped n ''workflow timeout'') (iter_set s1 remaining) s1
      in s2\<lparr>rs_result := (rs_result s2)\<lparr>overall_status := FAILED,
             wf_metadata :=
               AList.update ''error'' (PStr (timeout_msg s2))
               (AList.update ''timeout_seconds''
                  (case rs_timeout s2 of None \<Rightarrow> PNone | Some t \<Rightarrow> PFloat t)
               (AList.update ''timeout_exceeded'' (PBool True) (wf_metadata (rs_result s2))))\<rparr>\<rparr>)"

section \<open>The scheduling loop\<close>

datatype pc =
    LoopHead
  | Waiting
  | Processing "(name \<times> task_outcome) list"
  | Notifying name step_result "string option" "(name \<times> task_outcome) list"
  | LoopDone
  | TimeoutDone
  | LoopRaised sched_error

type_synonym 'w machine = "pc \<times> 'w run_state"

text \<open>The code the scheduler itself runs between two suspensions.\<close>

definition loop_head :: "'w run_state \<Rightarrow> 'w machine" where
  "loop_head s =
     (if card (completed s) < length (dag_steps (rs_dag s))
      then (case schedule_ready_steps s of
              Inl e \<Rightarrow> (LoopRaised e, s)
            | Inr s1 \<Rightarrow> if tasks s1 = {} then (LoopDone, deadlock s1) else (Waiting, s1))
      else (LoopDone, s))"

definition process_next :: "(name \<times> task_outcome) list \<Rightarrow> 'w run_state \<Rightarrow> 'w machine" where
  "process_next done s =
     (case done of
        [] \<Rightarrow> (LoopHead, s)
      | (n, out) # rest \<Rightarrow>
          (case process_done_task n out s of
             Inl e \<Rightarrow> (LoopRaised e, s)
           | Inr (s1, r, mark) \<Rightarrow> (Notifying n r mark rest, s1)))"

datatype action =
    Scheduler observer_fate
  | TaskStarts name observer_fate
  | ContextChanges exec_context
  | WaitReturns "(name \<times> task_outcome) list"
  | TimeoutFires exec_context
  | ExecuteCancelled exec_context

fun suspended :: "pc \<Rightarrow> bool" where
  "suspended Waiting = True"
| "suspended (Notifying n r mark rest) = True"
| "suspended _ = False"

text \<open>
  \<open>asyncio.wait(..., FIRST_COMPLETED)\<close> returns a nonempty set of tasks in flight; a task that
  returned a result has started.
\<close>

fun task_returned :: "task_outcome \<Rightarrow> bool" where
  "task_returned (TaskReturned r) = True"
| "task_returned (TaskRaised e) = False"

definition legal_batch :: "(name \<times> task_outcome) list \<Rightarrow> 'w run_state \<Rightarrow> bool" where
  "legal_batch done s \<longleftrightarrow>
     done \<noteq> [] \<and> distinct (map fst done) \<and> set (map fst done) \<subseteq> tasks s \<and>
     (\<forall>(n, out)\<in>set done. task_returned out \<longrightarrow> get_state (states s) n = StRunning)"

fun perform :: "action \<Rightarrow> 'w machine \<Rightarrow> 'w machine option" where
  "perform (Scheduler fate) (p, s) =
     (case p of
        LoopHead \<Rightarrow> Some (loop_head s)
      | Processing done \<Rightarrow> Some (process_next done s)
      | Notifying n r mark rest \<Rightarrow> Some (Processing rest, finish_done_task fate n r mark s)
      | _ \<Rightarrow> None)"
| "perform (TaskStarts n fate) (p, s) =
     (if suspended p \<and> n \<in> tasks s \<and> get_state (states s) n = StReady
      then case run_step_begin fate n s of
             Inl e \<Rightarrow> Some (LoopRaised e, s)
           | Inr s1 \<Rightarrow> Some (p, s1)
      else None)"
| "perform (ContextChanges ctx) (p, s) = (if suspended p then Some (p, s\<lparr>rs_ctx := ctx\<rparr>) else None)"
| "perform (WaitReturns done) (p, s) =
     (if p = Waiting \<and> legal_batch done s
      then Some (Processing done, s\<lparr>tasks := tasks s - set (map fst done)\<rparr>)
      else None)"
| "perform (TimeoutFires ctx) (p, s) =
     (if suspended p \<and> rs_timeout s \<noteq> None then Some (TimeoutDone, handle_timeout ctx s) else None)"
| "perform (ExecuteCancelled ctx) (p, s) =
     (if suspended p then Some (LoopRaised CancelledError, cancel_in_flight ctx s) else None)"

fun perform_all :: "action list \<Rightarrow> 'w machine \<Rightarrow> 'w machine option" where
  "perform_all [] m = Some m"
| "perform_all (a # as) m = (case perform a m of None \<Rightarrow> None | Some m' \<Rightarrow> perform_all as m')"

section \<open>The executor\<close>

record run_config =
  cf_ctx :: exec_context
  cf_on_update :: bool
  cf_timeout :: "rat option"
  cf_kw_timeout :: "rat option"
  cf_max_concurrency :: "pyval option"
  cf_clock :: "nat \<Rightarrow> instant"
  cf_handler_fates :: "nat \<Rightarrow> handler_fate"
  cf_iter_set :: "name set \<Rightarrow> name list"
  cf_show_timeout :: "rat \<Rightarrow> string"
  cf_start_fate :: observer_fate

datatype execute_error = BadConcurrency pyval | ValidationFailed dag_error

text \<open>\<open>kwargs.get("max_concurrency", 10)\<close>, which must be an \<open>int\<close> and no \<open>bool\<close>.\<close>

definition check_concurrency :: "pyval option \<Rightarrow> execute_error + int" where
  "check_concurrency raw =
     (case (case raw of None \<Rightarrow> PInt 10 | Some v \<Rightarrow> v) of
        PInt k \<Rightarrow> if k < 1 then Inl (BadConcurrency (PInt k)) else Inr k
      | v \<Rightarrow> Inl (BadConcurrency v))"

definition effective_timeout :: "run_config \<Rightarrow> rat option" where
  "effective_timeout c = (case cf_timeout c of Some t \<Rightarrow> Some t | None \<Rightarrow> cf_kw_timeout c)"

definition initial_state :: "run_config \<Rightarrow> int \<Rightarrow> 'w dag \<Rightarrow> 'w run_state" where
  "initial_state c k g =
     (let deg = initial_in_degree g;
          s = \<lparr>rs_dag = g, rs_ctx = cf_ctx c, on_update = cf_on_update c, rs_timeout = effective_timeout c,
               max_concurrency = k, states = [],
               rs_result = \<lparr>workflow_id = fr_workflow_id (hd (cf_ctx c)), workflow_name = dag_name g,
                     steps_of = [], overall_status = RUNNING, wf_end_time = None,
                     final_output = [], wf_metadata = []\<rparr>,
               adjacency_of = build_adjacency_list g, in_degree = deg, ready = initial_ready deg,
               running = {}, completed = {}, skipped = {}, results = [], tasks = {}, events = [],
               clock = cf_clock c, ticks = 0, handler_fates = cf_handler_fates c,
               iter_set = cf_iter_set c, show_timeout = cf_show_timeout c\<rparr>
      in notify (cf_start_fate c) WorkflowStart s)"

text \<open>\<open>execute\<close> up to the scheduling loop.\<close>

definition execute_begin :: "run_config \<Rightarrow> 'w dag \<Rightarrow> execute_error + 'w machine" where
  "execute_begin c g =
     rbind (check_concurrency (cf_max_concurrency c)) (\<lambda>k.
       case validate g of
         Inl e \<Rightarrow> Inl (ValidationFailed e)
       | Inr _ \<Rightarrow> Inr (LoopHead, initial_state c k g))"

text \<open>\<open>_run_dag\<close> after the loop or the timeout handler.\<close>

definition finish_run :: "observer_fate \<Rightarrow> 'w run_state \<Rightarrow> workflow_result \<times> run_event list" where
  "finish_run fate s =
     (let w0 = rs_result s;
          w1 = (if overall_status w0 = RUNNING then w0\<lparr>overall_status := SUCCESS\<rparr> else w0);
          w2 = w1\<lparr>steps_of := map (\<lambda>n. the (map_of (results s) n))
                    (filter (\<lambda>n. map_of (results s) n \<noteq> None) (map fst (dag_steps (rs_dag s)))),
                  final_output := all_variables (rs_ctx s)\<rparr>;
          w3 = wf_mark_complete (overall_status w2 = SUCCESS) (now s) w2;
          s1 = notify fate (WorkflowEnd (overall_status w3)) ((tick s)\<lparr>rs_result := w3\<rparr>)
      in (rs_result s1, events s1))"

definition execute_run ::
  "run_config \<Rightarrow> 'w dag \<Rightarrow> action list \<Rightarrow> observer_fate \<Rightarrow> (workflow_result \<times> run_event list) option" where
  "execute_run c g acts fate =
     (case execute_begin c g of
        Inl e \<Rightarrow> None
      | Inr m \<Rightarrow>
          (case perform_all acts m of
             Some (LoopDone, s) \<Rightarrow> Some (finish_run fate s)
           | Some (TimeoutDone, s) \<Rightarrow> Some (finish_run fate s)
           | _ \<Rightarrow> None))"

end
