(* ===== verification/Dag_Executor_Props.thy ===== *)
theory Dag_Executor_Props
  imports Dag_Executor
begin

text \<open>
  Correctness of the scheduler: an invariant that relates the run state to the graph, its
  preservation by every action, and what it gives.
\<close>

section \<open>Skipping\<close>

text \<open>
  \<open>skips s X s'\<close>: going from \<open>s\<close> to \<open>s'\<close> has recorded exactly the steps \<open>X\<close>, none of them
  finished before, as skipped, and changed nothing else the scheduler reads.
\<close>

definition sched_frame :: "'w run_state \<Rightarrow> 'w run_state \<Rightarrow> bool" where
  "sched_frame s s' \<longleftrightarrow>
     rs_dag s' = rs_dag s \<and> adjacency_of s' = adjacency_of s \<and> running s' = running s \<and>
     ready s' = ready s \<and> in_degree s' = in_degree s \<and> tasks s' = tasks s \<and>
     max_concurrency s' = max_concurrency s \<and> iter_set s' = iter_set s \<and> rs_timeout s' = rs_timeout s"

definition skips :: "'w run_state \<Rightarrow> name set \<Rightarrow> 'w run_state \<Rightarrow> bool" where
  "skips s X s' \<longleftrightarrow>
     sched_frame s s' \<and> X \<inter> (completed s \<union> skipped s) = {} \<and>
     completed s' = completed s \<union> X \<and> skipped s' = skipped s \<union> X \<and>
     (\<forall>n\<in>X. \<exists>r. map_of (results s') n = Some r \<and> status r = SKIPPED) \<and>
     (\<forall>n. n \<notin> X \<longrightarrow> map_of (results s') n = map_of (results s) n) \<and>
     (\<forall>n. get_state (states s') n = (if n \<in> X then StSkipped else get_state (states s) n)) \<and>
     overall_status (rs_result s') = overall_status (rs_result s)"

lemma skips_refl [simp]: "skips s {} s"
  by (simp add: skips_def sched_frame_def)

lemma skips_trans:
  assumes "skips s X s1" "skips s1 Y s2"
  shows "skips s (X \<union> Y) s2"
proof -
  have "map_of (results s2) n = Some r" if "n \<in> X" "map_of (results s1) n = Some r" for n r
    using that assms by (auto simp: skips_def)
  with assms show ?thesis
    unfolding skips_def sched_frame_def by (auto 0 3)
qed

lemma mark_skipped_skips:
  assumes "n \<notin> completed s" "n \<notin> skipped s"
  shows "skips s {n} (mark_skipped n reason s)"
  using assms
  by (auto simp: skips_def sched_frame_def mark_skipped_def Let_def tick_def now_def is_failed_def)

lemma mark_skipped_done:
  "n \<in> completed s \<union> skipped s \<Longrightarrow> mark_skipped n reason s = s"
  by (auto simp: mark_skipped_def)

lemma mark_all_skips:
  "\<exists>X. skips s X (fold (\<lambda>n. mark_skipped n reason) ns s) \<and> X = set ns - (completed s \<union> skipped s)"
proof (induction ns arbitrary: s)
  case (Cons n ns)
  show ?case
  proof (cases "n \<in> completed s \<union> skipped s")
    case True
    with Cons.IH [of s] show ?thesis by (auto simp: mark_skipped_done insert_Diff_if)
  next
    case False
    then have one: "skips s {n} (mark_skipped n reason s)" by (auto intro: mark_skipped_skips)
    from Cons.IH [of "mark_skipped n reason s"] obtain X where
      X: "skips (mark_skipped n reason s) X (fold (\<lambda>n. mark_skipped n reason) ns (mark_skipped n reason s))"
      "X = set ns - (completed (mark_skipped n reason s) \<union> skipped (mark_skipped n reason s))" by blast
    have "{n} \<union> X = set (n # ns) - (completed s \<union> skipped s)"
      using X(2) False one by (auto simp: skips_def)
    with skips_trans [OF one X(1)] show ?thesis by auto
  qed
qed simp

lemma skip_dependents_skips:
  "fold (skip_dependent reason) ds (s, q) = (s', q') \<Longrightarrow>
     \<exists>new. q' = q @ new \<and> skips s (set new) s' \<and> set new \<subseteq> set ds \<and>
       set ds \<subseteq> completed s' \<union> skipped s'"
proof (induction ds arbitrary: s q)
  case (Cons d ds)
  show ?case
  proof (cases "d \<in> completed s \<union> skipped s")
    case True
    with Cons.prems have "fold (skip_dependent reason) ds (s, q) = (s', q')"
      by (simp add: skip_dependent_def [of reason d])
    from Cons.IH [OF this] True show ?thesis by (auto simp: skips_def)
  next
    case False
    let ?s1 = "mark_skipped d reason s"
    from Cons.prems False have "fold (skip_dependent reason) ds (?s1, q @ [d]) = (s', q')"
      by (simp add: skip_dependent_def [of reason d])
    from Cons.IH [OF this] obtain new where
      new: "q' = (q @ [d]) @ new" "skips ?s1 (set new) s'" "set new \<subseteq> set ds"
        "set ds \<subseteq> completed s' \<union> skipped s'" by blast
    have one: "skips s {d} ?s1" using False by (auto intro: mark_skipped_skips)
    from skips_trans [OF one new(2)] have "skips s (set (d # new)) s'" by simp
    moreover have "d \<in> completed s'" using one new(2) by (auto simp: skips_def)
    ultimately show ?thesis using new by (intro exI [of _ "d # new"]) auto
  qed
qed simp

lemma cascade_loop_skips:
  "\<exists>X. skips s X (cascade_loop reason q s) \<and> X \<subseteq> (adj_rel (adjacency_of s))\<^sup>+ `` set q \<and>
     (\<forall>x\<in>X \<union> set q. set (adj_get (adjacency_of s) x) \<subseteq>
        completed (cascade_loop reason q s) \<union> skipped (cascade_loop reason q s))"
proof (induction reason q s rule: cascade_loop.induct)
  case (1 reason s)
  then show ?case by (intro exI [of _ "{}"]) simp
next
  case (2 reason c q s)
  let ?adj = "adjacency_of s"
  obtain s1 q1 where f: "fold (skip_dependent reason) (adj_get ?adj c) (s, q) = (s1, q1)" by fastforce
  from skip_dependents_skips [OF f] obtain new where
    new: "q1 = q @ new" "skips s (set new) s1" "set new \<subseteq> set (adj_get ?adj c)"
      "set (adj_get ?adj c) \<subseteq> completed s1 \<union> skipped s1" by blast
  have adj: "adjacency_of s1 = ?adj" using new(2) by (simp add: skips_def sched_frame_def)
  let ?s2 = "cascade_loop reason q1 s1"
  from 2 [OF f [symmetric]] adj obtain X where
    X: "skips s1 X ?s2" "X \<subseteq> (adj_rel ?adj)\<^sup>+ `` set q1"
      "\<forall>x\<in>X \<union> set q1. set (adj_get ?adj x) \<subseteq> completed ?s2 \<union> skipped ?s2" by auto
  have eq: "cascade_loop reason (c # q) s = ?s2" by (simp add: f)
  have succ: "set new \<subseteq> adj_rel ?adj `` {c}" using new(3) by (auto simp: adj_rel_def)
  have "set new \<union> X \<subseteq> (adj_rel ?adj)\<^sup>+ `` set (c # q)"
  proof
    fix x assume "x \<in> set new \<union> X"
    then consider "x \<in> set new" | y where "y \<in> set q1" "(y, x) \<in> (adj_rel ?adj)\<^sup>+" using X(2) by auto
    then show "x \<in> (adj_rel ?adj)\<^sup>+ `` set (c # q)"
    proof cases
      case 1
      with succ show ?thesis by auto
    next
      case 2
      show ?thesis
      proof (cases "y \<in> set q")
        case True
        with 2 show ?thesis by auto
      next
        case False
        with 2 new(1) succ have "(c, y) \<in> adj_rel ?adj" by auto
        with 2 show ?thesis by (auto intro: trancl_into_trancl2)
      qed
    qed
  qed
  moreover have "set (adj_get ?adj c) \<subseteq> completed ?s2 \<union> skipped ?s2"
    using new(4) X(1) by (auto simp: skips_def)
  ultimately show ?case
    unfolding eq using skips_trans [OF new(2) X(1)] X(3) new(1)
    by (intro exI [of _ "set new \<union> X"]) auto
qed

section \<open>The graph invariant\<close>

text \<open>
  \<open>C\<close> the finished steps, \<open>F\<close> the failed ones among them, \<open>R\<close> the running steps, \<open>Q\<close> the
  ready queue, \<open>deg\<close> the in-degrees. The steps that a failure reaches along the edges are
  all finished; a finished step that no failure reaches, and a failed one, has only
  finished dependencies; running and queued are exactly the unfinished steps all of
  whose dependencies are finished.
\<close>

definition reached :: "'w dag \<Rightarrow> name set \<Rightarrow> name set" where
  "reached g F = (dag_edges g)\<^sup>* `` F"

definition graph_inv ::
  "'w dag \<Rightarrow> name set \<Rightarrow> name set \<Rightarrow> name set \<Rightarrow> name list \<Rightarrow> degrees \<Rightarrow> bool" where
  "graph_inv g C F R Q deg \<longleftrightarrow>
     C \<subseteq> set (dag_nodes g) \<and> reached g F \<subseteq> C \<and>
     (\<forall>n\<in>C - reached g F. set (dag_deps g n) \<subseteq> C) \<and>
     (\<forall>n\<in>F. set (dag_deps g n) \<subseteq> C - reached g F) \<and>
     distinct Q \<and> set Q \<inter> R = {} \<and>
     set Q \<union> R = {n \<in> set (dag_nodes g). n \<notin> C \<and> set (dag_deps g n) \<subseteq> C} \<and>
     (\<forall>n\<in>set (dag_nodes g). n \<notin> C \<longrightarrow> map_of deg n = Some (int (pending_deps g C n)))"

lemma reached_refl: "F \<subseteq> reached g F"
  by (auto simp: reached_def)

lemma reached_closed: "d \<in> reached g F \<Longrightarrow> d \<in> set (dag_deps g n) \<Longrightarrow> n \<in> reached g F"
  by (auto simp: reached_def dag_edges_def intro: rtrancl_into_rtrancl)

lemma reached_insert: "reached g (insert f F) = insert f ((dag_edges g)\<^sup>+ `` {f}) \<union> reached g F"
  unfolding reached_def by (auto simp: rtrancl_eq_or_trancl)

lemma graph_inv_disjoint:
  "graph_inv g C F R Q deg \<Longrightarrow> n \<notin> C \<Longrightarrow> set (dag_deps g n) \<inter> reached g F = {}"
  by (auto simp: graph_inv_def dest: reached_closed)

text \<open>A finished step below an unfinished one is reached by a failure.\<close>

lemma below_unfinished:
  assumes "graph_inv g C F R Q deg" "f \<notin> C" "(f, x) \<in> (dag_edges g)\<^sup>+" "x \<in> C"
  shows "x \<in> reached g F"
  using assms(3,4)
proof (induction rule: trancl_induct)
  case (base x)
  then show ?case using assms(1,2) by (auto simp: graph_inv_def dag_edges_iff)
next
  case (step y z)
  show ?case
  proof (rule ccontr)
    assume z: "z \<notin> reached g F"
    with step assms(1) have "y \<in> C" by (auto simp: graph_inv_def dag_edges_iff)
    with step z show False by (auto simp: dag_edges_iff dest: reached_closed)
  qed
qed

text \<open>A step that ends without failing.\<close>

lemma pending_deps_frame:
  "set (dag_deps g n) \<inter> X = {} \<Longrightarrow> pending_deps g (C \<union> X) n = pending_deps g C n"
  unfolding pending_deps_def by (rule arg_cong [where f = length], rule filter_cong) auto

lemma filter_not_count:
  "count_list (filter P xs) x = (if P x then count_list xs x else 0)"
  by (induction xs) auto

lemma graph_inv_success:
  assumes inv: "graph_inv g C F R Q deg" and "dag_wf g" and n: "n \<in> R"
    and "ds = filter (\<lambda>d. d \<notin> insert n C) (adj_get (build_adjacency_list g) n)"
  shows "\<exists>deg' Q'. rfold count_down ds (deg, Q) = Inr (deg', Q') \<and>
    graph_inv g (insert n C) F (R - {n}) Q' deg' \<and>
    (\<forall>m. map_of deg m \<noteq> None \<longrightarrow> map_of deg' m \<noteq> None)"
proof -
  let ?C = "insert n C"
  have nC: "n \<notin> C" "n \<in> set (dag_nodes g)" "set (dag_deps g n) \<subseteq> C"
    using inv n by (auto simp: graph_inv_def)
  have cnt: "count_list ds d = (if d \<notin> ?C then count_list (dag_deps g d) n else 0)" for d
    by (simp add: assms(4) filter_not_count count_adjacency [OF assms(2)])
  have ds: "d \<in> set ds \<longleftrightarrow> d \<notin> ?C \<and> n \<in> set (dag_deps g d)" for d
    by (auto simp: assms(4) adj_iff_edge [OF assms(2)] dag_edges_iff)
  have pend: "pending_deps g C d = pending_deps g ?C d + count_list (dag_deps g d) n" for d
    by (rule pending_deps_insert [OF nC(1)])
  have deg: "map_of deg d = Some (int (pending_deps g C d))" if "d \<in> set (dag_nodes g)" "d \<notin> C" for d
    using inv that by (simp add: graph_inv_def)
  have "\<exists>k. map_of deg d = Some k \<and> int (count_list ds d) \<le> k" if "d \<in> set ds" for d
    using that ds [of d] cnt [of d] pend [of d] deg [of d] dag_deps_nonempty [of n g d] by auto
  from count_down_all [OF this, of Q] obtain deg' new where
    fold: "rfold count_down ds (deg, Q) = Inr (deg', Q @ new)"
    and deg': "\<forall>m. map_of deg' m = map_option (\<lambda>k. k - int (count_list ds m)) (map_of deg m)"
    and new: "distinct new" "set new = {d \<in> set ds. map_of deg d = Some (int (count_list ds d))}"
    by blast
  have new_iff: "d \<in> set new \<longleftrightarrow> d \<in> set (dag_nodes g) \<and> d \<notin> ?C \<and> n \<in> set (dag_deps g d) \<and>
      set (dag_deps g d) \<subseteq> ?C" for d
    using new(2) ds [of d] cnt [of d] pend [of d] deg [of d] dag_deps_nonempty [of n g d]
      pending_deps_zero [of g ?C d] by auto
  have old: "d \<in> set Q \<union> R \<longleftrightarrow> d \<in> set (dag_nodes g) \<and> d \<notin> C \<and> set (dag_deps g d) \<subseteq> C" for d
    using inv unfolding graph_inv_def by blast
  have mem: "set (Q @ new) \<union> (R - {n}) = {d \<in> set (dag_nodes g). d \<notin> ?C \<and> set (dag_deps g d) \<subseteq> ?C}"
  proof (rule set_eqI)
    fix d
    have "d \<in> set (Q @ new) \<union> (R - {n}) \<longleftrightarrow> (d \<in> set Q \<union> R \<and> d \<noteq> n) \<or> d \<in> set new"
      using inv n new_iff [of d] by (auto simp: graph_inv_def)
    also have "\<dots> \<longleftrightarrow> d \<in> set (dag_nodes g) \<and> d \<notin> ?C \<and> set (dag_deps g d) \<subseteq> ?C"
      using old [of d] new_iff [of d] by blast
    finally show "d \<in> set (Q @ new) \<union> (R - {n}) \<longleftrightarrow>
      d \<in> {d \<in> set (dag_nodes g). d \<notin> ?C \<and> set (dag_deps g d) \<subseteq> ?C}" by simp
  qed
  have disj: "set new \<inter> (set Q \<union> R) = {}"
    using new_iff old nC(1) by blast
  have "graph_inv g ?C F (R - {n}) (Q @ new) deg'"
    unfolding graph_inv_def
  proof (intro conjI)
    show "distinct (Q @ new)" "set (Q @ new) \<inter> (R - {n}) = {}"
      using inv new(1) disj by (auto simp: graph_inv_def)
    show "\<forall>m\<in>set (dag_nodes g). m \<notin> ?C \<longrightarrow> map_of deg' m = Some (int (pending_deps g ?C m))"
      using deg deg' pend cnt by auto
    show "\<forall>m\<in>?C - reached g F. set (dag_deps g m) \<subseteq> ?C" "\<forall>m\<in>F. set (dag_deps g m) \<subseteq> ?C - reached g F"
      "?C \<subseteq> set (dag_nodes g)" "reached g F \<subseteq> ?C"
      using inv nC by (auto simp: graph_inv_def)
  qed (rule mem)
  with fold deg' show ?thesis by auto
qed

text \<open>A step that fails, with the steps \<open>X\<close> its failure skips.\<close>

lemma graph_inv_failure:
  assumes inv: "graph_inv g C F R Q deg" and v: "valid_dag g" and f: "f \<in> R"
    and X: "X \<inter> insert f C = {}" "X \<subseteq> (dag_edges g)\<^sup>+ `` {f}"
    and closed: "\<And>x y. x \<in> insert f X \<Longrightarrow> (x, y) \<in> dag_edges g \<Longrightarrow> y \<in> insert f C \<union> X"
  shows "graph_inv g (insert f C \<union> X) (insert f F) (R - {f}) Q deg"
proof -
  let ?C = "insert f C \<union> X"
  let ?B = "reached g F"
  let ?B' = "reached g (insert f F)"
  have fC: "f \<notin> C" "f \<in> set (dag_nodes g)" "set (dag_deps g f) \<subseteq> C"
    using inv f by (auto simp: graph_inv_def)
  have B': "?B' = insert f ((dag_edges g)\<^sup>+ `` {f}) \<union> ?B" by (rule reached_insert)
  have noloop: "(f, f) \<notin> (dag_edges g)\<^sup>+"
    using dag_graph.deps_acyclic [OF v] by (simp add: acyclic_def dag_edges_def)
  have below: "x \<in> ?B" if "(f, x) \<in> (dag_edges g)\<^sup>+" "x \<in> C" for x
    by (rule below_unfinished [OF inv fC(1) that])
  have down: "x \<in> X \<union> ?B" if "(f, x) \<in> (dag_edges g)\<^sup>+" for x
    using that
  proof (induction rule: trancl_induct)
    case (base x)
    then have "x \<in> ?C" "x \<noteq> f" using closed noloop by auto
    with base below show ?case by auto
  next
    case (step y z)
    show ?case
    proof (cases "y \<in> ?B")
      case True
      with step show ?thesis by (auto simp: dag_edges_iff dest: reached_closed)
    next
      case False
      with step.IH have "y \<in> X" by blast
      with step have z: "z \<in> ?C" "(f, z) \<in> (dag_edges g)\<^sup>+" using closed by auto
      with noloop below show ?thesis by auto
    qed
  qed
  have BC: "?B \<subseteq> C" using inv by (simp add: graph_inv_def)
  have B'_eq: "?B' = insert f X \<union> ?B" using B' down X(2) by auto
  have nodes: "X \<subseteq> set (dag_nodes g)"
  proof
    fix x assume "x \<in> X"
    with X(2) have "(f, x) \<in> (dag_edges g)\<^sup>+" by auto
    then obtain p where "(p, x) \<in> dag_edges g" by (auto elim: tranclE)
    then show "x \<in> set (dag_nodes g)" by (auto simp: dag_edges_iff dest: dag_deps_nonempty)
  qed
  have avoid: "set (dag_deps g n) \<inter> ?B' = {}" if "n \<notin> ?B'" for n
    using that by (auto dest: reached_closed)
  have out: "n \<notin> ?C \<Longrightarrow> n \<notin> ?B'" for n using B'_eq BC by auto
  have same: "set (dag_deps g n) \<subseteq> ?C \<longleftrightarrow> set (dag_deps g n) \<subseteq> C" if "n \<notin> ?C" for n
    using avoid [OF out [OF that]] B'_eq by auto
  have RQ: "n \<in> set Q \<union> R \<longleftrightarrow> n \<in> set (dag_nodes g) \<and> n \<notin> C \<and> set (dag_deps g n) \<subseteq> C" for n
    using inv unfolding graph_inv_def by blast
  have notX: "n \<notin> X" if "n \<in> set Q \<union> R" for n
  proof
    assume "n \<in> X"
    with X(2) have "(f, n) \<in> (dag_edges g)\<^sup>+" by auto
    then have "\<exists>p. (p = f \<or> (f, p) \<in> (dag_edges g)\<^sup>+) \<and> (p, n) \<in> dag_edges g"
      by (cases rule: tranclE) blast+
    then obtain p where p: "p = f \<or> (f, p) \<in> (dag_edges g)\<^sup>+" "p \<in> set (dag_deps g n)"
      by (auto simp: dag_edges_iff)
    with RQ [of n] that have "p \<in> C" by auto
    with p fC(1) below have "p \<in> ?B" by auto
    with p have "n \<in> ?B" by (auto dest: reached_closed)
    with RQ [of n] that BC show False by auto
  qed
  show ?thesis
    unfolding graph_inv_def
  proof (intro conjI)
    show "?C \<subseteq> set (dag_nodes g)" using inv fC nodes by (auto simp: graph_inv_def)
    show "?B' \<subseteq> ?C" using B'_eq BC by auto
    show "\<forall>n\<in>?C - ?B'. set (dag_deps g n) \<subseteq> ?C" using inv B'_eq by (auto simp: graph_inv_def)
    show "\<forall>n\<in>insert f F. set (dag_deps g n) \<subseteq> ?C - ?B'"
    proof
      fix n assume n: "n \<in> insert f F"
      have "set (dag_deps g n) \<subseteq> C - ?B"
      proof (cases "n = f")
        case True
        with fC graph_inv_disjoint [OF inv fC(1)] show ?thesis by auto
      next
        case False
        with n inv show ?thesis by (auto simp: graph_inv_def)
      qed
      with X(1) fC(1) B'_eq show "set (dag_deps g n) \<subseteq> ?C - ?B'" by auto
    qed
    show "distinct Q" "set Q \<inter> (R - {f}) = {}" using inv by (auto simp: graph_inv_def)
    show "set Q \<union> (R - {f}) = {n \<in> set (dag_nodes g). n \<notin> ?C \<and> set (dag_deps g n) \<subseteq> ?C}"
    proof (rule set_eqI)
      fix n
      have "n \<in> set Q \<union> (R - {f}) \<longleftrightarrow> n \<in> set Q \<union> R \<and> n \<noteq> f"
        using inv f by (auto simp: graph_inv_def)
      also have "\<dots> \<longleftrightarrow> n \<in> set (dag_nodes g) \<and> n \<notin> ?C \<and> set (dag_deps g n) \<subseteq> ?C"
        using RQ [of n] notX [of n] same [of n] by auto
      finally show "n \<in> set Q \<union> (R - {f}) \<longleftrightarrow>
        n \<in> {n \<in> set (dag_nodes g). n \<notin> ?C \<and> set (dag_deps g n) \<subseteq> ?C}" by simp
    qed
    show "\<forall>n\<in>set (dag_nodes g). n \<notin> ?C \<longrightarrow> map_of deg n = Some (int (pending_deps g ?C n))"
    proof (intro ballI impI)
      fix n assume n: "n \<in> set (dag_nodes g)" "n \<notin> ?C"
      have "set (dag_deps g n) \<inter> insert f X = {}"
        using avoid [OF out [OF n(2)]] B'_eq by auto
      from pending_deps_frame [OF this, of C] have "pending_deps g ?C n = pending_deps g C n"
        by (simp add: Un_commute)
      with inv n show "map_of deg n = Some (int (pending_deps g ?C n))"
        by (auto simp: graph_inv_def)
    qed
  qed
qed

text \<open>A queued step that is started moves to the running ones.\<close>

lemma graph_inv_start:
  "graph_inv g C F R (n # Q) deg \<Longrightarrow> graph_inv g C F (insert n R) Q deg"
  by (auto simp: graph_inv_def)

lemma graph_inv_initial:
  assumes "dag_wf g"
  shows "graph_inv g {} {} {} (initial_ready (initial_in_degree g)) (initial_in_degree g)"
  using set_initial_ready [OF assms] distinct_initial_ready [OF assms]
  by (auto simp: graph_inv_def reached_def map_of_initial_in_degree [OF assms] pending_deps_def)

section \<open>The scheduler invariant\<close>

definition failed_set :: "'w run_state \<Rightarrow> name set" where
  "failed_set s = {n. \<exists>r. map_of (results s) n = Some r \<and> status r = FAILED}"

definition lifecycle_ok :: "'w run_state \<Rightarrow> bool" where
  "lifecycle_ok s \<longleftrightarrow>
     (\<forall>n. (n \<in> completed s \<longrightarrow> terminal_state (get_state (states s) n)) \<and>
          (n \<in> running s \<longrightarrow> get_state (states s) n \<in> {StReady, StRunning}) \<and>
          (n \<notin> completed s \<longrightarrow> n \<notin> running s \<longrightarrow> get_state (states s) n = StPending))"

text \<open>\<open>P\<close> holds the steps of the current batch that are still to be processed.\<close>

definition sched_inv :: "name set \<Rightarrow> 'w run_state \<Rightarrow> bool" where
  "sched_inv P s \<longleftrightarrow>
     valid_dag (rs_dag s) \<and> adjacency_of s = build_adjacency_list (rs_dag s) \<and>
     1 \<le> max_concurrency s \<and>
     graph_inv (rs_dag s) (completed s) (failed_set s) (running s) (ready s) (in_degree s) \<and>
     (\<forall>n. n \<in> completed s \<longleftrightarrow> map_of (results s) n \<noteq> None) \<and> skipped s \<subseteq> completed s \<and>
     finite (running s) \<and> int (card (running s)) \<le> max_concurrency s \<and>
     (\<forall>n. n \<in> running s \<longleftrightarrow> n \<in> tasks s \<or> n \<in> P) \<and> tasks s \<inter> P = {} \<and> lifecycle_ok s \<and>
     (\<forall>n r. map_of (results s) n = Some r \<longrightarrow> status r \<in> terminal_statuses) \<and>
     overall_status (rs_result s) = (if failed_set s = {} then RUNNING else FAILED)"

lemma sched_inv_graph:
  "sched_inv P s \<Longrightarrow>
     graph_inv (rs_dag s) (completed s) (failed_set s) (running s) (ready s) (in_degree s)"
  "sched_inv P s \<Longrightarrow> valid_dag (rs_dag s)"
  "sched_inv P s \<Longrightarrow> adjacency_of s = build_adjacency_list (rs_dag s)"
  by (simp_all add: sched_inv_def)

lemma graph_inv_running:
  "graph_inv g C F R Q deg \<Longrightarrow> n \<in> R \<Longrightarrow>
     n \<in> set (dag_nodes g) \<and> n \<notin> C \<and> set (dag_deps g n) \<subseteq> C"
  unfolding graph_inv_def by blast

lemma sched_inv_running:
  assumes "sched_inv P s" "n \<in> running s"
  shows "n \<in> set (dag_nodes (rs_dag s))" "n \<notin> completed s"
    "set (dag_deps (rs_dag s) n) \<subseteq> completed s - reached (rs_dag s) (failed_set s)"
  using graph_inv_running [OF sched_inv_graph(1) [OF assms(1)] assms(2)]
    graph_inv_disjoint [OF sched_inv_graph(1) [OF assms(1)], of n] by auto

lemma sched_inv_ready:
  "sched_inv P s \<Longrightarrow> n \<in> set (ready s) \<Longrightarrow> n \<notin> completed s \<and> n \<notin> running s"
  using sched_inv_graph(1) [of P s] unfolding graph_inv_def by blast

text \<open>Fields the invariant does not read.\<close>

lemma sched_inv_ctx [simp]: "sched_inv P (s\<lparr>rs_ctx := c\<rparr>) = sched_inv P s"
  by (simp add: sched_inv_def failed_set_def lifecycle_ok_def)

lemma notify_fields [simp]:
  "rs_dag (notify fate ev s) = rs_dag s" "adjacency_of (notify fate ev s) = adjacency_of s"
  "max_concurrency (notify fate ev s) = max_concurrency s" "completed (notify fate ev s) = completed s"
  "running (notify fate ev s) = running s" "ready (notify fate ev s) = ready s"
  "in_degree (notify fate ev s) = in_degree s" "results (notify fate ev s) = results s"
  "skipped (notify fate ev s) = skipped s" "tasks (notify fate ev s) = tasks s"
  "states (notify fate ev s) = states s" "overall_status (rs_result (notify fate ev s)) = overall_status (rs_result s)"
  "rs_timeout (notify fate ev s) = rs_timeout s" "iter_set (notify fate ev s) = iter_set s"
  by (simp_all add: notify_def tick_def Let_def count_observer_error_def split: observer_fate.split)

lemma sched_inv_notify [simp]: "sched_inv P (notify fate ev s) = sched_inv P s"
  by (simp add: sched_inv_def failed_set_def lifecycle_ok_def)

lemma finish_done_task_inv: "sched_inv P (finish_done_task fate n r mark s) = sched_inv P s"
  by (simp add: finish_done_task_def Let_def split: option.split)

subsection \<open>Starting a task\<close>

lemma run_step_begin_inv:
  assumes "sched_inv P s" "n \<in> running s" "get_state (states s) n = StReady"
  shows "\<exists>s'. run_step_begin fate n s = Inr s' \<and> sched_inv P s'"
proof -
  have "transition n StRunning (states s) = Inr (set_state n StRunning (states s))"
    using assms(3) by (simp add: transition_Inr can_transition_def)
  moreover have "sched_inv P (s\<lparr>states := set_state n StRunning (states s)\<rparr>)"
    using assms sched_inv_running(2) [OF assms(1,2)]
    by (auto simp: sched_inv_def failed_set_def lifecycle_ok_def)
  ultimately show ?thesis by (simp add: run_step_begin_def lift_state_error_def)
qed

subsection \<open>Scheduling\<close>

lemma schedule_one:
  assumes "sched_inv P (s\<lparr>ready := n # Q\<rparr>)" "int (card (running s)) < max_concurrency s"
  shows "n \<notin> completed s" "n \<notin> skipped s"
    "transition n StReady (states s) = Inr (set_state n StReady (states s))"
    "sched_inv P (s\<lparr>running := insert n (running s), states := set_state n StReady (states s),
        tasks := insert n (tasks s), ready := Q\<rparr>)"
proof -
  let ?s = "s\<lparr>ready := n # Q\<rparr>"
  from sched_inv_ready [OF assms(1), of n] have n: "n \<notin> completed s" "n \<notin> running s" by simp_all
  then show "n \<notin> completed s" by simp
  show "n \<notin> skipped s" using n assms(1) by (auto simp: sched_inv_def)
  have "get_state (states s) n = StPending"
    using n assms(1) by (auto simp: sched_inv_def lifecycle_ok_def)
  then show "transition n StReady (states s) = Inr (set_state n StReady (states s))"
    by (simp add: transition_Inr can_transition_def)
  show "sched_inv P (s\<lparr>running := insert n (running s), states := set_state n StReady (states s),
        tasks := insert n (tasks s), ready := Q\<rparr>)"
    using assms n by (auto simp: sched_inv_def failed_set_def lifecycle_ok_def intro: graph_inv_start)
qed

lemma schedule_from_inv:
  "sched_inv P (s\<lparr>ready := Q\<rparr>) \<Longrightarrow>
     \<exists>s'. schedule_from Q s = Inr s' \<and> sched_inv P s' \<and> completed s' = completed s \<and>
       results s' = results s \<and> rs_dag s' = rs_dag s \<and> rs_timeout s' = rs_timeout s \<and> iter_set s' = iter_set s \<and>
       max_concurrency s' = max_concurrency s \<and>
       (ready s' = [] \<or> int (card (running s')) = max_concurrency s')"
proof (induction Q arbitrary: s)
  case (Cons n Q)
  show ?case
  proof (cases "int (card (running s)) < max_concurrency s")
    case False
    with Cons.prems show ?thesis by (auto simp: sched_inv_def failed_set_def lifecycle_ok_def)
  next
    case True
    note one = schedule_one [OF Cons.prems True]
    let ?s = "s\<lparr>running := insert n (running s), states := set_state n StReady (states s),
        tasks := insert n (tasks s)\<rparr>"
    have "sched_inv P (?s\<lparr>ready := Q\<rparr>)" using one(4) by simp
    from Cons.IH [OF this] one(1,2,3) True show ?thesis by (auto simp: lift_state_error_def)
  qed
qed simp

subsection \<open>Finished tasks\<close>

text \<open>The state in which the result \<open>r\<close> of step \<open>n\<close> has been recorded, before it
  propagates.\<close>

definition settled :: "name \<Rightarrow> step_result \<Rightarrow> 'w run_state \<Rightarrow> 'w run_state \<Rightarrow> bool" where
  "settled n r s s2 \<longleftrightarrow>
     rs_dag s2 = rs_dag s \<and> adjacency_of s2 = adjacency_of s \<and> ready s2 = ready s \<and>
     in_degree s2 = in_degree s \<and> tasks s2 = tasks s \<and> max_concurrency s2 = max_concurrency s \<and>
     iter_set s2 = iter_set s \<and> rs_timeout s2 = rs_timeout s \<and>
     running s2 = running s - {n} \<and> completed s2 = insert n (completed s) \<and>
     skipped s \<subseteq> skipped s2 \<and> skipped s2 \<subseteq> insert n (skipped s) \<and>
     map_of (results s2) = (map_of (results s))(n \<mapsto> r) \<and>
     (\<exists>t. terminal_state t \<and> (\<forall>m. get_state (states s2) m = (if m = n then t else get_state (states s) m))) \<and>
     overall_status (rs_result s2) = (if status r = FAILED then FAILED else overall_status (rs_result s))"

lemma failed_set_settled:
  assumes "settled n r s s2" "map_of (results s) n = None"
  shows "failed_set s2 = (if status r = FAILED then insert n (failed_set s) else failed_set s)"
  using assms by (auto simp: settled_def failed_set_def)

lemma failed_set_skips:
  assumes "skips s X s'" "\<And>n. n \<in> completed s \<longleftrightarrow> map_of (results s) n \<noteq> None"
  shows "failed_set s' = failed_set s"
proof -
  have "n \<in> failed_set s' \<longleftrightarrow> n \<in> failed_set s" for n
  proof (cases "n \<in> X")
    case True
    with assms have "map_of (results s) n = None" by (auto simp: skips_def)
    moreover obtain r where "map_of (results s') n = Some r" "status r = SKIPPED"
      using True assms(1) by (auto simp: skips_def)
    ultimately show ?thesis by (simp add: failed_set_def)
  next
    case False
    with assms(1) show ?thesis by (simp add: skips_def failed_set_def)
  qed
  then show ?thesis by blast
qed

lemma sched_inv_results:
  "sched_inv P s \<Longrightarrow> n \<in> completed s \<longleftrightarrow> map_of (results s) n \<noteq> None"
  by (simp add: sched_inv_def)

lemma settled_results:
  assumes "sched_inv P s" "settled n r s s2"
  shows "m \<in> completed s2 \<longleftrightarrow> map_of (results s2) m \<noteq> None"
  using assms sched_inv_results [OF assms(1), of m] by (simp add: settled_def)

lemma lifecycle_settled:
  assumes "sched_inv P s" "settled n r s s2"
  shows "lifecycle_ok s2"
  using assms unfolding sched_inv_def settled_def lifecycle_ok_def by auto

lemma lifecycle_skips:
  "lifecycle_ok s \<Longrightarrow> skips s X s' \<Longrightarrow> X \<inter> running s = {} \<Longrightarrow> lifecycle_ok s'"
  unfolding lifecycle_ok_def skips_def sched_frame_def by auto

lemma settled_statuses:
  assumes "sched_inv P s" "settled n r s s2" "status r \<in> terminal_statuses" "map_of (results s2) m = Some q"
  shows "status q \<in> terminal_statuses"
  using assms by (auto simp: sched_inv_def settled_def split: if_splits)

lemma skips_statuses:
  assumes "skips s X s'" "\<And>m q. map_of (results s) m = Some q \<Longrightarrow> status q \<in> terminal_statuses"
    and "map_of (results s') m = Some q"
  shows "status q \<in> terminal_statuses"
  using assms by (cases "m \<in> X") (auto simp: skips_def terminal_statuses_def)

lemma running_card:
  "sched_inv P s \<Longrightarrow> finite (running s - {n}) \<and> int (card (running s - {n})) \<le> max_concurrency s"
  by (auto simp: sched_inv_def card_Diff1_le intro: order_trans [rotated])

lemma settled_running:
  assumes "sched_inv P s" "n \<in> P" "settled n r s s2"
  shows "\<forall>m. m \<in> running s2 \<longleftrightarrow> m \<in> tasks s2 \<or> m \<in> P - {n}" "tasks s2 \<inter> (P - {n}) = {}"
  using assms unfolding sched_inv_def settled_def by auto

lemma settle_failure:
  assumes inv: "sched_inv P s" and n: "n \<in> P" and st: "settled n r s s2" and r: "status r = FAILED"
  shows "\<exists>X. skips s2 X (cascade_skip n reason s2) \<and> X \<subseteq> (dag_edges (rs_dag s))\<^sup>+ `` {n} \<and>
    sched_inv (P - {n}) (cascade_skip n reason s2)"
proof -
  let ?g = "rs_dag s" and ?s' = "cascade_skip n reason s2"
  have run: "n \<in> running s" using inv n by (simp add: sched_inv_def)
  have gi: "graph_inv ?g (completed s) (failed_set s) (running s) (ready s) (in_degree s)"
    and v: "valid_dag ?g" and adj: "adjacency_of s = build_adjacency_list ?g"
    using sched_inv_graph [OF inv] by auto
  have fresh: "map_of (results s) n = None"
    using sched_inv_running(2) [OF inv run] sched_inv_results [OF inv, of n] by auto
  have rel: "adj_rel (adjacency_of s2) = dag_edges ?g"
    using st adj v by (simp add: settled_def adj_rel_build valid_dag_def)
  from cascade_loop_skips [of s2 reason "[n]"] obtain X where
    X: "skips s2 X ?s'" "X \<subseteq> (dag_edges ?g)\<^sup>+ `` {n}"
      "\<forall>x\<in>insert n X. set (adj_get (adjacency_of s2) x) \<subseteq> completed ?s' \<union> skipped ?s'"
    by (auto simp: cascade_skip_def rel)
  have skipped: "skipped s2 \<subseteq> completed s2"
    using inv st by (auto simp: sched_inv_def settled_def)
  have C': "completed ?s' = insert n (completed s) \<union> X" "skipped ?s' \<subseteq> completed ?s'"
    using X(1) st skipped by (auto simp: skips_def settled_def)
  have disj: "X \<inter> insert n (completed s) = {}"
    using X(1) st by (auto simp: skips_def settled_def)
  have closed: "y \<in> insert n (completed s) \<union> X" if "x \<in> insert n X" "(x, y) \<in> dag_edges ?g" for x y
  proof -
    have "y \<in> set (adj_get (adjacency_of s2) x)"
      using that(2) unfolding rel [symmetric] by (simp add: adj_rel_def)
    with X(3) that(1) have "y \<in> completed ?s' \<union> skipped ?s'" by blast
    with C' show ?thesis by blast
  qed
  have F: "failed_set ?s' = insert n (failed_set s)"
    unfolding failed_set_skips [OF X(1) settled_results [OF inv st]] failed_set_settled [OF st fresh]
    by (simp add: r)
  have fr1: "rs_dag s2 = rs_dag s \<and> ready s2 = ready s \<and> in_degree s2 = in_degree s \<and>
      running s2 = running s - {n} \<and> tasks s2 = tasks s \<and> max_concurrency s2 = max_concurrency s \<and>
      adjacency_of s2 = adjacency_of s"
    using st unfolding settled_def by blast
  have fr2: "rs_dag ?s' = rs_dag s2 \<and> ready ?s' = ready s2 \<and> in_degree ?s' = in_degree s2 \<and>
      running ?s' = running s2 \<and> tasks ?s' = tasks s2 \<and> max_concurrency ?s' = max_concurrency s2 \<and>
      adjacency_of ?s' = adjacency_of s2"
    using X(1) unfolding skips_def sched_frame_def by blast
  have gi': "graph_inv ?g (completed ?s') (failed_set ?s') (running ?s') (ready ?s') (in_degree ?s')"
    unfolding F C'(1)
    using graph_inv_failure [OF gi v run disj X(2) closed] fr1 fr2 by simp
  have "X \<inter> running s2 = {}"
  proof -
    have "m \<notin> X" if "m \<in> running s - {n}" for m
      using graph_inv_running [OF gi', of m] that fr1 fr2 C'(1) by auto
    then show ?thesis using fr1 by auto
  qed
  then have life: "lifecycle_ok ?s'"
    by (rule lifecycle_skips [OF lifecycle_settled [OF inv st] X(1)])
  have res: "m \<in> completed ?s' \<longleftrightarrow> map_of (results ?s') m \<noteq> None" for m
    using X(1) settled_results [OF inv st, of m] by (cases "m \<in> X") (auto simp: skips_def)
  have sts: "status q \<in> terminal_statuses" if "map_of (results ?s') m = Some q" for m q
    by (rule skips_statuses [OF X(1) settled_statuses [OF inv st] that])
       (simp_all add: r terminal_statuses_def)
  have over: "overall_status (rs_result ?s') = FAILED"
    using X(1) st r by (simp add: skips_def settled_def)
  have "sched_inv (P - {n}) ?s'"
    unfolding sched_inv_def
    using gi' v C'(2) res life sts F over fr1 fr2 adj settled_running [OF inv n st] running_card [OF inv, of n]
      inv [unfolded sched_inv_def] by simp
  with X show ?thesis by blast
qed

lemma settle_success:
  assumes inv: "sched_inv P s" and n: "n \<in> P" and st: "settled n r s s2"
    and r: "status r \<in> {SUCCESS, SKIPPED}"
  shows "\<exists>s'. unlock_downstream n s2 = Inr s' \<and> sched_inv (P - {n}) s' \<and>
    completed s' = completed s2 \<and> results s' = results s2 \<and> rs_dag s' = rs_dag s2 \<and>
    rs_timeout s' = rs_timeout s2 \<and> iter_set s' = iter_set s2 \<and> states s' = states s2 \<and> tasks s' = tasks s2 \<and>
    max_concurrency s' = max_concurrency s2"
proof -
  let ?g = "rs_dag s"
  have run: "n \<in> running s" using inv n by (simp add: sched_inv_def)
  have gi: "graph_inv ?g (completed s) (failed_set s) (running s) (ready s) (in_degree s)"
    and v: "valid_dag ?g" and adj: "adjacency_of s = build_adjacency_list ?g"
    using sched_inv_graph [OF inv] by auto
  have wf: "dag_wf ?g" using v by (simp add: valid_dag_def)
  have fresh: "map_of (results s) n = None"
    using sched_inv_running(2) [OF inv run] sched_inv_results [OF inv, of n] by auto
  have skipped: "skipped s2 \<subseteq> completed s2"
    using inv st by (auto simp: sched_inv_def settled_def)
  let ?ds = "filter (\<lambda>d. d \<notin> insert n (completed s)) (adj_get (build_adjacency_list ?g) n)"
  from graph_inv_success [OF gi wf run refl] obtain deg' Q' where
    cd: "rfold count_down ?ds (in_degree s, ready s) = Inr (deg', Q')"
    and gi': "graph_inv ?g (insert n (completed s)) (failed_set s) (running s - {n}) Q' deg'" by blast
  have filt: "rfold (\<lambda>d dr. if d \<in> completed s2 \<or> d \<in> skipped s2 then Inr dr else count_down d dr) xs dr =
      rfold count_down (filter (\<lambda>d. d \<notin> completed s2) xs) dr" for xs dr
  proof (induction xs arbitrary: dr)
    case (Cons d xs)
    then show ?case using skipped by (cases "count_down d dr") auto
  qed simp
  let ?s' = "s2\<lparr>in_degree := deg', ready := Q'\<rparr>"
  have "unlock_downstream n s2 = Inr ?s'"
    unfolding unlock_downstream_def filt using cd st adj by (simp add: lift_dag_error_def settled_def)
  moreover have F: "failed_set ?s' = failed_set s"
    using failed_set_settled [OF st fresh] r by (auto simp: failed_set_def)
  have "sched_inv (P - {n}) ?s'"
  proof -
    have "graph_inv (rs_dag ?s') (completed ?s') (failed_set ?s') (running ?s') (ready ?s') (in_degree ?s')"
      unfolding F using gi' st by (simp add: settled_def)
    moreover have "lifecycle_ok ?s'"
      using lifecycle_settled [OF inv st] by (simp add: lifecycle_ok_def)
    moreover have "\<forall>m q. map_of (results ?s') m = Some q \<longrightarrow> status q \<in> terminal_statuses"
      using settled_statuses [OF inv st] r by (auto simp: terminal_statuses_def)
    moreover have "overall_status (rs_result ?s') = (if failed_set ?s' = {} then RUNNING else FAILED)"
      unfolding F using inv st r by (auto simp: sched_inv_def settled_def)
    ultimately show ?thesis
      unfolding sched_inv_def
      using inv v adj st skipped settled_results [OF inv st] settled_running [OF inv n st] running_card [OF inv, of n]
      by (auto simp: settled_def sched_inv_def [of P s])
  qed
  ultimately show ?thesis by auto
qed

text \<open>The status a finished task is recorded with, and what processing it has recorded.\<close>

definition outcome_status :: "task_outcome \<Rightarrow> step_status" where
  "outcome_status out =
     (case out of
        TaskRaised e \<Rightarrow> FAILED
      | TaskReturned r \<Rightarrow> if status r \<in> terminal_statuses then status r else FAILED)"

definition records :: "name \<Rightarrow> step_result \<Rightarrow> name set \<Rightarrow> 'w run_state \<Rightarrow> 'w run_state \<Rightarrow> bool" where
  "records n r X s s1 \<longleftrightarrow>
     completed s1 = insert n (completed s) \<union> X \<and> X \<inter> insert n (completed s) = {} \<and>
     X \<subseteq> (dag_edges (rs_dag s))\<^sup>+ `` {n} \<and> (status r \<noteq> FAILED \<longrightarrow> X = {}) \<and>
     map_of (results s1) n = Some r \<and>
     (\<forall>m\<in>X. \<exists>q. map_of (results s1) m = Some q \<and> status q = SKIPPED) \<and>
     (\<forall>m. m \<noteq> n \<longrightarrow> m \<notin> X \<longrightarrow> map_of (results s1) m = map_of (results s) m) \<and>
     (\<forall>m. m \<noteq> n \<longrightarrow> m \<notin> X \<longrightarrow> get_state (states s1) m = get_state (states s) m) \<and>
     rs_dag s1 = rs_dag s \<and> rs_timeout s1 = rs_timeout s \<and> iter_set s1 = iter_set s \<and> tasks s1 = tasks s \<and>
     max_concurrency s1 = max_concurrency s"

lemma failure_records:
  assumes inv: "sched_inv P s" and n: "n \<in> P" and st: "settled n r s s2" and r: "status r = FAILED"
  shows "\<exists>X. records n r X s (cascade_skip n reason s2)" "sched_inv (P - {n}) (cascade_skip n reason s2)"
proof -
  from settle_failure [OF assms, of reason] obtain X where
    X: "skips s2 X (cascade_skip n reason s2)" "X \<subseteq> (dag_edges (rs_dag s))\<^sup>+ `` {n}"
      "sched_inv (P - {n}) (cascade_skip n reason s2)" by blast
  have "n \<notin> X" using X(1) st by (auto simp: skips_def settled_def)
  moreover have "map_of (results s2) n = Some r" using st by (simp add: settled_def)
  ultimately have "map_of (results (cascade_skip n reason s2)) n = Some r"
    using X(1) by (simp add: skips_def)
  with X st r have "records n r X s (cascade_skip n reason s2)"
    unfolding records_def skips_def settled_def sched_frame_def by auto
  then show "\<exists>X. records n r X s (cascade_skip n reason s2)" ..
  show "sched_inv (P - {n}) (cascade_skip n reason s2)" by (rule X(3))
qed

lemma status_fail_nonterminal: "status (fail_nonterminal t r) = outcome_status (TaskReturned r)"
  by (simp add: fail_nonterminal_def outcome_status_def Let_def)

lemma outcome_status_terminal: "outcome_status out \<in> {SUCCESS, FAILED, SKIPPED}"
  by (auto simp: outcome_status_def terminal_statuses_def split: task_outcome.split)

lemma settled_exception:
  assumes "sched_inv P s" "n \<in> P"
  shows "\<exists>r s2. record_task_exception n e s = (cascade_skip n ''unhandled exception'' s2, r, Some (exn_msg e)) \<and>
    settled n r s s2 \<and> status r = FAILED"
  by (auto simp: record_task_exception_def Let_def settled_def tick_def)

definition outcome_state :: "step_status \<Rightarrow> step_state" where
  "outcome_state st = (case st of SUCCESS \<Rightarrow> StSuccess | SKIPPED \<Rightarrow> StSkipped | _ \<Rightarrow> StFailed)"

lemma transition_outcome_settled:
  assumes s1: "s1 = (tick s)\<lparr>running := running s - {n}, results := AList.update n r (results s),
      rs_result := add_step r (rs_result s), completed := insert n (completed s)\<rparr>"
    and st: "get_state (states s) n = StRunning" and r: "status r \<in> {SUCCESS, FAILED, SKIPPED}"
  shows "\<exists>s2. transition_outcome_state n r s1 = Inr s2 \<and> settled n r s s2"
proof -
  have tr: "transition n (outcome_state (status r)) (states s) = Inr (set_state n (outcome_state (status r)) (states s))"
    using st r by (auto simp: transition_Inr can_transition_def outcome_state_def)
  have sel: "states s1 = states s" by (simp add: s1 tick_def)
  have "status r = SUCCESS \<or> status r = SKIPPED \<or> status r = FAILED" using r by blast
  then show ?thesis
    using tr unfolding transition_outcome_state_def sel
    by (elim disjE) (simp_all add: outcome_state_def lift_state_error_def s1 settled_def tick_def is_failed_def, auto)
qed

lemma process_done_task_inv:
  assumes inv: "sched_inv P s" and n: "n \<in> P"
    and running: "(\<exists>r. out = TaskReturned r) \<Longrightarrow> get_state (states s) n = StRunning"
  shows "\<exists>s1 r mark X. process_done_task n out s = Inr (s1, r, mark) \<and> sched_inv (P - {n}) s1 \<and>
    status r = outcome_status out \<and> records n r X s s1"
proof (cases out)
  case (TaskRaised e)
  from settled_exception [OF inv n] obtain r s2 where
    s2: "record_task_exception n e s = (cascade_skip n ''unhandled exception'' s2, r, Some (exn_msg e))"
      "settled n r s s2" "status r = FAILED" by blast
  from failure_records [OF inv n s2(2,3)] s2 TaskRaised show ?thesis
    by (auto simp: process_done_task_def outcome_status_def)
next
  case (TaskReturned raw)
  define r where "r = fail_nonterminal (now s) raw"
  define s1 where "s1 = (tick s)\<lparr>running := running s - {n}, results := AList.update n r (results s),
      rs_result := add_step r (rs_result s), completed := insert n (completed s)\<rparr>"
  define mark where "mark = (if status raw \<in> terminal_statuses then None
      else Some (case error r of None \<Rightarrow> [] | Some e \<Rightarrow> e))"
  have str: "status r = outcome_status out" by (simp add: r_def TaskReturned status_fail_nonterminal)
  from transition_outcome_settled [OF s1_def running] outcome_status_terminal [of out] str TaskReturned
  obtain s2 where s2: "transition_outcome_state n r s1 = Inr s2" "settled n r s s2" by auto
  have proc: "process_done_task n out s =
      (if is_failed r then Inr (cascade_skip n ''dependency failed''
                       (s2\<lparr>rs_result := (rs_result s2)\<lparr>overall_status := FAILED\<rparr>\<rparr>), r, mark)
       else rbind (unlock_downstream n s2) (\<lambda>s3. Inr (s3, r, mark)))"
    using s2(1) by (simp add: process_done_task_def TaskReturned process_result_def Let_def r_def s1_def mark_def)
  show ?thesis
  proof (cases "is_failed r")
    case True
    then have f: "status r = FAILED" by (simp add: is_failed_def)
    with s2(2) have "settled n r s (s2\<lparr>rs_result := (rs_result s2)\<lparr>overall_status := FAILED\<rparr>\<rparr>)"
      by (simp add: settled_def)
    from failure_records [OF inv n this f] True str proc show ?thesis by auto
  next
    case False
    with str outcome_status_terminal [of out] have "status r \<in> {SUCCESS, SKIPPED}"
      by (auto simp: is_failed_def)
    from settle_success [OF inv n s2(2) this] obtain s3 where
      s3: "unlock_downstream n s2 = Inr s3" "sched_inv (P - {n}) s3" "completed s3 = completed s2"
        "results s3 = results s2" "rs_dag s3 = rs_dag s2" "rs_timeout s3 = rs_timeout s2"
        "iter_set s3 = iter_set s2" "states s3 = states s2" "tasks s3 = tasks s2" "max_concurrency s3 = max_concurrency s2" by blast
    have "records n r {} s s3"
      using s2(2) s3 by (auto simp: records_def settled_def)
    with s3 False str proc show ?thesis by auto
  qed
qed

end
