(* ===== verification/Dag_Executor_Runs.thy ===== *)
theory Dag_Executor_Runs
  imports Dag_Executor_Props
begin

text \<open>
  Runs of the scheduler: the timeout handler, the invariant of the machine, and the
  properties of whole executions, among them that the recorded statuses are those of a
  sequential run in topological order, whatever the schedule.
\<close>

section \<open>The timeout handler\<close>

text \<open>Skipping does not read the running set.\<close>

lemma mark_skipped_running:
  "mark_skipped n reason (s\<lparr>running := R\<rparr>) = (mark_skipped n reason s)\<lparr>running := R\<rparr>"
  by (simp add: mark_skipped_def Let_def tick_def now_def)

lemma skip_dependents_running:
  "fold (skip_dependent reason) ds (s\<lparr>running := R\<rparr>, q) =
     (let (s', q') = fold (skip_dependent reason) ds (s, q) in (s'\<lparr>running := R\<rparr>, q'))"
proof (induction ds arbitrary: s q)
  case (Cons d ds)
  then show ?case by (auto simp: skip_dependent_def [of reason d] mark_skipped_running)
qed simp

lemma cascade_loop_running:
  "cascade_loop reason q (s\<lparr>running := R\<rparr>) = (cascade_loop reason q s)\<lparr>running := R\<rparr>"
proof (induction reason q s rule: cascade_loop.induct)
  case (2 reason c q s)
  obtain s1 q1 where f: "fold (skip_dependent reason) (adj_get (adjacency_of s) c) (s, q) = (s1, q1)"
    by fastforce
  with 2 [OF f [symmetric]] show ?case by (simp add: skip_dependents_running)
qed simp

lemma cascade_skip_running:
  "cascade_skip n reason (s\<lparr>running := R\<rparr>) = (cascade_skip n reason s)\<lparr>running := R\<rparr>"
  by (simp add: cascade_skip_def cascade_loop_running)

text \<open>
  The loop over the running steps: \<open>P\<close> are those still to be failed. The running set itself
  is left as it was.
\<close>

definition kept :: "'w run_state \<Rightarrow> 'w run_state \<Rightarrow> bool" where
  "kept s s' \<longleftrightarrow> rs_dag s' = rs_dag s \<and> iter_set s' = iter_set s \<and> rs_timeout s' = rs_timeout s \<and>
     max_concurrency s' = max_concurrency s \<and>
     (\<forall>n r. map_of (results s) n = Some r \<longrightarrow> map_of (results s') n = Some r)"

lemma kept_trans: "kept s s1 \<Longrightarrow> kept s1 s2 \<Longrightarrow> kept s s2"
  by (simp add: kept_def)

lemma records_kept:
  assumes "records n r X s s1" "sched_inv P s" "n \<notin> completed s"
  shows "kept s s1"
  unfolding kept_def
proof (intro conjI allI impI)
  fix m q assume m: "map_of (results s) m = Some q"
  then have "m \<in> completed s" using sched_inv_results [OF assms(2)] by simp
  then have "m \<noteq> n" "m \<notin> X" using assms(1,3) by (auto simp: records_def)
  with assms(1) m show "map_of (results s1) m = Some q" by (simp add: records_def)
qed (use assms(1) in \<open>simp_all add: records_def\<close>)

lemma fail_running_step:
  assumes "sched_inv P (s\<lparr>running := P\<rparr>)" "n \<in> P"
  shows "sched_inv (P - {n}) ((fail_running t n s)\<lparr>running := P - {n}\<rparr>)"
    "kept s (fail_running t n s)" "n \<in> failed_set (fail_running t n s)"
proof -
  let ?s = "s\<lparr>running := P\<rparr>"
  let ?r = "(new_step_result n FAILED (now s))\<lparr>error := Some (timeout_msg s),
      error_type := Some ''TimeoutError'', end_time := Some t\<rparr>"
  let ?s2 = "(tick s)\<lparr>results := AList.update n ?r (results s), rs_result := add_step ?r (rs_result s),
      completed := insert n (completed s), states := set_state n StFailed (states s)\<rparr>"
  have n: "n \<notin> completed s" using sched_inv_running(2) [OF assms(1), of n] assms(2) by simp
  have eq: "(fail_running t n s)\<lparr>running := P - {n}\<rparr> =
      cascade_skip n ''workflow timeout'' (?s2\<lparr>running := P - {n}\<rparr>)"
    using n by (simp add: fail_running_def Let_def cascade_skip_running)
  have st: "settled n ?r ?s (?s2\<lparr>running := P - {n}\<rparr>)"
    by (auto simp: settled_def tick_def is_failed_def)
  have f: "status ?r = FAILED" by simp
  from failure_records [OF assms st f, of "''workflow timeout''"] eq
  show inv': "sched_inv (P - {n}) ((fail_running t n s)\<lparr>running := P - {n}\<rparr>)" by simp
  from failure_records(1) [OF assms st f, of "''workflow timeout''"] obtain X where
    rec: "records n ?r X ?s ((fail_running t n s)\<lparr>running := P - {n}\<rparr>)" unfolding eq by blast
  from records_kept [OF rec assms(1)] n show "kept s (fail_running t n s)"
    by (simp add: kept_def)
  show "n \<in> failed_set (fail_running t n s)"
    using rec by (auto simp: records_def failed_set_def)
qed

lemma fail_running_done: "n \<in> completed s \<Longrightarrow> fail_running t n s = s"
  by (simp add: fail_running_def)

lemma failed_set_kept: "kept s s' \<Longrightarrow> failed_set s \<subseteq> failed_set s'"
  by (auto simp: kept_def failed_set_def)

lemma fail_running_all:
  assumes "sched_inv P (s\<lparr>running := P\<rparr>)" "P \<subseteq> set ns" "set ns \<subseteq> P \<union> failed_set s"
  shows "sched_inv {} ((fold (fail_running t) ns s)\<lparr>running := {}\<rparr>) \<and>
    kept s (fold (fail_running t) ns s) \<and> P \<subseteq> failed_set (fold (fail_running t) ns s)"
  using assms
proof (induction ns arbitrary: P s)
  case Nil
  then show ?case by (simp add: kept_def)
next
  case (Cons n ns)
  show ?case
  proof (cases "n \<in> P")
    case True
    note st = fail_running_step [OF Cons.prems(1) True, of t]
    have sub: "P - {n} \<subseteq> set ns" "set ns \<subseteq> (P - {n}) \<union> failed_set (fail_running t n s)"
      using Cons.prems(2,3) st(3) failed_set_kept [OF st(2)] by auto
    from Cons.IH [OF st(1) sub] have ih:
      "sched_inv {} ((fold (fail_running t) ns (fail_running t n s))\<lparr>running := {}\<rparr>)"
      "kept (fail_running t n s) (fold (fail_running t) ns (fail_running t n s))"
      "P - {n} \<subseteq> failed_set (fold (fail_running t) ns (fail_running t n s))" by blast+
    with st(2,3) failed_set_kept [OF ih(2)] show ?thesis by (auto intro: kept_trans)
  next
    case False
    with Cons.prems(3) have "n \<in> failed_set s" by auto
    then have "n \<in> completed s"
      using sched_inv_results [OF Cons.prems(1), of n] by (auto simp: failed_set_def)
    with Cons False show ?thesis by (auto simp: fail_running_done)
  qed
qed

text \<open>What a finished run has recorded.\<close>

definition all_recorded :: "'w run_state \<Rightarrow> bool" where
  "all_recorded s \<longleftrightarrow>
     (\<forall>n. map_of (results s) n \<noteq> None \<longleftrightarrow> n \<in> set (dag_nodes (rs_dag s))) \<and>
     (\<forall>n r. map_of (results s) n = Some r \<longrightarrow> status r \<in> terminal_statuses) \<and>
     overall_status (rs_result s) \<in> {RUNNING, FAILED} \<and>
     (overall_status (rs_result s) = RUNNING \<longrightarrow> failed_set s = {})"

definition enumerates :: "(name set \<Rightarrow> name list) \<Rightarrow> bool" where
  "enumerates it \<longleftrightarrow> (\<forall>A. finite A \<longrightarrow> set (it A) = A)"

lemma cancel_in_flight_fields [simp]:
  "rs_dag (cancel_in_flight ctx s) = rs_dag s" "iter_set (cancel_in_flight ctx s) = iter_set s"
  "running (cancel_in_flight ctx s) = running s" "results (cancel_in_flight ctx s) = results s"
  "max_concurrency (cancel_in_flight ctx s) = max_concurrency s"
  "rs_timeout (cancel_in_flight ctx s) = rs_timeout s" "tasks (cancel_in_flight ctx s) = {}"
  by (simp_all add: cancel_in_flight_def)

lemma cancel_in_flight_inv:
  "sched_inv P s \<Longrightarrow> sched_inv (running s) (tick (cancel_in_flight ctx s))"
  by (auto simp: sched_inv_def cancel_in_flight_def failed_set_def lifecycle_ok_def tick_def)

lemma handle_timeout_recorded:
  assumes inv: "sched_inv P s" and it: "enumerates (iter_set s)"
  shows "all_recorded (handle_timeout ctx s) \<and> kept s (handle_timeout ctx s) \<and>
    running s \<subseteq> failed_set (handle_timeout ctx s) \<and>
    overall_status (rs_result (handle_timeout ctx s)) = FAILED"
proof -
  let ?g = "rs_dag s"
  define s0 where "s0 = cancel_in_flight ctx s"
  define s1 where "s1 = fold (fail_running (now s0)) (iter_set s0 (running s0)) (tick s0)"
  define rem where "rem = set (map fst (dag_steps (rs_dag s1))) - completed s1 - skipped s1"
  define s2 where "s2 = fold (\<lambda>n. mark_skipped n ''workflow timeout'') (iter_set s1 rem) s1"
  have fin: "finite (running s)" using inv by (simp add: sched_inv_def)
  have set0: "set (iter_set s0 (running s0)) = running s"
    using it fin by (simp add: enumerates_def s0_def)
  have inv0: "sched_inv (running s) ((tick s0)\<lparr>running := running s\<rparr>)"
  proof -
    have "(tick s0)\<lparr>running := running s\<rparr> = tick s0"
      by (simp add: s0_def tick_def cancel_in_flight_def)
    with cancel_in_flight_inv [OF inv, of ctx] show ?thesis by (simp add: s0_def)
  qed
  from fail_running_all [OF inv0, of "iter_set s0 (running s0)" "now s0"] set0
  have s1: "sched_inv {} (s1\<lparr>running := {}\<rparr>)" "kept (tick s0) s1" "running s \<subseteq> failed_set s1"
    by (auto simp: s1_def)
  have g1: "rs_dag s1 = ?g" "iter_set s1 = iter_set s"
    using s1(2) by (simp_all add: kept_def tick_def s0_def)
  have "set (iter_set s1 rem) = rem" using it g1 by (simp add: enumerates_def rem_def)
  with mark_all_skips [of s1 "''workflow timeout''" "iter_set s1 rem"] obtain X where
    X: "skips s1 X s2" "X = rem - (completed s1 \<union> skipped s1)" by (auto simp: s2_def)
  have res1: "n \<in> completed s1 \<longleftrightarrow> map_of (results s1) n \<noteq> None" for n
    using sched_inv_results [OF s1(1), of n] by simp
  have gi1: "completed s1 \<subseteq> set (dag_nodes ?g)" "skipped s1 \<subseteq> completed s1"
    using s1(1) g1 by (simp_all add: sched_inv_def graph_inv_def)
  have N: "completed s1 \<union> X = set (dag_nodes ?g)"
    using X(2) gi1 g1 by (auto simp: rem_def dag_nodes_def)
  have res2: "map_of (results s2) n \<noteq> None \<longleftrightarrow> n \<in> set (dag_nodes ?g)" for n
    unfolding N [symmetric] using X(1) res1 [of n] by (cases "n \<in> X") (auto simp: skips_def)
  have sts: "status q \<in> terminal_statuses" if "map_of (results s2) m = Some q" for m q
    by (rule skips_statuses [OF X(1) _ that]) (use s1(1) in \<open>simp add: sched_inv_def\<close>)
  have keep: "map_of (results s2) n = Some r" if "map_of (results s) n = Some r" for n r
  proof -
    have "map_of (results s1) n = Some r" using that s1(2) by (simp add: kept_def tick_def s0_def)
    moreover have "n \<notin> X" using calculation X(1) res1 [of n] by (auto simp: skips_def)
    ultimately show ?thesis using X(1) by (simp add: skips_def)
  qed
  have F: "failed_set s2 = failed_set s1" by (rule failed_set_skips [OF X(1) res1])
  have d2: "rs_dag s2 = ?g" using X(1) g1 by (simp add: skips_def sched_frame_def)
  have ht: "handle_timeout ctx s = s2\<lparr>rs_result := (rs_result s2)\<lparr>overall_status := FAILED,
             wf_metadata :=
               AList.update ''error'' (PStr (timeout_msg s2))
               (AList.update ''timeout_seconds''
                  (case rs_timeout s2 of None \<Rightarrow> PNone | Some t \<Rightarrow> PFloat t)
               (AList.update ''timeout_exceeded'' (PBool True) (wf_metadata (rs_result s2))))\<rparr>\<rparr>"
    by (simp add: handle_timeout_def Let_def s0_def s1_def s2_def rem_def)
  have "iter_set s2 = iter_set s" "rs_timeout s2 = rs_timeout s" "max_concurrency s2 = max_concurrency s"
    using X(1) g1 s1(2) by (simp_all add: skips_def sched_frame_def kept_def tick_def s0_def)
  then have "kept s (handle_timeout ctx s)" using d2 keep by (simp add: kept_def ht)
  moreover have res: "results (handle_timeout ctx s) = results s2" "rs_dag (handle_timeout ctx s) = ?g"
    "overall_status (rs_result (handle_timeout ctx s)) = FAILED"
    by (simp_all add: ht d2)
  moreover have "failed_set (handle_timeout ctx s) = failed_set s2" by (simp add: failed_set_def res)
  ultimately show ?thesis
    using res2 sts F s1(3) by (auto simp: all_recorded_def)
qed

section \<open>The machine\<close>

text \<open>Tasks of a batch that returned a result have started.\<close>

definition batch_ok :: "(name \<times> task_outcome) list \<Rightarrow> 'w run_state \<Rightarrow> bool" where
  "batch_ok batch s \<longleftrightarrow> distinct (map fst batch) \<and>
     (\<forall>(n, out)\<in>set batch. (\<exists>r. out = TaskReturned r) \<longrightarrow> get_state (states s) n = StRunning)"

fun machine_inv :: "'w machine \<Rightarrow> bool" where
  "machine_inv (LoopHead, s) = sched_inv {} s"
| "machine_inv (Waiting, s) = (sched_inv {} s \<and> tasks s \<noteq> {})"
| "machine_inv (Processing batch, s) = (sched_inv (fst ` set batch) s \<and> batch_ok batch s)"
| "machine_inv (Notifying n r mark rest, s) = (sched_inv (fst ` set rest) s \<and> batch_ok rest s)"
| "machine_inv (LoopDone, s) = (sched_inv {} s \<and> completed s = set (dag_nodes (rs_dag s)))"
| "machine_inv (TimeoutDone, s) = (all_recorded s \<and> overall_status (rs_result s) = FAILED)"
| "machine_inv (LoopRaised e, s) = (e = CancelledError)"

text \<open>The scheduler at the head of its loop never finds itself without tasks.\<close>

lemma no_deadlock:
  assumes inv: "sched_inv {} s" and open_: "card (completed s) < length (dag_steps (rs_dag s))"
    and full: "ready s = [] \<or> int (card (running s)) = max_concurrency s"
  shows "tasks s \<noteq> {}"
proof
  assume none: "tasks s = {}"
  with inv have run: "running s = {}" by (auto simp: sched_inv_def)
  with full inv have ready: "ready s = []" by (auto simp: sched_inv_def)
  have "\<not> set (dag_nodes (rs_dag s)) \<subseteq> completed s"
  proof
    assume sub: "set (dag_nodes (rs_dag s)) \<subseteq> completed s"
    have fin: "finite (completed s)"
      using inv by (auto simp: sched_inv_def graph_inv_def intro: finite_subset)
    have "length (dag_steps (rs_dag s)) = card (set (dag_nodes (rs_dag s)))"
      using sched_inv_graph(2) [OF inv] distinct_card [of "dag_nodes (rs_dag s)"]
      by (simp add: valid_dag_def dag_wf_def dag_nodes_def)
    with card_mono [OF fin sub] open_ show False by simp
  qed
  then obtain n where "n \<in> set (dag_nodes (rs_dag s))" "n \<notin> completed s" by blast
  from dag_graph.unblocked [OF sched_inv_graph(2) [OF inv] this] obtain m where
    "m \<in> set (dag_nodes (rs_dag s))" "m \<notin> completed s" "set (dag_deps (rs_dag s) m) \<subseteq> completed s" by blast
  with sched_inv_graph(1) [OF inv] have "m \<in> set (ready s) \<union> running s" by (simp add: graph_inv_def)
  with ready run show False by simp
qed

lemma loop_head_cases:
  assumes inv: "sched_inv {} s"
  shows "(\<exists>s1. loop_head s = (Waiting, s1) \<and> schedule_ready_steps s = Inr s1 \<and> sched_inv {} s1 \<and> tasks s1 \<noteq> {} \<and>
      completed s1 = completed s \<and> results s1 = results s \<and> rs_dag s1 = rs_dag s \<and>
      iter_set s1 = iter_set s \<and> rs_timeout s1 = rs_timeout s \<and> max_concurrency s1 = max_concurrency s) \<or>
    (loop_head s = (LoopDone, s) \<and> completed s = set (dag_nodes (rs_dag s)))"
proof (cases "card (completed s) < length (dag_steps (rs_dag s))")
  case True
  have "sched_inv {} (s\<lparr>ready := ready s\<rparr>)" using inv by simp
  from schedule_from_inv [OF this] obtain s1 where
    s1: "schedule_ready_steps s = Inr s1" "sched_inv {} s1" "completed s1 = completed s"
      "results s1 = results s" "rs_dag s1 = rs_dag s" "rs_timeout s1 = rs_timeout s" "iter_set s1 = iter_set s"
      "max_concurrency s1 = max_concurrency s" "ready s1 = [] \<or> int (card (running s1)) = max_concurrency s1"
    by (auto simp: schedule_ready_steps_def)
  with no_deadlock [OF s1(2) _ s1(9)] True show ?thesis by (simp add: loop_head_def)
next
  case False
  have sub: "completed s \<subseteq> set (dag_nodes (rs_dag s))"
    using inv by (simp add: sched_inv_def graph_inv_def)
  have "card (set (dag_nodes (rs_dag s))) = length (dag_steps (rs_dag s))"
    using sched_inv_graph(2) [OF inv] distinct_card [of "dag_nodes (rs_dag s)"]
    by (simp add: valid_dag_def dag_wf_def dag_nodes_def)
  with False card_seteq [OF _ sub] have "completed s = set (dag_nodes (rs_dag s))" by simp
  with False show ?thesis by (simp add: loop_head_def)
qed

lemma process_next_cases:
  assumes inv: "sched_inv (fst ` set batch) s" and ok: "batch_ok batch s"
  shows "(batch = [] \<and> process_next batch s = (LoopHead, s)) \<or>
    (\<exists>n out rest r mark s1 X. batch = (n, out) # rest \<and> process_next batch s = (Notifying n r mark rest, s1) \<and>
      sched_inv (fst ` set rest) s1 \<and> batch_ok rest s1 \<and> status r = outcome_status out \<and>
      records n r X s s1 \<and> n \<notin> completed s)"
proof (cases batch)
  case Nil
  then show ?thesis by (simp add: process_next_def)
next
  case (Cons b rest)
  obtain n out where b: "b = (n, out)" by fastforce
  have n: "n \<in> fst ` set batch" "n \<in> running s"
    using Cons b inv by (auto simp: sched_inv_def)
  have "(\<exists>r. out = TaskReturned r) \<Longrightarrow> get_state (states s) n = StRunning"
    using ok Cons b by (auto simp: batch_ok_def)
  from process_done_task_inv [OF inv n(1) this] obtain s1 r mark X where
    p: "process_done_task n out s = Inr (s1, r, mark)" "sched_inv (fst ` set batch - {n}) s1"
      "status r = outcome_status out" "records n r X s s1" by blast
  have names: "fst ` set batch - {n} = fst ` set rest"
    using ok Cons b by (auto simp: batch_ok_def)
  have "get_state (states s1) m = get_state (states s) m" if m: "m \<in> fst ` set rest" for m
  proof -
    have "m \<in> running s1" using p(2) m names by (auto simp: sched_inv_def)
    then have "m \<notin> completed s1" by (rule sched_inv_running(2) [OF p(2)])
    with p(4) show ?thesis by (auto simp: records_def)
  qed
  with ok Cons b have "batch_ok rest s1" by (force simp: batch_ok_def)
  with p Cons b names sched_inv_running(2) [OF inv n(2)] show ?thesis
    by (auto simp: process_next_def)
qed

lemma batch_ok_states:
  "batch_ok batch s \<Longrightarrow>
     (\<And>m. m \<in> fst ` set batch \<Longrightarrow> get_state (states s') m = get_state (states s) m) \<Longrightarrow> batch_ok batch s'"
  by (force simp: batch_ok_def)

lemma run_step_begin_states:
  "run_step_begin fate n s = Inr s' \<Longrightarrow> m \<noteq> n \<Longrightarrow> get_state (states s') m = get_state (states s) m"
  by (auto simp: run_step_begin_def lift_state_error_def transition_Inr result_simps split: sum.splits)

lemma run_step_begin_tasks:
  "run_step_begin fate n s = Inr s' \<Longrightarrow> tasks s' = tasks s \<and> completed s' = completed s \<and>
     results s' = results s \<and> rs_dag s' = rs_dag s \<and> iter_set s' = iter_set s \<and> rs_timeout s' = rs_timeout s \<and>
     max_concurrency s' = max_concurrency s"
  by (auto simp: run_step_begin_def result_simps)

lemma machine_inv_suspended:
  "machine_inv (p, s) \<Longrightarrow> suspended p \<Longrightarrow> \<exists>P. sched_inv P s"
  by (cases p) auto

lemma perform_start_inv:
  assumes inv: "machine_inv (p, s)" and act: "perform (TaskStarts n fate) (p, s) = Some m'"
  shows "machine_inv m'"
proof -
  from act have g: "suspended p" "n \<in> tasks s" "get_state (states s) n = StReady"
    by (auto split: if_splits)
  obtain P where P: "sched_inv P s" using machine_inv_suspended [OF inv g(1)] by blast
  then have run: "n \<in> running s" using g(2) by (simp add: sched_inv_def)
  from run_step_begin_inv [OF P run g(3), of fate] obtain s1 where s1: "run_step_begin fate n s = Inr s1" by blast
  have m': "m' = (p, s1)" using act g s1 by simp
  have keep: "sched_inv Q s1" if "sched_inv Q s" for Q
    using run_step_begin_inv [OF that run g(3), of fate] s1 by simp
  note t = run_step_begin_tasks [OF s1]
  show ?thesis
  proof (cases p)
    case Waiting
    with inv keep t m' show ?thesis by simp
  next
    case (Notifying k r mark rest)
    with inv have rest: "sched_inv (fst ` set rest) s" "batch_ok rest s" by simp_all
    have "n \<notin> fst ` set rest" using rest(1) g(2) by (auto simp: sched_inv_def)
    then have "batch_ok rest s1"
      using run_step_begin_states [OF s1] by (intro batch_ok_states [OF rest(2)]) metis
    with Notifying rest keep m' show ?thesis by simp
  qed (use g(1) in simp_all)
qed

lemma perform_inv:
  assumes inv: "machine_inv (p, s)" and it: "enumerates (iter_set s)"
    and act: "perform a (p, s) = Some m'"
  shows "machine_inv m'"
proof (cases a)
  case (Scheduler fate)
  show ?thesis
  proof (cases p)
    case LoopHead
    with loop_head_cases [of s] inv act Scheduler show ?thesis by auto
  next
    case (Processing batch)
    with process_next_cases [of batch s] inv act Scheduler show ?thesis by auto
  next
    case (Notifying n r mark rest)
    have "batch_ok rest (finish_done_task fate n r mark s) = batch_ok rest s"
      by (simp add: batch_ok_def finish_done_task_def Let_def split: option.split)
    with Notifying inv act Scheduler show ?thesis by (auto simp: finish_done_task_inv)
  qed (use act Scheduler in simp_all)
next
  case (TaskStarts n fate)
  with perform_start_inv [OF inv] act show ?thesis by blast
next
  case (ContextChanges ctx)
  then show ?thesis using inv act by (cases p) (auto simp: batch_ok_def)
next
  case (WaitReturns batch)
  with act have g: "p = Waiting" "legal_batch batch s"
    "m' = (Processing batch, s\<lparr>tasks := tasks s - set (map fst batch)\<rparr>)"
    by (auto split: if_splits)
  have sub: "fst ` set batch \<subseteq> tasks s" using g(2) by (auto simp: legal_batch_def)
  have "sched_inv {} s" using inv g(1) by simp
  then have "sched_inv (fst ` set batch) (s\<lparr>tasks := tasks s - set (map fst batch)\<rparr>)"
    using sub by (auto simp: sched_inv_def failed_set_def lifecycle_ok_def)
  moreover have "batch_ok batch (s\<lparr>tasks := tasks s - set (map fst batch)\<rparr>)"
    using g(2) by (fastforce simp: legal_batch_def batch_ok_def)
  ultimately show ?thesis using g(3) by simp
next
  case (TimeoutFires ctx)
  with act have g: "suspended p" "m' = (TimeoutDone, handle_timeout ctx s)" by (auto split: if_splits)
  obtain P where "sched_inv P s" using machine_inv_suspended [OF inv g(1)] by blast
  from handle_timeout_recorded [OF this it, of ctx] g(2) show ?thesis by simp
next
  case (ExecuteCancelled ctx)
  with act show ?thesis by (auto split: if_splits)
qed

section \<open>Runs\<close>

text \<open>Recorded results are never changed.\<close>

lemma kept_refl [simp]: "kept s s"
  by (simp add: kept_def)

lemma kept_fields:
  "results s' = results s \<Longrightarrow> rs_dag s' = rs_dag s \<Longrightarrow> iter_set s' = iter_set s \<Longrightarrow>
     rs_timeout s' = rs_timeout s \<Longrightarrow> max_concurrency s' = max_concurrency s \<Longrightarrow> kept s s'"
  by (simp add: kept_def)

lemma perform_kept:
  assumes inv: "machine_inv (p, s)" and it: "enumerates (iter_set s)"
    and act: "perform a (p, s) = Some (p', s')"
  shows "kept s s'"
proof (cases a)
  case (Scheduler fate)
  show ?thesis
  proof (cases p)
    case LoopHead
    with loop_head_cases [of s] inv act Scheduler show ?thesis by (auto intro!: kept_fields)
  next
    case (Processing batch)
    with process_next_cases [of batch s] inv act Scheduler show ?thesis by (auto dest: records_kept)
  next
    case (Notifying n r mark rest)
    with act Scheduler show ?thesis
      by (auto intro!: kept_fields simp: finish_done_task_def Let_def split: option.splits)
  qed (use act Scheduler in simp_all)
next
  case (TaskStarts n fate)
  with act show ?thesis
    using run_step_begin_tasks [of fate n s] by (auto intro!: kept_fields split: if_splits sum.splits)
next
  case (ContextChanges ctx)
  with act show ?thesis by (auto intro!: kept_fields split: if_splits)
next
  case (WaitReturns batch)
  with act show ?thesis by (auto intro!: kept_fields split: if_splits)
next
  case (TimeoutFires ctx)
  with act have g: "suspended p" "s' = handle_timeout ctx s" by (auto split: if_splits)
  obtain P where "sched_inv P s" using machine_inv_suspended [OF inv g(1)] by blast
  from handle_timeout_recorded [OF this it, of ctx] g(2) show ?thesis by simp
next
  case (ExecuteCancelled ctx)
  with act show ?thesis by (auto intro!: kept_fields split: if_splits)
qed

lemma perform_all_inv:
  assumes "machine_inv (p, s)" "enumerates (iter_set s)" "perform_all acts (p, s) = Some (p', s')"
  shows "machine_inv (p', s') \<and> kept s s'"
  using assms
proof (induction acts arbitrary: p s)
  case (Cons a acts)
  then obtain p1 s1 where 1: "perform a (p, s) = Some (p1, s1)" "perform_all acts (p1, s1) = Some (p', s')"
    by (auto split: option.splits)
  have "machine_inv (p1, s1)" "kept s s1"
    using perform_inv [OF Cons.prems(1,2) 1(1)] perform_kept [OF Cons.prems(1,2) 1(1)] by auto
  with Cons.IH [OF _ _ 1(2)] Cons.prems(2) show ?case by (auto simp: kept_def)
qed simp

lemma perform_all_append:
  "perform_all (as @ bs) m = (case perform_all as m of None \<Rightarrow> None | Some m' \<Rightarrow> perform_all bs m')"
  by (induction as arbitrary: m) (auto split: option.splits)

text \<open>The state a run starts from.\<close>

lemma initial_state_sel [simp]:
  "rs_dag (initial_state c k g) = g" "iter_set (initial_state c k g) = cf_iter_set c"
  "results (initial_state c k g) = []" "completed (initial_state c k g) = {}"
  "rs_timeout (initial_state c k g) = effective_timeout c" "states (initial_state c k g) = []"
  "max_concurrency (initial_state c k g) = k"
  by (simp_all add: initial_state_def Let_def)

lemma initial_state_inv:
  assumes "valid_dag g" "1 \<le> k"
  shows "sched_inv {} (initial_state c k g)"
proof -
  have wf: "dag_wf g" using assms(1) by (simp add: valid_dag_def)
  from graph_inv_initial [OF wf] assms show ?thesis
    by (simp add: initial_state_def Let_def sched_inv_def failed_set_def lifecycle_ok_def)
qed

lemma execute_begin_Inr:
  assumes "dag_wf g" "execute_begin c g = Inr m"
  shows "\<exists>k. 1 \<le> k \<and> check_concurrency (cf_max_concurrency c) = Inr k \<and> valid_dag g \<and> m = (LoopHead, initial_state c k g)"
proof -
  from assms(2) obtain k where k: "check_concurrency (cf_max_concurrency c) = Inr k"
    "(case validate g of Inl e \<Rightarrow> Inl (ValidationFailed e) | Inr _ \<Rightarrow> Inr (LoopHead, initial_state c k g)) = Inr m"
    by (auto simp: execute_begin_def result_simps)
  from k(1) have "1 \<le> k"
    by (auto simp: check_concurrency_def split: pyval.splits if_splits)
  moreover from k(2) have "validate g = Inr ()" "m = (LoopHead, initial_state c k g)"
    by (cases "validate g"; simp)+
  ultimately show ?thesis using k(1) assms(1) by (simp add: valid_dag_def)
qed

text \<open>A run of the executor: what every theorem about it starts from.\<close>

definition run_of :: "run_config \<Rightarrow> 'w dag \<Rightarrow> action list \<Rightarrow> 'w machine \<Rightarrow> bool" where
  "run_of c g acts m \<longleftrightarrow>
     dag_wf g \<and> enumerates (cf_iter_set c) \<and>
     (\<exists>m0. execute_begin c g = Inr m0 \<and> perform_all acts m0 = Some m)"

lemma run_of_inv:
  assumes "run_of c g acts (p, s)"
  shows "machine_inv (p, s)" "rs_dag s = g" "valid_dag g" "enumerates (iter_set s)"
    "check_concurrency (cf_max_concurrency c) = Inr (max_concurrency s)"
proof -
  from assms obtain m0 where m0: "dag_wf g" "enumerates (cf_iter_set c)" "execute_begin c g = Inr m0"
    "perform_all acts m0 = Some (p, s)" by (auto simp: run_of_def)
  from execute_begin_Inr [OF m0(1,3)] obtain k where
    k: "1 \<le> k" "valid_dag g" "m0 = (LoopHead, initial_state c k g)"
      "check_concurrency (cf_max_concurrency c) = Inr k" by blast
  have i: "machine_inv (LoopHead, initial_state c k g)" using initial_state_inv [OF k(2,1)] by simp
  from perform_all_inv [OF i, of acts p s] m0 k(3,4)
  show "machine_inv (p, s)" "rs_dag s = g" "enumerates (iter_set s)"
    "check_concurrency (cf_max_concurrency c) = Inr (max_concurrency s)" by (auto simp: kept_def)
  show "valid_dag g" by (rule k(2))
qed

section \<open>Schedules do not matter\<close>

definition outcome_inv :: "(name \<Rightarrow> step_status) \<Rightarrow> 'w run_state \<Rightarrow> bool" where
  "outcome_inv oc s \<longleftrightarrow>
     (\<forall>n r. map_of (results s) n = Some r \<longrightarrow>
        status r = (if n \<in> reached (rs_dag s) (failed_set s) - failed_set s then SKIPPED else oc n))"

lemma records_failed_set:
  assumes "records n r X s s1" "sched_inv P s" "n \<notin> completed s"
  shows "failed_set s1 = (if status r = FAILED then insert n (failed_set s) else failed_set s)"
proof -
  have "m \<in> failed_set s1 \<longleftrightarrow> m \<in> (if status r = FAILED then insert n (failed_set s) else failed_set s)" for m
  proof -
    have None: "m \<in> insert n X \<Longrightarrow> map_of (results s) m = None"
      using assms sched_inv_results [OF assms(2), of m] by (auto simp: records_def)
    consider "m = n" | "m \<in> X" "m \<noteq> n" | "m \<noteq> n" "m \<notin> X" by blast
    then show ?thesis
      using assms(1) None by cases (auto simp: records_def failed_set_def)
  qed
  then show ?thesis by blast
qed

lemma records_outcome_inv:
  assumes inv: "sched_inv P s" and rec: "records n r X s s1" and n: "n \<notin> completed s"
    and r: "status r = oc n" and oi: "outcome_inv oc s"
  shows "outcome_inv oc s1"
proof -
  let ?g = "rs_dag s" and ?F = "failed_set s"
  have gi: "graph_inv ?g (completed s) ?F (running s) (ready s) (in_degree s)"
    by (rule sched_inv_graph(1) [OF inv])
  have BC: "reached ?g ?F \<subseteq> completed s" using gi by (simp add: graph_inv_def)
  have F1: "failed_set s1 = (if status r = FAILED then insert n ?F else ?F)"
    by (rule records_failed_set [OF rec inv n])
  have old: "m \<in> reached ?g (failed_set s1) - failed_set s1 \<longleftrightarrow> m \<in> reached ?g ?F - ?F"
    if "m \<in> completed s" for m
  proof (cases "status r = FAILED")
    case True
    with F1 have "reached ?g (failed_set s1) = insert n ((dag_edges ?g)\<^sup>+ `` {n}) \<union> reached ?g ?F"
      by (simp add: reached_insert)
    with True that n F1 below_unfinished [OF gi n, of m] show ?thesis by auto
  next
    case False
    with F1 show ?thesis by simp
  qed
  show ?thesis
    unfolding outcome_inv_def
  proof (intro allI impI)
    fix m q assume m: "map_of (results s1) m = Some q"
    have dag: "rs_dag s1 = ?g" using rec by (simp add: records_def)
    consider "m = n" | "m \<in> X" "m \<noteq> n" | "m \<noteq> n" "m \<notin> X" by blast
    then show "status q = (if m \<in> reached (rs_dag s1) (failed_set s1) - failed_set s1 then SKIPPED else oc m)"
      unfolding dag
    proof cases
      case 1
      with rec m have "q = r" by (simp add: records_def)
      moreover have "n \<notin> reached ?g (failed_set s1) - failed_set s1"
        using F1 BC n by auto
      ultimately show "status q = (if m \<in> reached ?g (failed_set s1) - failed_set s1 then SKIPPED else oc m)"
        using r 1 by auto
    next
      case 2
      with rec m have q: "status q = SKIPPED" and f: "status r = FAILED" and x: "(n, m) \<in> (dag_edges ?g)\<^sup>+"
        by (auto simp: records_def)
      have "m \<notin> completed s" using 2 rec by (auto simp: records_def)
      then have "m \<notin> ?F" using sched_inv_results [OF inv, of m] by (auto simp: failed_set_def)
      with f F1 x 2 have "m \<in> reached ?g (failed_set s1) - failed_set s1" by (auto simp: reached_insert)
      with q show "status q = (if m \<in> reached ?g (failed_set s1) - failed_set s1 then SKIPPED else oc m)" by simp
    next
      case 3
      with rec m have ms: "map_of (results s) m = Some q" by (simp add: records_def)
      then have "m \<in> completed s" using sched_inv_results [OF inv, of m] by simp
      from old [OF this] oi ms show "status q = (if m \<in> reached ?g (failed_set s1) - failed_set s1 then SKIPPED else oc m)"
        by (simp add: outcome_inv_def)
    qed
  qed
qed

text \<open>Every finished task is reported with the status \<open>oc\<close> foresees for its step.\<close>

definition batch_outcomes :: "(name \<Rightarrow> step_status) \<Rightarrow> (name \<times> task_outcome) list \<Rightarrow> bool" where
  "batch_outcomes oc batch \<longleftrightarrow> (\<forall>(n, out)\<in>set batch. outcome_status out = oc n)"

definition outcomes_as :: "(name \<Rightarrow> step_status) \<Rightarrow> action list \<Rightarrow> bool" where
  "outcomes_as oc acts \<longleftrightarrow> (\<forall>batch. WaitReturns batch \<in> set acts \<longrightarrow> batch_outcomes oc batch)"

fun pc_batch :: "pc \<Rightarrow> (name \<times> task_outcome) list" where
  "pc_batch (Processing batch) = batch"
| "pc_batch (Notifying n r mark rest) = rest"
| "pc_batch _ = []"

lemma outcome_inv_same:
  "results s' = results s \<Longrightarrow> rs_dag s' = rs_dag s \<Longrightarrow> outcome_inv oc s' = outcome_inv oc s"
  by (simp add: outcome_inv_def failed_set_def)

lemma perform_outcome_inv:
  assumes inv: "machine_inv (p, s)" and act: "perform a (p, s) = Some (p', s')"
    and oi: "outcome_inv oc s" "batch_outcomes oc (pc_batch p)"
    and a: "\<And>batch. a = WaitReturns batch \<Longrightarrow> batch_outcomes oc batch"
    and nt: "p' \<noteq> TimeoutDone"
  shows "outcome_inv oc s' \<and> batch_outcomes oc (pc_batch p')"
proof (cases a)
  case (Scheduler fate)
  show ?thesis
  proof (cases p)
    case LoopHead
    with inv act Scheduler have i: "sched_inv {} s" and m: "loop_head s = (p', s')" by simp_all
    from loop_head_cases [OF i] m have "results s' = results s" "rs_dag s' = rs_dag s" "pc_batch p' = []"
      by auto
    with oi outcome_inv_same [of s' s oc] show ?thesis by (simp add: batch_outcomes_def)
  next
    case (Processing batch)
    with inv have b: "sched_inv (fst ` set batch) s" "batch_ok batch s" by simp_all
    have m: "process_next batch s = (p', s')" using act Scheduler Processing by simp
    from process_next_cases [OF b] show ?thesis
    proof (elim disjE exE conjE)
      assume "process_next batch s = (LoopHead, s)"
      with m oi show ?thesis by (auto simp: batch_outcomes_def)
    next
      fix n out rest r mark s1 X
      assume c: "batch = (n, out) # rest" "process_next batch s = (Notifying n r mark rest, s1)"
        "status r = outcome_status out" "records n r X s s1" "n \<notin> completed s"
      have "status r = oc n" "batch_outcomes oc rest"
        using oi(2) Processing c(1,3) by (simp_all add: batch_outcomes_def)
      with records_outcome_inv [OF b(1) c(4,5)] oi(1) m c(2) show ?thesis by auto
    qed
  next
    case (Notifying n r mark rest)
    have "results (finish_done_task fate n r mark s) = results s" "rs_dag (finish_done_task fate n r mark s) = rs_dag s"
      by (simp_all add: finish_done_task_def Let_def split: option.split)
    with Notifying act Scheduler oi outcome_inv_same [of "finish_done_task fate n r mark s" s oc]
    show ?thesis by auto
  qed (use act Scheduler in simp_all)
next
  case (TaskStarts n fate)
  with act obtain s1 where "p' = p \<and> run_step_begin fate n s = Inr s1 \<and> s' = s1 \<or> (\<exists>e. p' = LoopRaised e \<and> s' = s)"
    by (auto split: if_splits sum.splits)
  then show ?thesis
  proof (elim disjE conjE exE)
    assume "p' = p" "run_step_begin fate n s = Inr s1" "s' = s1"
    with run_step_begin_tasks [of fate n s s1] oi outcome_inv_same [of s1 s oc] show ?thesis by simp
  next
    fix e assume "p' = LoopRaised e" "s' = s"
    with oi show ?thesis by (simp add: batch_outcomes_def)
  qed
next
  case (ContextChanges ctx)
  with act oi outcome_inv_same [of s' s oc] show ?thesis by (auto split: if_splits)
next
  case (WaitReturns batch)
  with act oi a outcome_inv_same [of s' s oc] show ?thesis by (auto split: if_splits)
next
  case (TimeoutFires ctx)
  with act nt show ?thesis by (auto split: if_splits)
next
  case (ExecuteCancelled ctx)
  with act oi outcome_inv_same [of s' s oc] show ?thesis
    by (auto simp: batch_outcomes_def split: if_splits)
qed

lemma perform_all_TimeoutDone: "perform_all acts (TimeoutDone, s) = Some m \<Longrightarrow> acts = [] \<and> m = (TimeoutDone, s)"
proof (cases acts)
  case (Cons a as)
  then show "perform_all acts (TimeoutDone, s) = Some m \<Longrightarrow> acts = [] \<and> m = (TimeoutDone, s)"
    by (cases a) auto
qed simp

lemma perform_all_outcome_inv:
  assumes "machine_inv (p, s)" "enumerates (iter_set s)" "perform_all acts (p, s) = Some (p', s')"
    "outcome_inv oc s" "batch_outcomes oc (pc_batch p)" "outcomes_as oc acts" "p' \<noteq> TimeoutDone"
  shows "outcome_inv oc s'"
  using assms
proof (induction acts arbitrary: p s)
  case (Cons a acts)
  then obtain p1 s1 where 1: "perform a (p, s) = Some (p1, s1)" "perform_all acts (p1, s1) = Some (p', s')"
    by (auto split: option.splits)
  have nt: "p1 \<noteq> TimeoutDone" using perform_all_TimeoutDone [of acts s1] 1(2) Cons.prems(7) by auto
  have "outcome_inv oc s1 \<and> batch_outcomes oc (pc_batch p1)"
    using Cons.prems by (intro perform_outcome_inv [OF Cons.prems(1) 1(1) _ _ _ nt]) (auto simp: outcomes_as_def)
  moreover have "machine_inv (p1, s1)" "enumerates (iter_set s1)"
    using perform_inv [OF Cons.prems(1,2) 1(1)] perform_kept [OF Cons.prems(1,2) 1(1)] Cons.prems(2)
    by (auto simp: kept_def)
  ultimately show ?case using Cons.IH [OF _ _ 1(2)] Cons.prems by (auto simp: outcomes_as_def)
qed simp

text \<open>
  The reference: the steps one after the other in a topological order. A step with a failed
  or skipped-by-failure dependency is skipped, any other ends as \<open>oc\<close> says; the flag tells
  whether a failure reached it.
\<close>

definition reference_step ::
  "'w dag \<Rightarrow> (name \<Rightarrow> step_status) \<Rightarrow> name \<Rightarrow> (name \<times> step_status \<times> bool) list \<Rightarrow>
    (name \<times> step_status \<times> bool) list" where
  "reference_step g oc n st =
     (if list_ex (\<lambda>d. case map_of st d of None \<Rightarrow> False | Some (_, hit) \<Rightarrow> hit) (dag_deps g n)
      then AList.update n (SKIPPED, True) st
      else AList.update n (oc n, oc n = FAILED) st)"

definition sequential_run ::
  "'w dag \<Rightarrow> (name \<Rightarrow> step_status) \<Rightarrow> name list \<Rightarrow> (name \<times> step_status \<times> bool) list" where
  "sequential_run g oc order = fold (reference_step g oc) order []"

lemma sequential_run_unique:
  assumes topo: "topo_order g order"
    and st: "\<And>n. n \<in> set (dag_nodes g) \<Longrightarrow>
      st n = (if \<exists>d\<in>set (dag_deps g n). hit d then SKIPPED else oc n) \<and>
      (hit n \<longleftrightarrow> (\<exists>d\<in>set (dag_deps g n). hit d) \<or> oc n = FAILED)"
    and i: "i \<le> length order"
  shows "map_of (fold (reference_step g oc) (take i order) []) n =
    (if n \<in> set (take i order) then Some (st n, hit n) else None)"
  using i
proof (induction i arbitrary: n)
  case (Suc i)
  let ?prev = "fold (reference_step g oc) (take i order) []"
  let ?k = "order ! i"
  have k: "take (Suc i) order = take i order @ [?k]" using Suc.prems by (simp add: take_Suc_conv_app_nth)
  have deps: "set (dag_deps g ?k) \<subseteq> set (take i order)" "?k \<in> set (dag_nodes g)"
    using topo Suc.prems by (auto simp: topo_order_def)
  have "list_ex (\<lambda>d. case map_of ?prev d of None \<Rightarrow> False | Some (_, h) \<Rightarrow> h) (dag_deps g ?k) \<longleftrightarrow>
      (\<exists>d\<in>set (dag_deps g ?k). hit d)"
    using Suc deps(1) by (auto simp: list_ex_iff split: if_splits)
  with st [OF deps(2)] have "map_of (reference_step g oc ?k ?prev) n =
      (if n = ?k then Some (st n, hit n) else map_of ?prev n)"
    by (auto simp: reference_step_def)
  with Suc k show ?case by auto
qed simp

lemma reached_step:
  "n \<in> reached g F \<longleftrightarrow> n \<in> F \<or> (\<exists>d\<in>set (dag_deps g n). d \<in> reached g F)"
proof
  assume "n \<in> reached g F"
  then obtain f where f: "f \<in> F" "(f, n) \<in> (dag_edges g)\<^sup>*" by (auto simp: reached_def)
  from f(2) show "n \<in> F \<or> (\<exists>d\<in>set (dag_deps g n). d \<in> reached g F)"
    by (cases rule: rtranclE) (use f(1) in \<open>auto simp: reached_def dag_edges_iff\<close>)
next
  assume "n \<in> F \<or> (\<exists>d\<in>set (dag_deps g n). d \<in> reached g F)"
  then show "n \<in> reached g F" using reached_refl reached_closed by blast
qed

lemma final_statuses:
  assumes inv: "sched_inv {} s" and all: "completed s = set (dag_nodes (rs_dag s))"
    and oi: "outcome_inv oc s" and topo: "topo_order (rs_dag s) order" and n: "n \<in> set (dag_nodes (rs_dag s))"
  shows "\<exists>r. map_of (results s) n = Some r \<and>
    map_of (sequential_run (rs_dag s) oc order) n = Some (status r, n \<in> reached (rs_dag s) (failed_set s))"
proof -
  let ?g = "rs_dag s" and ?F = "failed_set s"
  define st where "st m = status (the (map_of (results s) m))" for m
  have res: "\<exists>r. map_of (results s) m = Some r" if "m \<in> set (dag_nodes ?g)" for m
    using that sched_inv_results [OF inv, of m] all by auto
  have eq: "st m = (if \<exists>d\<in>set (dag_deps ?g m). d \<in> reached ?g ?F then SKIPPED else oc m) \<and>
      (m \<in> reached ?g ?F \<longleftrightarrow> (\<exists>d\<in>set (dag_deps ?g m). d \<in> reached ?g ?F) \<or> oc m = FAILED)"
    if m: "m \<in> set (dag_nodes ?g)" for m
  proof -
    obtain r where r: "map_of (results s) m = Some r" using res [OF m] by blast
    have F: "m \<in> ?F \<longleftrightarrow> status r = FAILED" by (simp add: failed_set_def r)
    have status: "status r = (if m \<in> reached ?g ?F - ?F then SKIPPED else oc m)"
      using oi r by (simp add: outcome_inv_def)
    have "m \<in> ?F \<Longrightarrow> \<not> (\<exists>d\<in>set (dag_deps ?g m). d \<in> reached ?g ?F)"
      using sched_inv_graph(1) [OF inv] by (auto simp: graph_inv_def)
    with F status reached_step [of m ?g ?F] r show ?thesis by (auto simp: st_def split: if_splits)
  qed
  obtain r where r: "map_of (results s) n = Some r" using res [OF n] by blast
  have "n \<in> set order" using topo n by (simp add: topo_order_def)
  with sequential_run_unique [of ?g order st "\<lambda>m. m \<in> reached ?g ?F" oc "length order" n, OF topo eq] r
  show ?thesis by (simp add: sequential_run_def st_def)
qed

section \<open>Bounded waiting\<close>

fun wait_size :: "action \<Rightarrow> nat" where
  "wait_size (WaitReturns batch) = length batch"
| "wait_size _ = 0"

fun aborted :: "pc \<Rightarrow> bool" where
  "aborted TimeoutDone = True"
| "aborted (LoopRaised e) = True"
| "aborted _ = False"

lemma sched_inv_finite: "sched_inv P s \<Longrightarrow> finite (completed s) \<and> completed s \<subseteq> set (dag_nodes (rs_dag s))"
  by (auto simp: sched_inv_def graph_inv_def intro: finite_subset)

lemma records_card:
  assumes "records n r X s s1" "sched_inv P s" "sched_inv P' s1" "n \<notin> completed s"
  shows "Suc (card (completed s)) \<le> card (completed s1)"
proof -
  have "insert n (completed s) \<subseteq> completed s1" using assms(1) by (auto simp: records_def)
  from card_mono [OF _ this] sched_inv_finite [OF assms(2)] sched_inv_finite [OF assms(3)] assms(4)
  show ?thesis by simp
qed

lemma perform_waits:
  assumes inv: "machine_inv (p, s)" and act: "perform a (p, s) = Some (p', s')" and ok: "\<not> aborted p'"
  shows "card (completed s) + length (pc_batch p) + wait_size a \<le> card (completed s') + length (pc_batch p')"
proof (cases a)
  case (Scheduler fate)
  show ?thesis
  proof (cases p)
    case LoopHead
    with inv act Scheduler have i: "sched_inv {} s" and m: "loop_head s = (p', s')" by simp_all
    from loop_head_cases [OF i] m have "completed s' = completed s" by auto
    with LoopHead Scheduler show ?thesis by simp
  next
    case (Processing batch)
    with inv have b: "sched_inv (fst ` set batch) s" "batch_ok batch s" by simp_all
    have m: "process_next batch s = (p', s')" using act Scheduler Processing by simp
    from process_next_cases [OF b] show ?thesis
    proof (elim disjE exE conjE)
      assume "batch = []" "process_next batch s = (LoopHead, s)"
      with m Processing Scheduler show ?thesis by simp
    next
      fix n out rest r mark s1 X
      assume c: "batch = (n, out) # rest" "process_next batch s = (Notifying n r mark rest, s1)"
        "sched_inv (fst ` set rest) s1" "records n r X s s1" "n \<notin> completed s"
      from records_card [OF c(4) b(1) c(3,5)] m c(1,2) Processing Scheduler show ?thesis by auto
    qed
  next
    case (Notifying n r mark rest)
    have "completed (finish_done_task fate n r mark s) = completed s"
      by (simp add: finish_done_task_def Let_def split: option.split)
    with Notifying act Scheduler show ?thesis by auto
  qed (use act Scheduler in simp_all)
next
  case (TaskStarts n fate)
  with act ok run_step_begin_tasks [of fate n s] show ?thesis
    by (auto split: if_splits sum.splits)
next
  case (ContextChanges ctx)
  with act show ?thesis by (auto split: if_splits)
next
  case (WaitReturns batch)
  with act show ?thesis by (auto split: if_splits)
next
  case (TimeoutFires ctx)
  with act ok show ?thesis by (auto split: if_splits)
next
  case (ExecuteCancelled ctx)
  with act ok show ?thesis by (auto split: if_splits)
qed

lemma perform_all_final:
  "p \<in> {LoopDone, TimeoutDone} \<or> (\<exists>e. p = LoopRaised e) \<Longrightarrow>
     perform_all acts (p, s) = Some m \<Longrightarrow> acts = [] \<and> m = (p, s)"
proof (cases acts)
  case (Cons a as)
  then show "p \<in> {LoopDone, TimeoutDone} \<or> (\<exists>e. p = LoopRaised e) \<Longrightarrow>
     perform_all acts (p, s) = Some m \<Longrightarrow> acts = [] \<and> m = (p, s)"
    by (cases a) auto
qed simp

lemma perform_all_waits:
  assumes "machine_inv (p, s)" "enumerates (iter_set s)" "perform_all acts (p, s) = Some (p', s')" "\<not> aborted p'"
  shows "card (completed s) + length (pc_batch p) + sum_list (map wait_size acts) \<le>
    card (completed s') + length (pc_batch p')"
  using assms
proof (induction acts arbitrary: p s)
  case (Cons a acts)
  then obtain p1 s1 where 1: "perform a (p, s) = Some (p1, s1)" "perform_all acts (p1, s1) = Some (p', s')"
    by (auto split: option.splits)
  have ok: "\<not> aborted p1"
    using perform_all_final [of p1 acts s1 "(p', s')"] 1(2) Cons.prems(4) by (cases p1) auto
  have "machine_inv (p1, s1)" "enumerates (iter_set s1)"
    using perform_inv [OF Cons.prems(1,2) 1(1)] perform_kept [OF Cons.prems(1,2) 1(1)] Cons.prems(2)
    by (auto simp: kept_def)
  from Cons.IH [OF this 1(2) Cons.prems(4)] perform_waits [OF Cons.prems(1) 1(1) ok] show ?case by simp
qed simp

lemma settled_plus_batch:
  assumes "machine_inv (p, s)" "\<not> aborted p"
  shows "card (completed s) + length (pc_batch p) \<le> length (dag_steps (rs_dag s))"
proof -
  let ?B = "fst ` set (pc_batch p)"
  obtain P where P: "sched_inv P s" "?B \<subseteq> P" "distinct (map fst (pc_batch p))"
    using assms by (cases p) (auto simp: batch_ok_def)
  have sub: "?B \<subseteq> running s" using P by (auto simp: sched_inv_def)
  have disj: "completed s \<inter> ?B = {}" using sub sched_inv_running(2) [OF P(1)] by auto
  have "completed s \<union> ?B \<subseteq> set (dag_nodes (rs_dag s))"
    using sub sched_inv_running(1) [OF P(1)] sched_inv_finite [OF P(1)] by auto
  then have "card (completed s \<union> ?B) \<le> length (dag_steps (rs_dag s))"
    using card_mono [of "set (dag_nodes (rs_dag s))" "completed s \<union> ?B"] card_length [of "dag_nodes (rs_dag s)"]
    by (simp add: dag_nodes_def)
  moreover have "card (completed s \<union> ?B) = card (completed s) + card ?B"
    using disj sched_inv_finite [OF P(1)] by (intro card_Un_disjoint) auto
  moreover have "card ?B = length (pc_batch p)"
    using distinct_card [OF P(3)] by simp
  ultimately show ?thesis by simp
qed

text \<open>From every state of a run that has not ended, the loop can still reach its end.\<close>

fun pc_rank :: "pc \<Rightarrow> nat" where
  "pc_rank (Notifying n r mark rest) = 4"
| "pc_rank (Processing batch) = (if batch = [] then 3 else 0)"
| "pc_rank LoopHead = 2"
| "pc_rank Waiting = 1"
| "pc_rank _ = 0"

definition finish_measure :: "'w machine \<Rightarrow> nat" where
  "finish_measure m = 5 * (length (dag_steps (rs_dag (snd m))) - card (completed (snd m))) + pc_rank (fst m)"

lemma one_more_step:
  assumes inv: "machine_inv (p, s)" and go: "\<not> aborted p" "p \<noteq> LoopDone"
  shows "\<exists>a p' s'. perform a (p, s) = Some (p', s') \<and> \<not> aborted p' \<and>
    (p' = LoopDone \<or> finish_measure (p', s') < finish_measure (p, s))"
proof (cases p)
  case LoopHead
  with inv have i: "sched_inv {} s" by simp
  from loop_head_cases [OF i] LoopHead show ?thesis
    by (intro exI [of _ "Scheduler ObserverReturns"]) (auto simp: finish_measure_def)
next
  case Waiting
  with inv obtain n where n: "n \<in> tasks s" by auto
  then have "legal_batch [(n, TaskRaised undefined)] s" by (simp add: legal_batch_def)
  with Waiting show ?thesis
    by (intro exI [of _ "WaitReturns [(n, TaskRaised undefined)]"]) (auto simp: finish_measure_def)
next
  case (Processing batch)
  with inv have b: "sched_inv (fst ` set batch) s" "batch_ok batch s" by simp_all
  from process_next_cases [OF b] show ?thesis
  proof (elim disjE exE conjE)
    assume "batch = []" "process_next batch s = (LoopHead, s)"
    with Processing show ?thesis
      by (intro exI [of _ "Scheduler ObserverReturns"]) (auto simp: finish_measure_def)
  next
    fix n out rest r mark s1 X
    assume c: "batch = (n, out) # rest" "process_next batch s = (Notifying n r mark rest, s1)"
      "sched_inv (fst ` set rest) s1" "records n r X s s1" "n \<notin> completed s"
    have dag: "rs_dag s1 = rs_dag s" using c(4) by (simp add: records_def)
    have "card (completed s1) \<le> length (dag_steps (rs_dag s))"
      using sched_inv_finite [OF c(3)] card_mono [of "set (dag_nodes (rs_dag s))" "completed s1"]
        card_length [of "dag_nodes (rs_dag s)"] dag by (auto simp: dag_nodes_def)
    with records_card [OF c(4) b(1) c(3,5)] dag c(1,2) Processing show ?thesis
      by (intro exI [of _ "Scheduler ObserverReturns"]) (auto simp: finish_measure_def)
  qed
next
  case (Notifying n r mark rest)
  have "completed (finish_done_task ObserverReturns n r mark s) = completed s"
    "rs_dag (finish_done_task ObserverReturns n r mark s) = rs_dag s"
    by (simp_all add: finish_done_task_def Let_def split: option.split)
  with Notifying show ?thesis
    by (intro exI [of _ "Scheduler ObserverReturns"]) (auto simp: finish_measure_def)
qed (use go in simp_all)

lemma can_finish:
  "machine_inv (p, s) \<Longrightarrow> enumerates (iter_set s) \<Longrightarrow> \<not> aborted p \<Longrightarrow>
     \<exists>acts s'. perform_all acts (p, s) = Some (LoopDone, s')"
proof (induction "finish_measure (p, s)" arbitrary: p s rule: less_induct)
  case less
  show ?case
  proof (cases "p = LoopDone")
    case True
    then show ?thesis by (intro exI [of _ "[]"]) simp
  next
    case False
    from one_more_step [OF less.prems(1,3) False] obtain a p1 s1 where
      1: "perform a (p, s) = Some (p1, s1)" "\<not> aborted p1" "p1 = LoopDone \<or> finish_measure (p1, s1) < finish_measure (p, s)"
      by blast
    have "machine_inv (p1, s1)" "enumerates (iter_set s1)"
      using perform_inv [OF less.prems(1,2) 1(1)] perform_kept [OF less.prems(1,2) 1(1)] less.prems(2)
      by (auto simp: kept_def)
    then have "\<exists>acts s'. perform_all acts (p1, s1) = Some (LoopDone, s')"
      using less.hyps 1(2,3) by (cases "p1 = LoopDone") (auto intro: exI [of _ "[]"])
    then obtain acts s' where "perform_all acts (p1, s1) = Some (LoopDone, s')" by blast
    with 1(1) show ?thesis by (intro exI [of _ "a # acts"]) auto
  qed
qed

section \<open>A step starts once\<close>

definition rank_of :: "'w run_state \<Rightarrow> name \<Rightarrow> nat" where
  "rank_of s n = state_rank (get_state (states s) n)"

lemma rank_terminal: "terminal_state t \<Longrightarrow> state_rank t = 3"
  by (cases t) (auto simp: terminal_state_def)

lemma rank_le_3: "rank_of s n \<le> 3"
  unfolding rank_of_def by (cases "get_state (states s) n") auto

lemma schedule_from_rank:
  "schedule_from Q s = Inr s' \<Longrightarrow> rank_of s n \<le> rank_of s' n"
proof (induction Q arbitrary: s)
  case Nil
  then show ?case by (auto simp: rank_of_def)
next
  case (Cons q Q)
  consider "\<not> int (card (running s)) < max_concurrency s" | "int (card (running s)) < max_concurrency s"
    "q \<in> completed s \<or> q \<in> skipped s" | "int (card (running s)) < max_concurrency s"
    "\<not> (q \<in> completed s \<or> q \<in> skipped s)" by blast
  then show ?case
  proof cases
    case 1
    with Cons.prems show ?thesis by (auto simp: rank_of_def)
  next
    case 2
    with Cons show ?thesis by simp
  next
    case 3
    with Cons.prems obtain m where m: "transition q StReady (states s) = Inr m"
      "schedule_from Q (s\<lparr>running := insert q (running s), states := m, tasks := insert q (tasks s)\<rparr>) = Inr s'"
      by (auto simp: result_simps lift_state_error_def split: sum.splits)
    have "can_transition (get_state (states s) q) StReady" "m = set_state q StReady (states s)"
      using m(1) by (auto simp: transition_Inr)
    with can_transition_rank [of "get_state (states s) q" StReady]
    have "rank_of s n \<le> rank_of (s\<lparr>running := insert q (running s), states := m, tasks := insert q (tasks s)\<rparr>) n"
      by (auto simp: rank_of_def doubleton_eq_iff)
    with Cons.IH [OF m(2)] show ?thesis by simp
  qed
qed

lemma records_rank:
  assumes "records n r X s s1" "sched_inv P s1"
  shows "rank_of s m \<le> rank_of s1 m"
proof (cases "m \<in> insert n X")
  case True
  with assms have "terminal_state (get_state (states s1) m)"
    by (auto simp: records_def sched_inv_def lifecycle_ok_def)
  with rank_le_3 show ?thesis by (simp add: rank_of_def [of s1] rank_terminal)
next
  case False
  with assms(1) show ?thesis by (simp add: records_def rank_of_def)
qed

lemma run_step_begin_rank:
  assumes "run_step_begin fate n s = Inr s'"
  shows "rank_of s m \<le> rank_of s' m" "2 \<le> rank_of s' n"
proof -
  from assms have t: "can_transition (get_state (states s) n) StRunning" "states s' = set_state n StRunning (states s)"
    by (auto simp: run_step_begin_def result_simps lift_state_error_def transition_Inr split: sum.splits)
  with can_transition_rank [OF t(1)] show "rank_of s m \<le> rank_of s' m" "2 \<le> rank_of s' n"
    by (auto simp: rank_of_def doubleton_eq_iff)
qed

lemma perform_rank:
  assumes inv: "machine_inv (p, s)" and act: "perform a (p, s) = Some (p', s')" and nt: "p' \<noteq> TimeoutDone"
  shows "rank_of s n \<le> rank_of s' n"
proof (cases a)
  case (Scheduler fate)
  show ?thesis
  proof (cases p)
    case LoopHead
    with inv act Scheduler have i: "sched_inv {} s" and m: "loop_head s = (p', s')" by simp_all
    from loop_head_cases [OF i] m show ?thesis
      by (auto simp: schedule_ready_steps_def dest: schedule_from_rank)
  next
    case (Processing batch)
    with inv have b: "sched_inv (fst ` set batch) s" "batch_ok batch s" by simp_all
    have m: "process_next batch s = (p', s')" using act Scheduler Processing by simp
    from process_next_cases [OF b] m show ?thesis by (auto dest: records_rank)
  next
    case (Notifying k r mark rest)
    have "states (finish_done_task fate k r mark s) = states s"
      by (simp add: finish_done_task_def Let_def split: option.split)
    with Notifying act Scheduler show ?thesis by (auto simp: rank_of_def)
  qed (use act Scheduler in simp_all)
next
  case (TaskStarts k fate)
  with act have "s' = s \<or> run_step_begin fate k s = Inr s'" by (auto split: if_splits sum.splits)
  then show ?thesis by (auto dest: run_step_begin_rank(1))
next
  case (TimeoutFires ctx)
  with act nt show ?thesis by (auto split: if_splits)
qed (use act in \<open>auto simp: rank_of_def cancel_in_flight_def split: if_splits\<close>)

definition starts_of :: "name \<Rightarrow> action list \<Rightarrow> nat" where
  "starts_of n acts = length (filter (\<lambda>a. \<exists>fate. a = TaskStarts n fate) acts)"

lemma perform_all_starts:
  assumes "machine_inv (p, s)" "enumerates (iter_set s)" "perform_all acts (p, s) = Some m'"
  shows "starts_of n acts \<le> (if 2 \<le> rank_of s n then 0 else 1)"
  using assms
proof (induction acts arbitrary: p s)
  case Nil
  then show ?case by (simp add: starts_of_def)
next
  case (Cons a acts)
  then obtain p1 s1 where 1: "perform a (p, s) = Some (p1, s1)" "perform_all acts (p1, s1) = Some m'"
    by (auto split: option.splits)
  have i1: "machine_inv (p1, s1)" "enumerates (iter_set s1)"
    using perform_inv [OF Cons.prems(1,2) 1(1)] perform_kept [OF Cons.prems(1,2) 1(1)] Cons.prems(2)
    by (auto simp: kept_def)
  have ih: "starts_of n acts \<le> (if 2 \<le> rank_of s1 n then 0 else 1)" by (rule Cons.IH [OF i1 1(2)])
  show ?case
  proof (cases "p1 = TimeoutDone")
    case True
    with 1(2) have "acts = []" using perform_all_TimeoutDone by blast
    moreover from True 1(1) have "\<not> (\<exists>fate. a = TaskStarts n fate)"
      by (cases p) (auto split: if_splits sum.splits)
    ultimately show ?thesis by (simp add: starts_of_def)
  next
    case False
    note mono = perform_rank [OF Cons.prems(1) 1(1) False, of n]
    show ?thesis
    proof (cases "\<exists>fate. a = TaskStarts n fate")
      case True
      then obtain fate where a: "a = TaskStarts n fate" by blast
      with 1(1) have ready: "get_state (states s) n = StReady" by (auto split: if_splits)
      obtain P where P: "sched_inv P s" "n \<in> running s"
        using 1(1) a machine_inv_suspended [OF Cons.prems(1)] by (fastforce simp: sched_inv_def split: if_splits)
      from run_step_begin_inv [OF P ready, of fate] 1(1) a have "run_step_begin fate n s = Inr s1"
        by (auto split: if_splits)
      from run_step_begin_rank(2) [OF this] ih a ready show ?thesis
        by (simp add: starts_of_def rank_of_def [of s])
    next
      case False
      with ih mono show ?thesis by (auto simp: starts_of_def split: if_splits)
    qed
  qed
qed

section \<open>The returned result\<close>

lemma all_recorded_LoopDone:
  assumes "sched_inv {} s" "completed s = set (dag_nodes (rs_dag s))"
  shows "all_recorded s"
proof -
  have "map_of (results s) n \<noteq> None \<longleftrightarrow> n \<in> set (dag_nodes (rs_dag s))" for n
    using sched_inv_results [OF assms(1), of n] assms(2) by simp
  moreover have "\<forall>n r. map_of (results s) n = Some r \<longrightarrow> status r \<in> terminal_statuses"
    "overall_status (rs_result s) = (if failed_set s = {} then RUNNING else FAILED)"
    using assms(1) unfolding sched_inv_def by blast+
  ultimately show ?thesis by (auto simp: all_recorded_def)
qed

lemma map_filter_all: "(\<And>x. x \<in> set xs \<Longrightarrow> P x) \<Longrightarrow> filter P xs = xs"
  by (induction xs) auto

lemma finish_run_result:
  assumes rec: "all_recorded s"
  shows "steps_of (fst (finish_run fate s)) = map (\<lambda>n. the (map_of (results s) n)) (dag_nodes (rs_dag s))"
    and "overall_status (fst (finish_run fate s)) =
      (if overall_status (rs_result s) = RUNNING then SUCCESS else FAILED)"
    and "wf_end_time (fst (finish_run fate s)) \<noteq> None"
    and "final_output (fst (finish_run fate s)) = all_variables (rs_ctx s)"
proof -
  have f: "filter (\<lambda>n. map_of (results s) n \<noteq> None) (map fst (dag_steps (rs_dag s))) = dag_nodes (rs_dag s)"
    unfolding dag_nodes_def [symmetric]
    by (rule map_filter_all) (use rec in \<open>simp add: all_recorded_def\<close>)
  have n: "steps_of (rs_result (notify fate ev t)) = steps_of (rs_result t)"
    "wf_end_time (rs_result (notify fate ev t)) = wf_end_time (rs_result t)"
    "final_output (rs_result (notify fate ev t)) = final_output (rs_result t)" for ev and t :: "'a run_state"
    by (simp_all add: notify_def Let_def tick_def count_observer_error_def split: observer_fate.split)
  have st: "overall_status (rs_result s) \<in> {RUNNING, FAILED}" using rec by (simp add: all_recorded_def)
  show "steps_of (fst (finish_run fate s)) = map (\<lambda>n. the (map_of (results s) n)) (dag_nodes (rs_dag s))"
    by (simp add: finish_run_def Let_def n wf_mark_complete_def f del: not_None_eq)
  show "overall_status (fst (finish_run fate s)) =
      (if overall_status (rs_result s) = RUNNING then SUCCESS else FAILED)"
    using st by (auto simp: finish_run_def Let_def wf_mark_complete_def)
  show "wf_end_time (fst (finish_run fate s)) \<noteq> None"
    "final_output (fst (finish_run fate s)) = all_variables (rs_ctx s)"
    by (simp_all add: finish_run_def Let_def n wf_mark_complete_def)
qed

end
