(* ===== verification/Dag_Executor_Claims.thy ===== *)
theory Dag_Executor_Claims
  imports Dag_Executor_Runs
begin

text \<open>
  The properties of whole executions of \<open>DAGExecutor\<close>, with a concrete run of a diamond
  workflow in which one of two parallel steps fails.
\<close>

section \<open>A concrete run\<close>

definition sample_config :: run_config where
  "sample_config =
     \<lparr>cf_ctx = [sample_frame], cf_on_update = True, cf_timeout = None, cf_kw_timeout = Some 30,
      cf_max_concurrency = Some (PInt 2), cf_clock = of_nat, cf_handler_fates = (\<lambda>_. HandlerReturns),
      cf_iter_set = sorted_list_of_set, cf_show_timeout = (\<lambda>_. ''30.0''),
      cf_start_fate = ObserverReturns\<rparr>"

definition ok_result :: "name \<Rightarrow> task_outcome" where
  "ok_result n = TaskReturned (new_step_result n SUCCESS 0)"

definition boom :: exn where
  "boom = \<lparr>exn_mro = [''RuntimeError'', ''Exception''], exn_msg = ''boom''\<rparr>"

abbreviation go :: action where
  "go \<equiv> Scheduler ObserverReturns"

definition sample_prefix :: "action list" where
  "sample_prefix =
     [go, TaskStarts ''a'' ObserverRaises, WaitReturns [(''a'', ok_result ''a'')], go, go, go, go,
      TaskStarts ''b'' ObserverReturns, TaskStarts ''c'' ObserverReturns]"

definition sample_run :: "action list" where
  "sample_run = sample_prefix @
     [WaitReturns [(''c'', TaskRaised boom)], go, go, go, go,
      WaitReturns [(''b'', ok_result ''b'')], go, go, go, go]"

definition sample_outcome :: "name \<Rightarrow> step_status" where
  "sample_outcome n = (if n = ''c'' then FAILED else SUCCESS)"

definition statuses :: "'w run_state \<Rightarrow> (name \<times> step_status) list" where
  "statuses s = map (\<lambda>(n, r). (n, status r)) (results s)"

lemma sample_enumerates: "enumerates (cf_iter_set sample_config)"
  by (simp add: enumerates_def sample_config_def)

definition sample_machine :: "unit machine" where
  "sample_machine = (LoopHead, initial_state sample_config 2 diamond)"

lemma sample_machine_begin: "execute_begin sample_config diamond = Inr sample_machine"
  using diamond_valid
  by (simp add: execute_begin_def check_concurrency_def sample_config_def valid_dag_def sample_machine_def)

lemma sample_run_eval:
  "(case perform_all sample_run sample_machine of
      Some (p, s) \<Rightarrow> p = LoopDone \<and>
        statuses s = [(''a'', SUCCESS), (''c'', FAILED), (''d'', SKIPPED), (''b'', SUCCESS)]
    | None \<Rightarrow> False)"
  by code_simp

lemma sample_run_of:
  assumes "perform_all acts sample_machine = Some m"
  shows "run_of sample_config diamond acts m"
  using assms sample_machine_begin sample_enumerates diamond_valid
  by (auto simp: run_of_def valid_dag_def)

lemma sample_run_end:
  "\<exists>s. run_of sample_config diamond sample_run (LoopDone, s) \<and>
     statuses s = [(''a'', SUCCESS), (''c'', FAILED), (''d'', SKIPPED), (''b'', SUCCESS)]"
  using sample_run_eval sample_run_of by (auto split: option.splits)

lemma sample_prefix_eval:
  "(case perform_all sample_prefix sample_machine of
      Some (p, s) \<Rightarrow> p = Waiting \<and> running s = {''b'', ''c''}
    | None \<Rightarrow> False)"
  by code_simp

lemma sample_prefix_run:
  "\<exists>s. run_of sample_config diamond sample_prefix (Waiting, s) \<and> running s = {''b'', ''c''}"
  using sample_prefix_eval sample_run_of by (auto split: option.splits)

section \<open>Safety\<close>

text \<open>
  C4. A step runs only when everything it depends on is over and well: at every point of
  every run, each running step is a registered step without a result of its own, all its
  dependencies have a result that is SUCCESS or SKIPPED, and no failed step lies anywhere
  upstream of it. At most \<open>max_concurrency\<close> steps run at a time.
\<close>

theorem running_steps_safe:
  assumes "run_of c g acts (p, s)" "\<not> aborted p"
  shows "(\<forall>n\<in>running s. n \<in> set (dag_nodes g) \<and> map_of (results s) n = None \<and>
      (\<forall>d\<in>set (dag_deps g n). \<exists>r. map_of (results s) d = Some r \<and> status r \<in> {SUCCESS, SKIPPED}) \<and>
      (\<forall>f r. (f, n) \<in> (dag_edges g)\<^sup>* \<longrightarrow> map_of (results s) f = Some r \<longrightarrow> status r \<noteq> FAILED)) \<and>
    check_concurrency (cf_max_concurrency c) = Inr (max_concurrency s) \<and>
    int (card (running s)) \<le> max_concurrency s"
proof -
  note r = run_of_inv [OF assms(1)]
  obtain P where P: "sched_inv P s" using r(1) assms(2) by (cases p) auto
  have "n \<in> set (dag_nodes g) \<and> map_of (results s) n = None \<and>
      (\<forall>d\<in>set (dag_deps g n). \<exists>r. map_of (results s) d = Some r \<and> status r \<in> {SUCCESS, SKIPPED}) \<and>
      (\<forall>f r. (f, n) \<in> (dag_edges g)\<^sup>* \<longrightarrow> map_of (results s) f = Some r \<longrightarrow> status r \<noteq> FAILED)"
    if n: "n \<in> running s" for n
  proof (intro conjI ballI allI impI)
    note i = sched_inv_running [OF P n, unfolded r(2)]
    show "n \<in> set (dag_nodes g)" by (rule i(1))
    show "map_of (results s) n = None" using i(2) sched_inv_results [OF P, of n] by simp
    fix d assume d: "d \<in> set (dag_deps g n)"
    then have "d \<in> completed s" and ok: "d \<notin> reached g (failed_set s)" using i(3) by auto
    then obtain q where q: "map_of (results s) d = Some q" using sched_inv_results [OF P, of d] by auto
    have "status q \<in> terminal_statuses" using P q by (simp add: sched_inv_def)
    moreover have "status q \<noteq> FAILED"
      using ok q reached_refl [of "failed_set s" g] by (auto simp: failed_set_def)
    ultimately show "\<exists>r. map_of (results s) d = Some r \<and> status r \<in> {SUCCESS, SKIPPED}"
      using q by (auto simp: terminal_statuses_def)
  next
    fix f q assume f: "(f, n) \<in> (dag_edges g)\<^sup>*" "map_of (results s) f = Some q"
    have "n \<notin> reached g (failed_set s)"
      using sched_inv_running(2) [OF P n] sched_inv_graph(1) [OF P] r(2) by (auto simp: graph_inv_def)
    with f show "status q \<noteq> FAILED" by (auto simp: reached_def failed_set_def)
  qed
  moreover have "int (card (running s)) \<le> max_concurrency s" using P by (simp add: sched_inv_def)
  ultimately show ?thesis using r(5) by blast
qed

theorem running_steps_safe_witness:
  "\<exists>s. running s = {''b'', ''c''} \<and> (\<exists>r. map_of (results s) ''a'' = Some r \<and> status r \<in> {SUCCESS, SKIPPED}) \<and>
     run_of sample_config diamond sample_prefix (Waiting, s)"
proof -
  obtain s where s: "run_of sample_config diamond sample_prefix (Waiting, s)" "running s = {''b'', ''c''}"
    using sample_prefix_run by blast
  have "''a'' \<in> set (dag_deps diamond ''b'')" by (simp add: dag_deps_def diamond_def mk_step_def)
  with running_steps_safe [OF s(1)] s(2) have
    "\<exists>r. map_of (results s) ''a'' = Some r \<and> status r \<in> {SUCCESS, SKIPPED}" by auto
  with s show ?thesis by blast
qed

text \<open>
  The scheduler never raises on its own: the only exception that ends a run is the
  cancellation of \<open>execute\<close> itself. No lifecycle transition is rejected, and no in-degree
  lookup misses.
\<close>

theorem scheduler_raises_only_on_cancel:
  assumes "run_of c g acts (LoopRaised e, s)"
  shows "e = CancelledError"
  using run_of_inv(1) [OF assms] by simp

theorem scheduler_raises_only_on_cancel_witness:
  "\<exists>s. run_of sample_config diamond (sample_prefix @ [ExecuteCancelled [sample_frame]]) (LoopRaised CancelledError, s)"
proof -
  obtain s where s: "run_of sample_config diamond sample_prefix (Waiting, s)"
    using sample_prefix_run by blast
  let ?s' = "cancel_in_flight [sample_frame] s"
  have "run_of sample_config diamond (sample_prefix @ [ExecuteCancelled [sample_frame]]) (LoopRaised CancelledError, ?s')"
    using s by (auto simp: run_of_def perform_all_append)
  moreover from scheduler_raises_only_on_cancel [OF this] have "CancelledError = CancelledError" .
  ultimately show ?thesis by blast
qed

text \<open>
  The scheduler cannot deadlock: whenever its loop starts over, either it then waits for
  at least one task in flight, or every step is finished and the loop ends normally. The
  deadlock branch is dead code for a validated graph and a positive concurrency limit.
\<close>

theorem scheduler_never_deadlocks:
  assumes "run_of c g acts (LoopHead, s)"
  shows "(\<exists>s1. loop_head s = (Waiting, s1) \<and> tasks s1 \<noteq> {}) \<or>
    (loop_head s = (LoopDone, s) \<and> completed s = set (dag_nodes g))"
  using run_of_inv(1,2) [OF assms] loop_head_cases [of s] by auto

theorem scheduler_never_deadlocks_witness:
  "\<exists>s1. loop_head (initial_state sample_config 2 diamond) = (Waiting, s1) \<and> tasks s1 \<noteq> {}"
proof -
  have "run_of sample_config diamond [] (LoopHead, initial_state sample_config 2 diamond)"
    by (rule sample_run_of) (simp add: sample_machine_def)
  from scheduler_never_deadlocks [OF this] show ?thesis by (auto simp: dag_nodes_def diamond_def)
qed

text \<open>
  No step starts twice: in every run, whatever the interleaving of starts, completions,
  observer calls and context changes, a step's task starts at most once.
\<close>

theorem step_starts_once:
  assumes "run_of c g acts m"
  shows "starts_of n acts \<le> 1"
proof -
  from assms obtain m0 where m0: "dag_wf g" "enumerates (cf_iter_set c)" "execute_begin c g = Inr m0"
    "perform_all acts m0 = Some m" by (auto simp: run_of_def)
  from execute_begin_Inr [OF m0(1,3)] obtain k where
    k: "1 \<le> k" "valid_dag g" "m0 = (LoopHead, initial_state c k g)" by blast
  have "starts_of n acts \<le> (if 2 \<le> rank_of (initial_state c k g) n then 0 else 1)"
    using m0 k initial_state_inv [OF k(2,1), of c]
    by (intro perform_all_starts [of LoopHead _ _ m]) simp_all
  then show ?thesis by (simp split: if_splits)
qed

theorem step_starts_once_witness: "starts_of ''c'' sample_run \<le> 1"
  using step_starts_once sample_run_end by blast

section \<open>Progress\<close>

text \<open>
  The scheduler waits at most once per step: the tasks that all the waits of a run have
  returned are at most as many as the workflow has steps, so the number of loop
  iterations is bounded whatever the schedule.
\<close>

theorem scheduler_waits_bounded:
  assumes "run_of c g acts (p, s)" "\<not> aborted p"
  shows "sum_list (map wait_size acts) \<le> length (dag_steps g)"
proof -
  from assms(1) obtain m0 where m0: "dag_wf g" "enumerates (cf_iter_set c)" "execute_begin c g = Inr m0"
    "perform_all acts m0 = Some (p, s)" by (auto simp: run_of_def)
  from execute_begin_Inr [OF m0(1,3)] obtain k where
    k: "1 \<le> k" "valid_dag g" "m0 = (LoopHead, initial_state c k g)" by blast
  have i: "machine_inv (LoopHead, initial_state c k g)" using initial_state_inv [OF k(2,1)] by simp
  have "sum_list (map wait_size acts) \<le> card (completed s) + length (pc_batch p)"
    using perform_all_waits [OF i _ _ assms(2), of acts s] m0 k(3) by simp
  also have "\<dots> \<le> length (dag_steps g)"
    using settled_plus_batch [OF run_of_inv(1) [OF assms(1)] assms(2)] run_of_inv(2) [OF assms(1)] by simp
  finally show ?thesis .
qed

theorem scheduler_waits_bounded_witness:
  "sum_list (map wait_size sample_run) \<le> length (dag_steps diamond)"
  using sample_run_end scheduler_waits_bounded [of sample_config diamond sample_run LoopDone] by auto



section \<open>Results\<close>

text \<open>
  C6. The result of a run that ends normally is complete: it lists one result per step, in
  the order of the graph's definition, each SUCCESS, FAILED or SKIPPED, and the workflow is
  reported SUCCESS exactly when no step failed, and FAILED otherwise.
\<close>

theorem workflow_result_complete:
  assumes "run_of c g acts (LoopDone, s)" "w = fst (finish_run fate s)"
  shows "steps_of w = map (\<lambda>n. the (map_of (results s) n)) (dag_nodes g) \<and>
    (\<forall>n\<in>set (dag_nodes g). map_of (results s) n \<noteq> None) \<and>
    (\<forall>r\<in>set (steps_of w). status r \<in> {SUCCESS, FAILED, SKIPPED}) \<and>
    overall_status w = (if \<exists>r\<in>set (steps_of w). status r = FAILED then FAILED else SUCCESS)"
proof -
  note r = run_of_inv [OF assms(1)]
  have inv: "sched_inv {} s" "completed s = set (dag_nodes (rs_dag s))" using r(1) by simp_all
  note rec = all_recorded_LoopDone [OF inv]
  have steps: "steps_of w = map (\<lambda>n. the (map_of (results s) n)) (dag_nodes g)"
    unfolding assms(2) finish_run_result(1) [OF rec] r(2) ..
  have some: "\<exists>q. map_of (results s) n = Some q" if "n \<in> set (dag_nodes g)" for n
    using rec that r(2) by (auto simp: all_recorded_def)
  have trm: "status (the (map_of (results s) n)) \<in> terminal_statuses" if "n \<in> set (dag_nodes g)" for n
    using rec some [OF that] by (auto simp: all_recorded_def)
  have "(\<exists>q\<in>set (steps_of w). status q = FAILED) \<longleftrightarrow> failed_set s \<noteq> {}"
  proof
    assume "\<exists>q\<in>set (steps_of w). status q = FAILED"
    then obtain n where "n \<in> set (dag_nodes g)" "status (the (map_of (results s) n)) = FAILED"
      by (auto simp: steps)
    with some show "failed_set s \<noteq> {}" by (force simp: failed_set_def)
  next
    assume "failed_set s \<noteq> {}"
    then obtain n q where q: "map_of (results s) n = Some q" "status q = FAILED" by (auto simp: failed_set_def)
    then have "n \<in> set (dag_nodes g)" using rec r(2) by (auto simp: all_recorded_def)
    with q show "\<exists>q\<in>set (steps_of w). status q = FAILED" by (auto simp: steps intro!: bexI [of _ n])
  qed
  moreover have "overall_status w = (if failed_set s = {} then SUCCESS else FAILED)"
    unfolding assms(2) finish_run_result(2) [OF rec] using inv(1) by (auto simp: sched_inv_def)
  ultimately show ?thesis using steps some trm by (auto simp: terminal_statuses_def)
qed

theorem workflow_result_complete_witness:
  "\<exists>s w. run_of sample_config diamond sample_run (LoopDone, s) \<and> w = fst (finish_run ObserverReturns s) \<and>
     length (steps_of w) = 4 \<and> overall_status w = FAILED"
proof -
  obtain s where s: "run_of sample_config diamond sample_run (LoopDone, s)"
    and st: "statuses s = [(''a'', SUCCESS), (''c'', FAILED), (''d'', SKIPPED), (''b'', SUCCESS)]"
    using sample_run_end by blast
  let ?w = "fst (finish_run ObserverReturns s)"
  note c = workflow_result_complete [OF s refl, of ObserverReturns]
  have "map_of (statuses s) ''c'' = map_option status (map_of (results s) ''c'')"
    by (simp add: statuses_def map_of_map)
  with st have "status (the (map_of (results s) ''c'')) = FAILED"
    by (cases "map_of (results s) ''c''") auto
  moreover have "''c'' \<in> set (dag_nodes diamond)" by (simp add: dag_nodes_def diamond_def)
  ultimately have "\<exists>r\<in>set (steps_of ?w). status r = FAILED"
    using c by (auto intro!: bexI [of _ "the (map_of (results s) ''c'')"] rev_image_eqI [of "''c''"])
  with c have "overall_status ?w = FAILED" by auto
  moreover have "length (steps_of ?w) = 4" using c by (simp add: dag_nodes_def diamond_def)
  ultimately show ?thesis using s by blast
qed

text \<open>
  C5. The schedule does not matter: if every step's task, when it finishes, finishes with the
  status \<open>oc\<close> assigns to the step, then every run that ends normally records exactly the
  statuses of the sequential reference run along the order that \<open>get_execution_order\<close>
  returns, in which a step below a failure is skipped and any other ends as \<open>oc\<close> says.
\<close>

theorem parallel_run_refines_sequential:
  assumes "run_of c g acts (LoopDone, s)" "outcomes_as oc acts" "get_execution_order g = Inr order"
    and "n \<in> set (dag_nodes g)"
  shows "\<exists>r hit. map_of (results s) n = Some r \<and> map_of (sequential_run g oc order) n = Some (status r, hit)"
proof -
  note r = run_of_inv [OF assms(1)]
  from assms(1) obtain m0 where m0: "dag_wf g" "enumerates (cf_iter_set c)" "execute_begin c g = Inr m0"
    "perform_all acts m0 = Some (LoopDone, s)" by (auto simp: run_of_def)
  from execute_begin_Inr [OF m0(1,3)] obtain k where
    k: "1 \<le> k" "valid_dag g" "m0 = (LoopHead, initial_state c k g)" by blast
  have i: "machine_inv (LoopHead, initial_state c k g)" using initial_state_inv [OF k(2,1)] by simp
  have "outcome_inv oc s"
    using perform_all_outcome_inv [OF i _ _ _ _ assms(2), of LoopDone s] m0 k(3)
    by (auto simp: outcome_inv_def batch_outcomes_def)
  moreover have "topo_order g order"
    using execution_order_valid [OF k(2)] assms(3) by auto
  moreover have "sched_inv {} s" "completed s = set (dag_nodes (rs_dag s))" using r(1) by simp_all
  ultimately show ?thesis using final_statuses [of s oc order n] assms(4) r(2) by blast
qed

lemma sample_outcomes: "outcomes_as sample_outcome sample_run"
  by (auto simp: outcomes_as_def sample_run_def sample_prefix_def batch_outcomes_def outcome_status_def
      ok_result_def sample_outcome_def terminal_statuses_def)

theorem parallel_run_refines_sequential_witness:
  "\<exists>s r hit. run_of sample_config diamond sample_run (LoopDone, s) \<and> map_of (results s) ''d'' = Some r \<and>
     map_of (sequential_run diamond sample_outcome [''a'', ''b'', ''c'', ''d'']) ''d'' = Some (status r, hit)"
proof -
  obtain s where s: "run_of sample_config diamond sample_run (LoopDone, s)" using sample_run_end by blast
  have ord: "get_execution_order diamond = Inr [''a'', ''b'', ''c'', ''d'']" by code_simp
  have "''d'' \<in> set (dag_nodes diamond)" by (simp add: dag_nodes_def diamond_def)
  from parallel_run_refines_sequential [OF s sample_outcomes ord this] s show ?thesis by blast
qed

text \<open>
  C7. A workflow timeout leaves nothing open: whenever it strikes, the handler gives every
  step exactly one terminal result, leaves the results recorded before as they were,
  records every step that was running as FAILED and fails the workflow; nothing is in
  flight any more.
\<close>

theorem timeout_recovery_complete:
  assumes "run_of c g acts (p, s)" "suspended p" "s' = handle_timeout ctx s"
  shows "(\<forall>n. map_of (results s') n \<noteq> None \<longleftrightarrow> n \<in> set (dag_nodes g)) \<and>
    (\<forall>n r. map_of (results s') n = Some r \<longrightarrow> status r \<in> {SUCCESS, FAILED, SKIPPED}) \<and>
    (\<forall>n r. map_of (results s) n = Some r \<longrightarrow> map_of (results s') n = Some r) \<and>
    (\<forall>n\<in>running s. \<exists>r. map_of (results s') n = Some r \<and> status r = FAILED) \<and>
    overall_status (fst (finish_run fate s')) = FAILED"
proof -
  note r = run_of_inv [OF assms(1)]
  obtain P where P: "sched_inv P s" using machine_inv_suspended [OF r(1) assms(2)] by blast
  from handle_timeout_recorded [OF P r(4), of ctx] assms(3) have
    rec: "all_recorded s'" and k: "kept s s'" and f: "running s \<subseteq> failed_set s'"
    and o: "overall_status (rs_result s') = FAILED" by auto
  have dag: "rs_dag s' = g" using k r(2) by (simp add: kept_def)
  show ?thesis
    using rec k f o dag finish_run_result(2) [OF rec, of fate]
    by (auto simp: all_recorded_def kept_def failed_set_def terminal_statuses_def)
qed

theorem timeout_recovery_complete_witness:
  "\<exists>s r. run_of sample_config diamond sample_prefix (Waiting, s) \<and>
     map_of (results (handle_timeout [sample_frame] s)) ''b'' = Some r \<and> status r = FAILED"
proof -
  obtain s where s: "run_of sample_config diamond sample_prefix (Waiting, s)" "running s = {''b'', ''c''}"
    using sample_prefix_run by blast
  from timeout_recovery_complete [OF s(1) _ refl] s show ?thesis by auto
qed

section \<open>Masked cancellation\<close>

definition link_rel :: "(nat \<times> exn_object) list \<Rightarrow> (nat \<times> nat) set" where
  "link_rel heap = {(a, b). \<exists>x. map_of heap a = Some x \<and> b \<in> set (links x)}"

definition reaches_cancel :: "(nat \<times> exn_object) list \<Rightarrow> nat \<Rightarrow> bool" where
  "reaches_cancel heap e \<longleftrightarrow>
     (\<exists>b x. (e, b) \<in> (link_rel heap)\<^sup>* \<and> map_of heap b = Some x \<and> is_cancelled x)"

lemma reaches_cancel_step:
  "reaches_cancel heap e \<longleftrightarrow>
     (\<exists>x. map_of heap e = Some x \<and> (is_cancelled x \<or> (\<exists>l\<in>set (links x). reaches_cancel heap l)))"
proof
  assume "reaches_cancel heap e"
  then obtain b x where b: "(e, b) \<in> (link_rel heap)\<^sup>*" "map_of heap b = Some x" "is_cancelled x"
    by (auto simp: reaches_cancel_def)
  from b(1) show "\<exists>x. map_of heap e = Some x \<and> (is_cancelled x \<or> (\<exists>l\<in>set (links x). reaches_cancel heap l))"
    by (cases rule: converse_rtranclE) (use b in \<open>auto simp: link_rel_def reaches_cancel_def\<close>)
next
  assume "\<exists>x. map_of heap e = Some x \<and> (is_cancelled x \<or> (\<exists>l\<in>set (links x). reaches_cancel heap l))"
  then show "reaches_cancel heap e"
    by (auto simp: reaches_cancel_def link_rel_def intro: converse_rtrancl_into_rtrancl)
qed

definition seen_ok :: "(nat \<times> exn_object) list \<Rightarrow> nat list \<Rightarrow> nat set \<Rightarrow> bool" where
  "seen_ok heap pending seen \<longleftrightarrow>
     (\<forall>a\<in>seen. \<forall>x. map_of heap a = Some x \<longrightarrow> \<not> is_cancelled x \<and> set (links x) \<subseteq> seen \<union> set pending)"

lemma seen_reaches:
  assumes "seen_ok heap pending seen" "a \<in> seen" "reaches_cancel heap a"
  shows "\<exists>p\<in>set pending. reaches_cancel heap p"
proof -
  obtain b x where b: "(a, b) \<in> (link_rel heap)\<^sup>*" "map_of heap b = Some x" "is_cancelled x"
    using assms(3) by (auto simp: reaches_cancel_def)
  from b(1) assms(2) show ?thesis
  proof (induction rule: converse_rtrancl_induct)
    case base
    then show ?case using assms(1) b(2,3) by (auto simp: seen_ok_def)
  next
    case (step y z)
    then obtain w where w: "map_of heap y = Some w" "z \<in> set (links w)" by (auto simp: link_rel_def)
    with assms(1) step.prems have "z \<in> seen \<union> set pending" by (auto simp: seen_ok_def)
    moreover have "reaches_cancel heap z" using step.hyps(2) b by (auto simp: reaches_cancel_def)
    ultimately show ?case using step.IH by blast
  qed
qed

lemma raised_while_cancelled_loop_correct:
  "seen_ok heap pending seen \<Longrightarrow>
     raised_while_cancelled_loop heap pending seen \<longleftrightarrow> (\<exists>p\<in>set pending. reaches_cancel heap p)"
proof (induction heap pending seen rule: raised_while_cancelled_loop.induct)
  case (2 heap link pending seen)
  show ?case
  proof (cases "link \<in> seen")
    case True
    have ok: "seen_ok heap pending seen" using 2(4) True by (auto simp: seen_ok_def)
    with 2(1) True seen_reaches [OF ok True] show ?thesis by auto
  next
    case new: False
    show ?thesis
    proof (cases "map_of heap link")
      case None
      have ok: "seen_ok heap pending (insert link seen)" using 2(4) None by (auto simp: seen_ok_def)
      have "\<not> reaches_cancel heap link" using None by (simp add: reaches_cancel_step [of heap link])
      with 2(2) [OF new None ok] new None show ?thesis by simp
    next
      case (Some x)
      show ?thesis
      proof (cases "is_cancelled x")
        case True
        with new Some show ?thesis by (auto simp: reaches_cancel_step [of heap link])
      next
        case False
        have ok: "seen_ok heap (rev (links x) @ pending) (insert link seen)"
          using 2(4) Some False by (auto simp: seen_ok_def)
        have "reaches_cancel heap link \<longleftrightarrow> (\<exists>l\<in>set (links x). reaches_cancel heap l)"
          using Some False by (simp add: reaches_cancel_step [of heap link])
        with 2(3) [OF new Some False ok] new Some False show ?thesis by auto
      qed
    qed
  qed
qed simp

text \<open>
  The walk over an exception's causes and contexts finds a masked cancellation: it
  terminates on every chain, cyclic ones included, and answers whether a
  \<open>CancelledError\<close> is reachable through \<open>__cause__\<close> and \<open>__context__\<close> links.
\<close>

theorem raised_while_cancelled_correct:
  "raised_while_cancelled heap e \<longleftrightarrow>
     (\<exists>b x. (e, b) \<in> (link_rel heap)\<^sup>* \<and> map_of heap b = Some x \<and> is_cancelled x)"
  using raised_while_cancelled_loop_correct [of heap "[e]" "{}"]
  by (simp add: raised_while_cancelled_def seen_ok_def reaches_cancel_def)

end
