(* ===== verification/Py_Numbers.thy ===== *)
theory Py_Numbers
  imports Py_Strings
begin

text \<open>
  \<open>int(s)\<close> and \<open>float(s)\<close> of a string, \<^const>\<open>None\<close> when they raise \<open>ValueError\<close>: surrounding
  white space, a sign, digits with single underscores between them, and for floats a
  fraction and an exponent. Floats are exact; \<open>inf\<close> and \<open>nan\<close> are not modelled.
\<close>

definition is_digit :: "char \<Rightarrow> bool" where
  "is_digit c \<longleftrightarrow> 48 \<le> ord_of c \<and> ord_of c \<le> 57"

definition digit_val :: "char \<Rightarrow> nat" where
  "digit_val c = ord_of c - 48"

fun digits_acc :: "bool \<Rightarrow> nat \<Rightarrow> string \<Rightarrow> nat option" where
  "digits_acc last_digit acc [] = (if last_digit then Some acc else None)"
| "digits_acc last_digit acc (c # cs) =
     (if is_digit c then digits_acc True (10 * acc + digit_val c) cs
      else if c = CHR ''_'' \<and> last_digit then digits_acc False acc cs
      else None)"

definition parse_nat :: "string \<Rightarrow> nat option" where
  "parse_nat s = digits_acc False 0 s"

definition split_sign :: "string \<Rightarrow> bool \<times> string" where
  "split_sign s = (case s of
      [] \<Rightarrow> (False, [])
    | c # cs \<Rightarrow> if c = CHR ''-'' then (True, cs) else if c = CHR ''+'' then (False, cs) else (False, s))"

definition parse_int :: "string \<Rightarrow> int option" where
  "parse_int s =
     (case split_sign (strip s) of (neg, ds) \<Rightarrow>
        map_option (\<lambda>n. if neg then - int n else int n) (parse_nat ds))"

definition is_exp :: "char \<Rightarrow> bool" where
  "is_exp c \<longleftrightarrow> c = CHR ''e'' \<or> c = CHR ''E''"

text \<open>The digits before and after the point; one of the two may be missing.\<close>

definition parse_mantissa :: "string \<Rightarrow> rat option" where
  "parse_mantissa m =
     (let whole = takeWhile (\<lambda>c. c \<noteq> CHR ''.'') m;
          after = dropWhile (\<lambda>c. c \<noteq> CHR ''.'') m
      in if after = [] then map_option of_nat (parse_nat whole)
         else let frac = tl after;
                  fv = map_option (\<lambda>n. of_nat n / 10 ^ length (filter is_digit frac)) (parse_nat frac)
              in if whole = [] then fv
                 else if frac = [] then map_option of_nat (parse_nat whole)
                 else case (parse_nat whole, fv) of
                        (Some w, Some f) \<Rightarrow> Some (of_nat w + f)
                      | _ \<Rightarrow> None)"

definition parse_float :: "string \<Rightarrow> rat option" where
  "parse_float s =
     (case split_sign (strip s) of (neg, t) \<Rightarrow>
        let m = takeWhile (\<lambda>c. \<not> is_exp c) t;
            e = dropWhile (\<lambda>c. \<not> is_exp c) t;
            expo = (if e = [] then Some 0
                    else case split_sign (tl e) of (en, ds) \<Rightarrow>
                      map_option (\<lambda>n. if en then - int n else int n) (parse_nat ds))
        in case (parse_mantissa m, expo) of
             (Some v, Some k) \<Rightarrow> Some ((if neg then - v else v) * 10 powi k)
           | _ \<Rightarrow> None)"

text \<open>\<open>int(x)\<close> of a number truncates towards zero, \<open>math.ceil\<close> rounds up.\<close>

definition trunc :: "rat \<Rightarrow> int" where
  "trunc x = (if x < 0 then - \<lfloor>- x\<rfloor> else \<lfloor>x\<rfloor>)"

lemma parse_examples:
  "parse_int '' 1_0 '' = Some 10" "parse_int ''-3'' = Some (- 3)" "parse_int ''1__0'' = None"
  "parse_float ''1.5'' = Some (3/2)" "parse_float ''5e2'' = Some 500" "parse_float ''.'' = None"
  by code_simp+

end
