(* ===== verification/Py_Values.thy ===== *)
theory Py_Values
  imports Py_Numbers
begin

text \<open>
  The values of the expression interpreter and Python's operators on them. Beside the values
  a context holds there are the \<open>_NullSafe\<close> sentinel, \<open>_SafeNamespace\<close> objects, sets,
  dictionaries with arbitrary keys, the \<open>coalesce\<close> function, and objects the interpreter
  only passes on. Floats are rationals; the operators on the objects that are only passed on,
  \<open>%\<close> formatting of strings, object identity and the attributes of built-in objects are
  parameters of the interpreter.
\<close>

datatype xval =
    XNone
  | XBool bool
  | XInt int
  | XFloat rat
  | XStr string
  | XBytes string
  | XList "xval list"
  | XTuple "xval list"
  | XSet "xval list"
  | XDict "(xval \<times> xval) list"
  | XNs "(xval \<times> xval) list"
  | XNull
  | XCoalesce
  | XOpaque pyval

datatype xerror = XValueError | XTypeError | XNameError string | XZeroDivisionError | XAttributeError | XSyntaxError

text \<open>Numbers: \<open>bool\<close> is a subclass of \<open>int\<close>.\<close>

fun int_of :: "xval \<Rightarrow> int option" where
  "int_of (XBool b) = Some (if b then 1 else 0)"
| "int_of (XInt k) = Some k"
| "int_of _ = None"

fun num_of :: "xval \<Rightarrow> rat option" where
  "num_of (XFloat x) = Some x"
| "num_of v = map_option of_int (int_of v)"

fun is_opaque :: "xval \<Rightarrow> bool" where
  "is_opaque (XOpaque s) = True"
| "is_opaque _ = False"

fun truthy :: "xval \<Rightarrow> bool" where
  "truthy XNone = False"
| "truthy (XBool b) = b"
| "truthy (XInt k) = (k \<noteq> 0)"
| "truthy (XFloat x) = (x \<noteq> 0)"
| "truthy (XStr s) = (s \<noteq> [])"
| "truthy (XBytes s) = (s \<noteq> [])"
| "truthy (XList xs) = (xs \<noteq> [])"
| "truthy (XTuple xs) = (xs \<noteq> [])"
| "truthy (XSet xs) = (xs \<noteq> [])"
| "truthy (XDict d) = (d \<noteq> [])"
| "truthy XNull = False"
| "truthy _ = True"

text \<open>Lists, dictionaries, sets and namespaces are not hashable.\<close>

fun hashable :: "xval \<Rightarrow> bool" where
  "hashable (XList xs) = False"
| "hashable (XSet xs) = False"
| "hashable (XDict d) = False"
| "hashable (XNs d) = False"
| "hashable (XTuple xs) = list_all hashable xs"
| "hashable _ = True"

section \<open>Equality\<close>

text \<open>\<open>a == b\<close>: numbers by value, the sentinel equal to \<open>None\<close>, containers by content.\<close>

lemma size_zip_less [termination_simp]: "(x, y) \<in> set (zip xs ys) \<Longrightarrow> size x < Suc (size_list size xs)"
  by (metis less_Suc_eq_le set_zip_leftD size_list_estimation' order_refl)

lemma size_key_less [termination_simp]:
  "(k, v) \<in> set d \<Longrightarrow> size k < Suc (size_list (size_prod size size) d)"
  "(k, v) \<in> set d \<Longrightarrow> size v < Suc (size_list (size_prod size size) d)"
  by (induction d) auto

lemma size_elem_less [termination_simp]: "x \<in> set xs \<Longrightarrow> size x < Suc (size_list size xs)"
  by (induction xs) auto

function py_eq :: "xval \<Rightarrow> xval \<Rightarrow> bool" where
  "py_eq v w =
     (case v of
        XStr s \<Rightarrow> (case w of XStr t \<Rightarrow> s = t | _ \<Rightarrow> False)
      | XBytes s \<Rightarrow> (case w of XBytes t \<Rightarrow> s = t | _ \<Rightarrow> False)
      | XList xs \<Rightarrow> (case w of XList ys \<Rightarrow> length xs = length ys \<and> list_all (\<lambda>(x, y). py_eq x y) (zip xs ys) | _ \<Rightarrow> False)
      | XTuple xs \<Rightarrow> (case w of XTuple ys \<Rightarrow> length xs = length ys \<and> list_all (\<lambda>(x, y). py_eq x y) (zip xs ys) | _ \<Rightarrow> False)
      | XSet xs \<Rightarrow> (case w of XSet ys \<Rightarrow> length xs = length ys \<and> list_all (\<lambda>x. list_ex (\<lambda>y. py_eq x y) ys) xs | _ \<Rightarrow> False)
      | XDict d \<Rightarrow> (case w of XDict e \<Rightarrow> length d = length e \<and>
          list_all (\<lambda>(k, u). list_ex (\<lambda>(k', u'). py_eq k k' \<and> py_eq u u') e) d | _ \<Rightarrow> False)
      | XNs d \<Rightarrow> (case w of XNs e \<Rightarrow> length d = length e \<and>
          list_all (\<lambda>(k, u). list_ex (\<lambda>(k', u'). py_eq k k' \<and> py_eq u u') e) d | _ \<Rightarrow> False)
      | XNone \<Rightarrow> w = XNone \<or> w = XNull
      | XNull \<Rightarrow> w = XNone \<or> w = XNull
      | XCoalesce \<Rightarrow> w = XCoalesce
      | XOpaque s \<Rightarrow> w = XOpaque s
      | _ \<Rightarrow> (case (num_of v, num_of w) of (Some x, Some y) \<Rightarrow> x = y | _ \<Rightarrow> False))"
  by pat_completeness auto
termination by (relation "measure (\<lambda>(v, w). size v)") (auto simp: termination_simp)

definition py_member :: "xval \<Rightarrow> xval list \<Rightarrow> bool" where
  "py_member x ys \<longleftrightarrow> list_ex (\<lambda>y. py_eq x y) ys"

definition py_subset :: "xval list \<Rightarrow> xval list \<Rightarrow> bool" where
  "py_subset xs ys \<longleftrightarrow> list_all (\<lambda>x. py_member x ys) xs"

declare py_eq.simps [simp del]

text \<open>\<open>d.get(key)\<close>; the key has been found hashable.\<close>

fun dict_get :: "(xval \<times> xval) list \<Rightarrow> xval \<Rightarrow> xval option" where
  "dict_get [] k = None"
| "dict_get ((k', v) # d) k = (if py_eq k' k then Some v else dict_get d k)"

fun dict_set :: "(xval \<times> xval) list \<Rightarrow> xval \<Rightarrow> xval \<Rightarrow> (xval \<times> xval) list" where
  "dict_set [] k v = [(k, v)]"
| "dict_set ((k', v') # d) k v = (if py_eq k' k then (k', v) # d else (k', v') # dict_set d k v)"

definition set_add :: "xval list \<Rightarrow> xval \<Rightarrow> xval list" where
  "set_add xs x = (if py_member x xs then xs else xs @ [x])"

section \<open>Order\<close>

fun str_less :: "string \<Rightarrow> string \<Rightarrow> bool" where
  "str_less _ [] = False"
| "str_less [] (c # cs) = True"
| "str_less (a # as) (b # bs) = (ord_of a < ord_of b \<or> (a = b \<and> str_less as bs))"

text \<open>\<open>a < b\<close> (strict) and \<open>a <= b\<close>: sequences compare their first elements that differ.\<close>

fun first_difference :: "xval list \<Rightarrow> xval list \<Rightarrow> (xval \<times> xval) option" where
  "first_difference (x # xs) (y # ys) = (if py_eq x y then first_difference xs ys else Some (x, y))"
| "first_difference _ _ = None"

lemma first_difference_size [termination_simp]:
  "first_difference xs ys = Some (x, y) \<Longrightarrow> size x < Suc (size_list size xs)"
  by (induction xs ys rule: first_difference.induct) (auto split: if_splits)

function py_order :: "bool \<Rightarrow> xval \<Rightarrow> xval \<Rightarrow> xerror + bool" where
  "py_order strict v w =
     (case (v, w) of
        (XStr s, XStr t) \<Rightarrow> Inr (if strict then str_less s t else \<not> str_less t s)
      | (XBytes s, XBytes t) \<Rightarrow> Inr (if strict then str_less s t else \<not> str_less t s)
      | (XList xs, XList ys) \<Rightarrow>
          (case first_difference xs ys of
             Some (x, y) \<Rightarrow> py_order strict x y
           | None \<Rightarrow> Inr (if strict then length xs < length ys else length xs \<le> length ys))
      | (XTuple xs, XTuple ys) \<Rightarrow>
          (case first_difference xs ys of
             Some (x, y) \<Rightarrow> py_order strict x y
           | None \<Rightarrow> Inr (if strict then length xs < length ys else length xs \<le> length ys))
      | (XSet xs, XSet ys) \<Rightarrow> Inr ((strict \<longrightarrow> length xs < length ys) \<and> py_subset xs ys)
      | _ \<Rightarrow> (case (num_of v, num_of w) of
                (Some x, Some y) \<Rightarrow> Inr (if strict then x < y else x \<le> y)
              | _ \<Rightarrow> Inl XTypeError))"
  by pat_completeness auto
termination by (relation "measure (\<lambda>(_, v, _). size v)") (auto simp: termination_simp)

declare py_order.simps [simp del]

text \<open>\<open>a in b\<close>.\<close>

definition py_in :: "xval \<Rightarrow> xval \<Rightarrow> xerror + bool" where
  "py_in a b =
     (case b of
        XList xs \<Rightarrow> Inr (py_member a xs)
      | XTuple xs \<Rightarrow> Inr (py_member a xs)
      | XSet xs \<Rightarrow> if hashable a then Inr (py_member a xs) else Inl XTypeError
      | XDict d \<Rightarrow> if hashable a then Inr (dict_get d a \<noteq> None) else Inl XTypeError
      | XStr s \<Rightarrow> (case a of XStr p \<Rightarrow> Inr (contains s p) | _ \<Rightarrow> Inl XTypeError)
      | _ \<Rightarrow> Inl XTypeError)"

section \<open>Arithmetic\<close>

definition arith :: "(int \<Rightarrow> int \<Rightarrow> int) \<Rightarrow> (rat \<Rightarrow> rat \<Rightarrow> rat) \<Rightarrow> xval \<Rightarrow> xval \<Rightarrow> xerror + xval" where
  "arith fi fr v w =
     (case (int_of v, int_of w) of
        (Some i, Some j) \<Rightarrow> Inr (XInt (fi i j))
      | _ \<Rightarrow> (case (num_of v, num_of w) of
                (Some x, Some y) \<Rightarrow> Inr (XFloat (fr x y))
              | _ \<Rightarrow> Inl XTypeError))"

definition py_add :: "xval \<Rightarrow> xval \<Rightarrow> xerror + xval" where
  "py_add v w =
     (case (v, w) of
        (XStr s, XStr t) \<Rightarrow> Inr (XStr (s @ t))
      | (XBytes s, XBytes t) \<Rightarrow> Inr (XBytes (s @ t))
      | (XList xs, XList ys) \<Rightarrow> Inr (XList (xs @ ys))
      | (XTuple xs, XTuple ys) \<Rightarrow> Inr (XTuple (xs @ ys))
      | _ \<Rightarrow> arith (+) (+) v w)"

definition py_sub :: "xval \<Rightarrow> xval \<Rightarrow> xerror + xval" where
  "py_sub v w =
     (case (v, w) of
        (XSet xs, XSet ys) \<Rightarrow> Inr (XSet (filter (\<lambda>x. \<not> py_member x ys) xs))
      | _ \<Rightarrow> arith (-) (-) v w)"

text \<open>The sequences that \<open>*\<close> repeats, with their length.\<close>

fun seq_len :: "xval \<Rightarrow> nat option" where
  "seq_len (XStr s) = Some (length s)"
| "seq_len (XBytes s) = Some (length s)"
| "seq_len (XList xs) = Some (length xs)"
| "seq_len (XTuple xs) = Some (length xs)"
| "seq_len _ = None"

fun repeat_seq :: "xval \<Rightarrow> int \<Rightarrow> xval" where
  "repeat_seq (XStr s) n = XStr (concat (replicate (nat n) s))"
| "repeat_seq (XBytes s) n = XBytes (concat (replicate (nat n) s))"
| "repeat_seq (XList xs) n = XList (concat (replicate (nat n) xs))"
| "repeat_seq (XTuple xs) n = XTuple (concat (replicate (nat n) xs))"
| "repeat_seq v n = v"

definition py_mul :: "xval \<Rightarrow> xval \<Rightarrow> xerror + xval" where
  "py_mul v w =
     (case (seq_len v, int_of w) of
        (Some _, Some n) \<Rightarrow> Inr (repeat_seq v n)
      | _ \<Rightarrow> (case (int_of v, seq_len w) of
                (Some n, Some _) \<Rightarrow> Inr (repeat_seq w n)
              | _ \<Rightarrow> arith (*) (*) v w))"

definition py_div :: "xval \<Rightarrow> xval \<Rightarrow> xerror + xval" where
  "py_div v w =
     (case (num_of v, num_of w) of
        (Some x, Some y) \<Rightarrow> if y = 0 then Inl XZeroDivisionError else Inr (XFloat (x / y))
      | _ \<Rightarrow> Inl XTypeError)"

definition py_mod :: "xval \<Rightarrow> xval \<Rightarrow> xerror + xval" where
  "py_mod v w =
     (case (num_of v, num_of w) of
        (Some x, Some y) \<Rightarrow>
          if y = 0 then Inl XZeroDivisionError
          else arith (\<lambda>i j. i mod j) (\<lambda>x y. x - y * of_int \<lfloor>x / y\<rfloor>) v w
      | _ \<Rightarrow> Inl XTypeError)"

definition py_neg :: "bool \<Rightarrow> xval \<Rightarrow> xerror + xval" where
  "py_neg negated v =
     (case int_of v of
        Some k \<Rightarrow> Inr (XInt (if negated then - k else k))
      | None \<Rightarrow> (case num_of v of
                   Some x \<Rightarrow> Inr (XFloat (if negated then - x else x))
                 | None \<Rightarrow> Inl XTypeError))"

lemma repeat_seq_len:
  assumes "seq_len v = Some k" "0 \<le> n"
  shows "seq_len (repeat_seq v n) = Some (k * nat n)"
  using assms by (cases v) (auto simp: length_concat sum_list_replicate)

end
