(* ===== verification/Expressions.thy ===== *)
theory Expressions
  imports Py_Values Exec_Context Contracts
begin

text \<open>
  The expression evaluator of \<open>engine/expressions.py\<close>: the AST whitelist, the interpreter,
  path resolution, and the evaluation of conditions. \<open>ast.parse\<close>, \<open>repr\<close>, object identity,
  the attributes of built-in objects and the operators on objects that are only passed on are
  parameters, collected in \<open>py_runtime\<close>. The interpreter raises \<open>ValueError\<close> with several
  messages; they are not told apart.
\<close>

section \<open>Syntax trees\<close>

datatype binop = BAdd | BSub | BMult | BDiv | BMod | BOther string
datatype unop = UNeg | UPos | UNot | UOther string
datatype boolop = And | Or
datatype cmpop = CEq | CNotEq | CLt | CLtE | CGt | CGtE | CIs | CIsNot | CIn | CNotIn

text \<open>A node of \<open>ast\<close>. \<open>EOther\<close> is any node outside the whitelist (a lambda, a comprehension,
  a slice, a starred argument), with its children; the last field of a call is its keyword
  arguments; a dictionary display has no key for an entry \<open>**d\<close>.\<close>

datatype expr =
    EConst xval
  | EName string
  | EAttr expr string
  | ESub expr expr
  | EBin binop expr expr
  | EUn unop expr
  | EBool boolop "expr list"
  | ECmp expr "(cmpop \<times> expr) list"
  | ECall expr "expr list" "expr list"
  | EList "expr list"
  | ETuple "expr list"
  | ESet "expr list"
  | EDict "(expr option \<times> expr) list"
  | EOther string "expr list"

definition dunder :: "string \<Rightarrow> bool" where
  "dunder s \<longleftrightarrow> startswith s ''__''"

fun binop_allowed :: "binop \<Rightarrow> bool" where
  "binop_allowed (BOther s) = False"
| "binop_allowed _ = True"

fun unop_allowed :: "unop \<Rightarrow> bool" where
  "unop_allowed (UOther s) = False"
| "unop_allowed _ = True"

text \<open>\<open>_validate_ast\<close>: every node on the whitelist, no dunder name or attribute. The node
  \<open>ast.keyword\<close> is not on the whitelist.\<close>

fun allowed :: "expr \<Rightarrow> bool" where
  "allowed (EConst v) = True"
| "allowed (EName n) = (\<not> dunder n)"
| "allowed (EAttr e a) = (\<not> dunder a \<and> allowed e)"
| "allowed (ESub e k) = (allowed e \<and> allowed k)"
| "allowed (EBin b l r) = (binop_allowed b \<and> allowed l \<and> allowed r)"
| "allowed (EUn u e) = (unop_allowed u \<and> allowed e)"
| "allowed (EBool b es) = list_all allowed es"
| "allowed (ECmp e cs) = (allowed e \<and> list_all (\<lambda>c. allowed (snd c)) cs)"
| "allowed (ECall f args kws) = (allowed f \<and> list_all allowed args \<and> kws = [])"
| "allowed (EList es) = list_all allowed es"
| "allowed (ETuple es) = list_all allowed es"
| "allowed (ESet es) = list_all allowed es"
| "allowed (EDict kvs) = list_all (\<lambda>kv. (case fst kv of None \<Rightarrow> True | Some k \<Rightarrow> allowed k) \<and> allowed (snd kv)) kvs"
| "allowed (EOther s es) = False"

definition validate_ast :: "expr \<Rightarrow> xerror + unit" where
  "validate_ast e = (if allowed e then Inr () else Inl XValueError)"

section \<open>The interpreter\<close>

record py_runtime =
  getattr_of :: "xval \<Rightarrow> string \<Rightarrow> xval option"
  identical :: "xval \<Rightarrow> xval \<Rightarrow> bool"
  prim_binop :: "binop \<Rightarrow> xval \<Rightarrow> xval \<Rightarrow> xerror + xval"
  prim_unop :: "unop \<Rightarrow> xval \<Rightarrow> xerror + xval"
  prim_cmp :: "cmpop \<Rightarrow> xval \<Rightarrow> xval \<Rightarrow> xerror + bool"
  parse_expr :: "string \<Rightarrow> xerror + expr"
  repr_of :: "xval \<Rightarrow> string"

definition get_or_null :: "(xval \<times> xval) list \<Rightarrow> xval \<Rightarrow> xval" where
  "get_or_null d k = (case dict_get d k of Some v \<Rightarrow> v | None \<Rightarrow> XNull)"

definition eval_attr :: "py_runtime \<Rightarrow> xval \<Rightarrow> string \<Rightarrow> xval" where
  "eval_attr rt obj a =
     (case obj of
        XDict d \<Rightarrow> get_or_null d (XStr a)
      | XNs d \<Rightarrow> get_or_null d (XStr a)
      | XNull \<Rightarrow> XNull
      | _ \<Rightarrow> (case getattr_of rt obj a of Some v \<Rightarrow> v | None \<Rightarrow> XNull))"

definition index_seq :: "xval list \<Rightarrow> xval \<Rightarrow> xval" where
  "index_seq xs key =
     (case int_of key of
        Some i \<Rightarrow> if 0 \<le> i \<and> i < int (length xs) then xs ! nat i else XNull
      | None \<Rightarrow> XNull)"

definition eval_subscript :: "xval \<Rightarrow> xval \<Rightarrow> xerror + xval" where
  "eval_subscript obj key =
     (case obj of
        XDict d \<Rightarrow> if hashable key then Inr (get_or_null d key) else Inl XTypeError
      | XList xs \<Rightarrow> Inr (index_seq xs key)
      | XTuple xs \<Rightarrow> Inr (index_seq xs key)
      | _ \<Rightarrow> Inr XNull)"

definition max_sequence_multiply :: int where
  "max_sequence_multiply = 10000"

definition multiply_size :: "xval \<Rightarrow> xval \<Rightarrow> int option" where
  "multiply_size l r =
     (case (seq_len l, int_of r) of
        (Some k, Some n) \<Rightarrow> Some (int k * n)
      | _ \<Rightarrow> (case (seq_len r, int_of l) of
                (Some k, Some n) \<Rightarrow> Some (int k * n)
              | _ \<Rightarrow> None))"

definition multiply_guard :: "binop \<Rightarrow> xval \<Rightarrow> xval \<Rightarrow> bool" where
  "multiply_guard b l r \<longleftrightarrow>
     b = BMult \<and> (case multiply_size l r of Some n \<Rightarrow> n > max_sequence_multiply | None \<Rightarrow> False)"

definition apply_binop :: "py_runtime \<Rightarrow> binop \<Rightarrow> xval \<Rightarrow> xval \<Rightarrow> xerror + xval" where
  "apply_binop rt b l r =
     (if is_opaque l \<or> is_opaque r then prim_binop rt b l r
      else case b of
             BAdd \<Rightarrow> py_add l r
           | BSub \<Rightarrow> py_sub l r
           | BMult \<Rightarrow> py_mul l r
           | BDiv \<Rightarrow> py_div l r
           | BMod \<Rightarrow> (case l of XStr s \<Rightarrow> prim_binop rt BMod l r | XBytes s \<Rightarrow> prim_binop rt BMod l r | _ \<Rightarrow> py_mod l r)
           | BOther s \<Rightarrow> Inl XValueError)"

definition apply_unop :: "py_runtime \<Rightarrow> unop \<Rightarrow> xval \<Rightarrow> xerror + xval" where
  "apply_unop rt u v =
     (case u of
        UNot \<Rightarrow> Inr (XBool (\<not> truthy v))
      | UOther s \<Rightarrow> Inl XValueError
      | _ \<Rightarrow> if is_opaque v then prim_unop rt u v else py_neg (u = UNeg) v)"

text \<open>\<open>None\<close>, the booleans and \<open>coalesce\<close> are single objects.\<close>

definition singleton_object :: "xval \<Rightarrow> bool" where
  "singleton_object v \<longleftrightarrow> v = XNone \<or> v = XBool True \<or> v = XBool False \<or> v = XCoalesce"

definition same_object :: "py_runtime \<Rightarrow> xval \<Rightarrow> xval \<Rightarrow> bool" where
  "same_object rt a b = (if singleton_object a \<or> singleton_object b then a = b else identical rt a b)"

definition apply_cmp :: "py_runtime \<Rightarrow> cmpop \<Rightarrow> xval \<Rightarrow> xval \<Rightarrow> xerror + bool" where
  "apply_cmp rt c a b =
     (if c = CIs then Inr (same_object rt a b)
      else if c = CIsNot then Inr (\<not> same_object rt a b)
      else if is_opaque a \<or> is_opaque b then prim_cmp rt c a b
      else case c of
             CEq \<Rightarrow> Inr (py_eq a b)
           | CNotEq \<Rightarrow> Inr (\<not> py_eq a b)
           | CLt \<Rightarrow> py_order True a b
           | CLtE \<Rightarrow> py_order False a b
           | CGt \<Rightarrow> py_order True b a
           | CGtE \<Rightarrow> py_order False b a
           | CIn \<Rightarrow> py_in a b
           | _ \<Rightarrow> rbind (py_in a b) (\<lambda>r. Inr (\<not> r)))"

fun coalesce :: "xval list \<Rightarrow> xval" where
  "coalesce [] = XNone"
| "coalesce (v # vs) = (if v \<noteq> XNone \<and> v \<noteq> XNull then v else coalesce vs)"

type_synonym env = "(string \<times> xval) list"

text \<open>The loops of the interpreter, over the evaluation \<open>f\<close> of their elements.\<close>

fun eval_all :: "('a \<Rightarrow> xerror + xval) \<Rightarrow> 'a list \<Rightarrow> xerror + xval list" where
  "eval_all f [] = Inr []"
| "eval_all f (e # es) = rbind (f e) (\<lambda>v. rbind (eval_all f es) (\<lambda>vs. Inr (v # vs)))"

fun eval_bool :: "(expr \<Rightarrow> xerror + xval) \<Rightarrow> boolop \<Rightarrow> xval \<Rightarrow> expr list \<Rightarrow> xerror + xval" where
  "eval_bool f b res [] = Inr res"
| "eval_bool f b res (e # es) =
     rbind (f e) (\<lambda>v. if truthy v = (b = Or) then Inr v else eval_bool f b v es)"

fun eval_compare :: "py_runtime \<Rightarrow> (expr \<Rightarrow> xerror + xval) \<Rightarrow> xval \<Rightarrow> (cmpop \<times> expr) list \<Rightarrow> xerror + xval" where
  "eval_compare rt f v [] = Inr (XBool True)"
| "eval_compare rt f v (c # cs) =
     rbind (f (snd c)) (\<lambda>w. rbind (apply_cmp rt (fst c) v w) (\<lambda>ok.
       if ok then eval_compare rt f w cs else Inr (XBool False)))"

fun eval_set :: "(expr \<Rightarrow> xerror + xval) \<Rightarrow> xval list \<Rightarrow> expr list \<Rightarrow> xerror + xval list" where
  "eval_set f acc [] = Inr acc"
| "eval_set f acc (e # es) =
     rbind (f e) (\<lambda>v. if hashable v then eval_set f (set_add acc v) es else Inl XTypeError)"

text \<open>\<open>d[key] = value\<close> evaluates the value first.\<close>

fun eval_dict ::
  "(expr \<Rightarrow> xerror + xval) \<Rightarrow> (xval \<times> xval) list \<Rightarrow> (expr option \<times> expr) list \<Rightarrow> xerror + (xval \<times> xval) list" where
  "eval_dict f acc [] = Inr acc"
| "eval_dict f acc (kv # kvs) =
     (case fst kv of
        None \<Rightarrow> Inl XValueError
      | Some ke \<Rightarrow>
          rbind (f (snd kv)) (\<lambda>v. rbind (f ke) (\<lambda>k.
            if hashable k then eval_dict f (dict_set acc k v) kvs else Inl XTypeError)))"

lemma eval_all_cong [fundef_cong]:
  "es = es' \<Longrightarrow> (\<And>e. e \<in> set es' \<Longrightarrow> f e = g e) \<Longrightarrow> eval_all f es = eval_all g es'"
  by (induction es arbitrary: es') auto

lemma eval_bool_same: "(\<And>e. e \<in> set es \<Longrightarrow> f e = g e) \<Longrightarrow> eval_bool f b v es = eval_bool g b v es"
  by (induction es arbitrary: v) (simp_all cong: if_cong)

lemma eval_compare_same:
  "(\<And>c. c \<in> set cs \<Longrightarrow> f (snd c) = g (snd c)) \<Longrightarrow> eval_compare rt f v cs = eval_compare rt g v cs"
  by (induction cs arbitrary: v) (simp_all cong: if_cong)

lemma eval_set_same: "(\<And>e. e \<in> set es \<Longrightarrow> f e = g e) \<Longrightarrow> eval_set f acc es = eval_set g acc es"
  by (induction es arbitrary: acc) (simp_all cong: if_cong)

lemma eval_dict_same:
  assumes "\<And>kv. kv \<in> set kvs \<Longrightarrow> f (snd kv) = g (snd kv)" "\<And>kv k. kv \<in> set kvs \<Longrightarrow> fst kv = Some k \<Longrightarrow> f k = g k"
  shows "eval_dict f acc kvs = eval_dict g acc kvs"
  using assms
proof (induction kvs arbitrary: acc)
  case (Cons kv kvs)
  have 1: "f (snd kv) = g (snd kv)" using Cons.prems(1) by simp
  have 2: "f k = g k" if "fst kv = Some k" for k using Cons.prems(2) [of kv k] that by simp
  have 3: "eval_dict f acc kvs = eval_dict g acc kvs" for acc
    by (rule Cons.IH) (erule Cons.prems [OF list.set_intros(2)], erule (1) Cons.prems(2) [OF list.set_intros(2)])
  show ?case by (simp add: 1 2 3 cong: if_cong split: option.split)
qed simp

lemma eval_loops_cong [fundef_cong]:
  "es = es' \<Longrightarrow> (\<And>e. e \<in> set es' \<Longrightarrow> f e = g e) \<Longrightarrow> eval_bool f b v es = eval_bool g b v es'"
  "cs = cs' \<Longrightarrow> (\<And>c. c \<in> set cs' \<Longrightarrow> f (snd c) = g (snd c)) \<Longrightarrow> eval_compare rt f v cs = eval_compare rt g v cs'"
  "es = es' \<Longrightarrow> (\<And>e. e \<in> set es' \<Longrightarrow> f e = g e) \<Longrightarrow> eval_set f acc es = eval_set g acc es'"
  "kvs = kvs' \<Longrightarrow> (\<And>kv. kv \<in> set kvs' \<Longrightarrow> f (snd kv) = g (snd kv)) \<Longrightarrow>
     (\<And>kv k. kv \<in> set kvs' \<Longrightarrow> fst kv = Some k \<Longrightarrow> f k = g k) \<Longrightarrow> eval_dict f d kvs = eval_dict g d kvs'"
  using eval_bool_same [of es' f g] eval_compare_same [of cs' f g] eval_set_same [of es' f g]
    eval_dict_same [of kvs' f g]
  by blast+

lemma expr_size_less [termination_simp]:
  "c \<in> set cs \<Longrightarrow> size (snd c) < Suc (size_list (size_prod (\<lambda>_. 0) size) cs)"
  "kv \<in> set kvs \<Longrightarrow> size (snd kv) < Suc (size_list (size_prod (size_option size) size) kvs)"
  "kv \<in> set kvs \<Longrightarrow> fst kv = Some k \<Longrightarrow> size k < Suc (size_list (size_prod (size_option size) size) kvs)"
  by (induction cs; auto) (induction kvs; auto)+

function eval_node :: "py_runtime \<Rightarrow> env \<Rightarrow> expr \<Rightarrow> xerror + xval" where
  "eval_node rt env (EConst v) = Inr v"
| "eval_node rt env (EName n) =
     (if dunder n then Inl XValueError
      else case map_of env n of None \<Rightarrow> Inl (XNameError n) | Some v \<Rightarrow> Inr v)"
| "eval_node rt env (EAttr e a) =
     (if dunder a then Inl XValueError else rbind (eval_node rt env e) (\<lambda>obj. Inr (eval_attr rt obj a)))"
| "eval_node rt env (ESub e k) =
     rbind (eval_node rt env e) (\<lambda>obj. rbind (eval_node rt env k) (eval_subscript obj))"
| "eval_node rt env (EBin b l r) =
     (if \<not> binop_allowed b then Inl XValueError
      else rbind (eval_node rt env l) (\<lambda>lv. rbind (eval_node rt env r) (\<lambda>rv.
             if multiply_guard b lv rv then Inl XValueError else apply_binop rt b lv rv)))"
| "eval_node rt env (EUn u e) =
     (if \<not> unop_allowed u then Inl XValueError else rbind (eval_node rt env e) (apply_unop rt u))"
| "eval_node rt env (EBool b es) = eval_bool (eval_node rt env) b (XBool (b = And)) es"
| "eval_node rt env (ECmp e cs) = rbind (eval_node rt env e) (\<lambda>v. eval_compare rt (eval_node rt env) v cs)"
| "eval_node rt env (ECall f args kws) =
     rbind (eval_node rt env f) (\<lambda>fv.
       if fv \<noteq> XCoalesce then Inl XValueError
       else rbind (eval_all (eval_node rt env) args) (\<lambda>vs. Inr (coalesce vs)))"
| "eval_node rt env (EList es) = rbind (eval_all (eval_node rt env) es) (\<lambda>vs. Inr (XList vs))"
| "eval_node rt env (ETuple es) = rbind (eval_all (eval_node rt env) es) (\<lambda>vs. Inr (XTuple vs))"
| "eval_node rt env (ESet es) = rbind (eval_set (eval_node rt env) [] es) (\<lambda>vs. Inr (XSet vs))"
| "eval_node rt env (EDict kvs) = rbind (eval_dict (eval_node rt env) [] kvs) (\<lambda>d. Inr (XDict d))"
| "eval_node rt env (EOther s es) = Inl XValueError"
  by pat_completeness auto
termination by (relation "measure (\<lambda>(_, _, e). size e)") (auto simp: termination_simp)

section \<open>Namespaces\<close>

text \<open>A value of the context as the interpreter sees it.\<close>

fun of_py :: "pyval \<Rightarrow> xval" where
  "of_py PNone = XNone"
| "of_py (PBool b) = XBool b"
| "of_py (PInt k) = XInt k"
| "of_py (PFloat x) = XFloat x"
| "of_py (PStr s) = XStr s"
| "of_py (PList xs) = XList (map of_py xs)"
| "of_py (PTuple xs) = XTuple (map of_py xs)"
| "of_py (PDict d) = XDict (map (\<lambda>(k, v). (XStr k, of_py v)) d)"
| "of_py (PDatetime s) = XOpaque (PDatetime s)"
| "of_py (PPath s) = XOpaque (PPath s)"
| "of_py (PObject s) = XOpaque (PObject s)"

text \<open>A value of the interpreter as one of the context. What the context's values do not
  cover (sets, namespaces, dictionaries with other keys than strings) is an object with its
  text, which is a parameter.\<close>

definition str_key :: "xval \<Rightarrow> string option" where
  "str_key k = (case k of XStr s \<Rightarrow> Some s | _ \<Rightarrow> None)"

fun to_py :: "(xval \<Rightarrow> string) \<Rightarrow> xval \<Rightarrow> pyval" where
  "to_py txt XNone = PNone"
| "to_py txt (XBool b) = PBool b"
| "to_py txt (XInt k) = PInt k"
| "to_py txt (XFloat x) = PFloat x"
| "to_py txt (XStr s) = PStr s"
| "to_py txt (XList xs) = PList (map (to_py txt) xs)"
| "to_py txt (XTuple xs) = PTuple (map (to_py txt) xs)"
| "to_py txt (XDict d) =
     (if list_all (\<lambda>(k, v). str_key k \<noteq> None) d
      then PDict (map (\<lambda>(k, v). (the (str_key k), to_py txt v)) d)
      else PObject (txt (XDict d)))"
| "to_py txt (XOpaque v) = v"
| "to_py txt v = PObject (txt v)"

lemma to_py_of_py [simp]: "to_py txt (of_py v) = v"
  by (induction v rule: of_py.induct)
     (auto simp: str_key_def list_all_iff comp_def case_prod_beta intro!: map_idI)

fun to_namespace :: "pyval \<Rightarrow> xval" where
  "to_namespace (PDict d) = XNs (map (\<lambda>(k, v). (XStr k, to_namespace v)) d)"
| "to_namespace (PList xs) = XList (map to_namespace xs)"
| "to_namespace v = of_py v"

fun from_namespace :: "xval \<Rightarrow> xval" where
  "from_namespace XNull = XNone"
| "from_namespace (XNs d) = XDict (map (\<lambda>(k, v). (k, from_namespace v)) d)"
| "from_namespace (XDict d) = XDict (map (\<lambda>(k, v). (k, from_namespace v)) d)"
| "from_namespace (XList xs) = XList (map from_namespace xs)"
| "from_namespace v = v"

text \<open>The view of a step result: the fields of \<open>StepResultView\<close>, as a dictionary. The text of
  the end time is a parameter.\<close>

definition step_view :: "(instant \<Rightarrow> string) \<Rightarrow> step_result \<Rightarrow> pydict" where
  "step_view isoformat r =
     [(''status'', PStr (step_status_value (status r))), (''output'', PDict (output_data r)),
      (''outputs'', PDict (output_data r)),
      (''error'', case error r of None \<Rightarrow> PNone | Some e \<Rightarrow> PStr e),
      (''error_type'', case error_type r of None \<Rightarrow> PNone | Some e \<Rightarrow> PStr e),
      (''completed_at'', case end_time r of None \<Rightarrow> PNone | Some t \<Rightarrow> PStr (isoformat t))]"

record evaluator =
  ev_ctx :: exec_context
  step_results :: "(name \<times> step_result) list"
  isoformat :: "instant \<Rightarrow> string"

definition build_step_views :: "evaluator \<Rightarrow> (name \<times> pydict) list" where
  "build_step_views ev = map (\<lambda>(n, r). (n, step_view (isoformat ev) r)) (step_results ev)"

fun dict_entries :: "pyval option \<Rightarrow> (string \<times> pydict) list" where
  "dict_entries (Some (PDict d)) =
     concat (map (\<lambda>(k, v). case v of PDict e \<Rightarrow> [(k, e)] | _ \<Rightarrow> []) d)"
| "dict_entries _ = []"

definition merged_step_views :: "evaluator \<Rightarrow> pydict \<Rightarrow> (name \<times> pydict) list" where
  "merged_step_views ev all_vars =
     fold (\<lambda>(n, d) views. if map_of views n = None then AList.update n d views else views)
       (dict_entries (map_of all_vars ''steps'')) (build_step_views ev)"

definition build_env :: "evaluator \<Rightarrow> env" where
  "build_env ev =
     (let all_vars = all_variables (ev_ctx ev);
          views = merged_step_views ev all_vars
      in fold (\<lambda>(k, v) env. if map_of env k = None then AList.update k (to_namespace v) env else env) all_vars
           [(''ctx'', to_namespace (PDict all_vars)),
            (''steps'', to_namespace (PDict (map (\<lambda>(n, d). (n, PDict d)) views))),
            (''coalesce'', XCoalesce)])"

definition safe_eval :: "py_runtime \<Rightarrow> evaluator \<Rightarrow> string \<Rightarrow> xerror + xval" where
  "safe_eval rt ev expression =
     rbind (parse_expr rt expression) (\<lambda>e. rbind (validate_ast e) (\<lambda>_. eval_node rt (build_env ev) e))"

text \<open>\<open>evaluate_safe_expression\<close>: every error becomes an \<open>ExpressionError\<close>, except the
  \<open>AttributeError\<close> that is not caught.\<close>

definition evaluate_safe_expression :: "py_runtime \<Rightarrow> string \<Rightarrow> (xerror option) + xval" where
  "evaluate_safe_expression rt expression =
     (case rbind (parse_expr rt expression) (\<lambda>e. rbind (validate_ast e) (\<lambda>_.
             eval_node rt [(''coalesce'', XCoalesce)] e)) of
        Inl XAttributeError \<Rightarrow> Inl (Some XAttributeError)
      | Inl _ \<Rightarrow> Inl None
      | Inr v \<Rightarrow> Inr v)"

section \<open>Paths\<close>

datatype token = TStr string | TInt int

definition coerce_index_token :: "string \<Rightarrow> token" where
  "coerce_index_token t =
     (if t \<noteq> [] \<and> hd t \<in> {CHR 34, CHR 39} \<and> last t \<in> {CHR 34, CHR 39} then TStr (butlast (tl t))
      else case parse_int t of Some k \<Rightarrow> TInt k | None \<Rightarrow> TStr t)"

definition flush :: "string \<Rightarrow> token list" where
  "flush buffer = (if buffer \<noteq> [] then [TStr buffer] else [])"

fun split_bracket :: "string \<Rightarrow> (string \<times> string) option" where
  "split_bracket [] = None"
| "split_bracket (c # cs) =
     (if c = CHR '']'' then Some ([], cs) else map_option (\<lambda>(a, b). (c # a, b)) (split_bracket cs))"

lemma split_bracket_length: "split_bracket cs = Some (a, b) \<Longrightarrow> length b < length cs"
  by (induction cs arbitrary: a b) (auto split: if_splits simp: less_Suc_eq)

function path_tokens :: "string \<Rightarrow> string \<Rightarrow> token list option" where
  "path_tokens buffer [] = Some (flush buffer)"
| "path_tokens buffer (c # cs) =
     (if c = CHR ''.'' then map_option ((@) (flush buffer)) (path_tokens [] cs)
      else if c = CHR ''['' then
        (case split_bracket cs of
           None \<Rightarrow> None
         | Some (idx, rest) \<Rightarrow>
             map_option (\<lambda>ts. flush buffer @ coerce_index_token (strip idx) # ts) (path_tokens [] rest))
      else path_tokens (buffer @ [c]) cs)"
  by pat_completeness auto
termination by (relation "measure (\<lambda>(_, s). length s)") (auto dest: split_bracket_length)

definition parse_path :: "string \<Rightarrow> token list" where
  "parse_path path = (case path_tokens [] path of None \<Rightarrow> [] | Some ts \<Rightarrow> ts)"

fun navigate :: "py_runtime \<Rightarrow> xval \<Rightarrow> token list \<Rightarrow> xval" where
  "navigate rt obj [] = obj"
| "navigate rt obj (TInt i # path) =
     (if obj = XNone then XNone
      else case obj of
             XList xs \<Rightarrow> if 0 \<le> i \<and> i < int (length xs) then navigate rt (xs ! nat i) path else XNone
           | XTuple xs \<Rightarrow> if 0 \<le> i \<and> i < int (length xs) then navigate rt (xs ! nat i) path else XNone
           | _ \<Rightarrow> XNone)"
| "navigate rt obj (TStr k # path) =
     (if obj = XNone then XNone
      else case obj of
             XDict d \<Rightarrow> navigate rt (case dict_get d (XStr k) of Some v \<Rightarrow> v | None \<Rightarrow> XNone) path
           | _ \<Rightarrow> (case getattr_of rt obj k of Some v \<Rightarrow> navigate rt v path | None \<Rightarrow> XNone))"

definition get_step_view :: "evaluator \<Rightarrow> name \<Rightarrow> xval" where
  "get_step_view ev n =
     (let ctx_step = (case map_of (all_variables (ev_ctx ev)) ''steps'' of
                        Some (PDict d) \<Rightarrow> map_of d n | _ \<Rightarrow> None)
      in case map_of (build_step_views ev) n of
           Some sv \<Rightarrow> of_py (PDict (case ctx_step of Some (PDict d) \<Rightarrow> dict_update sv d | _ \<Rightarrow> sv))
         | None \<Rightarrow>
             (case ctx_step of
                Some (PDict d) \<Rightarrow>
                  of_py (PDict (case (map_of d ''outputs'', map_of d ''output'') of
                     (Some o', None) \<Rightarrow> AList.update ''output'' o' d | _ \<Rightarrow> d))
              | _ \<Rightarrow> XNone))"

definition resolve_path :: "py_runtime \<Rightarrow> evaluator \<Rightarrow> string \<Rightarrow> xval" where
  "resolve_path rt ev path =
     (let all_vars = of_py (PDict (all_variables (ev_ctx ev)))
      in case parse_path path of
           [] \<Rightarrow> XNone
         | TStr source # rest \<Rightarrow>
             if source = ''steps''
             then (case rest of TStr n # rest' \<Rightarrow> navigate rt (get_step_view ev n) rest' | _ \<Rightarrow> XNone)
             else if source = ''ctx'' then navigate rt all_vars rest
             else navigate rt all_vars (TStr source # rest)
         | ts \<Rightarrow> navigate rt all_vars ts)"

definition resolve_variable :: "py_runtime \<Rightarrow> evaluator \<Rightarrow> string \<Rightarrow> xerror + xval" where
  "resolve_variable rt ev path =
     rbind (if CHR ''('' \<in> set path then safe_eval rt ev path else Inr (resolve_path rt ev path))
       (\<lambda>v. Inr (from_namespace v))"

section \<open>Conditions\<close>

text \<open>\<open>\$\{([^}]+)\}\<close> at the head of a string.\<close>

definition variable_here :: "string \<Rightarrow> (string \<times> string) option" where
  "variable_here s =
     (if startswith s ''${''
      then case span_to_brace (drop 2 s) of
             Some (g, rest) \<Rightarrow> if g \<noteq> [] then Some (g, rest) else None
           | None \<Rightarrow> None
      else None)"

lemma variable_here_length: "variable_here s = Some (g, rest) \<Longrightarrow> length rest < length s"
  by (auto simp: variable_here_def dest!: span_to_brace_length split: if_splits option.splits)

definition full_variable :: "string \<Rightarrow> string option" where
  "full_variable s = (case variable_here s of Some (g, []) \<Rightarrow> Some g | _ \<Rightarrow> None)"

text \<open>\<open>VARIABLE_PATTERN.sub\<close>, with \<open>repr\<close> of what each token resolves to.\<close>

function substitute :: "py_runtime \<Rightarrow> evaluator \<Rightarrow> string \<Rightarrow> xerror + string" where
  "substitute rt ev s =
     (case variable_here s of
        Some (g, rest) \<Rightarrow>
          rbind (resolve_variable rt ev (strip g)) (\<lambda>v.
            rbind (substitute rt ev rest) (\<lambda>t. Inr (repr_of rt v @ t)))
      | None \<Rightarrow>
          (case s of [] \<Rightarrow> Inr [] | c # cs \<Rightarrow> rbind (substitute rt ev cs) (\<lambda>t. Inr (c # t))))"
  by pat_completeness auto
termination
  by (relation "measure (\<lambda>(_, _, s). length s)") (auto dest: variable_here_length)

declare substitute.simps [simp del]

definition evaluate_text :: "py_runtime \<Rightarrow> evaluator \<Rightarrow> string \<Rightarrow> xerror + bool" where
  "evaluate_text rt ev expression =
     (if lower expression = ''true'' then Inr True
      else if lower expression = ''false'' then Inr False
      else case safe_eval rt ev expression of
             Inr v \<Rightarrow> Inr (truthy v)
           | Inl e \<Rightarrow>
               if e = XAttributeError \<or> e = XSyntaxError
               then Inr (contains expression '' not in '' \<or> contains expression '' != '')
               else Inl e)"

definition evaluate :: "py_runtime \<Rightarrow> evaluator \<Rightarrow> pyval \<Rightarrow> xerror + bool" where
  "evaluate rt ev e =
     (case e of
        PBool b \<Rightarrow> Inr b
      | PNone \<Rightarrow> Inr False
      | PStr s \<Rightarrow>
          (case full_variable (strip s) of
             Some g \<Rightarrow> evaluate_text rt ev (strip g)
           | None \<Rightarrow> rbind (substitute rt ev (strip s)) (evaluate_text rt ev))
      | _ \<Rightarrow> Inr (truthy (of_py e)))"

end
