(* ===== verification/Token_Budget.thy ===== *)
theory Token_Budget
  imports Prelude
begin

text \<open>
  The token budgets of \<open>models/cache_budget.py\<close>: the per-run budget, which reserves, and the
  process-wide budget, which records what was spent.
\<close>

record token_budget =
  max_tokens :: int
  used_tokens :: int

definition budget_remaining :: "token_budget \<Rightarrow> int" where
  "budget_remaining b = max 0 (max_tokens b - used_tokens b)"

definition percentage_used :: "token_budget \<Rightarrow> rat" where
  "percentage_used b =
     (if max_tokens b = 0 then 100 else of_int (used_tokens b) / of_int (max_tokens b) * 100)"

definition budget_consume :: "int \<Rightarrow> token_budget \<Rightarrow> token_budget \<times> bool" where
  "budget_consume n b =
     (if used_tokens b + n > max_tokens b then (b, False)
      else (b\<lparr>used_tokens := used_tokens b + n\<rparr>, True))"

definition can_afford :: "int \<Rightarrow> token_budget \<Rightarrow> bool" where
  "can_afford n b \<longleftrightarrow> used_tokens b + n \<le> max_tokens b"

definition process_consume :: "int \<Rightarrow> token_budget \<Rightarrow> token_budget \<times> bool" where
  "process_consume n b =
     (let b1 = b\<lparr>used_tokens := used_tokens b + n\<rparr> in (b1, used_tokens b1 \<le> max_tokens b1))"

text \<open>The charges of a run, in order: the budget they leave and the verdicts.\<close>

fun charge_all :: "(int \<Rightarrow> token_budget \<Rightarrow> token_budget \<times> bool) \<Rightarrow> int list \<Rightarrow> token_budget \<Rightarrow> token_budget \<times> bool list" where
  "charge_all charge [] b = (b, [])"
| "charge_all charge (n # ns) b =
     (case charge n b of (b1, ok) \<Rightarrow> case charge_all charge ns b1 of (b2, oks) \<Rightarrow> (b2, ok # oks))"

text \<open>
  What a client of a budget relies on, whichever of the two it is given: the cap is fixed, a
  charge that is accepted is recorded and within the cap, and \<open>can_afford\<close> foretells it.
\<close>

locale budget =
  fixes charge :: "int \<Rightarrow> token_budget \<Rightarrow> token_budget \<times> bool"
  assumes charge_cap: "max_tokens (fst (charge n b)) = max_tokens b"
    and charge_accepted: "snd (charge n b) \<Longrightarrow> used_tokens (fst (charge n b)) = used_tokens b + n"
    and charge_verdict: "snd (charge n b) \<longleftrightarrow> can_afford n b"
    and charge_grows: "0 \<le> n \<Longrightarrow> used_tokens b \<le> used_tokens (fst (charge n b))"
begin

lemma charge_all_cap: "max_tokens (fst (charge_all charge ns b)) = max_tokens b"
  by (induction ns arbitrary: b) (simp_all add: case_prod_beta charge_cap)

lemma charge_all_accepted:
  "set (snd (charge_all charge ns b)) \<subseteq> {True} \<Longrightarrow>
     used_tokens (fst (charge_all charge ns b)) = used_tokens b + sum_list ns"
proof (induction ns arbitrary: b)
  case (Cons n ns)
  then show ?case using charge_accepted [of n b] by (simp add: case_prod_beta)
qed simp

lemma refused_stays_refused:
  assumes "\<not> can_afford n b" "\<forall>m\<in>set ns. 0 \<le> m"
  shows "\<not> can_afford n (fst (charge_all charge ns b))"
  using assms
proof (induction ns arbitrary: b)
  case (Cons m ns)
  have "\<not> can_afford n (fst (charge m b))"
    using Cons.prems charge_grows [of m b] by (auto simp: can_afford_def charge_cap)
  with Cons show ?case by (simp add: case_prod_beta)
qed simp

end

interpretation run_budget: budget budget_consume
  by unfold_locales (auto simp: budget_consume_def can_afford_def)

interpretation process_budget: budget process_consume
  by unfold_locales (auto simp: process_consume_def can_afford_def)

lemma budget_consume_capped:
  "used_tokens b \<le> max_tokens b \<Longrightarrow>
     used_tokens (fst (charge_all budget_consume ns b)) \<le> max_tokens (fst (charge_all budget_consume ns b))"
  by (induction ns arbitrary: b) (auto simp: case_prod_beta budget_consume_def)

lemma process_consume_total:
  "used_tokens (fst (charge_all process_consume ns b)) = used_tokens b + sum_list ns"
  by (induction ns arbitrary: b) (auto simp: case_prod_beta process_consume_def Let_def)

text \<open>
  The budgets hold their caps. A run's budget never records more than its cap, whatever
  is charged; the process-wide budget records every charge, so once the charges exceed the
  cap every later request is refused; and with either, charges that were all accepted are
  recorded in full.
\<close>

theorem budgets_enforce_cap:
  assumes "used_tokens b \<le> max_tokens b" "\<forall>n\<in>set ns. 0 \<le> n" "\<forall>n\<in>set ms. 0 \<le> n" "0 \<le> k"
  shows "used_tokens (fst (charge_all budget_consume ns b)) \<le> max_tokens b \<and>
    used_tokens (fst (charge_all process_consume ns b)) = used_tokens b + sum_list ns \<and>
    (used_tokens b + sum_list ns > max_tokens b \<longrightarrow>
       \<not> can_afford k (fst (charge_all process_consume ms (fst (charge_all process_consume ns b))))) \<and>
    (set (snd (charge_all budget_consume ns b)) \<subseteq> {True} \<longrightarrow>
       used_tokens (fst (charge_all budget_consume ns b)) = used_tokens b + sum_list ns)"
proof -
  have "\<not> can_afford k (fst (charge_all process_consume ns b))"
    if "used_tokens b + sum_list ns > max_tokens b"
    using that assms(4) by (simp add: can_afford_def process_consume_total process_budget.charge_all_cap)
  then show ?thesis
    using budget_consume_capped [OF assms(1), of ns] process_budget.refused_stays_refused [OF _ assms(3)]
    by (auto simp: run_budget.charge_all_cap process_consume_total run_budget.charge_all_accepted)
qed

theorem budgets_enforce_cap_witness:
  "charge_all budget_consume [60, 50, 30] \<lparr>max_tokens = 100, used_tokens = 0\<rparr> =
     (\<lparr>max_tokens = 100, used_tokens = 90\<rparr>, [True, False, True]) \<and>
   \<not> can_afford 0 (fst (charge_all process_consume [30] (fst (charge_all process_consume [60, 50]
       \<lparr>max_tokens = 100, used_tokens = 0\<rparr>))))"
  using budgets_enforce_cap [of "\<lparr>max_tokens = 100, used_tokens = 0\<rparr>" "[60, 50]" "[30]" 0]
  by (simp add: budget_consume_def)

end
