(* ===== verification/Verification_Loop.thy ===== *)
theory Verification_Loop
  imports Step_Def Contracts Token_Budget Py_Numbers
begin

text \<open>
  The verification gate and the bounded correction loop of \<open>engine/verification.py\<close>. The
  step function, the correction function and the processes a check starts act on a state
  \<open>'w\<close> of the world outside, which also holds the token budget and the monotonic clock.
  The dash of the escalation texts is written as a hyphen.
\<close>

section \<open>Splitting a command\<close>

text \<open>
  \<open>shlex.split(cmd)\<close> in its POSIX mode: the token under construction, whether a quote took
  part in it, and the state of the lexer; \<^const>\<open>None\<close> when it raises \<open>ValueError\<close> at the end
  of the text, inside a quotation or after an escape.
\<close>

datatype lex_state = Between | InWord | InQuote char | EscapeWord | EscapeQuote char

definition emit_token :: "string \<Rightarrow> bool \<Rightarrow> string list" where
  "emit_token token quoted = (if token \<noteq> [] \<or> quoted then [token] else [])"

definition shlex_space :: "char \<Rightarrow> bool" where
  "shlex_space c \<longleftrightarrow> c = CHR '' '' \<or> c = CHR 9 \<or> c = CHR 10 \<or> c = CHR 13"

definition shlex_quote :: "char \<Rightarrow> bool" where
  "shlex_quote c \<longleftrightarrow> c = CHR 34 \<or> c = CHR 39"

fun shlex :: "lex_state \<Rightarrow> string \<Rightarrow> bool \<Rightarrow> string \<Rightarrow> string list option" where
  "shlex Between token quoted [] = Some (emit_token token quoted)"
| "shlex InWord token quoted [] = Some (emit_token token quoted)"
| "shlex (InQuote q) token quoted [] = None"
| "shlex EscapeWord token quoted [] = None"
| "shlex (EscapeQuote q) token quoted [] = None"
| "shlex (InQuote q) token quoted (c # cs) =
     (if c = q then shlex InWord token True cs
      else if c = CHR 92 \<and> q = CHR 34 then shlex (EscapeQuote q) token True cs
      else shlex (InQuote q) (token @ [c]) True cs)"
| "shlex EscapeWord token quoted (c # cs) = shlex InWord (token @ [c]) quoted cs"
| "shlex (EscapeQuote q) token quoted (c # cs) =
     shlex (InQuote q) (if c \<noteq> CHR 92 \<and> c \<noteq> q then token @ [CHR 92, c] else token @ [c]) quoted cs"
| "shlex st token quoted (c # cs) =
     (if shlex_space c then map_option ((@) (emit_token token quoted)) (shlex Between [] False cs)
      else if c = CHR 92 then shlex EscapeWord token quoted cs
      else if shlex_quote c then shlex (InQuote c) token quoted cs
      else shlex InWord (token @ [c]) quoted cs)"

definition shell_metachars :: "string list" where
  "shell_metachars =
     [''|'', ''&'', '';'', ''<'', ''>'', [CHR 96], ''$('', ''${'', [CHR 10], [CHR 13]]"

definition split_verification_command :: "string \<Rightarrow> string list option" where
  "split_verification_command cmd =
     (if list_ex (contains cmd) shell_metachars then None else shlex Between [] False cmd)"

section \<open>The gate\<close>

datatype verification_status = VPassed | VFailed | VSkipped | VError | VMaxRetriesExceeded

datatype correction_outcome = Fixed | PartiallyFixed | NotFixed | Escalated | BudgetExhausted

text \<open>A process that cannot be started raises; a started one exits or is killed at its
  timeout.\<close>

datatype process_outcome = SpawnRaises exn | ProcessExits int | ProcessTimesOut

type_synonym 'w spawn = "string list \<Rightarrow> 'w \<Rightarrow> process_outcome \<times> 'w"

definition run_single :: "'w spawn \<Rightarrow> string \<Rightarrow> 'w \<Rightarrow> (exn + int) \<times> 'w" where
  "run_single spawn cmd w =
     (case split_verification_command cmd of
        None \<Rightarrow> (Inr (- 1), w)
      | Some argv \<Rightarrow>
          if argv = [] then (Inr (- 1), w)
          else case spawn argv w of
                 (SpawnRaises e, w1) \<Rightarrow> (Inl e, w1)
               | (ProcessExits code, w1) \<Rightarrow> (Inr code, w1)
               | (ProcessTimesOut, w1) \<Rightarrow> (Inr (- 1), w1))"

text \<open>The loop over the commands, with the failing ones so far.\<close>

fun run_checks_from ::
  "'w spawn \<Rightarrow> bool \<Rightarrow> string list \<Rightarrow> string list \<Rightarrow> 'w \<Rightarrow> (exn + verification_status \<times> string list) \<times> 'w" where
  "run_checks_from spawn stop failing [] w =
     (Inr (if failing \<noteq> [] then (VFailed, failing) else (VPassed, [])), w)"
| "run_checks_from spawn stop failing (cmd # cmds) w =
     (case run_single spawn cmd w of
        (Inl e, w1) \<Rightarrow>
          (if isinstance_of e [''OSError''] then Inr (VError, [cmd]) else Inl e, w1)
      | (Inr code, w1) \<Rightarrow>
          if code \<noteq> 0
          then if stop then (Inr (VFailed, failing @ [cmd]), w1)
               else run_checks_from spawn stop (failing @ [cmd]) cmds w1
          else run_checks_from spawn stop failing cmds w1)"

definition run_checks ::
  "'w spawn \<Rightarrow> bool \<Rightarrow> string list \<Rightarrow> 'w \<Rightarrow> (exn + verification_status \<times> string list) \<times> 'w" where
  "run_checks spawn stop cmds w = run_checks_from spawn stop [] cmds w"

section \<open>The correction loop\<close>

record correction_attempt =
  attempt_number :: nat
  verification_status :: verification_status
  failing_checks :: "string list"
  ca_tokens_used :: nat
  duration_seconds :: rat
  correction_outcome :: correction_outcome
  error_summary :: string

record verification_result =
  final_status :: verification_status
  attempts :: "correction_attempt list"
  total_tokens_used :: nat
  total_duration_seconds :: rat
  escalated :: bool
  escalation_reason :: string

definition plain_result :: "verification_status \<Rightarrow> rat \<Rightarrow> verification_result" where
  "plain_result st d =
     \<lparr>final_status = st, attempts = [], total_tokens_used = 0, total_duration_seconds = d,
      escalated = False, escalation_reason = []\<rparr>"

definition skipped_result :: verification_result where
  "skipped_result = plain_result VSkipped 0"

type_synonym 'w step_run = "'w \<Rightarrow> (exn + step_result) \<times> 'w"

record 'w verification_loop =
  policy :: verification_policy
  token_budget_of :: "('w \<Rightarrow> token_budget) option"
  spawn_of :: "'w spawn"
  monotonic_of :: "'w \<Rightarrow> rat"
  step_func :: "'w step_run"
  correction_func :: "(string list \<Rightarrow> 'w step_run) option"

definition can_afford_correction :: "'w verification_loop \<Rightarrow> 'w \<Rightarrow> bool" where
  "can_afford_correction l w =
     (case token_budget_of l of
        None \<Rightarrow> True
      | Some b \<Rightarrow> trunc (of_int (budget_remaining (b w)) * token_budget_pct (policy l)) > 0)"

definition abort_attempt :: "nat \<Rightarrow> string list \<Rightarrow> correction_outcome \<Rightarrow> string \<Rightarrow> correction_attempt" where
  "abort_attempt k failing oc summary =
     \<lparr>attempt_number = k, verification_status = VFailed, failing_checks = failing, ca_tokens_used = 0,
      duration_seconds = 0, correction_outcome = oc, error_summary = summary\<rparr>"

definition check_abort_correction ::
  "'w verification_loop \<Rightarrow> nat \<Rightarrow> string list \<Rightarrow> string list \<Rightarrow> 'w \<Rightarrow> correction_attempt option" where
  "check_abort_correction l k failing previous_failing w =
     (if failing = previous_failing \<and> k > 1
      then Some (abort_attempt k failing NotFixed ''Loop detected: same failures as previous attempt'')
      else if \<not> can_afford_correction l w then Some (abort_attempt k failing BudgetExhausted [])
      else None)"

definition estimate_tokens_used :: nat where
  "estimate_tokens_used = 0"

record loop_state =
  ls_result :: step_result
  ls_status :: verification_status
  ls_failing :: "string list"
  ls_previous :: "string list"
  ls_attempts :: "correction_attempt list"
  ls_tokens :: nat

text \<open>One correction: the correction function when there is one, else the step again.\<close>

definition correct :: "'w verification_loop \<Rightarrow> string list \<Rightarrow> 'w step_run" where
  "correct l failing = (case correction_func l of Some f \<Rightarrow> f failing | None \<Rightarrow> step_func l)"

definition checks :: "'w verification_loop \<Rightarrow> 'w \<Rightarrow> (exn + verification_status \<times> string list) \<times> 'w" where
  "checks l = run_checks (spawn_of l) (stop_on_first_failure (policy l)) (verification_commands (policy l))"

definition record_attempt :: "nat \<Rightarrow> rat \<Rightarrow> step_result \<Rightarrow> verification_status \<Rightarrow> string list \<Rightarrow> loop_state \<Rightarrow> loop_state" where
  "record_attempt k d r st failing s =
     s\<lparr>ls_result := r, ls_status := st, ls_failing := failing, ls_previous := ls_failing s,
       ls_tokens := ls_tokens s + estimate_tokens_used,
       ls_attempts := ls_attempts s @
         [\<lparr>attempt_number = k, verification_status = st, failing_checks = failing,
           ca_tokens_used = estimate_tokens_used, duration_seconds = d,
           correction_outcome = (if st = VPassed then Fixed else NotFixed), error_summary = []\<rparr>]\<rparr>"

fun correction_loop :: "'w verification_loop \<Rightarrow> nat list \<Rightarrow> loop_state \<Rightarrow> 'w \<Rightarrow> (exn + loop_state) \<times> 'w" where
  "correction_loop l [] s w = (Inr s, w)"
| "correction_loop l (k # ks) s w =
     (case check_abort_correction l k (ls_failing s) (ls_previous s) w of
        Some a \<Rightarrow> (Inr (s\<lparr>ls_attempts := ls_attempts s @ [a]\<rparr>), w)
      | None \<Rightarrow>
          (case correct l (ls_failing s) w of
             (Inl e, w1) \<Rightarrow> (Inl e, w1)
           | (Inr r, w1) \<Rightarrow>
               (case checks l w1 of
                  (Inl e, w2) \<Rightarrow> (Inl e, w2)
                | (Inr (st, failing), w2) \<Rightarrow>
                    let s1 = record_attempt k (monotonic_of l w2 - monotonic_of l w) r st failing s
                    in if st = VPassed then (Inr s1, w2) else correction_loop l ks s1 w2)))"

definition run_correction_loop ::
  "'w verification_loop \<Rightarrow> step_result \<Rightarrow> verification_status \<Rightarrow> string list \<Rightarrow> 'w \<Rightarrow> (exn + loop_state) \<times> 'w" where
  "run_correction_loop l r st failing w =
     correction_loop l [1..<vp_max_retries (policy l) + 1]
       \<lparr>ls_result = r, ls_status = st, ls_failing = failing, ls_previous = [], ls_attempts = [], ls_tokens = 0\<rparr> w"

definition resolve_escalation :: "verification_policy \<Rightarrow> verification_status \<Rightarrow> string list \<Rightarrow> bool \<times> string" where
  "resolve_escalation p st failing =
     (if st = VPassed then (False, [])
      else if escalation_strategy p = ''report'' then (False, [])
      else if escalation_strategy p = ''block'' then (True, ''Verification failed - step blocked by policy'')
      else if escalation_strategy p = ''ask''
      then (True, ''Verification failed - human review required. Failing checks: '' @ join '', '' failing)
      else (False, []))"

definition budget_below_floor :: "'w verification_loop \<Rightarrow> 'w \<Rightarrow> bool" where
  "budget_below_floor l w =
     (case token_budget_of l of
        None \<Rightarrow> False
      | Some b \<Rightarrow> budget_remaining (b w) < min_token_floor (policy l))"

definition execute_with_verification ::
  "'w verification_loop \<Rightarrow> 'w \<Rightarrow> (exn + step_result \<times> verification_result) \<times> 'w" where
  "execute_with_verification l w =
     (if \<not> vp_enabled (policy l) \<or> budget_below_floor l w
      then case step_func l w of
             (Inl e, w1) \<Rightarrow> (Inl e, w1)
           | (Inr r, w1) \<Rightarrow> (Inr (r, skipped_result), w1)
      else case step_func l w of
             (Inl e, w1) \<Rightarrow> (Inl e, w1)
           | (Inr r, w1) \<Rightarrow>
               if is_failed r then (Inr (r, skipped_result), w1)
               else case checks l w1 of
                      (Inl e, w2) \<Rightarrow> (Inl e, w2)
                    | (Inr (st, failing), w2) \<Rightarrow>
                        if st = VPassed
                        then (Inr (r, plain_result VPassed (monotonic_of l w2 - monotonic_of l w)), w2)
                        else case run_correction_loop l r st failing w2 of
                               (Inl e, w3) \<Rightarrow> (Inl e, w3)
                             | (Inr s, w3) \<Rightarrow>
                                 let fin = (if ls_status s = VPassed then VPassed else VMaxRetriesExceeded);
                                     esc = resolve_escalation (policy l) fin (ls_failing s)
                                 in (Inr (ls_result s,
                                      \<lparr>final_status = fin, attempts = ls_attempts s,
                                       total_tokens_used = ls_tokens s,
                                       total_duration_seconds = monotonic_of l w3 - monotonic_of l w,
                                       escalated = fst esc, escalation_reason = snd esc\<rparr>), w3))"

section \<open>What the gate accepts\<close>

text \<open>Specification of the gate: every command, in order, runs and exits with 0.\<close>

fun all_pass :: "'w spawn \<Rightarrow> string list \<Rightarrow> 'w \<Rightarrow> 'w option" where
  "all_pass spawn [] w = Some w"
| "all_pass spawn (cmd # cmds) w =
     (case run_single spawn cmd w of
        (Inl e, w1) \<Rightarrow> None
      | (Inr code, w1) \<Rightarrow> if code = 0 then all_pass spawn cmds w1 else None)"

lemma run_checks_from_failing:
  "failing \<noteq> [] \<Longrightarrow> fst (run_checks_from spawn stop failing cmds w) \<noteq> Inr (VPassed, fs)"
proof (induction cmds arbitrary: failing w)
  case (Cons cmd cmds)
  then show ?case by (auto split: prod.split sum.split)
qed simp

lemma run_checks_from_passed:
  "run_checks_from spawn stop [] cmds w = (Inr (VPassed, fs), w') \<longleftrightarrow> fs = [] \<and> all_pass spawn cmds w = Some w'"
proof (induction cmds arbitrary: w)
  case (Cons cmd cmds)
  obtain r w1 where r: "run_single spawn cmd w = (r, w1)" by fastforce
  show ?case
  proof (cases r)
    case (Inr code)
    have "run_checks_from spawn stop [cmd] cmds w1 \<noteq> (Inr (VPassed, fs), w')"
      using run_checks_from_failing [of "[cmd]" spawn stop cmds w1 fs] by auto
    with Cons r Inr show ?thesis by auto
  qed (auto simp: r)
qed auto

text \<open>
  A command is started only when no shell metacharacter occurs in it, as the argument list
  its words give.
\<close>

definition safe_argv :: "string list \<Rightarrow> string list \<Rightarrow> bool" where
  "safe_argv cmds argv \<longleftrightarrow>
     argv \<noteq> [] \<and> (\<exists>cmd\<in>set cmds. (\<forall>m\<in>set shell_metachars. \<not> contains cmd m) \<and> shlex Between [] False cmd = Some argv)"

lemma run_single_cong:
  assumes "\<And>argv w. safe_argv cmds argv \<Longrightarrow> spawn argv w = spawn' argv w" "cmd \<in> set cmds"
  shows "run_single spawn cmd w = run_single spawn' cmd w"
proof (cases "split_verification_command cmd")
  case (Some argv)
  then have "argv \<noteq> [] \<Longrightarrow> safe_argv cmds argv"
    using assms(2) by (auto simp: split_verification_command_def safe_argv_def list_ex_iff split: if_splits)
  with Some assms(1) show ?thesis by (simp add: run_single_def)
qed (simp add: run_single_def)

lemma run_checks_from_cong:
  assumes "\<And>argv w. safe_argv cmds argv \<Longrightarrow> spawn argv w = spawn' argv w"
  shows "set cs \<subseteq> set cmds \<Longrightarrow>
    run_checks_from spawn stop failing cs w = run_checks_from spawn' stop failing cs w"
proof (induction cs arbitrary: failing w)
  case (Cons c cs)
  then have "run_single spawn c w = run_single spawn' c w"
    by (intro run_single_cong [OF assms]) auto
  with Cons show ?case by (auto split: prod.split sum.split)
qed simp



section \<open>What the loop returns\<close>

definition produced :: "'w verification_loop \<Rightarrow> step_result \<Rightarrow> 'w \<Rightarrow> bool" where
  "produced l r w1 \<longleftrightarrow> (\<exists>w0. step_func l w0 = (Inr r, w1) \<or> (\<exists>f. correct l f w0 = (Inr r, w1)))"

definition verified :: "'w verification_loop \<Rightarrow> step_result \<Rightarrow> 'w \<Rightarrow> bool" where
  "verified l r w \<longleftrightarrow> (\<exists>w1. produced l r w1 \<and> checks l w1 = (Inr (VPassed, []), w))"

lemma checks_passed_empty: "checks l w = (Inr (VPassed, fs), w') \<Longrightarrow> fs = []"
  by (simp add: checks_def run_checks_def run_checks_from_passed)

lemma record_attempt_fields [simp]:
  "ls_result (record_attempt k d r st f s) = r" "ls_status (record_attempt k d r st f s) = st"
  "ls_failing (record_attempt k d r st f s) = f"
  "map attempt_number (ls_attempts (record_attempt k d r st f s)) = map attempt_number (ls_attempts s) @ [k]"
  by (simp_all add: record_attempt_def)

lemma check_abort_number: "check_abort_correction l k f p w = Some a \<Longrightarrow> attempt_number a = k"
  by (auto simp: check_abort_correction_def abort_attempt_def split: if_splits)

lemma correction_loop_verified:
  assumes "correction_loop l ks s w = (Inr s', w')" "ls_status s \<noteq> VPassed" "ls_status s' = VPassed"
  shows "verified l (ls_result s') w'"
  using assms
proof (induction ks arbitrary: s w)
  case (Cons k ks)
  show ?case
  proof (cases "check_abort_correction l k (ls_failing s) (ls_previous s) w")
    case None
    obtain r w1 where c: "correct l (ls_failing s) w = (Inr r, w1)"
      using Cons.prems(1) None by (auto split: prod.splits sum.splits)
    obtain st f w2 where k: "checks l w1 = (Inr (st, f), w2)"
      using Cons.prems(1) None c by (auto split: prod.splits sum.splits)
    show ?thesis
    proof (cases "st = VPassed")
      case True
      with Cons.prems(1) None c k have "ls_result s' = r" "w' = w2" by (auto simp: Let_def)
      with True c k checks_passed_empty [of l w1 f w2] show ?thesis
        by (auto simp: verified_def produced_def)
    next
      case False
      let ?s = "record_attempt k (monotonic_of l w2 - monotonic_of l w) r st f s"
      from False Cons.prems(1) None c k have "correction_loop l ks ?s w2 = (Inr s', w')" by (simp add: Let_def)
      with Cons.IH False Cons.prems(3) show ?thesis by (metis record_attempt_fields(2))
    qed
  qed (use Cons.prems in auto)
qed simp

lemma correction_loop_numbers:
  "correction_loop l ks s w = (Inr s', w') \<Longrightarrow>
     \<exists>n\<le>length ks. map attempt_number (ls_attempts s') = map attempt_number (ls_attempts s) @ take n ks"
proof (induction ks arbitrary: s w)
  case (Cons k ks)
  show ?case
  proof (cases "check_abort_correction l k (ls_failing s) (ls_previous s) w")
    case None
    obtain r w1 where c: "correct l (ls_failing s) w = (Inr r, w1)"
      using Cons.prems None by (auto split: prod.splits sum.splits)
    obtain st f w2 where k: "checks l w1 = (Inr (st, f), w2)"
      using Cons.prems None c by (auto split: prod.splits sum.splits)
    let ?s = "record_attempt k (monotonic_of l w2 - monotonic_of l w) r st f s"
    show ?thesis
    proof (cases "st = VPassed")
      case True
      with Cons.prems None c k show ?thesis by (intro exI [of _ 1]) (auto simp: Let_def)
    next
      case False
      with Cons.prems None c k have "correction_loop l ks ?s w2 = (Inr s', w')" by (simp add: Let_def)
      from Cons.IH [OF this] obtain n where "n \<le> length ks"
          "map attempt_number (ls_attempts s') = map attempt_number (ls_attempts ?s) @ take n ks" by blast
      then show ?thesis by (intro exI [of _ "Suc n"]) simp
    qed
  next
    case (Some a)
    with Cons.prems check_abort_number [OF Some] show ?thesis by (intro exI [of _ 1]) auto
  qed
qed simp

text \<open>
  C15. A verdict of the loop is genuine. When it reports PASSED, the step result it returns
  is that of the last run of the step or of its correction, and every configured command
  passed in the state that run left; a run reported as MAX_RETRIES_EXCEEDED has attempts
  numbered from 1, at most \<open>max_retries\<close> of them, and is escalated exactly under the policies
  \<open>block\<close> and \<open>ask\<close>.
\<close>

theorem verification_verdict_genuine:
  assumes "execute_with_verification l w = (Inr (r, v), w')"
  shows "(final_status v = VPassed \<longrightarrow> verified l r w' \<and> \<not> escalated v) \<and>
    (final_status v = VMaxRetriesExceeded \<longrightarrow>
      (escalated v \<longleftrightarrow> escalation_strategy (policy l) \<in> {''block'', ''ask''})) \<and>
    (\<exists>n\<le>vp_max_retries (policy l). map attempt_number (attempts v) = [1..<Suc n]) \<and>
    final_status v \<in> {VPassed, VSkipped, VMaxRetriesExceeded}"
proof -
  have skipped: ?thesis if "v = skipped_result"
    using that by (auto simp: skipped_result_def plain_result_def intro!: exI [of _ 0])
  show ?thesis
  proof (cases "\<not> vp_enabled (policy l) \<or> budget_below_floor l w")
    case True
    with assms have "v = skipped_result"
      by (auto simp: execute_with_verification_def split: prod.splits sum.splits)
    then show ?thesis by (rule skipped)
  next
    case on: False
    obtain r1 w1 where s: "step_func l w = (Inr r1, w1)"
      using assms on by (auto simp: execute_with_verification_def split: prod.splits sum.splits)
    show ?thesis
    proof (cases "is_failed r1")
      case True
      with assms on s show ?thesis by (intro skipped) (auto simp: execute_with_verification_def)
    next
      case ran: False
      obtain st f w2 where c: "checks l w1 = (Inr (st, f), w2)"
        using assms on s ran by (auto simp: execute_with_verification_def split: prod.splits sum.splits)
      show ?thesis
      proof (cases "st = VPassed")
        case True
        with assms on s ran c have "v = plain_result VPassed (monotonic_of l w2 - monotonic_of l w)"
            "r = r1" "w' = w2" by (auto simp: execute_with_verification_def)
        moreover have "verified l r1 w2"
          using s c True checks_passed_empty [of l w1 f w2] by (auto simp: verified_def produced_def)
        ultimately show ?thesis by (auto simp: plain_result_def intro!: exI [of _ 0])
      next
        case False
        obtain s' w3 where k: "run_correction_loop l r1 st f w2 = (Inr s', w3)"
          using assms on s ran c False by (auto simp: execute_with_verification_def split: prod.splits sum.splits)
        from correction_loop_numbers [OF k [unfolded run_correction_loop_def]]
        obtain n where n: "n \<le> vp_max_retries (policy l)"
            "map attempt_number (ls_attempts s') = take n [1..<Suc (vp_max_retries (policy l))]"
          by (auto simp del: upt_Suc)
        then have "map attempt_number (ls_attempts s') = [1..<Suc n]" by (simp add: take_upt del: upt_Suc)
        moreover have "ls_status s' = VPassed \<Longrightarrow> verified l (ls_result s') w3"
          using correction_loop_verified [OF k [unfolded run_correction_loop_def]] False by simp
        moreover have "r = ls_result s'" "w' = w3" "attempts v = ls_attempts s'"
            "final_status v = (if ls_status s' = VPassed then VPassed else VMaxRetriesExceeded)"
            "escalated v = fst (resolve_escalation (policy l) (final_status v) (ls_failing s'))"
          using assms on s ran c False k by (auto simp: execute_with_verification_def Let_def)
        ultimately show ?thesis
          using n(1) by (cases "ls_status s' = VPassed") (auto simp: resolve_escalation_def)
      qed
    qed
  qed
qed

text \<open>A step whose check fails after its first run and passes after the second.\<close>

definition sample_loop :: "nat verification_loop" where
  "sample_loop =
     \<lparr>policy = \<lparr>vp_enabled = True, vp_max_retries = 3, token_budget_pct = 1/4, verification_commands = [''ruff''],
        stop_on_first_failure = False, escalation_strategy = ''block'', min_token_floor = 1000\<rparr>,
      token_budget_of = None, spawn_of = (\<lambda>argv w. (ProcessExits (if w < 2 then 1 else 0), w)),
      monotonic_of = of_nat, step_func = (\<lambda>w. (Inr (new_step_result ''s'' SUCCESS 0), w + 1)),
      correction_func = None\<rparr>"

lemma sample_loop_runs:
  "\<exists>v. execute_with_verification sample_loop 0 = (Inr (new_step_result ''s'' SUCCESS 0, v), 2) \<and> final_status v = VPassed"
proof -
  have lex: "split_verification_command ''ruff'' = Some [''ruff'']" by code_simp
  have ch: "checks sample_loop w = (Inr (if w < 2 then (VFailed, [''ruff'']) else (VPassed, [])), w)" for w
    by (simp add: checks_def run_checks_def run_single_def lex sample_loop_def)
  have "\<not> is_failed (new_step_result ''s'' SUCCESS 0)" by (simp add: is_failed_def new_step_result_def)
  with ch show ?thesis
    by (simp add: execute_with_verification_def budget_below_floor_def run_correction_loop_def correct_def
        check_abort_correction_def can_afford_correction_def sample_loop_def [THEN arg_cong, of policy]
        sample_loop_def [THEN arg_cong, of token_budget_of] sample_loop_def [THEN arg_cong, of step_func]
        sample_loop_def [THEN arg_cong, of correction_func] Let_def upt_conv_Cons)
qed

theorem verification_verdict_genuine_witness:
  "verified sample_loop (new_step_result ''s'' SUCCESS 0) 2"
proof -
  obtain v where v: "execute_with_verification sample_loop 0 = (Inr (new_step_result ''s'' SUCCESS 0, v), 2)"
      "final_status v = VPassed" using sample_loop_runs by blast
  from verification_verdict_genuine [OF v(1)] v(2) show ?thesis by blast
qed

text \<open>The loop with a counter of the runs of the step and of its correction.\<close>

definition count_runs :: "'w verification_loop \<Rightarrow> ('w \<times> nat) verification_loop" where
  "count_runs l =
     \<lparr>policy = policy l, token_budget_of = map_option (\<lambda>b wn. b (fst wn)) (token_budget_of l),
      spawn_of = (\<lambda>argv (w, n). case spawn_of l argv w of (p, w1) \<Rightarrow> (p, (w1, n))),
      monotonic_of = (\<lambda>wn. monotonic_of l (fst wn)),
      step_func = (\<lambda>(w, n). case step_func l w of (r, w1) \<Rightarrow> (r, (w1, Suc n))),
      correction_func = map_option (\<lambda>c f (w, n). case c f w of (r, w1) \<Rightarrow> (r, (w1, Suc n))) (correction_func l)\<rparr>"

lemma count_runs_sel [simp]:
  "policy (count_runs l) = policy l"
  "monotonic_of (count_runs l) (w, n) = monotonic_of l w"
  "step_func (count_runs l) (w, n) = (case step_func l w of (r, w1) \<Rightarrow> (r, (w1, Suc n)))"
  "correct (count_runs l) f (w, n) = (case correct l f w of (r, w1) \<Rightarrow> (r, (w1, Suc n)))"
  "budget_below_floor (count_runs l) (w, n) = budget_below_floor l w"
  "check_abort_correction (count_runs l) k f p (w, n) = check_abort_correction l k f p w"
  by (auto simp: count_runs_def correct_def budget_below_floor_def check_abort_correction_def
      can_afford_correction_def split: option.split)

lemma count_runs_single:
  "run_single (spawn_of (count_runs l)) cmd (w, n) =
     (case run_single (spawn_of l) cmd w of (r, w1) \<Rightarrow> (r, (w1, n)))"
  by (auto simp: run_single_def count_runs_def split: option.split prod.split process_outcome.split)

lemma count_runs_checks_from:
  "run_checks_from (spawn_of (count_runs l)) stop failing cmds (w, n) =
     (case run_checks_from (spawn_of l) stop failing cmds w of (r, w1) \<Rightarrow> (r, (w1, n)))"
  by (induction cmds arbitrary: failing w) (auto simp: count_runs_single split: prod.split sum.split)

lemma count_runs_checks [simp]:
  "checks (count_runs l) (w, n) = (case checks l w of (r, w1) \<Rightarrow> (r, (w1, n)))"
  by (simp add: checks_def run_checks_def count_runs_checks_from)

lemma count_runs_loop:
  "\<exists>m\<le>length ks. correction_loop (count_runs l) ks s (w, n) =
     (case correction_loop l ks s w of (r, w1) \<Rightarrow> (r, (w1, n + m)))"
proof (induction ks arbitrary: s w n)
  case (Cons k ks)
  show ?case
  proof (cases "check_abort_correction l k (ls_failing s) (ls_previous s) w")
    case None
    obtain r w1 where c: "correct l (ls_failing s) w = (r, w1)" by fastforce
    obtain q w2 where q: "checks l w1 = (q, w2)" by fastforce
    show ?thesis
    proof (cases "\<exists>r' st f. r = Inr r' \<and> q = Inr (st, f) \<and> st \<noteq> VPassed")
      case True
      then obtain r' st f where t: "r = Inr r'" "q = Inr (st, f)" "st \<noteq> VPassed" by blast
      let ?s = "record_attempt k (monotonic_of l w2 - monotonic_of l w) r' st f s"
      from Cons.IH [of ?s w2 "Suc n"] obtain m where "m \<le> length ks"
          "correction_loop (count_runs l) ks ?s (w2, Suc n) =
            (case correction_loop l ks ?s w2 of (x, w3) \<Rightarrow> (x, (w3, Suc n + m)))" by blast
      with None c q t show ?thesis by (intro exI [of _ "Suc m"]) (simp add: Let_def split: prod.split)
    next
      case False
      with None c q show ?thesis
        by (intro exI [of _ 1]) (auto simp: Let_def split: sum.split prod.split)
    qed
  qed (auto intro: exI [of _ 0])
qed simp

text \<open>
  Self-correction is bounded: the step and its correction run at most
  \<open>1 + max_retries\<close> times, whatever the checks report, and once when verification is off or
  the token budget is below the floor.
\<close>

theorem corrections_bounded:
  "\<exists>n\<le>1 + vp_max_retries (policy l).
     execute_with_verification (count_runs l) (w, 0) =
       (case execute_with_verification l w of (r, w1) \<Rightarrow> (r, (w1, n))) \<and>
     (\<not> vp_enabled (policy l) \<or> budget_below_floor l w \<longrightarrow> n = 1)"
proof (cases "\<not> vp_enabled (policy l) \<or> budget_below_floor l w")
  case True
  then show ?thesis
    by (intro exI [of _ 1]) (auto simp: execute_with_verification_def split: prod.split sum.split)
next
  case on: False
  obtain r w1 where s: "step_func l w = (r, w1)" by fastforce
  obtain q w2 where q: "checks l w1 = (q, w2)" by fastforce
  have loop: "\<exists>m\<le>vp_max_retries (policy l). run_correction_loop (count_runs l) r' st f (w2, Suc 0) =
      (case run_correction_loop l r' st f w2 of (x, w3) \<Rightarrow> (x, (w3, Suc m)))" for r' st f
    using count_runs_loop [of "[1..<vp_max_retries (policy l) + 1]" l _ w2 "Suc 0"]
    by (auto simp: run_correction_loop_def)
  show ?thesis
  proof (cases "\<exists>r' st f. r = Inr r' \<and> \<not> is_failed r' \<and> q = Inr (st, f) \<and> st \<noteq> VPassed")
    case True
    then obtain r' st f where t: "r = Inr r'" "\<not> is_failed r'" "q = Inr (st, f)" "st \<noteq> VPassed" by blast
    from loop obtain m where "m \<le> vp_max_retries (policy l)"
        "run_correction_loop (count_runs l) r' st f (w2, Suc 0) =
          (case run_correction_loop l r' st f w2 of (x, w3) \<Rightarrow> (x, (w3, Suc m)))" by blast
    with on s q t show ?thesis
      by (intro exI [of _ "Suc m"])
         (auto simp: execute_with_verification_def Let_def split: prod.split sum.split)
  next
    case False
    with on s q show ?thesis
      by (intro exI [of _ 1]) (auto simp: execute_with_verification_def split: prod.split sum.split)
  qed
qed

theorem corrections_bounded_witness:
  "snd (snd (execute_with_verification (count_runs sample_loop) (0, 0))) \<le> 4"
proof -
  have "vp_max_retries (policy sample_loop) = 3" by (simp add: sample_loop_def)
  moreover obtain n where "n \<le> 1 + vp_max_retries (policy sample_loop)"
      "execute_with_verification (count_runs sample_loop) (0, 0) =
        (case execute_with_verification sample_loop 0 of (r, w1) \<Rightarrow> (r, (w1, n)))"
    using corrections_bounded [of sample_loop 0] by blast
  ultimately show ?thesis by (simp add: case_prod_beta)
qed

end
