(* ===== verification/Step_Executor.thy ===== *)
theory Step_Executor
  imports Expressions Artifact_Contracts Verification_Loop
begin

text \<open>
  \<open>StepExecutor\<close> of \<open>engine/step.py\<close>: the whole life of a step from the eligibility test to
  the recorded result, with hooks, input and output contracts, error retries, the
  \<open>loop_until\<close> refinement rounds and the verification gate.

  A method is a function of the executor's state: the context, the child context's own frame,
  the \<open>StepResult\<close> under construction, the world outside and the trace of calls made to code
  outside. It returns a value or raises, and keeps the state reached either way, as Python
  does. Time, random numbers, sleeping, processes, the texts of foreign objects and the
  behaviour of event handlers are fields of an environment record. The result object
  validates assignments (\<open>validate_assignment=True\<close>): a value of the wrong type raises.
\<close>

section \<open>State and effects\<close>

datatype ext_call = CallHandler nat event | CallFunc | CallSleep rat

record 'w exec_state =
  xs_ctx :: exec_context
  xs_child :: frame
  xs_result :: step_result
  xs_world :: 'w
  xs_trace :: "ext_call list"

text \<open>An exception in flight: the contract violations carry their diagnostics.\<close>

datatype raised = ContractError "contract_diagnostic list" | Raised exn

type_synonym ('w, 'a) xm = "'w exec_state \<Rightarrow> (raised + 'a) \<times> 'w exec_state"

definition xreturn :: "'a \<Rightarrow> ('w, 'a) xm" where
  "xreturn a st = (Inr a, st)"

definition xraise :: "raised \<Rightarrow> ('w, 'a) xm" where
  "xraise e st = (Inl e, st)"

definition xbind :: "('w, 'a) xm \<Rightarrow> ('a \<Rightarrow> ('w, 'b) xm) \<Rightarrow> ('w, 'b) xm" where
  "xbind m f st = (case m st of (Inl e, st') \<Rightarrow> (Inl e, st') | (Inr a, st') \<Rightarrow> f a st')"

definition xthen :: "('w, 'a) xm \<Rightarrow> ('w, 'b) xm \<Rightarrow> ('w, 'b) xm" where
  "xthen m n = xbind m (\<lambda>_. n)"

text \<open>\<open>try: m except: h\<close>, where \<open>h\<close> may raise again.\<close>

definition xcatch :: "('w, 'a) xm \<Rightarrow> (raised \<Rightarrow> ('w, 'a) xm) \<Rightarrow> ('w, 'a) xm" where
  "xcatch m h st = (case m st of (Inl e, st') \<Rightarrow> h e st' | (Inr a, st') \<Rightarrow> (Inr a, st'))"

definition xget :: "('w exec_state \<Rightarrow> ('w, 'a) xm) \<Rightarrow> ('w, 'a) xm" where
  "xget f st = f st st"

definition on_result :: "(step_result \<Rightarrow> step_result) \<Rightarrow> ('w, unit) xm" where
  "on_result f st = (Inr (), st\<lparr>xs_result := f (xs_result st)\<rparr>)"

definition on_ctx :: "(exec_context \<Rightarrow> exec_context) \<Rightarrow> ('w, unit) xm" where
  "on_ctx f st = (Inr (), st\<lparr>xs_ctx := f (xs_ctx st)\<rparr>)"

definition xlift :: "('e \<Rightarrow> raised) \<Rightarrow> 'e + 'a \<Rightarrow> ('w, 'a) xm" where
  "xlift up r = (case r of Inl e \<Rightarrow> xraise (up e) | Inr a \<Rightarrow> xreturn a)"

fun xeach :: "('a \<Rightarrow> ('w, unit) xm) \<Rightarrow> 'a list \<Rightarrow> ('w, unit) xm" where
  "xeach f [] = xreturn ()"
| "xeach f (x # xs) = xthen (f x) (xeach f xs)"

section \<open>Environment and exceptions\<close>

record 'w step_env =
  se_search :: jmespath
  se_runtime :: py_runtime
  se_fates :: "nat \<Rightarrow> handler_fate"
  se_now :: "'w \<Rightarrow> instant"
  se_uniform :: "rat \<Rightarrow> rat \<Rightarrow> rat"
  se_sleep :: "rat \<Rightarrow> 'w \<Rightarrow> bool \<times> 'w"
  se_spawn :: "'w spawn"
  se_messages :: message_parts
  se_str :: "pyval \<Rightarrow> string"
  se_int :: "pyval \<Rightarrow> int option"
  se_timeout_text :: "rat option \<Rightarrow> string"
  se_expr_text :: "xerror \<Rightarrow> string"
  se_validation_text :: string
  se_diagnostics :: "exn \<Rightarrow> contract_diagnostic list"

definition exception :: "string list \<Rightarrow> string \<Rightarrow> exn" where
  "exception classes msg = \<lparr>exn_mro = classes @ [''Exception'', ''BaseException'', ''object''], exn_msg = msg\<rparr>"

definition cancelled_error :: exn where
  "cancelled_error = \<lparr>exn_mro = [''CancelledError'', ''BaseException'', ''object''], exn_msg = []\<rparr>"

definition timeout_error :: exn where
  "timeout_error = exception [''TimeoutError'', ''OSError''] []"

definition contract_exn :: "contract_diagnostic list \<Rightarrow> exn" where
  "contract_exn ds = exception [''ArtifactContractError'', ''ValueError''] (contract_error_text ds)"

definition validation_error :: "'w step_env \<Rightarrow> raised" where
  "validation_error env = Raised (exception [''ValidationError'', ''ValueError''] (se_validation_text env))"

definition exn_of :: "raised \<Rightarrow> exn" where
  "exn_of r = (case r of ContractError ds \<Rightarrow> contract_exn ds | Raised e \<Rightarrow> e)"

definition raised_isinstance :: "raised \<Rightarrow> string \<Rightarrow> bool" where
  "raised_isinstance r c = isinstance_of (exn_of r) [c]"

text \<open>The diagnostics of an exception that is an \<open>ArtifactContractError\<close>.\<close>

definition diagnostics_of :: "'w step_env \<Rightarrow> raised \<Rightarrow> contract_diagnostic list option" where
  "diagnostics_of env r =
     (case r of
        ContractError ds \<Rightarrow> Some ds
      | Raised e \<Rightarrow> if isinstance_of e [''ArtifactContractError''] then Some (se_diagnostics env e) else None)"

definition artifact_raised :: "artifact_error \<Rightarrow> raised" where
  "artifact_raised e =
     (case e of
        ArtifactContractError ds \<Rightarrow> ContractError ds
      | UnsupportedContractKind k \<Rightarrow>
          Raised (exception [''AssertionError''] (''Unsupported artifact contract kind: '' @ k)))"

definition expr_raised :: "'w step_env \<Rightarrow> xerror \<Rightarrow> raised" where
  "expr_raised env e =
     Raised (exception
       (case e of
          XValueError \<Rightarrow> [''ValueError''] | XTypeError \<Rightarrow> [''TypeError''] | XNameError n \<Rightarrow> [''NameError'']
        | XZeroDivisionError \<Rightarrow> [''ZeroDivisionError'', ''ArithmeticError'']
        | XAttributeError \<Rightarrow> [''AttributeError''] | XSyntaxError \<Rightarrow> [''SyntaxError''])
       (se_expr_text env e))"

definition ctx_raised :: "ctx_error \<Rightarrow> raised" where
  "ctx_raised e =
     Raised (exception [''ValueError'']
       (case e of
          EmptyKey \<Rightarrow> ''Context variable names cannot be empty''
        | PathKey \<Rightarrow> ''Context variable writes do not accept JMESPath/path expressions; write the top-level object instead''
        | ProtectedKey k \<Rightarrow> ''Context variable '' @ [CHR 39] @ k @ [CHR 39] @ '' is protected; use an internal write helper''
        | _ \<Rightarrow> []))"

text \<open>An emission is recorded in the trace; a cancelled one raises.\<close>

definition emitted :: "emission \<Rightarrow> ('w, unit) xm" where
  "emitted em st =
     (if snd em then Inl (Raised cancelled_error) else Inr (),
      st\<lparr>xs_trace := xs_trace st @ map (\<lambda>(h, e). CallHandler h e) (fst em)\<rparr>)"

definition marking :: "(exec_context \<Rightarrow> exec_context \<times> emission) \<Rightarrow> ('w, unit) xm" where
  "marking f = xget (\<lambda>st. case f (xs_ctx st) of (ctx', em) \<Rightarrow> xthen (on_ctx (\<lambda>_. ctx')) (emitted em))"

definition ctx_set :: "'w step_env \<Rightarrow> string \<Rightarrow> pyval \<Rightarrow> ('w, unit) xm" where
  "ctx_set env k v = xget (\<lambda>st.
     xbind (xlift ctx_raised (set_async (se_fates env) k v (xs_ctx st))) (\<lambda>(ctx', em).
       xthen (on_ctx (\<lambda>_. ctx')) (emitted em)))"

definition step_failed :: "'w step_env \<Rightarrow> 'w step_definition \<Rightarrow> string \<Rightarrow> ('w, unit) xm" where
  "step_failed env sd err = marking (mark_step_failed (se_fates env) (sd_name sd) err)"

definition set_meta :: "string \<Rightarrow> pyval \<Rightarrow> step_result \<Rightarrow> step_result" where
  "set_meta k v r = r\<lparr>metadata := AList.update k v (metadata r)\<rparr>"

definition mark_result :: "'w step_env \<Rightarrow> bool \<Rightarrow> string option \<Rightarrow> ('w, unit) xm" where
  "mark_result env success err = xget (\<lambda>st.
     on_result (step_mark_complete success err (se_now env (xs_world st))))"

section \<open>Hooks\<close>

definition run_hook :: "'w hook \<Rightarrow> ('w, unit) xm" where
  "run_hook h st =
     (case h (xs_ctx st) (xs_world st) of (r, ctx', w') \<Rightarrow>
        (case r of None \<Rightarrow> Inr () | Some e \<Rightarrow> Inl (Raised e), st\<lparr>xs_ctx := ctx', xs_world := w'\<rparr>))"

definition run_error_hooks :: "'w step_definition \<Rightarrow> ('w, unit) xm" where
  "run_error_hooks sd =
     xeach (\<lambda>h. xcatch (run_hook h) (\<lambda>e. if raised_isinstance e ''Exception'' then xreturn () else xraise e))
       (error_hooks sd)"

definition run_pre_hooks :: "'w step_env \<Rightarrow> 'w step_definition \<Rightarrow> ('w, bool) xm" where
  "run_pre_hooks env sd =
     xcatch (xthen (xeach run_hook (pre_hooks sd)) (xreturn True)) (\<lambda>e.
       if raised_isinstance e ''Exception''
       then let err = ''Pre-hook failed: '' @ exn_msg (exn_of e)
            in xthen (on_result (\<lambda>r. r\<lparr>status := FAILED, error := Some err\<rparr>))
                 (xthen (step_failed env sd err) (xreturn False))
       else xraise e)"

section \<open>Inputs\<close>

definition evaluator_on :: "exec_context \<Rightarrow> evaluator" where
  "evaluator_on ctx = \<lparr>ev_ctx = ctx, step_results = [], isoformat = (\<lambda>_. [])\<rparr>"

definition endswith_brace :: "string \<Rightarrow> bool" where
  "endswith_brace s \<longleftrightarrow> s \<noteq> [] \<and> last s = CHR ''}''"

definition resolve_input_mapping_value :: "'w step_env \<Rightarrow> exec_context \<Rightarrow> pyval \<Rightarrow> xerror + pyval" where
  "resolve_input_mapping_value env ctx v =
     (case v of
        PStr s \<Rightarrow>
          let expr = strip s
          in if startswith expr ''${'' \<and> endswith_brace expr
             then rbind (resolve_variable (se_runtime env) (evaluator_on ctx) (strip (butlast (drop 2 expr))))
                    (\<lambda>x. Inr (to_py (repr_of (se_runtime env)) x))
             else Inr (get_sync (se_search env) s PNone ctx)
      | _ \<Rightarrow> Inr v)"

definition map_inputs :: "'w step_env \<Rightarrow> 'w step_definition \<Rightarrow> exec_context \<Rightarrow> xerror + pydict" where
  "map_inputs env sd ctx =
     rfold (\<lambda>(step_input, ctx_var) d.
         rbind (resolve_input_mapping_value env ctx ctx_var) (\<lambda>v. Inr (AList.update step_input v d)))
       (input_mapping sd) []"

text \<open>\<open>await child_ctx.set(k, v)\<close>: the child's frame in front of the context it inherits from.\<close>

definition child_set :: "'w step_env \<Rightarrow> string \<times> pyval \<Rightarrow> ('w, unit) xm" where
  "child_set env kv = xget (\<lambda>st.
     xbind (xlift ctx_raised (set_async (se_fates env) (fst kv) (snd kv) (xs_child st # xs_ctx st))) (\<lambda>(full, em).
       xthen (\<lambda>st'. (Inr (), st'\<lparr>xs_child := hd full\<rparr>)) (emitted em)))"

definition child_mask :: "string \<Rightarrow> ('w, unit) xm" where
  "child_mask k st = (Inr (), st\<lparr>xs_child := hd (mask_inherited k (xs_child st # xs_ctx st))\<rparr>)"

definition prepare_inputs :: "'w step_env \<Rightarrow> 'w step_definition \<Rightarrow> ('w, unit) xm" where
  "prepare_inputs env sd = xget (\<lambda>st.
     xbind (xlift (expr_raised env) (map_inputs env sd (xs_ctx st))) (\<lambda>mapped.
     xthen (on_result (\<lambda>r. r\<lparr>input_data := mapped\<rparr>)) (
     xbind (xlift artifact_raised (validate_and_normalize_artifacts (se_messages env) mapped (input_contracts sd))) (\<lambda>valid.
     xthen (on_result (\<lambda>r. if valid \<noteq> mapped then r\<lparr>input_data := valid\<rparr> else r)) (
     xthen (\<lambda>st'. (Inr (), st'\<lparr>xs_child := hd (child (Some (sd_name sd)) (xs_ctx st'))\<rparr>)) (
     xthen (xeach (child_set env) valid) (
       xeach child_mask (filter (\<lambda>k. map_of valid k = None) (map fst mapped)))))))))"

definition contract_diagnostics_meta :: "contract_diagnostic list \<Rightarrow> pyval" where
  "contract_diagnostics_meta ds = PList (map (\<lambda>d. PDict (diagnostic_dict d)) ds)"

definition fail_input_contract ::
  "'w step_env \<Rightarrow> 'w step_definition \<Rightarrow> raised \<Rightarrow> contract_diagnostic list \<Rightarrow> ('w, unit) xm" where
  "fail_input_contract env sd e ds =
     xthen (on_result (\<lambda>r. set_meta ''contract_diagnostics'' (contract_diagnostics_meta ds)
              (r\<lparr>error_type := Some (exn_type_name (exn_of e)), output_data := []\<rparr>)))
       (xthen (run_error_hooks sd)
         (xthen (mark_result env False (Some (exn_msg (exn_of e))))
           (step_failed env sd (exn_msg (exn_of e)))))"

section \<open>Outputs\<close>

definition extract_meta :: "'w step_env \<Rightarrow> ('w, unit) xm" where
  "extract_meta env = xget (\<lambda>st.
     let meta = map_of (output_data (xs_result st)) ''_meta''
     in xthen (on_result (\<lambda>r. r\<lparr>output_data := AList.delete ''_meta'' (output_data r)\<rparr>))
          (case meta of
             Some (PDict m) \<Rightarrow>
               xthen (case get_or_none ''model_used'' m of
                        PStr s \<Rightarrow> on_result (\<lambda>r. r\<lparr>model_used := Some s\<rparr>)
                      | PNone \<Rightarrow> on_result (\<lambda>r. r\<lparr>model_used := None\<rparr>)
                      | _ \<Rightarrow> xraise (validation_error env))
                 (if truthy (of_py (get_or_none ''tokens_used'' m))
                  then on_result (set_meta ''tokens_used'' (get_or_none ''tokens_used'' m))
                  else xreturn ())
           | _ \<Rightarrow> xreturn ()))"

definition rquote :: rx where
  "rquote = ropt (rchar (CHR 34))"

definition rassign :: rx where
  "rassign = rseq [RStar rspace, RChar (\<lambda>c. c = CHR '':'' \<or> c = CHR ''=''), RStar rspace]"

definition status_pattern :: rx where
  "status_pattern =
     rseq [rquote, rword ''overall_status'', rquote, rassign, rquote,
       RGroup 1 (rplus (RChar (\<lambda>c. (65 \<le> ord_of c \<and> ord_of c \<le> 90) \<or> (97 \<le> ord_of c \<and> ord_of c \<le> 122)
                                 \<or> c = CHR ''_'' \<or> c = CHR '' '' \<or> c = CHR ''-''))), rquote]"

definition approved_pattern :: rx where
  "approved_pattern =
     rseq [rquote, rword ''approved'', rquote, rassign, RGroup 1 (ralts [rword ''true'', rword ''false''])]"

definition group1 :: "rx_found \<Rightarrow> string" where
  "group1 f = (case map_of (f_groups f) 1 of Some t \<Rightarrow> t | None \<Rightarrow> [])"

definition raw_review_status :: "string \<Rightarrow> string option" where
  "raw_review_status raw_text =
     (case rx_search status_pattern raw_text of
        Some f \<Rightarrow> Some (strip (group1 f))
      | None \<Rightarrow>
          (case rx_search approved_pattern raw_text of
             Some f \<Rightarrow> if lower (group1 f) = ''true'' then Some ''APPROVED'' else None
           | None \<Rightarrow> None))"

definition py_str :: "'w step_env \<Rightarrow> pyval \<Rightarrow> string" where
  "py_str env v = (case v of PStr s \<Rightarrow> s | _ \<Rightarrow> se_str env v)"

definition salvage_review_report :: "'w step_env \<Rightarrow> 'w step_definition \<Rightarrow> step_result \<Rightarrow> step_result" where
  "salvage_review_report env sd r =
     (if (map_of (output_mapping sd) ''review_report'' = None \<and> \<not> startswith (sd_name sd) ''review'')
          \<or> map_of (output_data r) ''review_report'' \<noteq> None then r
      else let raw_text = (case map_of (output_data r) ''raw_response'' of Some v \<Rightarrow> py_str env v | None \<Rightarrow> []);
               st = review_normalize (raw_review_status raw_text)
           in r\<lparr>output_data := AList.update ''review_report''
                  (PDict [(''overall_status'', PStr (review_status_value st))]) (output_data r)\<rparr>)"

text \<open>\<open>ReviewStatus.normalize\<close> calls \<open>raw.strip()\<close>: a value that is neither a string nor
  \<open>None\<close> raises.\<close>

definition normalize_review_report :: "'w step_env \<Rightarrow> ('w, unit) xm" where
  "normalize_review_report env = xget (\<lambda>st.
     case map_of (output_data (xs_result st)) ''review_report'' of
       Some (PDict rr) \<Rightarrow>
         (let put = (\<lambda>s. on_result (\<lambda>r. r\<lparr>output_data := AList.update ''review_report''
                (PDict (AList.update ''overall_status'' (PStr (review_status_value s)) rr)) (output_data r)\<rparr>))
          in case map_of rr ''overall_status'' of
               None \<Rightarrow> xreturn ()
             | Some (PStr raw) \<Rightarrow> put (review_normalize (Some raw))
             | Some PNone \<Rightarrow> put (review_normalize None)
             | Some v \<Rightarrow> xraise (expr_raised env XAttributeError))
     | _ \<Rightarrow> xreturn ())"

definition map_outputs :: "'w step_env \<Rightarrow> 'w step_definition \<Rightarrow> ('w, unit) xm" where
  "map_outputs env sd = xget (\<lambda>st.
     xeach (\<lambda>(step_output, ctx_var).
         case map_of (output_data (xs_result st)) step_output of
           Some v \<Rightarrow> ctx_set env ctx_var v
         | None \<Rightarrow> xreturn ())
       (output_mapping sd))"

definition store_step_view :: "'w step_env \<Rightarrow> 'w step_definition \<Rightarrow> ('w, unit) xm" where
  "store_step_view env sd = xget (\<lambda>st.
     on_ctx (merge_step_view (se_search env) (sd_name sd)
       (PDict [(''status'', PStr (step_status_value (status (xs_result st)))),
               (''outputs'', PDict (output_data (xs_result st)))])))"

section \<open>Verification gate\<close>

fun verification_status_value :: "verification_status \<Rightarrow> string" where
  "verification_status_value VPassed = ''passed''"
| "verification_status_value VFailed = ''failed''"
| "verification_status_value VSkipped = ''skipped''"
| "verification_status_value VError = ''error''"
| "verification_status_value VMaxRetriesExceeded = ''max_retries_exceeded''"

definition gate_checks :: "'w step_env \<Rightarrow> verification_policy \<Rightarrow> ('w, verification_status \<times> string list) xm" where
  "gate_checks env p st =
     (case run_checks (se_spawn env) (stop_on_first_failure p) (verification_commands p) (xs_world st) of
        (r, w') \<Rightarrow> (case r of Inl e \<Rightarrow> Inl (Raised e) | Inr x \<Rightarrow> Inr x, st\<lparr>xs_world := w'\<rparr>))"

definition run_verification_gate :: "'w step_env \<Rightarrow> 'w step_definition \<Rightarrow> ('w, bool) xm" where
  "run_verification_gate env sd =
     (case verify sd of
        None \<Rightarrow> xreturn True
      | Some p \<Rightarrow>
          if \<not> vp_enabled p then xreturn True
          else xbind (gate_checks env p) (\<lambda>(v_status, failing).
            xthen (on_result (\<lambda>r.
                let r1 = set_meta ''verification_status'' (PStr (verification_status_value v_status)) r
                in if failing \<noteq> [] then set_meta ''verification_failing_checks'' (PList (map PStr failing)) r1 else r1))
              (if v_status \<noteq> VPassed \<and> escalation_strategy p = ''block''
               then let err = ''Verification failed: '' @ join '', '' failing
                    in xthen (on_result (\<lambda>r. r\<lparr>status := FAILED, error := Some err\<rparr>))
                         (xthen (step_failed env sd err) (xreturn False))
               else xreturn True)))"

section \<open>Refinement rounds\<close>

text \<open>\<open>int(v)\<close>, \<^const>\<open>None\<close> when it raises \<open>TypeError\<close> or \<open>ValueError\<close>.\<close>

definition int_value :: "'w step_env \<Rightarrow> xval \<Rightarrow> int option" where
  "int_value env v =
     (case v of
        XBool b \<Rightarrow> Some (if b then 1 else 0)
      | XInt k \<Rightarrow> Some k
      | XFloat x \<Rightarrow> Some (trunc x)
      | XStr s \<Rightarrow> parse_int s
      | XBytes s \<Rightarrow> parse_int s
      | XOpaque p \<Rightarrow> se_int env p
      | _ \<Rightarrow> None)"

definition resolve_loop_max :: "'w step_env \<Rightarrow> 'w step_definition \<Rightarrow> exec_context \<Rightarrow> xerror + int" where
  "resolve_loop_max env sd ctx =
     (let fallback = max 1 (if loop_max sd \<noteq> 0 then loop_max sd else 3)
      in case map_of (sd_metadata sd) ''loop_max_expr'' of
           Some (PStr e) \<Rightarrow>
             if e = [] then Inr fallback
             else rbind (case full_variable (strip e) of
                           Some g \<Rightarrow> resolve_variable (se_runtime env) (evaluator_on ctx) (strip g)
                         | None \<Rightarrow> Inr (XStr e))
                    (\<lambda>v. Inr (case int_value env v of Some k \<Rightarrow> max 1 k | None \<Rightarrow> fallback))
         | _ \<Rightarrow> Inr fallback)"

definition loop_iteration :: "step_result \<Rightarrow> int" where
  "loop_iteration r = (case map_of (metadata r) ''loop_iteration'' of Some (PInt k) \<Rightarrow> k | _ \<Rightarrow> 1)"

definition looping :: "'w step_definition \<Rightarrow> bool" where
  "looping sd \<longleftrightarrow> (case loop_until sd of None \<Rightarrow> False | Some e \<Rightarrow> e \<noteq> [])"

definition should_loop_again :: "'w step_env \<Rightarrow> 'w step_definition \<Rightarrow> ('w, bool) xm" where
  "should_loop_again env sd =
     (if \<not> looping sd then xreturn False
      else xget (\<lambda>st.
        let k = loop_iteration (xs_result st);
            stop = xthen (on_result (\<lambda>r. if map_of (metadata r) ''loop_iteration'' = None
                                         then set_meta ''loop_iteration'' (PInt k) r else r)) (xreturn False)
        in xbind (xlift (expr_raised env) (resolve_loop_max env sd (xs_ctx st))) (\<lambda>m.
             if k < m
             then xbind (xlift (expr_raised env)
                      (evaluate (se_runtime env) (evaluator_on (xs_ctx st)) (PStr (the (loop_until sd))))) (\<lambda>satisfied.
                    if \<not> satisfied
                    then xthen (on_result (\<lambda>r. (set_meta ''loop_iteration'' (PInt (k + 1)) r)
                                  \<lparr>status := RUNNING, retry_count := 0\<rparr>)) (xreturn True)
                    else stop)
             else stop)))"

section \<open>Attempts\<close>

datatype attempt_outcome = ORetry | OBreak | OReturn

text \<open>\<open>_handle_success\<close> in its three parts: the result is completed and checked, published to the
  context, and then accepted, repeated or rejected.\<close>

definition record_output :: "'w step_env \<Rightarrow> 'w step_definition \<Rightarrow> pydict option \<Rightarrow> ('w, unit) xm" where
  "record_output env sd output =
     xthen (on_result (\<lambda>r. r\<lparr>output_data := (case output of Some d \<Rightarrow> d | None \<Rightarrow> [])\<rparr>)) (
     xthen (extract_meta env) (
     xthen (on_result (salvage_review_report env sd)) (
     xthen (normalize_review_report env) (
     xget (\<lambda>st. xbind
       (xlift artifact_raised (validate_and_normalize_artifacts (se_messages env) (output_data (xs_result st)) (output_contracts sd)))
       (\<lambda>d. on_result (\<lambda>r. r\<lparr>output_data := d, error := None, error_type := None,
              metadata := AList.delete ''contract_diagnostics'' (metadata r), status := SUCCESS\<rparr>)))))))"

definition publish_output :: "'w step_env \<Rightarrow> 'w step_definition \<Rightarrow> ('w, unit) xm" where
  "publish_output env sd =
     xthen (map_outputs env sd) (xthen (store_step_view env sd) (xeach run_hook (post_hooks sd)))"

definition conclude_attempt :: "'w step_env \<Rightarrow> 'w step_definition \<Rightarrow> ('w, attempt_outcome) xm" where
  "conclude_attempt env sd =
     xbind (run_verification_gate env sd) (\<lambda>passed.
       if \<not> passed then xreturn OReturn
       else xbind (should_loop_again env sd) (\<lambda>again.
         if again then xreturn ORetry
         else xthen (marking (mark_step_complete (se_fates env) (sd_name sd))) (xreturn OBreak)))"

definition handle_success :: "'w step_env \<Rightarrow> 'w step_definition \<Rightarrow> pydict option \<Rightarrow> ('w, attempt_outcome) xm" where
  "handle_success env sd output =
     xthen (record_output env sd output) (xthen (publish_output env sd) (conclude_attempt env sd))"

definition handle_cancelled :: "'w step_env \<Rightarrow> 'w step_definition \<Rightarrow> ('w, attempt_outcome) xm" where
  "handle_cancelled env sd =
     xthen (on_result (\<lambda>r. r\<lparr>status := FAILED, error := Some ''Step was cancelled'', error_type := Some ''CancelledError''\<rparr>))
       (xthen (step_failed env sd ''Step was cancelled'') (xreturn OBreak))"

definition handle_step_timeout :: "'w step_env \<Rightarrow> 'w step_definition \<Rightarrow> ('w, attempt_outcome) xm" where
  "handle_step_timeout env sd =
     (let err = ''Step timed out after '' @ se_timeout_text env (timeout_seconds sd) @ ''s''
      in xthen (on_result (\<lambda>r. r\<lparr>status := FAILED, error := Some err, error_type := Some ''TimeoutError''\<rparr>))
           (xthen (step_failed env sd err) (xreturn OBreak)))"

definition sleep :: "'w step_env \<Rightarrow> rat \<Rightarrow> ('w, unit) xm" where
  "sleep env d st =
     (case se_sleep env d (xs_world st) of (cancelled, w') \<Rightarrow>
        (if cancelled then Inl (Raised cancelled_error) else Inr (),
         st\<lparr>xs_world := w', xs_trace := xs_trace st @ [CallSleep d]\<rparr>))"

definition note_error :: "'w step_env \<Rightarrow> raised \<Rightarrow> step_result \<Rightarrow> step_result" where
  "note_error env e r =
     (let r1 = r\<lparr>error := Some (exn_msg (exn_of e)), error_type := Some (exn_type_name (exn_of e))\<rparr>
      in case diagnostics_of env e of
           Some ds \<Rightarrow> set_meta ''contract_diagnostics'' (contract_diagnostics_meta ds) (r1\<lparr>output_data := []\<rparr>)
         | None \<Rightarrow> r1)"

definition handle_exception :: "'w step_env \<Rightarrow> 'w step_definition \<Rightarrow> int \<Rightarrow> raised \<Rightarrow> ('w, attempt_outcome) xm" where
  "handle_exception env sd attempt e =
     (let msg = exn_msg (exn_of e)
      in xthen (on_result (note_error env e))
          (if attempt \<le> max_retries (retry sd) \<and> should_retry (retry sd) (exn_of e)
           then let delay = get_delay (se_uniform env) (retry sd) attempt
                in xthen (on_result (\<lambda>r. set_meta (''retry_'' @ show_nat (nat attempt) @ ''_delay'') (PFloat delay)
                              (r\<lparr>status := RETRYING\<rparr>)))
                     (xthen (sleep env delay) (xreturn ORetry))
           else xthen (run_error_hooks sd)
                  (xthen (on_result (\<lambda>r. r\<lparr>status := FAILED\<rparr>))
                    (xthen (step_failed env sd msg) (xreturn OBreak)))))"

text \<open>\<open>_execute_with_timeout\<close> in the scope of the timeout: the step function gets the child
  context.\<close>

definition call_func :: "'w step_function \<Rightarrow> ('w, pydict option) xm" where
  "call_func f st =
     (case f (xs_child st # xs_ctx st) (xs_world st) of (out, full, w') \<Rightarrow>
        (case out of
           FuncReturns d \<Rightarrow> Inr d
         | FuncRaises e \<Rightarrow> Inl (Raised e)
         | FuncCancelled \<Rightarrow> Inl (Raised cancelled_error)
         | FuncTimedOut \<Rightarrow> Inl (Raised timeout_error),
         st\<lparr>xs_child := hd full, xs_ctx := tl full, xs_world := w', xs_trace := xs_trace st @ [CallFunc]\<rparr>))"

definition run_attempt :: "'w step_env \<Rightarrow> 'w step_definition \<Rightarrow> int \<Rightarrow> ('w, attempt_outcome) xm" where
  "run_attempt env sd attempt =
     xcatch (xbind (call_func (the (func sd))) (handle_success env sd)) (\<lambda>e.
       if raised_isinstance e ''CancelledError'' then handle_cancelled env sd
       else if raised_isinstance e ''TimeoutError'' then handle_step_timeout env sd
       else if raised_isinstance e ''Exception'' then handle_exception env sd attempt e
       else xraise e)"

section \<open>Execution\<close>

text \<open>\<open>except ArtifactContractError\<close> around \<open>_prepare_inputs\<close>: whether the inputs are ready.\<close>

definition try_prepare :: "'w step_env \<Rightarrow> 'w step_definition \<Rightarrow> ('w, bool) xm" where
  "try_prepare env sd =
     xcatch (xthen (prepare_inputs env sd) (xreturn True)) (\<lambda>e.
       case diagnostics_of env e of
         Some ds \<Rightarrow> xthen (fail_input_contract env sd e ds) (xreturn False)
       | None \<Rightarrow> xraise e)"

definition finish :: "'w step_env \<Rightarrow> ('w, unit) xm" where
  "finish env = xget (\<lambda>st. mark_result env (status (xs_result st) = SUCCESS) (error (xs_result st)))"

text \<open>What the retry loop does after one attempt: stop, or go on with the attempts counted.\<close>

definition next_round :: "'w step_env \<Rightarrow> 'w step_definition \<Rightarrow> int \<Rightarrow> ('w, int option) xm" where
  "next_round env sd attempt =
     xthen (on_result (\<lambda>r. r\<lparr>retry_count := attempt\<rparr>))
       (xbind (run_attempt env sd (attempt + 1)) (\<lambda>outcome.
          case outcome of
            ORetry \<Rightarrow> xget (\<lambda>st.
              if looping sd \<and> status (xs_result st) = RUNNING
              then xbind (try_prepare env sd) (\<lambda>ok. xreturn (if ok then Some attempt else None))
              else xreturn (Some (attempt + 1)))
          | OReturn \<Rightarrow> xreturn None
          | OBreak \<Rightarrow> xthen (finish env) (xreturn None)))"

partial_function (option) attempt_loop ::
  "'w step_env \<Rightarrow> 'w step_definition \<Rightarrow> int \<Rightarrow> 'w exec_state \<Rightarrow> ((raised + unit) \<times> 'w exec_state) option" where
  "attempt_loop env sd attempt st =
     (if attempt \<le> max_retries (retry sd)
      then (case next_round env sd attempt st of
              (Inl e, st') \<Rightarrow> Some (Inl e, st')
            | (Inr None, st') \<Rightarrow> Some (Inr (), st')
            | (Inr (Some attempt'), st') \<Rightarrow> attempt_loop env sd attempt' st')
      else Some (finish env st))"

declare attempt_loop.simps [code]

text \<open>Everything before the retry loop; \<^const>\<open>True\<close> when the loop is to run.\<close>

definition start_step :: "'w step_env \<Rightarrow> 'w step_definition \<Rightarrow> ('w, bool) xm" where
  "start_step env sd = xget (\<lambda>st.
     xbind (xlift Raised (should_run sd (xs_ctx st))) (\<lambda>eligible.
       if \<not> eligible
       then xthen (on_result (\<lambda>r. set_meta ''skip_reason'' (PStr ''conditions not met'') (r\<lparr>status := SKIPPED\<rparr>)))
              (xreturn False)
       else if func sd = None
       then xthen (on_result (\<lambda>r. r\<lparr>status := FAILED, error := Some ''No function defined for step''\<rparr>)) (xreturn False)
       else xthen (on_result (\<lambda>r. r\<lparr>status := RUNNING\<rparr>))
              (xthen (marking (mark_step_start (se_fates env) (sd_name sd)))
                (xbind (run_pre_hooks env sd) (\<lambda>ok.
                   if \<not> ok then xreturn False else try_prepare env sd)))))"

text \<open>\<open>StepResult(...)\<close> rejects an empty name and a tier outside 0 to 5.\<close>

definition initial_result :: "'w step_env \<Rightarrow> 'w step_definition \<Rightarrow> 'w \<Rightarrow> raised + step_result" where
  "initial_result env sd w =
     (if sd_name sd = [] \<or> sd_tier sd < 0 \<or> sd_tier sd > 5 then Inl (validation_error env)
      else Inr ((new_step_result (sd_name sd) PENDING (se_now env w))\<lparr>tier := Some (sd_tier sd)\<rparr>))"

definition execute ::
  "'w step_env \<Rightarrow> 'w step_definition \<Rightarrow> exec_context \<Rightarrow> 'w \<Rightarrow> ((raised + step_result) \<times> exec_context \<times> 'w \<times> ext_call list) option" where
  "execute env sd ctx w =
     (case initial_result env sd w of
        Inl e \<Rightarrow> Some (Inl e, ctx, w, [])
      | Inr r0 \<Rightarrow>
          let ret = (\<lambda>out. case out of (r, st) \<Rightarrow>
                (case r of Inl e \<Rightarrow> Inl e | Inr u \<Rightarrow> Inr (xs_result st), xs_ctx st, xs_world st, xs_trace st))
          in case start_step env sd \<lparr>xs_ctx = ctx, xs_child = hd (child None ctx), xs_result = r0, xs_world = w, xs_trace = []\<rparr> of
               (Inl e, st) \<Rightarrow> Some (ret (Inl e, st))
             | (Inr False, st) \<Rightarrow> Some (ret (Inr (), st))
             | (Inr True, st) \<Rightarrow> map_option ret (attempt_loop env sd 0 st))"

section \<open>Running tasks\<close>

text \<open>\<open>_running_tasks\<close>, shared by concurrent runs: the task of each run and step, with whether
  it is done and whether its cancellation was requested.\<close>

record task =
  task_id :: nat
  task_done :: bool
  task_cancelling :: bool

type_synonym running_tasks = "((string \<times> name) \<times> task) list"

definition register_task :: "string \<Rightarrow> name \<Rightarrow> nat \<Rightarrow> running_tasks \<Rightarrow> running_tasks" where
  "register_task run n t rt = AList.update (run, n) \<lparr>task_id = t, task_done = False, task_cancelling = False\<rparr> rt"

text \<open>The \<open>finally\<close> clause: only the task that is still registered is removed.\<close>

definition unregister_task :: "string \<Rightarrow> name \<Rightarrow> nat \<Rightarrow> running_tasks \<Rightarrow> running_tasks" where
  "unregister_task run n t rt =
     (case map_of rt (run, n) of
        Some x \<Rightarrow> if task_id x = t then AList.delete (run, n) rt else rt
      | None \<Rightarrow> rt)"

definition cancels :: "(string \<Rightarrow> name \<Rightarrow> bool) \<Rightarrow> (string \<times> name) \<times> task \<Rightarrow> bool" where
  "cancels sel e \<longleftrightarrow> sel (fst (fst e)) (snd (fst e)) \<and> \<not> task_done (snd e)"

definition request_cancel :: "(string \<Rightarrow> name \<Rightarrow> bool) \<Rightarrow> running_tasks \<Rightarrow> running_tasks" where
  "request_cancel sel rt = map (\<lambda>e. if cancels sel e then (fst e, (snd e)\<lparr>task_cancelling := True\<rparr>) else e) rt"

definition cancel :: "name \<Rightarrow> string option \<Rightarrow> running_tasks \<Rightarrow> bool \<times> running_tasks" where
  "cancel n run rt =
     (let sel = (\<lambda>r m. m = n \<and> (case run of None \<Rightarrow> True | Some run_id \<Rightarrow> r = run_id))
      in (list_ex (cancels sel) rt, request_cancel sel rt))"

definition cancel_all :: "string option \<Rightarrow> running_tasks \<Rightarrow> nat \<times> running_tasks" where
  "cancel_all run rt =
     (let sel = (\<lambda>r m. case run of None \<Rightarrow> True | Some run_id \<Rightarrow> r = run_id)
      in (length (filter (cancels sel) rt), request_cancel sel rt))"

end
