(* ===== verification/Step_Executor_Props.thy ===== *)
theory Step_Executor_Props
  imports Step_Executor
begin

text \<open>
  Properties of the step executor: how often the step function runs, when the retry loop
  returns, and what the result and the context say when it does.
\<close>

named_theorems keeps_intros \<open>methods that stay within a relation of states\<close>

section \<open>Effects\<close>

lemma xbindE:
  assumes "xbind m f st = (r, st'')"
  obtains e where "m st = (Inl e, st'')" "r = Inl e"
  | a st' where "m st = (Inr a, st')" "f a st' = (r, st'')"
  using assms by (auto simp: xbind_def split: prod.splits sum.splits)

lemma xthenE:
  assumes "xthen m n st = (r, st'')"
  obtains e where "m st = (Inl e, st'')" "r = Inl e"
  | a st' where "m st = (Inr a, st')" "n st' = (r, st'')"
  using assms unfolding xthen_def by (elim xbindE) blast+

lemma xcatchE:
  assumes "xcatch m h st = (r, st'')"
  obtains e st' where "m st = (Inl e, st')" "h e st' = (r, st'')"
  | a where "m st = (Inr a, st'')" "r = Inr a"
  using assms by (auto simp: xcatch_def split: prod.splits sum.splits)

lemmas effect_simps = xreturn_def xraise_def xget_def on_result_def on_ctx_def

definition keeps :: "('w exec_state \<Rightarrow> 'w exec_state \<Rightarrow> bool) \<Rightarrow> ('w, 'a) xm \<Rightarrow> bool" where
  "keeps R m \<longleftrightarrow> (\<forall>st r st'. m st = (r, st') \<longrightarrow> R st st')"

lemma keepsD: "keeps R m \<Longrightarrow> m st = (r, st') \<Longrightarrow> R st st'"
  by (auto simp: keeps_def)

text \<open>Updates of the result that leave the number of the refinement round and the step's
  name alone.\<close>

definition quiet_update :: "(step_result \<Rightarrow> step_result) \<Rightarrow> bool" where
  "quiet_update f \<longleftrightarrow> (\<forall>r. loop_iteration (f r) = loop_iteration r \<and> step_name (f r) = step_name r)"

lemma loop_iteration_meta: "metadata r' = metadata r \<Longrightarrow> loop_iteration r' = loop_iteration r"
  by (simp add: loop_iteration_def)

lemma loop_iteration_set_meta [simp]:
  "k \<noteq> ''loop_iteration'' \<Longrightarrow> loop_iteration (set_meta k v r) = loop_iteration r"
  by (simp add: loop_iteration_def set_meta_def)

lemma loop_iteration_set [simp]: "loop_iteration (set_meta ''loop_iteration'' (PInt k) r) = k"
  by (simp add: loop_iteration_def set_meta_def)

lemma set_meta_sel [simp]:
  "step_name (set_meta k v r) = step_name r" "status (set_meta k v r) = status r" "error (set_meta k v r) = error r"
  "output_data (set_meta k v r) = output_data r"
  by (simp_all add: set_meta_def)

lemma loop_iteration_fields [simp]:
  "loop_iteration (r\<lparr>status := s\<rparr>) = loop_iteration r"
  "loop_iteration (r\<lparr>error := e\<rparr>) = loop_iteration r"
  "loop_iteration (r\<lparr>error_type := t\<rparr>) = loop_iteration r"
  "loop_iteration (r\<lparr>output_data := d\<rparr>) = loop_iteration r"
  "loop_iteration (r\<lparr>input_data := d\<rparr>) = loop_iteration r"
  "loop_iteration (r\<lparr>model_used := mu\<rparr>) = loop_iteration r"
  "loop_iteration (r\<lparr>retry_count := rc\<rparr>) = loop_iteration r"
  "loop_iteration (r\<lparr>end_time := et\<rparr>) = loop_iteration r"
  by (simp_all add: loop_iteration_def)

section \<open>Methods that stay within a relation\<close>

text \<open>A preorder on states that allows every effect but a call of the step function and a
  change of the result.\<close>

locale outside_relation =
  fixes R :: "'w exec_state \<Rightarrow> 'w exec_state \<Rightarrow> bool"
  assumes refl: "R st st"
    and trans: "R s1 s2 \<Longrightarrow> R s2 s3 \<Longrightarrow> R s1 s3"
    and ctx: "R st (st\<lparr>xs_ctx := c\<rparr>)"
    and child: "R st (st\<lparr>xs_child := ch\<rparr>)"
    and world: "R st (st\<lparr>xs_world := w\<rparr>)"
    and trace: "CallFunc \<notin> set cs \<Longrightarrow> R st (st\<lparr>xs_trace := xs_trace st @ cs\<rparr>)"
begin

lemma keeps_return [keeps_intros]: "keeps R (xreturn a)"
  by (auto simp: keeps_def effect_simps refl)

lemma keeps_raise [keeps_intros]: "keeps R (xraise e)"
  by (auto simp: keeps_def effect_simps refl)

lemma keeps_bind [keeps_intros]: "keeps R m \<Longrightarrow> (\<And>a. keeps R (f a)) \<Longrightarrow> keeps R (xbind m f)"
  unfolding keeps_def by (blast elim: xbindE intro: trans)

lemma keeps_then [keeps_intros]: "keeps R m \<Longrightarrow> keeps R n \<Longrightarrow> keeps R (xthen m n)"
  unfolding xthen_def by (rule keeps_bind)

lemma keeps_catch [keeps_intros]: "keeps R m \<Longrightarrow> (\<And>e. keeps R (h e)) \<Longrightarrow> keeps R (xcatch m h)"
  unfolding keeps_def by (blast elim: xcatchE intro: trans)

lemma keeps_get [keeps_intros]: "(\<And>st. keeps R (f st)) \<Longrightarrow> keeps R (xget f)"
  by (auto simp: keeps_def effect_simps)

lemma keeps_on_ctx [keeps_intros]: "keeps R (on_ctx f)"
  by (auto simp: keeps_def effect_simps ctx)

lemma keeps_on_child [keeps_intros]: "keeps R (\<lambda>st. (Inr (), st\<lparr>xs_child := f st\<rparr>))"
  by (auto simp: keeps_def child)

lemma keeps_lift [keeps_intros]: "keeps R (xlift up r)"
  by (auto simp: keeps_def effect_simps xlift_def refl split: sum.splits)

lemma keeps_if [keeps_intros]: "keeps R m \<Longrightarrow> keeps R n \<Longrightarrow> keeps R (if b then m else n)"
  by simp

lemma keeps_each [keeps_intros]: "(\<And>x. keeps R (f x)) \<Longrightarrow> keeps R (xeach f xs)"
  by (induction xs) (simp_all add: keeps_return keeps_then)

lemma keeps_emitted [keeps_intros]: "keeps R (emitted em)"
  unfolding keeps_def emitted_def by (auto intro!: trace)

lemma keeps_marking [keeps_intros]: "keeps R (marking f)"
  unfolding marking_def by (intro keeps_get) (auto split: prod.splits intro: keeps_intros)

lemma keeps_ctx_set [keeps_intros]: "keeps R (ctx_set env k v)"
  unfolding ctx_set_def by (auto split: prod.splits intro!: keeps_intros)

lemma keeps_step_failed [keeps_intros]: "keeps R (step_failed env sd err)"
  unfolding step_failed_def by (rule keeps_marking)

lemma keeps_run_hook [keeps_intros]: "keeps R (run_hook h)"
  unfolding keeps_def run_hook_def using trans [OF ctx world] by (auto split: prod.splits)

lemma keeps_error_hooks [keeps_intros]: "keeps R (run_error_hooks sd)"
  unfolding run_error_hooks_def by (intro keeps_intros)

lemma keeps_child_set [keeps_intros]: "keeps R (child_set env kv)"
  unfolding child_set_def by (auto split: prod.splits intro!: keeps_intros)

lemma keeps_child_mask [keeps_intros]: "keeps R (child_mask k)"
  unfolding keeps_def child_mask_def by (auto intro: child)

lemma keeps_map_outputs [keeps_intros]: "keeps R (map_outputs env sd)"
  unfolding map_outputs_def by (intro keeps_intros) (auto split: option.splits prod.splits intro!: keeps_intros)

lemma keeps_store_view [keeps_intros]: "keeps R (store_step_view env sd)"
  unfolding store_step_view_def by (intro keeps_intros)

lemma keeps_gate_checks [keeps_intros]: "keeps R (gate_checks env p)"
  unfolding keeps_def gate_checks_def using world by (auto split: prod.splits)

lemma keeps_publish [keeps_intros]: "keeps R (publish_output env sd)"
  unfolding publish_output_def by (intro keeps_intros keeps_map_outputs keeps_store_view keeps_run_hook)

lemma keeps_sleep [keeps_intros]: "keeps R (sleep env d)"
  unfolding keeps_def sleep_def using trans [OF world trace, of "[CallSleep d]"] by (auto split: prod.splits)

end

text \<open>One that allows changes of the result as well, but of the round and the name.\<close>

locale quiet_relation = outside_relation R for R :: "'w exec_state \<Rightarrow> 'w exec_state \<Rightarrow> bool" +
  assumes result: "quiet_update f \<Longrightarrow> R st (st\<lparr>xs_result := f (xs_result st)\<rparr>)"
begin

lemma keeps_on_result [keeps_intros]: "quiet_update f \<Longrightarrow> keeps R (on_result f)"
  by (auto simp: keeps_def effect_simps result)

lemma keeps_pre_hooks [keeps_intros]: "keeps R (run_pre_hooks env sd)"
  unfolding run_pre_hooks_def Let_def by (intro keeps_intros) (simp add: quiet_update_def)

lemma keeps_prepare_inputs [keeps_intros]: "keeps R (prepare_inputs env sd)"
  unfolding prepare_inputs_def by (intro keeps_intros) (simp_all add: quiet_update_def)

lemma keeps_mark_result [keeps_intros]: "keeps R (mark_result env s err)"
  unfolding mark_result_def
  by (intro keeps_intros) (auto simp: quiet_update_def step_mark_complete_def Let_def split: option.splits)

lemma keeps_fail_input [keeps_intros]: "keeps R (fail_input_contract env sd e ds)"
  unfolding fail_input_contract_def by (intro keeps_intros) (simp add: quiet_update_def)

lemma keeps_try_prepare [keeps_intros]: "keeps R (try_prepare env sd)"
  unfolding try_prepare_def by (intro keeps_intros) (auto split: option.splits intro!: keeps_intros)

lemma keeps_extract_meta [keeps_intros]: "keeps R (extract_meta env)"
  unfolding extract_meta_def Let_def
  by (intro keeps_intros) (auto split: option.splits pyval.splits simp: quiet_update_def intro!: keeps_intros)

lemma keeps_normalize [keeps_intros]: "keeps R (normalize_review_report env)"
  unfolding normalize_review_report_def Let_def
  by (intro keeps_intros) (auto split: option.splits pyval.splits simp: quiet_update_def intro!: keeps_intros)

lemma keeps_gate [keeps_intros]: "keeps R (run_verification_gate env sd)"
  unfolding run_verification_gate_def Let_def
  by (auto split: option.splits prod.splits simp: quiet_update_def intro!: keeps_intros)

lemma keeps_record_output [keeps_intros]: "keeps R (record_output env sd out)"
  unfolding record_output_def
  by (intro keeps_intros)
     (auto simp: quiet_update_def salvage_review_report_def Let_def loop_iteration_def)

lemma keeps_handle_cancelled [keeps_intros]: "keeps R (handle_cancelled env sd)"
  unfolding handle_cancelled_def by (intro keeps_intros) (simp add: quiet_update_def)

lemma keeps_handle_step_timeout [keeps_intros]: "keeps R (handle_step_timeout env sd)"
  unfolding handle_step_timeout_def Let_def by (intro keeps_intros) (simp add: quiet_update_def)

lemma keeps_handle_exception [keeps_intros]: "keeps R (handle_exception env sd k e)"
  unfolding handle_exception_def Let_def
  by (intro keeps_intros) (auto split: option.splits simp: quiet_update_def note_error_def Let_def)

lemma keeps_start [keeps_intros]: "keeps R (start_step env sd)"
  unfolding start_step_def by (intro keeps_intros) (simp_all add: quiet_update_def)

lemma keeps_finish [keeps_intros]: "keeps R (finish env)"
  unfolding finish_def by (intro keeps_intros)

end

definition calls :: "'w exec_state \<Rightarrow> nat" where
  "calls st = length (filter (\<lambda>c. c = CallFunc) (xs_trace st))"

definition same_calls :: "'w exec_state \<Rightarrow> 'w exec_state \<Rightarrow> bool" where
  "same_calls st st' \<longleftrightarrow> calls st' = calls st"

definition same_round :: "'w exec_state \<Rightarrow> 'w exec_state \<Rightarrow> bool" where
  "same_round st st' \<longleftrightarrow> loop_iteration (xs_result st') = loop_iteration (xs_result st) \<and>
     step_name (xs_result st') = step_name (xs_result st)"

definition same_result :: "'w exec_state \<Rightarrow> 'w exec_state \<Rightarrow> bool" where
  "same_result st st' \<longleftrightarrow> xs_result st' = xs_result st"

lemma filter_none: "x \<notin> set xs \<Longrightarrow> filter (\<lambda>y. y = x) xs = []"
  by (induction xs) auto

interpretation same_calls: quiet_relation same_calls
  by unfold_locales (auto simp: same_calls_def calls_def filter_none)

interpretation same_round: quiet_relation same_round
  by unfold_locales (auto simp: same_round_def quiet_update_def)

interpretation same_result: outside_relation same_result
  by unfold_locales (auto simp: same_result_def)

section \<open>Outcomes of an attempt\<close>

lemma marking_complete:
  assumes "marking (mark_step_complete fates n) st = (r, st')"
  shows "is_step_complete n (xs_ctx st') \<and> xs_result st' = xs_result st"
  using assms by (auto simp: marking_def effect_simps xthen_def xbind_def emitted_def mark_step_complete_def Let_def
      is_step_complete_def on_frame_def)

lemma step_failed_spec:
  assumes "step_failed env sd err st = (r, st')"
  shows "is_step_failed (sd_name sd) (xs_ctx st') \<and> xs_result st' = xs_result st"
  using assms by (auto simp: step_failed_def marking_def effect_simps xthen_def xbind_def emitted_def mark_step_failed_def
      Let_def is_step_failed_def on_frame_def)

lemma gate_outcome:
  assumes "run_verification_gate env sd st = (Inr passed, st')"
  shows "if passed then status (xs_result st') = status (xs_result st)
    else status (xs_result st') = FAILED \<and> is_step_failed (sd_name sd) (xs_ctx st')"
  using assms unfolding run_verification_gate_def Let_def
  by (auto elim!: xbindE xthenE simp: effect_simps split: option.splits if_splits prod.splits
      dest!: step_failed_spec keepsD [OF same_result.keeps_gate_checks] simp: same_result_def)

lemma loop_iteration_default [simp]:
  "loop_iteration (if map_of (metadata r) ''loop_iteration'' = None
     then set_meta ''loop_iteration'' (PInt (loop_iteration r)) r else r) = loop_iteration r"
  by simp

text \<open>Some context allows one more round after round \<open>k\<close>.\<close>

definition round_left :: "'w step_env \<Rightarrow> 'w step_definition \<Rightarrow> int \<Rightarrow> bool" where
  "round_left env sd k \<longleftrightarrow> (\<exists>ctx m. resolve_loop_max env sd ctx = Inr m \<and> k < m)"

lemma round_leftI: "resolve_loop_max env sd ctx = Inr m \<Longrightarrow> k < m \<Longrightarrow> round_left env sd k"
  by (auto simp: round_left_def)

lemma should_loop_outcome:
  assumes "should_loop_again env sd st = (r, st')"
  shows "case r of
      Inl e \<Rightarrow> st' = st
    | Inr True \<Rightarrow> looping sd \<and> status (xs_result st') = RUNNING \<and> step_name (xs_result st') = step_name (xs_result st) \<and>
        loop_iteration (xs_result st') = loop_iteration (xs_result st) + 1 \<and>
        round_left env sd (loop_iteration (xs_result st))
    | Inr False \<Rightarrow> status (xs_result st') = status (xs_result st) \<and> same_round st st'"
proof (cases "looping sd")
  case False
  with assms show ?thesis by (auto simp: should_loop_again_def effect_simps same_round_def)
next
  case True
  note d = assms [unfolded should_loop_again_def Let_def effect_simps xthen_def xbind_def xlift_def]
  show ?thesis
  proof (cases "resolve_loop_max env sd (xs_ctx st)")
    case (Inl e)
    with d True show ?thesis by auto
  next
    case (Inr m)
    show ?thesis
    proof (cases "evaluate (se_runtime env) (evaluator_on (xs_ctx st)) (PStr (the (loop_until sd)))")
      case (Inl e)
      with d True Inr show ?thesis by (cases "loop_iteration (xs_result st) < m") (auto simp: same_round_def)
    next
      case (Inr sat)
      with d True \<open>resolve_loop_max env sd (xs_ctx st) = Inr m\<close> show ?thesis
        by (cases "loop_iteration (xs_result st) < m"; cases sat) (auto simp: same_round_def intro: round_leftI)
    qed
  qed
qed

lemma record_output_success: "record_output env sd out st = (Inr u, st') \<Longrightarrow> status (xs_result st') = SUCCESS"
  unfolding record_output_def by (auto elim!: xbindE xthenE simp: effect_simps)

lemma should_loop_calls: "keeps same_calls (should_loop_again env sd)"
proof -
  have "calls st' = calls st" if "should_loop_again env sd st = (r, st')" for st st' r
    using that unfolding should_loop_again_def Let_def
    by (auto elim!: xbindE xthenE simp: effect_simps xlift_def calls_def split: if_splits sum.splits)
  then show ?thesis by (auto simp: keeps_def same_calls_def)
qed

text \<open>What an outcome says of the states before and after.\<close>

definition outcome_ok ::
  "'w step_env \<Rightarrow> 'w step_definition \<Rightarrow> int \<Rightarrow> 'w exec_state \<Rightarrow> attempt_outcome \<Rightarrow> 'w exec_state \<Rightarrow> bool" where
  "outcome_ok env sd attempt st oc st' \<longleftrightarrow>
     step_name (xs_result st') = step_name (xs_result st) \<and>
     (case oc of
         ORetry \<Rightarrow>
           looping sd \<and> status (xs_result st') = RUNNING \<and> loop_iteration (xs_result st') = loop_iteration (xs_result st) + 1 \<and>
             round_left env sd (loop_iteration (xs_result st)) \<or>
           status (xs_result st') = RETRYING \<and> loop_iteration (xs_result st') = loop_iteration (xs_result st) \<and> attempt \<le> max_retries (retry sd)
       | OBreak \<Rightarrow>
           status (xs_result st') = SUCCESS \<and> is_step_complete (sd_name sd) (xs_ctx st') \<or>
           status (xs_result st') = FAILED \<and> is_step_failed (sd_name sd) (xs_ctx st')
       | OReturn \<Rightarrow> status (xs_result st') = FAILED \<and> is_step_failed (sd_name sd) (xs_ctx st'))"

lemma outcome_ok_before: "same_round st st1 \<Longrightarrow> outcome_ok env sd k st1 oc st' \<Longrightarrow> outcome_ok env sd k st oc st'"
  by (cases oc) (simp_all add: outcome_ok_def same_round_def Let_def)

lemma conclude_outcome:
  assumes "conclude_attempt env sd st = (r, st')" "status (xs_result st) = SUCCESS"
  shows "same_calls st st' \<and> (case r of Inl e \<Rightarrow> same_round st st' | Inr oc \<Rightarrow> outcome_ok env sd k st oc st')"
proof -
  from assms(1) [unfolded conclude_attempt_def] show ?thesis
  proof (cases rule: xbindE)
    case (1 e)
    then show ?thesis
      using keepsD [OF same_calls.keeps_gate] keepsD [OF same_round.keeps_gate] by fastforce
  next
    case (2 passed st1)
    note g = gate_outcome [OF 2(1)] keepsD [OF same_calls.keeps_gate 2(1)] keepsD [OF same_round.keeps_gate 2(1)]
    show ?thesis
    proof (cases passed)
      case False
      with 2 g show ?thesis by (auto simp: effect_simps outcome_ok_def same_round_def)
    next
      case True
      with 2(2) have "xbind (should_loop_again env sd) (\<lambda>again. if again then xreturn ORetry
         else xthen (marking (mark_step_complete (se_fates env) (sd_name sd))) (xreturn OBreak)) st1 = (r, st')" by simp
      then show ?thesis
      proof (cases rule: xbindE)
        case (1 e)
        with g should_loop_outcome [OF 1(1)] show ?thesis by simp
      next
        case (2 again st2)
        note l = should_loop_outcome [OF 2(1)] keepsD [OF should_loop_calls 2(1)]
        show ?thesis
        proof (cases again)
          case True
          with 2 g l show ?thesis by (auto simp: effect_simps outcome_ok_def same_round_def same_calls_def)
        next
          case False
          with 2(2) have m: "xthen (marking (mark_step_complete (se_fates env) (sd_name sd))) (xreturn OBreak) st2 = (r, st')"
            by simp
          then have "is_step_complete (sd_name sd) (xs_ctx st')" "xs_result st' = xs_result st2" "same_calls st2 st'"
            "r = Inr OBreak \<or> (\<exists>e. r = Inl e)"
            by (auto elim!: xthenE simp: effect_simps dest: marking_complete keepsD [OF same_calls.keeps_marking])
          with False True g l assms(2) show ?thesis
            by (auto simp: outcome_ok_def same_round_def same_calls_def)
        qed
      qed
    qed
  qed
qed

lemma handle_success_outcome:
  assumes "handle_success env sd out st = (r, st')"
  shows "same_calls st st' \<and> (case r of Inl e \<Rightarrow> same_round st st' | Inr oc \<Rightarrow> outcome_ok env sd k st oc st')"
proof -
  from assms [unfolded handle_success_def] show ?thesis
  proof (cases rule: xthenE)
    case (1 e)
    then show ?thesis
      using keepsD [OF same_calls.keeps_record_output] keepsD [OF same_round.keeps_record_output] by fastforce
  next
    case (2 u st1)
    note a = record_output_success [OF 2(1)] keepsD [OF same_calls.keeps_record_output 2(1)]
      keepsD [OF same_round.keeps_record_output 2(1)]
    from 2(2) show ?thesis
    proof (cases rule: xthenE)
      case (1 e)
      then show ?thesis using a same_calls.trans same_round.trans
          keepsD [OF same_calls.keeps_publish 1(1)] keepsD [OF same_round.keeps_publish 1(1)] by auto
    next
      case (2 v st2)
      note b = keepsD [OF same_result.keeps_publish 2(1)] keepsD [OF same_calls.keeps_publish 2(1)]
        keepsD [OF same_round.keeps_publish 2(1)]
      then have "status (xs_result st2) = SUCCESS" using a by (simp add: same_result_def)
      note c = conclude_outcome [OF 2(2) this, of k]
      have "same_round st st2" using a b same_round.trans by blast
      with a b c show ?thesis
        by (auto simp: same_calls_def intro: outcome_ok_before same_round.trans split: sum.splits)
    qed
  qed
qed

lemma handle_exception_outcome:
  assumes "handle_exception env sd k e st = (Inr oc, st')"
  shows "outcome_ok env sd k st oc st'"
  using assms keepsD [OF same_round.keeps_handle_exception assms] unfolding handle_exception_def Let_def
  by (auto elim!: xthenE simp: effect_simps outcome_ok_def same_round_def same_result_def split: if_splits
      dest!: step_failed_spec keepsD [OF same_result.keeps_sleep])

lemma handle_cancelled_outcome:
  assumes "handle_cancelled env sd st = (Inr oc, st')"
  shows "outcome_ok env sd k st oc st'"
  using assms unfolding handle_cancelled_def
  by (auto elim!: xthenE simp: effect_simps outcome_ok_def dest!: step_failed_spec)

lemma handle_step_timeout_outcome:
  assumes "handle_step_timeout env sd st = (Inr oc, st')"
  shows "outcome_ok env sd k st oc st'"
  using assms unfolding handle_step_timeout_def Let_def
  by (auto elim!: xthenE simp: effect_simps outcome_ok_def dest!: step_failed_spec)

lemma call_func_effect:
  assumes "call_func f st = (r, st')"
  shows "calls st' = Suc (calls st) \<and> xs_result st' = xs_result st"
  using assms by (auto simp: call_func_def calls_def split: prod.splits)

lemma run_attempt_outcome:
  assumes "run_attempt env sd k st = (r, st')"
  shows "calls st' = Suc (calls st) \<and> (\<forall>oc. r = Inr oc \<longrightarrow> outcome_ok env sd k st oc st')"
proof -
  have body: "calls st1 = Suc (calls st) \<and> (case r1 of Inl e \<Rightarrow> same_round st st1 | Inr oc \<Rightarrow> outcome_ok env sd k st oc st1)"
    if "xbind (call_func (the (func sd))) (handle_success env sd) st = (r1, st1)" for r1 st1
    using that
  proof (cases rule: xbindE)
    case (1 e)
    with call_func_effect [OF 1(1)] show ?thesis by (simp add: same_round_def)
  next
    case (2 d st2)
    have "same_round st st2" "calls st2 = Suc (calls st)"
      using call_func_effect [OF 2(1)] by (simp_all add: same_round_def)
    with handle_success_outcome [OF 2(2), of k] show ?thesis
      by (auto simp: same_calls_def intro: outcome_ok_before same_round.trans split: sum.splits)
  qed
  from assms [unfolded run_attempt_def] show ?thesis
  proof (cases rule: xcatchE)
    case (1 e st1)
    have "calls st' = calls st1 \<and> (\<forall>oc. r = Inr oc \<longrightarrow> outcome_ok env sd k st1 oc st')"
      using 1(2) keepsD [OF same_calls.keeps_handle_cancelled] keepsD [OF same_calls.keeps_handle_step_timeout]
        keepsD [OF same_calls.keeps_handle_exception] handle_cancelled_outcome handle_step_timeout_outcome handle_exception_outcome
      by (fastforce simp: same_calls_def xraise_def split: if_splits)
    with body [OF 1(1)] show ?thesis by (auto intro: outcome_ok_before)
  next
    case (2 oc)
    with body [OF 2(1)] show ?thesis by simp
  qed
qed

section \<open>The retry loop\<close>

definition concluded :: "'w step_definition \<Rightarrow> 'w exec_state \<Rightarrow> bool" where
  "concluded sd st \<longleftrightarrow>
     status (xs_result st) = SUCCESS \<and> is_step_complete (sd_name sd) (xs_ctx st) \<or>
     status (xs_result st) = FAILED \<and> is_step_failed (sd_name sd) (xs_ctx st)"

lemma mark_result_effect:
  "mark_result env b err st = (r, st') \<Longrightarrow>
     r = Inr () \<and> xs_ctx st' = xs_ctx st \<and> status (xs_result st') = (if b then SUCCESS else FAILED)"
  by (auto simp: mark_result_def effect_simps step_mark_complete_def Let_def split: option.splits)

lemma try_prepare_effect:
  assumes "try_prepare env sd st = (Inr ok, st')"
  shows "if ok then True else status (xs_result st') = FAILED \<and> is_step_failed (sd_name sd) (xs_ctx st')"
  using assms unfolding try_prepare_def fail_input_contract_def
  by (auto elim!: xcatchE xthenE simp: effect_simps split: option.splits dest!: step_failed_spec mark_result_effect)

lemma next_round_effect:
  assumes "next_round env sd k st = (r, st')"
  shows "calls st' = Suc (calls st) \<and> (\<forall>x. r = Inr x \<longrightarrow> step_name (xs_result st') = step_name (xs_result st) \<and>
     (case x of
        None \<Rightarrow> concluded sd st'
      | Some k' \<Rightarrow>
          k' = k \<and> looping sd \<and> loop_iteration (xs_result st') = loop_iteration (xs_result st) + 1 \<and>
            round_left env sd (loop_iteration (xs_result st)) \<or>
          k' = k + 1 \<and> k + 1 \<le> max_retries (retry sd) \<and> loop_iteration (xs_result st') = loop_iteration (xs_result st)))"
proof -
  let ?st = "st\<lparr>xs_result := (xs_result st)\<lparr>retry_count := k\<rparr>\<rparr>"
  have start: "calls ?st = calls st" "same_round st ?st" by (simp_all add: calls_def same_round_def)
  from assms [unfolded next_round_def xthen_def]
  have "xbind (run_attempt env sd (k + 1)) (\<lambda>outcome.
          case outcome of
            ORetry \<Rightarrow> xget (\<lambda>st.
              if looping sd \<and> status (xs_result st) = RUNNING
              then xbind (try_prepare env sd) (\<lambda>ok. xreturn (if ok then Some k else None))
              else xreturn (Some (k + 1)))
          | OReturn \<Rightarrow> xreturn None
          | OBreak \<Rightarrow> xbind (finish env) (\<lambda>_. xreturn None)) ?st = (r, st')"
    by (simp add: xbind_def on_result_def)
  then show ?thesis
  proof (cases rule: xbindE)
    case (1 e)
    with run_attempt_outcome [OF 1(1)] start show ?thesis by simp
  next
    case (2 oc st1)
    have a: "calls st1 = Suc (calls st)" "outcome_ok env sd (k + 1) st oc st1"
      using run_attempt_outcome [OF 2(1)] start outcome_ok_before by auto
    show ?thesis
    proof (cases oc)
      case OReturn
      with 2 a show ?thesis by (auto simp: effect_simps outcome_ok_def concluded_def)
    next
      case OBreak
      with 2(2) obtain u where f: "finish env st1 = (u, st')" "r = (case u of Inl e \<Rightarrow> Inl e | Inr _ \<Rightarrow> Inr None)"
        by (auto elim!: xbindE simp: effect_simps)
      then have "mark_result env (status (xs_result st1) = SUCCESS) (error (xs_result st1)) st1 = (u, st')"
        by (simp add: finish_def effect_simps)
      with mark_result_effect [OF this] keepsD [OF same_round.keeps_finish f(1)] keepsD [OF same_calls.keeps_finish f(1)]
        a OBreak f(2) show ?thesis
        by (auto simp: outcome_ok_def concluded_def same_round_def same_calls_def)
    next
      case ORetry
      show ?thesis
      proof (cases "looping sd \<and> status (xs_result st1) = RUNNING")
        case True
        with 2(2) ORetry have p: "xbind (try_prepare env sd) (\<lambda>ok. xreturn (if ok then Some k else None)) st1 = (r, st')"
          by (simp add: effect_simps)
        have l: "loop_iteration (xs_result st1) = loop_iteration (xs_result st) + 1"
            "round_left env sd (loop_iteration (xs_result st))" "step_name (xs_result st1) = step_name (xs_result st)"
          using a ORetry True by (auto simp: outcome_ok_def)
        from p show ?thesis
        proof (cases rule: xbindE)
          case (1 e)
          with a keepsD [OF same_calls.keeps_try_prepare 1(1)] show ?thesis by (simp add: same_calls_def)
        next
          case (2 ok st2)
          with a l True try_prepare_effect [OF 2(1)] keepsD [OF same_calls.keeps_try_prepare 2(1)]
            keepsD [OF same_round.keeps_try_prepare 2(1)]
          show ?thesis by (cases ok) (auto simp: effect_simps same_calls_def same_round_def concluded_def)
        qed
      next
        case False
        with 2(2) ORetry a show ?thesis by (auto simp: effect_simps outcome_ok_def)
      qed
    qed
  qed
qed

text \<open>The attempts left: error retries, and refinement rounds while the step loops.\<close>

definition budget :: "'w step_definition \<Rightarrow> int \<Rightarrow> int \<Rightarrow> int \<Rightarrow> nat" where
  "budget sd L k i = nat (max_retries (retry sd) - k) + (if looping sd then nat (L - i) else 0)"

lemma attempt_loop_returns:
  assumes bound: "\<And>ctx m. resolve_loop_max env sd ctx = Inr m \<Longrightarrow> m \<le> L"
  shows "k \<le> max_retries (retry sd) \<Longrightarrow>
    \<exists>r st'. attempt_loop env sd k st = Some (r, st') \<and>
      calls st' \<le> calls st + Suc (budget sd L k (loop_iteration (xs_result st))) \<and> calls st < calls st' \<and>
      (r = Inr () \<longrightarrow> concluded sd st' \<and> step_name (xs_result st') = step_name (xs_result st))"
proof (induction "budget sd L k (loop_iteration (xs_result st))" arbitrary: k st rule: less_induct)
  case less
  obtain r1 st1 where n: "next_round env sd k st = (r1, st1)" by fastforce
  note e = next_round_effect [OF n]
  have unf: "attempt_loop env sd k st = (case next_round env sd k st of
              (Inl e, st') \<Rightarrow> Some (Inl e, st')
            | (Inr None, st') \<Rightarrow> Some (Inr (), st')
            | (Inr (Some attempt'), st') \<Rightarrow> attempt_loop env sd attempt' st')"
    using less.prems attempt_loop.simps [of env sd k st] by simp
  show ?case
  proof (cases r1)
    case (Inl x)
    with e n unf show ?thesis by simp
  next
    case (Inr x)
    show ?thesis
    proof (cases x)
      case None
      with Inr e n unf show ?thesis by simp
    next
      case (Some k')
      let ?b = "budget sd L k (loop_iteration (xs_result st))" and ?b' = "budget sd L k' (loop_iteration (xs_result st1))"
      have step: "k' \<le> max_retries (retry sd)" "?b = Suc ?b'"
        using e Inr Some less.prems bound by (fastforce simp: budget_def round_left_def)+
      then have "?b' < ?b" by simp
      from less.hyps [OF this step(1)] e Inr Some n unf step(2) show ?thesis by auto
    qed
  qed
qed

text \<open>Whenever the loop returns normally, the step is concluded.\<close>

lemma attempt_loop_concluded:
  "attempt_loop env sd k st = Some y \<Longrightarrow> k \<le> max_retries (retry sd) \<longrightarrow> fst y = Inr () \<longrightarrow>
     concluded sd (snd y) \<and> step_name (xs_result (snd y)) = step_name (xs_result st)"
proof (induction rule: attempt_loop.raw_induct [rotated, consumes 1, case_names step])
  case (step loop env sd k st y)
  obtain r1 st1 where n: "next_round env sd k st = (r1, st1)" by fastforce
  note e = next_round_effect [OF n]
  show ?case
  proof (intro impI)
    assume k: "k \<le> max_retries (retry sd)" and y: "fst y = Inr ()"
    show "concluded sd (snd y) \<and> step_name (xs_result (snd y)) = step_name (xs_result st)"
    proof (cases "\<exists>k'. r1 = Inr (Some k')")
      case True
      then obtain k' where "r1 = Inr (Some k')" ..
      moreover from this have "loop env sd k' st1 = Some y" "k' \<le> max_retries (retry sd)"
        using e n k step.hyps by auto
      ultimately show ?thesis using step.IH y e by auto
    next
      case False
      with n e k y step.hyps show ?thesis by (auto split: sum.splits option.splits)
    qed
  qed
qed

section \<open>Whole executions\<close>

lemma start_step_effect:
  assumes "start_step env sd st = (Inr go, st')"
  shows "if go then func sd \<noteq> None
    else status (xs_result st') = SKIPPED \<and> xs_ctx st' = xs_ctx st \<and> xs_world st' = xs_world st \<and> xs_trace st' = xs_trace st \<or>
      status (xs_result st') = FAILED \<and> (func sd = None \<or> is_step_failed (sd_name sd) (xs_ctx st'))"
  using assms unfolding start_step_def
  by (auto elim!: xbindE xthenE xcatchE simp: effect_simps xlift_def run_pre_hooks_def Let_def
      split: if_splits sum.splits dest!: step_failed_spec try_prepare_effect)

end
