(* ===== verification/Step_Executor_Claims.thy ===== *)
theory Step_Executor_Claims
  imports Step_Executor_Props
begin

text \<open>
  The claims about step execution: it returns within its budget of calls, the context agrees
  with the result, an error that persists is retried exactly as configured, reviews end with
  a canonical status, and cancellation reaches the selected tasks only.
\<close>

section \<open>Whole executions\<close>

lemma initial_result_fields:
  "initial_result env sd w = Inr r0 \<Longrightarrow> loop_iteration r0 = 1 \<and> step_name r0 = sd_name sd"
  by (auto simp: initial_result_def loop_iteration_def split: if_splits)

definition start_state :: "exec_context \<Rightarrow> step_result \<Rightarrow> 'w \<Rightarrow> 'w exec_state" where
  "start_state ctx r0 w = \<lparr>xs_ctx = ctx, xs_child = hd (child None ctx), xs_result = r0, xs_world = w, xs_trace = []\<rparr>"

definition returned :: "(raised + unit) \<times> 'w exec_state \<Rightarrow> (raised + step_result) \<times> exec_context \<times> 'w \<times> ext_call list" where
  "returned out = (case fst out of Inl e \<Rightarrow> Inl e | Inr u \<Rightarrow> Inr (xs_result (snd out)),
     xs_ctx (snd out), xs_world (snd out), xs_trace (snd out))"

lemma returned_Inr:
  assumes "returned y = (Inr res, ctx', w', tr)"
  shows "fst y = Inr () \<and> res = xs_result (snd y) \<and> ctx' = xs_ctx (snd y)"
proof (cases "fst y")
  case (Inl e)
  with assms show ?thesis by (simp add: returned_def)
next
  case (Inr u)
  with assms show ?thesis by (simp add: returned_def)
qed

lemma execute_cases:
  "execute env sd ctx w =
     (case initial_result env sd w of
        Inl e \<Rightarrow> Some (Inl e, ctx, w, [])
      | Inr r0 \<Rightarrow>
          (case start_step env sd (start_state ctx r0 w) of
             (Inl e, st) \<Rightarrow> Some (returned (Inl e, st))
           | (Inr False, st) \<Rightarrow> Some (returned (Inr (), st))
           | (Inr True, st) \<Rightarrow> map_option returned (attempt_loop env sd 0 st)))"
  unfolding execute_def Let_def start_state_def returned_def [abs_def] case_prod_beta
  by (auto split: sum.splits prod.splits bool.splits)

text \<open>
  C16. A step execution returns, and calls the step function a bounded number of times: once,
  once more for every error retry, and once more for every refinement round that \<open>loop_max\<close>
  allows, whatever the function, the hooks, the conditions and the event handlers do. \<open>L\<close>
  bounds what \<open>loop_max\<close> resolves to.
\<close>

theorem step_execution_returns:
  assumes "\<forall>ctx m. resolve_loop_max env sd ctx = Inr m \<longrightarrow> m \<le> L" "0 \<le> max_retries (retry sd)"
  shows "\<exists>r ctx' w' tr. execute env sd ctx w = Some (r, ctx', w', tr) \<and>
    int (length (filter (\<lambda>c. c = CallFunc) tr)) \<le> max_retries (retry sd) + 1 + (if looping sd then max 0 (L - 1) else 0)"
proof (cases "initial_result env sd w")
  case (Inl e)
  with assms(2) show ?thesis by (auto simp: execute_cases)
next
  case (Inr r0)
  obtain r1 st1 where s: "start_step env sd (start_state ctx r0 w) = (r1, st1)" by fastforce
  have q: "calls st1 = 0" "loop_iteration (xs_result st1) = 1"
    using keepsD [OF same_calls.keeps_start s] keepsD [OF same_round.keeps_start s] initial_result_fields [OF Inr]
    by (simp_all add: same_calls_def same_round_def calls_def start_state_def)
  have stop: ?thesis if "execute env sd ctx w = Some (returned (u, st1))" for u
    using that q(1) assms(2) by (auto simp: returned_def calls_def)
  show ?thesis
  proof (cases "r1 = Inr True")
    case True
    obtain r st' where l: "attempt_loop env sd 0 st1 = Some (r, st')"
      "calls st' \<le> calls st1 + Suc (budget sd L 0 (loop_iteration (xs_result st1)))"
      using attempt_loop_returns [where env = env and L = L, OF _ assms(2)] assms(1) by blast
    have "int (calls st') \<le> max_retries (retry sd) + 1 + (if looping sd then max 0 (L - 1) else 0)"
      using l(2) q assms(2) by (auto simp: budget_def)
    with l(1) True Inr s show ?thesis
      by (auto simp: execute_cases returned_def calls_def)
  next
    case False
    with Inr s stop show ?thesis by (cases r1) (auto simp: execute_cases)
  qed
qed

text \<open>
  C17. The result and the context agree when an execution returns a result: the result bears
  the step's name; a skipped step has touched nothing and called nothing; a successful one is
  among the completed steps of the context; a failed one among its failed steps, unless the
  step had no function to run.
\<close>

theorem step_execution_recorded:
  assumes "execute env sd ctx w = Some (Inr res, ctx', w', tr)" "0 \<le> max_retries (retry sd)"
  shows "step_name res = sd_name sd \<and>
    (status res = SKIPPED \<and> ctx' = ctx \<and> w' = w \<and> tr = [] \<or>
     status res = SUCCESS \<and> is_step_complete (sd_name sd) ctx' \<or>
     status res = FAILED \<and> (func sd = None \<or> is_step_failed (sd_name sd) ctx'))"
proof -
  obtain r0 where r0: "initial_result env sd w = Inr r0" using assms(1) by (auto simp: execute_cases split: sum.splits)
  obtain r1 st1 where s: "start_step env sd (start_state ctx r0 w) = (r1, st1)" by fastforce
  have n: "step_name (xs_result st1) = sd_name sd"
    using keepsD [OF same_round.keeps_start s] initial_result_fields [OF r0] by (simp add: same_round_def start_state_def)
  obtain go where go: "r1 = Inr go"
    using assms(1) r0 s by (cases r1) (auto simp: execute_cases returned_def)
  note e = start_step_effect [OF s [unfolded go]]
  show ?thesis
  proof (cases go)
    case True
    then have "map_option returned (attempt_loop env sd 0 st1) = Some (Inr res, ctx', w', tr)"
      using assms(1) r0 s go by (simp add: execute_cases)
    then obtain y where l: "attempt_loop env sd 0 st1 = Some y" "returned y = (Inr res, ctx', w', tr)"
      unfolding map_option_eq_Some by blast
    have "fst y = Inr ()" "res = xs_result (snd y)" "ctx' = xs_ctx (snd y)"
      using returned_Inr [OF l(2)] by blast+
    with attempt_loop_concluded [OF l(1)] assms(2) n show ?thesis by (auto simp: concluded_def)
  next
    case False
    then have "returned (Inr (), st1) = (Inr res, ctx', w', tr)" using assms(1) r0 s go by (simp add: execute_cases)
    with e False n show ?thesis by (auto simp: returned_def start_state_def)
  qed
qed

section \<open>Persistent errors\<close>

text \<open>The calls made by the executor itself: event handlers left out.\<close>

definition own_calls :: "ext_call list \<Rightarrow> ext_call list" where
  "own_calls tr = filter (\<lambda>c. case c of CallHandler h e \<Rightarrow> False | _ \<Rightarrow> True) tr"

lemma own_calls_append [simp]: "own_calls (a @ b) = own_calls a @ own_calls b"
  by (simp add: own_calls_def)

lemma own_calls_handlers [simp]: "own_calls (map (\<lambda>(h, e). CallHandler h e) xs) = []"
  by (induction xs) (auto simp: own_calls_def)

lemma own_calls_own [simp]: "own_calls (CallFunc # tr) = CallFunc # own_calls tr"
  "own_calls (CallSleep d # tr) = CallSleep d # own_calls tr" "own_calls [] = []"
  by (simp_all add: own_calls_def)

text \<open>Nothing outside cancels the execution.\<close>

definition undisturbed :: "'w step_env \<Rightarrow> 'w step_definition \<Rightarrow> bool" where
  "undisturbed env sd \<longleftrightarrow>
     (\<forall>h. se_fates env h \<noteq> HandlerCancelled) \<and> (\<forall>d w. \<not> fst (se_sleep env d w)) \<and>
     (\<forall>h\<in>set (error_hooks sd). \<forall>ctx w x. fst (h ctx w) = Some x \<longrightarrow> isinstance_of x [''Exception''])"

definition retriable :: "'w step_definition \<Rightarrow> exn \<Rightarrow> bool" where
  "retriable sd e \<longleftrightarrow> isinstance_of e [''Exception''] \<and> \<not> isinstance_of e [''CancelledError''] \<and>
     \<not> isinstance_of e [''TimeoutError''] \<and> should_retry (retry sd) e"

lemma step_failed_calm:
  assumes "undisturbed env sd"
  shows "\<exists>ctx' tr. step_failed env sd err st = (Inr (), st\<lparr>xs_ctx := ctx', xs_trace := xs_trace st @ tr\<rparr>) \<and> own_calls tr = []"
proof -
  obtain ctx' calls b where m: "mark_step_failed (se_fates env) (sd_name sd) err (xs_ctx st) = (ctx', calls, b)"
    by (metis prod.exhaust)
  have "\<not> snd (snd (mark_step_failed (se_fates env) (sd_name sd) err (xs_ctx st)))"
    using assms by (simp add: undisturbed_def mark_step_failed_def Let_def emit_all)
  then have "\<not> b" using m by simp
  with m have "step_failed env sd err st =
      (Inr (), st\<lparr>xs_ctx := ctx', xs_trace := xs_trace st @ map (\<lambda>(h, e). CallHandler h e) calls\<rparr>)"
    by (simp add: step_failed_def marking_def xget_def xthen_def xbind_def on_ctx_def emitted_def)
  then show ?thesis by (metis own_calls_handlers)
qed

lemma error_hooks_calm:
  assumes "undisturbed env sd"
  shows "\<exists>ctx' w'. run_error_hooks sd st = (Inr (), st\<lparr>xs_ctx := ctx', xs_world := w'\<rparr>)"
proof -
  have one: "\<exists>ctx' w'. xcatch (run_hook h) (\<lambda>e. if raised_isinstance e ''Exception'' then xreturn () else xraise e) st
      = (Inr (), st\<lparr>xs_ctx := ctx', xs_world := w'\<rparr>)" if "h \<in> set (error_hooks sd)" for h and st :: "'a exec_state"
  proof -
    obtain x c w where h: "h (xs_ctx st) (xs_world st) = (x, c, w)" by (metis prod.exhaust)
    have "isinstance_of y [''Exception'']" if "x = Some y" for y
      using assms \<open>h \<in> set (error_hooks sd)\<close> h that unfolding undisturbed_def by (metis fst_conv)
    then have "xcatch (run_hook h) (\<lambda>e. if raised_isinstance e ''Exception'' then xreturn () else xraise e) st
        = (Inr (), st\<lparr>xs_ctx := c, xs_world := w\<rparr>)"
      by (cases x) (simp_all add: xcatch_def run_hook_def h raised_isinstance_def exn_of_def xreturn_def)
    then show ?thesis by blast
  qed
  have "set hs \<subseteq> set (error_hooks sd) \<Longrightarrow>
      \<exists>ctx' w'. xeach (\<lambda>h. xcatch (run_hook h) (\<lambda>e. if raised_isinstance e ''Exception'' then xreturn () else xraise e)) hs st
        = (Inr (), st\<lparr>xs_ctx := ctx', xs_world := w'\<rparr>)" for hs
  proof (induction hs arbitrary: st)
    case Nil
    show ?case by (auto simp: xreturn_def intro!: exI [of _ "xs_ctx st"] exI [of _ "xs_world st"])
  next
    case (Cons h hs)
    obtain c1 w1 where a: "xcatch (run_hook h) (\<lambda>e. if raised_isinstance e ''Exception'' then xreturn () else xraise e) st
      = (Inr (), st\<lparr>xs_ctx := c1, xs_world := w1\<rparr>)" using one Cons.prems by fastforce
    from Cons.IH [of "st\<lparr>xs_ctx := c1, xs_world := w1\<rparr>"] Cons.prems show ?case
      by (auto simp: xthen_def xbind_def a)
  qed
  then show ?thesis by (simp add: run_error_hooks_def)
qed

lemma run_attempt_fails:
  assumes "undisturbed env sd" "retriable sd e" "func sd = Some f" "\<forall>ctx w. fst (f ctx w) = FuncRaises e"
    "k \<le> max_retries (retry sd)"
  shows "\<exists>st'. run_attempt env sd k st = (Inr ORetry, st') \<and> status (xs_result st') = RETRYING \<and>
    own_calls (xs_trace st') = own_calls (xs_trace st) @ [CallFunc, CallSleep (get_delay (se_uniform env) (retry sd) k)]"
proof -
  obtain full w' where c: "f (xs_child st # xs_ctx st) (xs_world st) = (FuncRaises e, full, w')"
    using assms(4) by (metis prod.exhaust_sel)
  obtain b w2 where s: "se_sleep env (get_delay (se_uniform env) (retry sd) k) w' = (b, w2)" by fastforce
  have "\<not> b" using assms(1) s unfolding undisturbed_def by (metis fst_conv)
  with assms(2,3,5) c s show ?thesis
    by (auto simp: run_attempt_def xcatch_def xbind_def call_func_def raised_isinstance_def exn_of_def retriable_def
        handle_exception_def Let_def xthen_def on_result_def sleep_def xreturn_def diagnostics_of_def own_calls_def)
qed

lemma run_attempt_gives_up:
  assumes "undisturbed env sd" "retriable sd e" "func sd = Some f" "\<forall>ctx w. fst (f ctx w) = FuncRaises e"
    "\<not> k \<le> max_retries (retry sd)"
  shows "\<exists>st'. run_attempt env sd k st = (Inr OBreak, st') \<and> status (xs_result st') = FAILED \<and>
    error (xs_result st') = Some (exn_msg e) \<and> error_type (xs_result st') = Some (exn_type_name e) \<and>
    own_calls (xs_trace st') = own_calls (xs_trace st) @ [CallFunc]"
proof -
  obtain full w' where c: "f (xs_child st # xs_ctx st) (xs_world st) = (FuncRaises e, full, w')"
    using assms(4) by (metis prod.exhaust_sel)
  let ?st1 = "st\<lparr>xs_child := hd full, xs_ctx := tl full, xs_world := w', xs_trace := xs_trace st @ [CallFunc]\<rparr>"
  let ?r2 = "note_error env (Raised e) (xs_result st)"
  let ?st2 = "?st1\<lparr>xs_result := ?r2\<rparr>"
  obtain c3 w3 where h: "run_error_hooks sd ?st2 = (Inr (), ?st2\<lparr>xs_ctx := c3, xs_world := w3\<rparr>)"
    using error_hooks_calm [OF assms(1)] by blast
  let ?st4 = "?st2\<lparr>xs_ctx := c3, xs_world := w3, xs_result := ?r2\<lparr>status := FAILED\<rparr>\<rparr>"
  obtain c5 tr where f: "step_failed env sd (exn_msg e) ?st4 = (Inr (), ?st4\<lparr>xs_ctx := c5, xs_trace := xs_trace ?st4 @ tr\<rparr>)"
      "own_calls tr = []" using step_failed_calm [OF assms(1)] by blast
  have "run_attempt env sd k st = (Inr OBreak, ?st4\<lparr>xs_ctx := c5, xs_trace := xs_trace ?st4 @ tr\<rparr>)"
    using assms(2,3,5) c h f(1)
    by (simp add: run_attempt_def xcatch_def xbind_def call_func_def raised_isinstance_def exn_of_def retriable_def
        handle_exception_def Let_def xthen_def on_result_def xreturn_def)
  moreover have "error ?r2 = Some (exn_msg e) \<and> error_type ?r2 = Some (exn_type_name e)"
    by (simp add: set_meta_def note_error_def exn_of_def Let_def split: option.splits)
  ultimately show ?thesis using f(2) by simp
qed

lemma finish_failed:
  assumes "finish env st = (r, st')" "status (xs_result st) = FAILED"
  shows "r = Inr () \<and> status (xs_result st') = FAILED \<and> error (xs_result st') = error (xs_result st) \<and>
    error_type (xs_result st') = error_type (xs_result st) \<and> xs_trace st' = xs_trace st"
  using assms by (auto simp: finish_def mark_result_def effect_simps step_mark_complete_def Let_def split: option.splits)

lemma attempt_loop_fails:
  assumes "undisturbed env sd" "retriable sd e" "func sd = Some f" "\<forall>ctx w. fst (f ctx w) = FuncRaises e"
  shows "int n = max_retries (retry sd) - k \<Longrightarrow>
    \<exists>st'. attempt_loop env sd k st = Some (Inr (), st') \<and> status (xs_result st') = FAILED \<and>
      error (xs_result st') = Some (exn_msg e) \<and> error_type (xs_result st') = Some (exn_type_name e) \<and>
      own_calls (xs_trace st') = own_calls (xs_trace st) @
        concat (map (\<lambda>i. [CallFunc, CallSleep (get_delay (se_uniform env) (retry sd) (k + 1 + int i))]) [0..<n]) @ [CallFunc]"
proof (induction n arbitrary: k st)
  case 0
  let ?st = "st\<lparr>xs_result := (xs_result st)\<lparr>retry_count := k\<rparr>\<rparr>"
  have "\<not> k + 1 \<le> max_retries (retry sd)" using 0 by simp
  from run_attempt_gives_up [OF assms this, of ?st] obtain st1 where a:
    "run_attempt env sd (k + 1) ?st = (Inr OBreak, st1)" "status (xs_result st1) = FAILED"
    "error (xs_result st1) = Some (exn_msg e)" "error_type (xs_result st1) = Some (exn_type_name e)"
    "own_calls (xs_trace st1) = own_calls (xs_trace st) @ [CallFunc]" by auto
  obtain r st2 where f: "finish env st1 = (r, st2)" by fastforce
  note fin = finish_failed [OF f a(2)]
  have "next_round env sd k st = (Inr None, st2)"
    using a(1) f fin by (simp add: next_round_def xthen_def xbind_def on_result_def xreturn_def)
  then have "attempt_loop env sd k st = Some (Inr (), st2)" using 0 by (simp add: attempt_loop.simps)
  with a fin show ?case by simp
next
  case (Suc n)
  let ?st = "st\<lparr>xs_result := (xs_result st)\<lparr>retry_count := k\<rparr>\<rparr>"
  have "k + 1 \<le> max_retries (retry sd)" using Suc.prems by simp
  from run_attempt_fails [OF assms this, of ?st] obtain st1 where a:
    "run_attempt env sd (k + 1) ?st = (Inr ORetry, st1)" "status (xs_result st1) = RETRYING"
    "own_calls (xs_trace st1) = own_calls (xs_trace st) @ [CallFunc, CallSleep (get_delay (se_uniform env) (retry sd) (k + 1))]"
    by auto
  have "next_round env sd k st = (Inr (Some (k + 1)), st1)"
    using a by (simp add: next_round_def xthen_def xbind_def on_result_def xreturn_def xget_def)
  then have u: "attempt_loop env sd k st = attempt_loop env sd (k + 1) st1"
    using Suc.prems by (subst attempt_loop.simps) simp
  have "map (\<lambda>i. [CallFunc, CallSleep (get_delay (se_uniform env) (retry sd) (k + 1 + int i))]) [0..<Suc n] =
      [CallFunc, CallSleep (get_delay (se_uniform env) (retry sd) (k + 1))] #
      map (\<lambda>i. [CallFunc, CallSleep (get_delay (se_uniform env) (retry sd) (k + 1 + 1 + int i))]) [0..<n]"
    by (simp add: upt_rec [of 0 "Suc n"] map_Suc_upt [symmetric] add.assoc comp_def del: upt_Suc)
  with Suc.IH [of "k + 1" st1] Suc.prems a(3) u show ?case by (simp del: upt_Suc)
qed

text \<open>
  An error that persists is retried exactly as configured: a step whose function always
  raises a retriable exception, with nothing cancelling it, is called once and \<open>max_retries\<close>
  times more, with the configured delay after each failure but the last, and the execution
  ends with a failed result that carries the exception.
\<close>

theorem persistent_error_retried:
  assumes "undisturbed env sd" "retriable sd e" "func sd = Some f" "\<forall>ctx w. fst (f ctx w) = FuncRaises e"
    "0 \<le> max_retries (retry sd)"
  shows "\<exists>st'. attempt_loop env sd 0 st = Some (Inr (), st') \<and> status (xs_result st') = FAILED \<and>
      error (xs_result st') = Some (exn_msg e) \<and> error_type (xs_result st') = Some (exn_type_name e) \<and>
      own_calls (xs_trace st') = own_calls (xs_trace st) @
        concat (map (\<lambda>i. [CallFunc, CallSleep (get_delay (se_uniform env) (retry sd) (1 + int i))])
          [0..<nat (max_retries (retry sd))]) @ [CallFunc]"
  using attempt_loop_fails [OF assms(1-4), of "nat (max_retries (retry sd))" 0 st] assms(5) by simp

section \<open>A sample step\<close>

definition sample_exn :: exn where
  "sample_exn = exception [''ValueError''] ''boom''"

definition sample_env :: "nat step_env" where
  "sample_env = \<lparr>se_search = (\<lambda>_ _. None),
     se_runtime = \<lparr>getattr_of = (\<lambda>_ _. None), identical = (=), prim_binop = (\<lambda>_ _ _. Inl XTypeError),
       prim_unop = (\<lambda>_ _. Inl XTypeError), prim_cmp = (\<lambda>_ _ _. Inl XTypeError),
       parse_expr = (\<lambda>_. Inl XSyntaxError), repr_of = (\<lambda>_. [])\<rparr>,
     se_fates = (\<lambda>_. HandlerReturns), se_now = of_nat, se_uniform = (\<lambda>a b. 0), se_sleep = (\<lambda>d w. (False, Suc w)),
     se_spawn = (\<lambda>_ w. (ProcessExits 0, w)), se_messages = \<lparr>repr_str = (\<lambda>s. s), type_name = (\<lambda>v. [])\<rparr>,
     se_str = (\<lambda>_. []), se_int = (\<lambda>_. None), se_timeout_text = (\<lambda>_. []), se_expr_text = (\<lambda>_. []),
     se_validation_text = [], se_diagnostics = (\<lambda>_. [])\<rparr>"

text \<open>A function that fails until the world has counted two sleeps, and one that always
  fails.\<close>

definition flaky :: "nat step_function" where
  "flaky ctx w = (if w < 2 then FuncRaises sample_exn else FuncReturns (Some [(''out'', PInt 7)]), ctx, w)"

definition broken :: "nat step_function" where
  "broken ctx w = (FuncRaises sample_exn, ctx, w)"

definition sample_step :: "nat step_function \<Rightarrow> nat step_definition" where
  "sample_step f = (new_step ''s'')\<lparr>func := Some f, output_mapping := [(''out'', ''result'')]\<rparr>"

theorem persistent_error_retried_witness:
  "\<exists>st'. attempt_loop sample_env (sample_step broken) 0 (start_state [sample_frame] (new_step_result ''s'' RUNNING 0) 0) =
      Some (Inr (), st') \<and> status (xs_result st') = FAILED \<and> length (own_calls (xs_trace st')) = 7"
proof -
  have "undisturbed sample_env (sample_step broken)" "retriable (sample_step broken) sample_exn"
    "func (sample_step broken) = Some broken" "\<forall>ctx w. fst (broken ctx w) = FuncRaises sample_exn"
    "max_retries (retry (sample_step broken)) = 3"
    by (simp_all add: undisturbed_def sample_env_def sample_step_def new_step_def retriable_def sample_exn_def
        exception_def isinstance_of_def should_retry_def default_retry_def broken_def)
  from persistent_error_retried [OF this(1-4), of "start_state [sample_frame] (new_step_result ''s'' RUNNING 0) 0"] this(5)
  show ?thesis by (auto simp: start_state_def upt_rec)
qed


lemma sample_run:
  "case execute sample_env (sample_step flaky) [sample_frame] 0 of
     Some (Inr res, ctx', w', tr) \<Rightarrow> status res = SUCCESS \<and> own_calls tr = [CallFunc, CallSleep 1, CallFunc, CallSleep 2, CallFunc]
   | _ \<Rightarrow> False"
  by code_simp

lemma static_loop_max:
  "map_of (sd_metadata sd) ''loop_max_expr'' = None \<Longrightarrow>
     resolve_loop_max env sd ctx = Inr (max 1 (if loop_max sd \<noteq> 0 then loop_max sd else 3))"
  by (simp add: resolve_loop_max_def Let_def)

theorem step_execution_returns_witness:
  "\<exists>r ctx' w' tr. execute sample_env (sample_step broken) [sample_frame] 0 = Some (r, ctx', w', tr) \<and>
     length (filter (\<lambda>c. c = CallFunc) tr) \<le> 4"
proof -
  have sd: "map_of (sd_metadata (sample_step broken)) ''loop_max_expr'' = None" "loop_max (sample_step broken) = 3"
    "max_retries (retry (sample_step broken)) = 3" "\<not> looping (sample_step broken)"
    by (simp_all add: sample_step_def new_step_def default_retry_def looping_def)
  have "\<forall>ctx m. resolve_loop_max sample_env (sample_step broken) ctx = Inr m \<longrightarrow> m \<le> 3"
    using static_loop_max [OF sd(1)] sd(2) by simp
  from step_execution_returns [OF this, of "[sample_frame]" 0] sd(3,4) show ?thesis by auto
qed

theorem step_execution_recorded_witness:
  "\<exists>res ctx' w' tr. execute sample_env (sample_step flaky) [sample_frame] 0 = Some (Inr res, ctx', w', tr) \<and>
     status res = SUCCESS \<and> is_step_complete ''s'' ctx'"
proof -
  obtain res ctx' w' tr where r: "execute sample_env (sample_step flaky) [sample_frame] 0 = Some (Inr res, ctx', w', tr)"
      "status res = SUCCESS"
    using sample_run by (auto split: option.splits prod.splits sum.splits)
  have "sd_name (sample_step flaky) = ''s''" "0 \<le> max_retries (retry (sample_step flaky))"
    by (simp_all add: sample_step_def new_step_def default_retry_def)
  with step_execution_recorded [OF r(1)] r show ?thesis by auto
qed

section \<open>Reviews\<close>

text \<open>
  The conditions that read a review get a canonical status: after a review step (or one that
  declares the output \<open>review_report\<close>) the output has a review report; an \<open>overall_status\<close> in it is
  one of the four canonical values; and a report that the step did not produce is salvaged from
  the raw response, where it states a status or an approval, and is \<open>NEEDS_FIXES\<close> otherwise.
\<close>

theorem review_status_canonical:
  assumes "startswith (sd_name sd) ''review'' \<or> map_of (output_mapping sd) ''review_report'' \<noteq> None"
    and "xthen (on_result (salvage_review_report env sd)) (normalize_review_report env) st = (Inr (), st')"
  shows "\<exists>v. map_of (output_data (xs_result st')) ''review_report'' = Some v \<and>
    (\<forall>rr x. v = PDict rr \<and> map_of rr ''overall_status'' = Some x \<longrightarrow> (\<exists>s. x = PStr (review_status_value s))) \<and>
    (map_of (output_data (xs_result st)) ''review_report'' = None \<longrightarrow>
      v = PDict [(''overall_status'', PStr (review_status_value (review_normalize (raw_review_status
            (case map_of (output_data (xs_result st)) ''raw_response'' of Some x \<Rightarrow> py_str env x | None \<Rightarrow> [])))))])"
proof -
  define r1 where "r1 = salvage_review_report env sd (xs_result st)"
  have n: "normalize_review_report env (st\<lparr>xs_result := r1\<rparr>) = (Inr (), st')"
    using assms(2) by (simp add: xthen_def xbind_def on_result_def r1_def)
  show ?thesis
  proof (cases "map_of (output_data (xs_result st)) ''review_report''")
    case None
    define v where "v = PDict [(''overall_status'', PStr (review_status_value (review_normalize (raw_review_status
            (case map_of (output_data (xs_result st)) ''raw_response'' of Some x \<Rightarrow> py_str env x | None \<Rightarrow> [])))))]"
    have "map_of (output_data r1) ''review_report'' = Some v"
      using None assms(1) by (auto simp: r1_def salvage_review_report_def Let_def v_def)
    with n None show ?thesis
      by (auto simp: normalize_review_report_def xget_def on_result_def v_def Let_def)
  next
    case (Some v)
    then have "r1 = xs_result st" by (simp add: r1_def salvage_review_report_def)
    with n Some show ?thesis
      by (cases v; cases "map_of (case v of PDict rr \<Rightarrow> rr | _ \<Rightarrow> []) ''overall_status''")
         (auto simp: normalize_review_report_def xget_def on_result_def Let_def xreturn_def xraise_def split: pyval.splits)
  qed
qed

definition review_state :: "nat exec_state" where
  "review_state = start_state [sample_frame]
     ((new_step_result ''review_code'' RUNNING 0)\<lparr>output_data := [(''raw_response'', PStr ''{overall_status: approved with notes, x'')]\<rparr>) 0"

theorem review_status_canonical_witness:
  "\<exists>st'. xthen (on_result (salvage_review_report sample_env ((sample_step broken)\<lparr>sd_name := ''review_code''\<rparr>)))
       (normalize_review_report sample_env) review_state = (Inr (), st') \<and>
     map_of (output_data (xs_result st')) ''review_report'' = Some (PDict [(''overall_status'', PStr ''APPROVED_WITH_NOTES'')])"
proof -
  let ?sd = "(sample_step broken)\<lparr>sd_name := ''review_code''\<rparr>"
  let ?m = "xthen (on_result (salvage_review_report sample_env ?sd)) (normalize_review_report sample_env)"
  have n: "startswith (sd_name ?sd) ''review'' \<or> map_of (output_mapping ?sd) ''review_report'' \<noteq> None"
    by (simp add: startswith_def)
  have ok: "fst (?m review_state) = Inr ()" by code_simp
  then obtain st' where m: "?m review_state = (Inr (), st')" by (metis prod.exhaust_sel)
  have raw: "(case map_of (output_data (xs_result review_state)) ''raw_response'' of Some x \<Rightarrow> py_str sample_env x | None \<Rightarrow> [])
      = ''{overall_status: approved with notes, x''" "map_of (output_data (xs_result review_state)) ''review_report'' = None"
    by (simp_all add: review_state_def start_state_def py_str_def)
  have st: "review_status_value (review_normalize (raw_review_status ''{overall_status: approved with notes, x'')) = ''APPROVED_WITH_NOTES''"
    by code_simp
  from review_status_canonical [OF n m] raw st show ?thesis using m by auto
qed

section \<open>Cancellation\<close>

lemma map_of_request_cancel:
  "map_of (request_cancel sel rt) key =
     map_option (\<lambda>t. if sel (fst key) (snd key) \<and> \<not> task_done t then t\<lparr>task_cancelling := True\<rparr> else t) (map_of rt key)"
  by (induction rt) (auto simp: request_cancel_def cancels_def)

text \<open>
  Cancellation reaches exactly the selected tasks of a shared executor: \<open>cancel\<close> requests the
  cancellation of the unfinished tasks of the named step, in the given run or in all runs, and
  leaves every other entry as it was; it reports whether there was such a task.
\<close>

theorem cancel_reaches_selected:
  "fst (cancel n run rt) = (\<exists>((r, m), t)\<in>set rt. m = n \<and> (run = None \<or> run = Some r) \<and> \<not> task_done t) \<and>
   map fst (snd (cancel n run rt)) = map fst rt \<and>
   map_of (snd (cancel n run rt)) (r, m) =
     (case map_of rt (r, m) of
        None \<Rightarrow> None
      | Some t \<Rightarrow> Some (if m = n \<and> (run = None \<or> run = Some r) \<and> \<not> task_done t then t\<lparr>task_cancelling := True\<rparr> else t))"
proof -
  have sel: "(case run of None \<Rightarrow> True | Some run_id \<Rightarrow> r = run_id) = (run = None \<or> run = Some r)" for r
    by (auto split: option.splits)
  have "fst (cancel n run rt) = (\<exists>((r, m), t)\<in>set rt. m = n \<and> (run = None \<or> run = Some r) \<and> \<not> task_done t)"
    by (simp add: cancel_def Let_def list_ex_iff cancels_def sel case_prod_beta)
  moreover have "map fst (snd (cancel n run rt)) = map fst rt"
    by (simp add: cancel_def Let_def request_cancel_def)
  moreover have "map_of (snd (cancel n run rt)) (r, m) =
     (case map_of rt (r, m) of
        None \<Rightarrow> None
      | Some t \<Rightarrow> Some (if m = n \<and> (run = None \<or> run = Some r) \<and> \<not> task_done t then t\<lparr>task_cancelling := True\<rparr> else t))"
    unfolding cancel_def Let_def snd_conv map_of_request_cancel sel by (cases "map_of rt (r, m)") simp_all
  ultimately show ?thesis by blast
qed

end
