(* ===== verification/Expressions_Props.thy ===== *)
theory Expressions_Props
  imports Expressions
begin

text \<open>
  Properties of the expression evaluator: the sandbox, the cap on repetition, the round trip
  of paths, and the sanitising of results.
\<close>

section \<open>The sandbox\<close>

lemma eval_attr_agree:
  "\<not> dunder a \<Longrightarrow> (\<And>v a. \<not> dunder a \<Longrightarrow> getattr_of rt v a = g v a) \<Longrightarrow>
     eval_attr (rt\<lparr>getattr_of := g\<rparr>) v a = eval_attr rt v a"
  by (simp add: eval_attr_def split: xval.split)

lemma runtime_ops [simp]:
  "apply_binop (rt\<lparr>getattr_of := g\<rparr>) = apply_binop rt" "apply_unop (rt\<lparr>getattr_of := g\<rparr>) = apply_unop rt"
  "apply_cmp (rt\<lparr>getattr_of := g\<rparr>) = apply_cmp rt"
  by (simp_all add: fun_eq_iff apply_binop_def apply_unop_def apply_cmp_def same_object_def
      split: binop.split unop.split xval.split)

lemma eval_compare_runtime [simp]: "eval_compare (rt\<lparr>getattr_of := g\<rparr>) f v cs = eval_compare rt f v cs"
  by (induction cs arbitrary: v) (simp_all cong: if_cong)

lemma eval_node_agree:
  assumes "\<And>v a. \<not> dunder a \<Longrightarrow> getattr_of rt v a = g v a"
  shows "eval_node (rt\<lparr>getattr_of := g\<rparr>) env e = eval_node rt env e"
proof (induction e)
  case (EAttr e a)
  then show ?case using eval_attr_agree [OF _ assms, of a] by simp
next
  case (EBool b es)
  then show ?case by (simp cong: eval_loops_cong)
next
  case (ECmp e cs)
  have "eval_compare rt (eval_node (rt\<lparr>getattr_of := g\<rparr>) env) v cs = eval_compare rt (eval_node rt env) v cs" for v
    by (rule eval_compare_same) (metis ECmp.IH(2) prod.collapse snds.intros)
  with ECmp show ?case by simp
next
  case (ECall f args kws)
  then show ?case by (simp cong: eval_all_cong if_cong)
next
  case (EList es)
  then show ?case by (simp cong: eval_all_cong)
next
  case (ETuple es)
  then show ?case by (simp cong: eval_all_cong)
next
  case (ESet es)
  then show ?case by (simp cong: eval_loops_cong)
next
  case (EDict kvs)
  have "eval_dict (eval_node (rt\<lparr>getattr_of := g\<rparr>) env) [] kvs = eval_dict (eval_node rt env) [] kvs"
  proof (rule eval_dict_same)
    fix kv assume kv: "kv \<in> set kvs"
    show "eval_node (rt\<lparr>getattr_of := g\<rparr>) env (snd kv) = eval_node rt env (snd kv)"
      using EDict.IH(2) [OF kv] by (simp add: snds.intros)
    show "eval_node (rt\<lparr>getattr_of := g\<rparr>) env k = eval_node rt env k" if "fst kv = Some k" for k
      using EDict.IH(1) [OF kv, of "fst kv" k] that fsts.intros [of kv] by simp
  qed
  then show ?case by simp
qed (simp_all cong: if_cong)


definition sample_runtime :: "expr \<Rightarrow> py_runtime" where
  "sample_runtime e =
     \<lparr>getattr_of = (\<lambda>v a. if a = ''__class__'' then Some (XOpaque (PObject ''class'')) else None), identical = (=),
      prim_binop = (\<lambda>_ _ _. Inl XTypeError), prim_unop = (\<lambda>_ _. Inl XTypeError), prim_cmp = (\<lambda>_ _ _. Inl XTypeError),
      parse_expr = (\<lambda>_. Inr e), repr_of = (\<lambda>_. [])\<rparr>"


section \<open>Repetition\<close>

lemma seq_int_disjoint: "seq_len v = Some k \<Longrightarrow> int_of v = None"
  by (cases v) auto

lemma repeat_seq_negative: "seq_len v = Some k \<Longrightarrow> n < 0 \<Longrightarrow> seq_len (repeat_seq v n) = Some 0"
  by (cases v) auto

lemma repeat_seq_bounded:
  assumes "seq_len v = Some k" "int k * n \<le> b" "0 \<le> b" "seq_len (repeat_seq v n) = Some m"
  shows "int m \<le> b"
proof (cases "0 \<le> n")
  case True
  with assms(4) repeat_seq_len [OF assms(1) True] have "int m = int k * n" by (metis int_nat_eq of_nat_mult option.inject)
  with assms(2) show ?thesis by simp
next
  case False
  with assms repeat_seq_negative [OF assms(1)] show ?thesis by simp
qed

lemma arith_no_seq: "arith fi fr v w = Inr u \<Longrightarrow> seq_len u = None"
  by (auto simp: arith_def split: option.splits)

text \<open>
  The cap on repetition holds: whatever sequence a multiplication in an expression
  yields, it has at most 10000 elements.
\<close>

theorem repetition_capped:
  assumes "eval_node rt env (EBin BMult l r) = Inr v" "seq_len v = Some k"
    and "\<And>u. eval_node rt env l = Inr u \<or> eval_node rt env r = Inr u \<Longrightarrow> \<not> is_opaque u"
  shows "int k \<le> max_sequence_multiply"
proof -
  from assms(1) obtain lv rv where v: "eval_node rt env l = Inr lv" "eval_node rt env r = Inr rv"
      "\<not> multiply_guard BMult lv rv" "apply_binop rt BMult lv rv = Inr v"
    by (auto simp: result_simps split: if_splits)
  with assms(3) have m: "py_mul lv rv = Inr v" by (auto simp: apply_binop_def)
  have b: "0 \<le> max_sequence_multiply" by (simp add: max_sequence_multiply_def)
  show ?thesis
  proof (cases "seq_len lv")
    case (Some a)
    with m assms(2) obtain n where "int_of rv = Some n" "v = repeat_seq lv n"
      using seq_int_disjoint [OF Some] arith_no_seq by (fastforce simp: py_mul_def split: option.splits)
    with v(3) Some assms(2) repeat_seq_bounded [OF Some _ b] show ?thesis
      by (auto simp: multiply_guard_def multiply_size_def not_less)
  next
    case None
    with m assms(2) obtain n c where c: "int_of lv = Some n" "seq_len rv = Some c" "v = repeat_seq rv n"
      using arith_no_seq by (fastforce simp: py_mul_def split: option.splits)
    with v(3) None assms(2) repeat_seq_bounded [OF c(2) _ b] show ?thesis
      by (auto simp: multiply_guard_def multiply_size_def not_less)
  qed
qed

theorem repetition_capped_witness:
  "\<exists>v. eval_node (sample_runtime (EConst XNone)) [] (EBin BMult (EConst (XStr ''ab'')) (EConst (XInt 3))) = Inr v \<and>
     seq_len v = Some 6 \<and> int 6 \<le> max_sequence_multiply"
proof -
  let ?rt = "sample_runtime (EConst XNone)" and ?l = "EConst (XStr ''ab'')" and ?r = "EConst (XInt 3)"
  have e: "eval_node ?rt [] (EBin BMult ?l ?r) = Inr (XStr ''ababab'')"
    by (simp add: multiply_guard_def multiply_size_def max_sequence_multiply_def apply_binop_def py_mul_def numeral_3_eq_3)
  from repetition_capped [OF e, of 6] have "int 6 \<le> max_sequence_multiply" by force
  with e show ?thesis by simp
qed

section \<open>Paths\<close>

lemma digits_acc_show_nat:
  "digits_acc b acc (show_nat n @ ds) = digits_acc True (acc * 10 ^ length (show_nat n) + n) ds"
proof (induction n arbitrary: b acc ds rule: show_nat.induct)
  case (1 n)
  have dig: "is_digit (char_of (48 + k))" "digit_val (char_of (48 + k)) = k" if "k < 10" for k :: nat
    using that by (auto simp: is_digit_def digit_val_def)
  show ?case
  proof (cases "n < 10")
    case True
    then show ?thesis by (simp add: show_nat.simps [of n] dig mult.commute)
  next
    case False
    with "1.IH" [OF False] show ?thesis
      by (simp add: show_nat.simps [of n] dig algebra_simps)
  qed
qed

lemma show_nat_digits: "list_all is_digit (show_nat n) \<and> show_nat n \<noteq> []"
proof (induction n rule: show_nat.induct)
  case (1 n)
  have dig: "is_digit (char_of (48 + k))" if "k < 10" for k :: nat
    using that by (auto simp: is_digit_def)
  show ?case
  proof (cases "n < 10")
    case True
    then show ?thesis by (simp add: show_nat.simps [of n] dig)
  next
    case False
    with "1.IH" [OF False] show ?thesis by (simp add: show_nat.simps [of n] dig)
  qed
qed

lemma digit_plain: "is_digit c \<Longrightarrow> \<not> is_space c \<and> c \<noteq> CHR ''-'' \<and> c \<noteq> CHR ''+'' \<and> c \<noteq> CHR '']'' \<and> c \<noteq> CHR 34 \<and> c \<noteq> CHR 39"
  by (auto simp: is_digit_def is_space_def)

lemma show_nat_plain: "c \<in> set (show_nat n) \<Longrightarrow> \<not> is_space c \<and> c \<noteq> CHR '']'' \<and> c \<noteq> CHR 34 \<and> c \<noteq> CHR 39"
  using show_nat_digits [of n] digit_plain [of c] by (simp add: list_all_iff)

lemma show_int_plain: "c \<in> set (show_int i) \<Longrightarrow> \<not> is_space c \<and> c \<noteq> CHR '']'' \<and> c \<noteq> CHR 34 \<and> c \<noteq> CHR 39"
proof (cases "i < 0")
  case True
  assume "c \<in> set (show_int i)"
  with True have "c = CHR ''-'' \<or> c \<in> set (show_nat (nat (- i)))" by (simp add: show_int_def)
  then show ?thesis using show_nat_plain [of c "nat (- i)"] by (elim disjE) (simp add: is_space_def, blast)
next
  case False
  assume "c \<in> set (show_int i)"
  with False have "c \<in> set (show_nat (nat i))" by (simp add: show_int_def)
  then show ?thesis by (rule show_nat_plain)
qed

lemma show_int_nonempty: "show_int i \<noteq> []"
  using show_nat_digits by (simp add: show_int_def)

lemma strip_show_int: "strip (show_int i) = show_int i"
  using show_int_plain [of "hd (show_int i)" i] show_int_plain [of "last (show_int i)" i] show_int_nonempty [of i]
  by (intro strip_id) simp

lemma parse_nat_show: "parse_nat (show_nat n) = Some n"
  using digits_acc_show_nat [of False 0 n "[]"] by (simp add: parse_nat_def)

lemma parse_show_int: "parse_int (show_int i) = Some i"
proof (cases "i < 0")
  case True
  then show ?thesis
    using strip_show_int [of i] by (simp add: parse_int_def show_int_def split_sign_def parse_nat_show)
next
  case False
  obtain c cs where c: "show_nat (nat i) = c # cs" using show_nat_digits by (meson neq_Nil_conv)
  then have "is_digit c" using show_nat_digits [of "nat i"] by simp
  with c have "split_sign (show_nat (nat i)) = (False, show_nat (nat i))"
    using digit_plain [of c] by (simp add: split_sign_def)
  with False strip_show_int [of i] show ?thesis by (simp add: parse_int_def show_int_def parse_nat_show)
qed

text \<open>The text of a path: a name after a dot, an index in brackets.\<close>

fun show_token :: "token \<Rightarrow> string" where
  "show_token (TStr s) = CHR ''.'' # s"
| "show_token (TInt i) = CHR ''['' # show_int i @ [CHR '']'']"

fun plain_token :: "token \<Rightarrow> bool" where
  "plain_token (TStr s) = (s \<noteq> [] \<and> CHR ''.'' \<notin> set s \<and> CHR ''['' \<notin> set s)"
| "plain_token (TInt i) = True"

lemma path_tokens_plain:
  "CHR ''.'' \<notin> set s \<Longrightarrow> CHR ''['' \<notin> set s \<Longrightarrow> path_tokens buffer (s @ rest) = path_tokens (buffer @ s) rest"
  by (induction s arbitrary: buffer) auto

lemma split_bracket_append: "CHR '']'' \<notin> set s \<Longrightarrow> split_bracket (s @ CHR '']'' # rest) = Some (s, rest)"
  by (induction s) auto

lemma coerce_show_int: "coerce_index_token (show_int i) = TInt i"
  using show_int_nonempty [of i] show_int_plain [of "hd (show_int i)" i]
  by (auto simp: coerce_index_token_def parse_show_int)

lemma path_tokens_show:
  "list_all plain_token ts \<Longrightarrow> path_tokens buffer (concat (map show_token ts)) = Some (flush buffer @ ts)"
proof (induction ts arbitrary: buffer)
  case (Cons t ts)
  show ?case
  proof (cases t)
    case (TStr s)
    then have "path_tokens [] (s @ concat (map show_token ts)) = Some (TStr s # ts)"
      using Cons path_tokens_plain [of s "[]"] by (simp add: flush_def)
    with TStr show ?thesis by simp
  next
    case (TInt i)
    have "CHR '']'' \<notin> set (show_int i)" using show_int_plain by blast
    with TInt Cons show ?thesis
      by (simp add: split_bracket_append strip_show_int coerce_show_int) (simp add: flush_def)
  qed
qed (simp add: flush_def)

text \<open>
  Paths round-trip: the tokens of the text of a path (names without dots and brackets,
  indices in brackets, negative ones too) are the path, with or without the dot of its
  first name.
\<close>

theorem path_round_trip:
  assumes "list_all plain_token (TStr n # ts)"
  shows "parse_path (concat (map show_token (TStr n # ts))) = TStr n # ts \<and>
    parse_path (n @ concat (map show_token ts)) = TStr n # ts"
proof -
  have "path_tokens [] (n @ concat (map show_token ts)) = Some (TStr n # ts)"
    using assms path_tokens_plain [of n "[]"] path_tokens_show [of ts n] by (simp add: flush_def)
  then show ?thesis using path_tokens_show [OF assms, of "[]"] by (simp add: parse_path_def flush_def)
qed

theorem path_round_trip_witness:
  "parse_path ''steps.review.outputs.items[-2].name'' = [TStr ''steps'', TStr ''review'', TStr ''outputs'', TStr ''items'', TInt (-2), TStr ''name'']"
proof -
  let ?ts = "[TStr ''review'', TStr ''outputs'', TStr ''items'', TInt (-2), TStr ''name'']"
  have s: "show_int (- 2) = ''-2''" by code_simp
  from path_round_trip [of "''steps''" ?ts] show ?thesis by (simp add: s)
qed

section \<open>Results\<close>

fun sanitised :: "xval \<Rightarrow> bool" where
  "sanitised XNull = False"
| "sanitised (XNs d) = False"
| "sanitised (XDict d) = list_all (\<lambda>(k, v). sanitised v) d"
| "sanitised (XList xs) = list_all sanitised xs"
| "sanitised _ = True"

lemma from_namespace_sanitised: "sanitised (from_namespace v)"
  by (induction v rule: from_namespace.induct) (auto simp: list_all_iff)

lemma from_namespace_of_py: "from_namespace (to_namespace v) = of_py v"
  by (induction v rule: to_namespace.induct) auto

lemma from_namespace_id: "sanitised v \<Longrightarrow> from_namespace v = v"
  by (induction v rule: from_namespace.induct) (force simp: list_all_iff intro!: map_idI)+

lemma of_py_sanitised: "sanitised (of_py v)"
  by (induction v rule: of_py.induct) (auto simp: list_all_iff)



text \<open>A tuple keeps the sentinels it contains.\<close>

lemma tuple_keeps_sentinel: "from_namespace (XTuple [XNull]) = XTuple [XNull]"
  by simp

end
