(* ===== verification/Artifact_Props.thy ===== *)
theory Artifact_Props
  imports Artifact_Contracts
begin

text \<open>
  What accepted artifacts satisfy: their file maps stay below the directory they are written
  to, and the values kept under the canonical names passed validation.
\<close>

section \<open>Declarations\<close>

definition contract_names :: "contracts \<Rightarrow> string list" where
  "contract_names cs = concat (map (\<lambda>fc. fst fc # ac_aliases (snd fc)) cs)"

definition contracts_ok :: "contracts \<Rightarrow> bool" where
  "contracts_ok cs \<longleftrightarrow> distinct (contract_names cs) \<and> (\<forall>fc\<in>set cs. ac_kind (snd fc) = code_artifact)"

lemma claim_names:
  "rfold (claim_name f) ns owners = Inr owners' \<Longrightarrow>
     distinct ns \<and> set ns \<inter> set (map fst owners) = {} \<and> set (map fst owners') = set ns \<union> set (map fst owners)"
proof (induction ns arbitrary: owners)
  case (Cons n ns)
  then obtain o1 where o1: "claim_name f n owners = Inr o1" "rfold (claim_name f) ns o1 = Inr owners'"
    by (auto simp: result_simps)
  then have n: "map_of owners n = None" "o1 = AList.update n f owners"
    by (auto simp: claim_name_def split: option.splits)
  have "n \<notin> set (map fst owners)" using n(1) by (simp add: map_of_eq_None_iff)
  moreover have "set (map fst o1) = insert n (set (map fst owners))"
    using dom_update [of n f owners] unfolding n(2) dom_map_of_conv_image_fst set_map by simp
  ultimately show ?case using Cons.IH [OF o1(2)] by auto
qed simp

lemma update_new: "map_of d k = None \<Longrightarrow> AList.update k v d = d @ [(k, v)]"
  by (induction d) (auto split: if_splits)

lemma parse_declaration_step:
  assumes "parse_declaration (f, d) (cs, owners) = Inr (cs', owners')"
    and "contracts_ok cs" "set (map fst owners) = set (contract_names cs)"
  shows "contracts_ok cs' \<and> set (map fst owners') = set (contract_names cs')"
proof -
  from assms(1) obtain kind req aliases where p:
      "rfold (claim_name f) (f # aliases) owners = Inr owners'"
      "cs' = AList.update f \<lparr>ac_kind = kind, ac_required = req, ac_aliases = aliases\<rparr> cs" "kind \<in> set supported_kinds"
    by (auto simp: parse_declaration_def Let_def result_simps check_kind_def
        split: if_splits pyval.splits option.splits)
  have kind: "kind = code_artifact" using p(3) by (simp add: supported_kinds_def)
  note c = claim_names [OF p(1)]
  have "f \<notin> set (contract_names cs)" using c assms(3) by auto
  then have "map_of cs f = None" by (auto simp: contract_names_def map_of_eq_None_iff)
  then have cs': "cs' = cs @ [(f, \<lparr>ac_kind = kind, ac_required = req, ac_aliases = aliases\<rparr>)]"
    using p(2) by (simp add: update_new)
  then show ?thesis using c assms(2,3) kind by (auto simp: contracts_ok_def contract_names_def)
qed

lemma parse_artifact_contracts_ok:
  assumes "parse_artifact_contracts loc raw = Inr cs"
  shows "contracts_ok cs"
proof -
  have "rfold parse_declaration d (cs0, ow0) = Inr (cs1, ow1) \<Longrightarrow> contracts_ok cs0 \<Longrightarrow>
      set (map fst ow0) = set (contract_names cs0) \<Longrightarrow> contracts_ok cs1" for d cs0 ow0 cs1 ow1
  proof (induction d arbitrary: cs0 ow0)
    case (Cons fd d)
    obtain f v where fd: "fd = (f, v)" by fastforce
    from Cons.prems(1) obtain cs2 ow2 where
      "parse_declaration (f, v) (cs0, ow0) = Inr (cs2, ow2)" "rfold parse_declaration d (cs2, ow2) = Inr (cs1, ow1)"
      by (auto simp: result_simps fd)
    with Cons parse_declaration_step show ?case by blast
  qed simp
  then show ?thesis
    using assms by (fastforce simp: parse_artifact_contracts_def result_simps contracts_ok_def contract_names_def
        split: pyval.splits)
qed

lemma distinct_fields: "distinct (contract_names cs) \<Longrightarrow> distinct (map fst cs)"
  by (induction cs) (auto simp: contract_names_def)

lemma field_not_alias:
  "distinct (contract_names cs) \<Longrightarrow> fc \<in> set cs \<Longrightarrow> fc' \<in> set cs \<Longrightarrow> fst fc \<notin> set (ac_aliases (snd fc'))"
  by (induction cs) (auto simp: contract_names_def)

section \<open>Normalisation\<close>

definition valid_candidate :: "message_parts \<Rightarrow> pydict \<Rightarrow> string \<Rightarrow> bool" where
  "valid_candidate mp values n \<longleftrightarrow> validate_code_artifact mp n (the (map_of values n)) = []"

definition present_names :: "pydict \<Rightarrow> string \<times> artifact_contract \<Rightarrow> string list" where
  "present_names values fc = filter (\<lambda>n. map_of values n \<noteq> None) (fst fc # ac_aliases (snd fc))"

lemma select_candidate_find:
  assumes "ac_kind c = code_artifact"
  shows "\<exists>ds'. select_candidate mp values c ns ds = Inr (List.find (valid_candidate mp values) ns, ds') \<and>
    (ds' = [] \<longrightarrow> ds = []) \<and> (List.find (valid_candidate mp values) ns = None \<longrightarrow> ns \<noteq> [] \<longrightarrow> ds' \<noteq> [])"
proof (induction ns arbitrary: ds)
  case (Cons n ns)
  show ?case
  proof (cases "valid_candidate mp values n")
    case False
    then have "validate_code_artifact mp n (the (map_of values n)) \<noteq> []" by (simp add: valid_candidate_def)
    with Cons.IH [of "ds @ validate_code_artifact mp n (the (map_of values n))"] False show ?thesis
      using assms by (auto simp: validate_value_def)
  qed (use assms in \<open>auto simp: validate_value_def valid_candidate_def\<close>)
qed simp

lemma check_contract_step:
  assumes "ac_kind (snd fc) = code_artifact" "check_contract mp values fc (nm, ds) = Inr (nm', [])"
  shows "ds = [] \<and> (case List.find (valid_candidate mp values) (present_names values fc) of
      Some n \<Rightarrow> nm' = AList.update (fst fc) (the (map_of values n)) nm
    | None \<Rightarrow> nm' = nm \<and> \<not> ac_required (snd fc) \<and> present_names values fc = [])"
proof -
  let ?ns = "present_names values fc"
  obtain ds' where s: "select_candidate mp values (snd fc) ?ns [] = Inr (List.find (valid_candidate mp values) ?ns, ds')"
    using select_candidate_find [OF assms(1)] by blast
  from assms(2) show ?thesis
    unfolding check_contract_def Let_def present_names_def [symmetric] s
    by (auto split: option.splits if_splits)
qed

definition chosen :: "message_parts \<Rightarrow> pydict \<Rightarrow> string \<times> artifact_contract \<Rightarrow> pyval option" where
  "chosen mp values fc = map_option (\<lambda>n. the (map_of values n)) (List.find (valid_candidate mp values) (present_names values fc))"

lemma check_contracts:
  assumes "rfold (check_contract mp values) cs (nm, ds) = Inr (nm', [])"
    and "\<forall>fc\<in>set cs. ac_kind (snd fc) = code_artifact" "distinct (map fst cs)"
  shows "ds = [] \<and> (\<forall>k. k \<notin> set (map fst cs) \<longrightarrow> map_of nm' k = map_of nm k) \<and>
    (\<forall>fc\<in>set cs. (chosen mp values fc = None \<longrightarrow> \<not> ac_required (snd fc) \<and> present_names values fc = []) \<and>
      map_of nm' (fst fc) = (case chosen mp values fc of Some v \<Rightarrow> Some v | None \<Rightarrow> map_of nm (fst fc)))"
  using assms
proof (induction cs arbitrary: nm ds)
  case (Cons fc cs)
  from Cons.prems(1) obtain nm1 ds1 where
    c: "check_contract mp values fc (nm, ds) = Inr (nm1, ds1)" "rfold (check_contract mp values) cs (nm1, ds1) = Inr (nm', [])"
    by (auto simp: result_simps)
  note ih = Cons.IH [OF c(2)]
  have ds1: "ds1 = []" using ih Cons.prems by simp
  have st: "ds = [] \<and> (case List.find (valid_candidate mp values) (present_names values fc) of
      Some n \<Rightarrow> nm1 = AList.update (fst fc) (the (map_of values n)) nm
    | None \<Rightarrow> nm1 = nm \<and> \<not> ac_required (snd fc) \<and> present_names values fc = [])"
    using check_contract_step [OF _ c(1) [unfolded ds1]] Cons.prems(2) by simp
  have nm1: "map_of nm1 k = (if k = fst fc then (case chosen mp values fc of Some v \<Rightarrow> Some v | None \<Rightarrow> map_of nm k) else map_of nm k)" for k
    using st by (auto simp: chosen_def split: option.splits)
  have fresh: "fst fc \<notin> set (map fst cs)" using Cons.prems(3) by simp
  show ?case
  proof (intro conjI allI impI ballI)
    show "ds = []" using st by blast
    fix k assume "k \<notin> set (map fst (fc # cs))"
    then show "map_of nm' k = map_of nm k" using ih Cons.prems nm1 by simp
  next
    fix fc' assume fc': "fc' \<in> set (fc # cs)"
    show "\<not> ac_required (snd fc')" "present_names values fc' = []" if "chosen mp values fc' = None"
      using that fc' st ih Cons.prems by (auto simp: chosen_def split: option.splits)
    show "map_of nm' (fst fc') = (case chosen mp values fc' of Some v \<Rightarrow> Some v | None \<Rightarrow> map_of nm (fst fc'))"
    proof (cases "fc' = fc")
      case True
      have "map_of nm' (fst fc) = map_of nm1 (fst fc)" using ih Cons.prems fresh by simp
      then show ?thesis unfolding True by (simp only: nm1 if_True refl)
    next
      case False
      with fc' have in_cs: "fc' \<in> set cs" by simp
      then have "fst fc' \<noteq> fst fc" using fresh by (metis in_set_conv_nth length_map nth_map nth_mem)
      with ih in_cs Cons.prems nm1 show ?thesis by (auto split: option.splits)
    qed
  qed
qed simp

lemma map_of_deletes: "map_of (fold AList.delete ks d) k = (if k \<in> set ks then None else map_of d k)"
  by (induction ks arbitrary: d) (auto simp: delete_conv')

lemma find_valid:
  "List.find (valid_candidate mp values) (present_names values fc) = Some n \<Longrightarrow>
    n \<in> set (fst fc # ac_aliases (snd fc)) \<and> map_of values n \<noteq> None \<and> valid_candidate mp values n"
proof -
  assume "List.find (valid_candidate mp values) (present_names values fc) = Some n"
  then have "n \<in> set (present_names values fc) \<and> valid_candidate mp values n"
    unfolding find_Some_iff by (metis nth_mem)
  then show ?thesis by (auto simp: present_names_def split: if_splits)
qed

definition split_path :: "string \<Rightarrow> string list" where
  "split_path p = split_on (CHR ''/'') (replace_char (CHR 92) (CHR ''/'') p)"

text \<open>The directory a relative path leads to from a directory, both as lists of components:
  the effect of \<open>.\<close>, \<open>..\<close> and empty components included.\<close>

definition enter :: "string \<Rightarrow> string list \<Rightarrow> string list" where
  "enter part dir = (if part = [] \<or> part = ''.'' then dir
     else if part = ''..'' then butlast dir else dir @ [part])"

lemma enter_safe: "list_all (\<lambda>q. \<not> bad_part q) parts \<Longrightarrow> fold enter parts dir = dir @ parts"
  by (induction parts arbitrary: dir) (auto simp: enter_def bad_part_def)

lemma mapping_diagnostics_none:
  assumes "mapping_diagnostics mp f d = []"
  shows "d \<noteq> [] \<and> sum_list (map entry_size d) \<le> max_artifact_length \<and>
    (\<forall>e\<in>set d. safe_relative_path (fst e) \<and> source_diagnostics mp f (fst e) (snd e) = [])"
proof -
  have d: "d \<noteq> []" "concat (map (entry_diagnostics mp f) d) = []" "sum_list (map entry_size d) \<le> max_artifact_length"
    using assms unfolding mapping_diagnostics_def by (simp_all split: if_splits)
  have e: "entry_diagnostics mp f e = [] \<Longrightarrow>
      safe_relative_path (fst e) \<and> source_diagnostics mp f (fst e) (snd e) = []" for e
    unfolding entry_diagnostics_def Let_def by (simp split: if_splits)
  show ?thesis using d e by simp
qed

lemma safe_relative_path_parts:
  "safe_relative_path p \<Longrightarrow> list_all (\<lambda>q. \<not> bad_part q) (split_path p)"
  unfolding safe_relative_path_def split_path_def Let_def by (simp add: list_all_iff list_ex_iff split: if_splits)

lemma source_diagnostics_none:
  "source_diagnostics mp f p src = [] \<Longrightarrow> \<exists>s. src = PStr s \<and> strip s \<noteq> []"
  by (cases src) (simp_all add: source_diagnostics_def split: if_splits)

section \<open>Claims\<close>

text \<open>
  C20. An accepted file map is confined and bounded: it has at least one file, every path,
  followed component by component from any base directory (with the usual effect of \<open>.\<close>
  and \<open>..\<close>, and with a backslash read as a separator), leads strictly below that directory,
  every source is non-blank text, and paths and sources together stay within the size limit.
\<close>

theorem accepted_file_map_confined:
  assumes "validate_code_artifact mp f (PDict d) = []"
  shows "d \<noteq> [] \<and>
    (\<forall>(p, src)\<in>set d. (\<exists>s. src = PStr s \<and> strip s \<noteq> []) \<and>
       (\<forall>base. \<exists>below. below \<noteq> [] \<and> fold enter (split_path p) base = base @ below)) \<and>
    sum_list (map (\<lambda>(p, src). length p + length (str_of src)) d) \<le> max_artifact_length"
proof -
  have m: "mapping_diagnostics mp f d = []" using assms by (simp add: validate_code_artifact_def)
  note n = mapping_diagnostics_none [OF m]
  have below: "\<exists>below. below \<noteq> [] \<and> fold enter (split_path p) base = base @ below" if "(p, src) \<in> set d" for p src base
  proof -
    have "safe_relative_path p" using n that by fastforce
    then have "fold enter (split_path p) base = base @ split_path p"
      by (intro enter_safe safe_relative_path_parts)
    then show ?thesis by (auto simp: split_path_def)
  qed
  have src: "\<exists>s. src = PStr s \<and> strip s \<noteq> []" if "(p, src) \<in> set d" for p src
    using n that source_diagnostics_none by fastforce
  have "map entry_size d = map (\<lambda>(p, src). length p + length (str_of src)) d"
    using n by (intro map_cong refl) (auto simp: entry_size_def str_of_def split: pyval.splits)
  with n below src show ?thesis by auto
qed

definition no_messages :: message_parts where
  "no_messages = \<lparr>repr_str = (\<lambda>s. s), type_name = (\<lambda>v. [])\<rparr>"

lemma sample_map_valid: "validate_code_artifact no_messages f (PDict [(''a/b.py'', PStr ''x = 1'')]) = []"
proof -
  have "entry_diagnostics no_messages f (''a/b.py'', PStr ''x = 1'') = []" "entry_size (''a/b.py'', PStr ''x = 1'') = 11"
    by code_simp+
  then show ?thesis by (simp add: validate_code_artifact_def mapping_diagnostics_def max_artifact_length_def)
qed

theorem accepted_file_map_confined_witness:
  "validate_code_artifact no_messages ''code'' (PDict [(''a/b.py'', PStr ''x = 1'')]) = [] \<and>
   (\<exists>below. below \<noteq> [] \<and> fold enter (split_path ''a/b.py'') [''root''] = [''root''] @ below)"
proof -
  have "\<forall>base. \<exists>below. below \<noteq> [] \<and> fold enter (split_path ''a/b.py'') base = base @ below"
    using accepted_file_map_confined [OF sample_map_valid] by simp
  then show ?thesis using sample_map_valid by blast
qed

text \<open>
  Artifacts that pass parsed contracts are normalised as declared: for every contract the
  canonical field holds the value of the first valid candidate (the field itself before its
  aliases, in their order), and it is left without one only when the contract is optional and
  neither the field nor an alias was given; no alias remains; every other key keeps its value.
\<close>

theorem accepted_artifacts_normalised:
  assumes "parse_artifact_contracts loc raw = Inr cs" "validate_and_normalize_artifacts mp values cs = Inr out"
  shows "(\<forall>(f, c)\<in>set cs.
      (\<forall>a\<in>set (ac_aliases c). map_of out a = None) \<and>
      (case List.find (\<lambda>n. validate_code_artifact mp n (the (map_of values n)) = [])
              (filter (\<lambda>n. map_of values n \<noteq> None) (f # ac_aliases c)) of
         Some n \<Rightarrow> map_of out f = map_of values n
       | None \<Rightarrow> \<not> ac_required c \<and> map_of out f = None \<and> (\<forall>n\<in>set (f # ac_aliases c). map_of values n = None))) \<and>
    (\<forall>k. k \<notin> set (concat (map (\<lambda>(f, c). f # ac_aliases c) cs)) \<longrightarrow> map_of out k = map_of values k)"
proof -
  have ok: "contracts_ok cs" by (rule parse_artifact_contracts_ok [OF assms(1)])
  then have kinds: "\<forall>fc\<in>set cs. ac_kind (snd fc) = code_artifact" and dist: "distinct (contract_names cs)"
    by (auto simp: contracts_ok_def)
  from assms(2) obtain nm where nm: "rfold (check_contract mp values) cs (values, []) = Inr (nm, [])"
      and out: "out = fold AList.delete (concat (map (ac_aliases \<circ> snd) cs)) nm"
    by (auto simp: validate_and_normalize_artifacts_def result_simps split: if_splits)
  note cc = check_contracts [OF nm kinds distinct_fields [OF dist]]
  have look: "map_of out k = (if \<exists>fc\<in>set cs. k \<in> set (ac_aliases (snd fc)) then None else map_of nm k)" for k
    unfolding out map_of_deletes by simp
  have field: "map_of out (fst fc) = (case chosen mp values fc of Some v \<Rightarrow> Some v | None \<Rightarrow> map_of values (fst fc))"
    if "fc \<in> set cs" for fc
    using cc that field_not_alias [OF dist that] look [of "fst fc"] by auto
  have one: "case List.find (valid_candidate mp values) (present_names values fc) of
         Some n \<Rightarrow> map_of out (fst fc) = map_of values n
       | None \<Rightarrow> \<not> ac_required (snd fc) \<and> map_of out (fst fc) = None \<and>
           (\<forall>n\<in>set (fst fc # ac_aliases (snd fc)). map_of values n = None)" if "fc \<in> set cs" for fc
  proof (cases "List.find (valid_candidate mp values) (present_names values fc)")
    case None
    then have "chosen mp values fc = None" by (simp add: chosen_def)
    with cc that have "\<not> ac_required (snd fc)" "present_names values fc = []" by auto
    then show ?thesis using None field [OF that] by (auto simp: chosen_def present_names_def filter_empty_conv split: if_splits)
  next
    case (Some n)
    then show ?thesis using find_valid [OF Some] field [OF that] by (auto simp: chosen_def)
  qed
  have rest: "map_of out k = map_of values k" if "k \<notin> set (concat (map (\<lambda>(f, c). f # ac_aliases c) cs))" for k
    using that cc look [of k] by (force simp: case_prod_beta)
  have "case List.find (\<lambda>n. validate_code_artifact mp n (the (map_of values n)) = [])
              (filter (\<lambda>n. map_of values n \<noteq> None) (f # ac_aliases c)) of
         Some n \<Rightarrow> map_of out f = map_of values n
       | None \<Rightarrow> \<not> ac_required c \<and> map_of out f = None \<and> (\<forall>n\<in>set (f # ac_aliases c). map_of values n = None)"
    if "(f, c) \<in> set cs" for f c
    using one [OF that] unfolding present_names_def valid_candidate_def [abs_def] fst_conv snd_conv .
  moreover have "map_of out a = None" if "(f, c) \<in> set cs" "a \<in> set (ac_aliases c)" for f c a
    using look [of a] that by auto
  ultimately show ?thesis using rest by blast
qed

theorem accepted_artifacts_normalised_witness:
  "\<exists>cs out. parse_artifact_contracts [] (PDict [(''code'', PDict [(''kind'', PStr code_artifact), (''aliases'', PList [PStr ''api''])])]) = Inr cs \<and>
     validate_and_normalize_artifacts no_messages [(''api'', PDict [(''a/b.py'', PStr ''x = 1'')]), (''x'', PNone)] cs = Inr out \<and>
     map_of out ''code'' = Some (PDict [(''a/b.py'', PStr ''x = 1'')]) \<and> map_of out ''x'' = Some PNone"
proof -
  let ?raw = "PDict [(''code'', PDict [(''kind'', PStr code_artifact), (''aliases'', PList [PStr ''api''])])]"
  let ?c = "\<lparr>ac_kind = code_artifact, ac_required = True, ac_aliases = [''api'']\<rparr>"
  let ?v = "PDict [(''a/b.py'', PStr ''x = 1'')]"
  let ?vals = "[(''api'', ?v), (''x'', PNone)]"
  have p: "parse_artifact_contracts [] ?raw = Inr [(''code'', ?c)]" by code_simp
  have v: "validate_code_artifact no_messages ''api'' ?v = []" by (rule sample_map_valid)
  have n: "validate_and_normalize_artifacts no_messages ?vals [(''code'', ?c)] = Inr [(''x'', PNone), (''code'', ?v)]"
    by (simp add: validate_and_normalize_artifacts_def check_contract_def validate_value_def v result_simps)
  from accepted_artifacts_normalised [OF p n] p n v show ?thesis by auto
qed

end
