(* ===== verification/Rate_Limit.thy ===== *)
theory Rate_Limit
  imports Py_Numbers
begin

text \<open>
  Rate-limit tracking of \<open>models/rate_limit_tracker.py\<close>: token buckets, the per-provider
  tracker, and the parsing of provider headers. The clocks are arguments; the date parsers
  \<open>parsedate_to_datetime\<close> and \<open>datetime.fromisoformat\<close> and \<open>random.uniform\<close> are parameters.
  One call reads each clock at one instant.
\<close>

section \<open>Token buckets\<close>

record token_bucket =
  capacity :: int
  refill_rate :: rat
  tokens :: rat
  last_refill :: rat

definition new_bucket :: "rat \<Rightarrow> int \<Rightarrow> rat \<Rightarrow> token_bucket" where
  "new_bucket t cap rate = \<lparr>capacity = cap, refill_rate = rate, tokens = of_int cap, last_refill = t\<rparr>"

definition refill :: "rat \<Rightarrow> token_bucket \<Rightarrow> token_bucket" where
  "refill t b =
     b\<lparr>tokens := min (of_int (capacity b)) (tokens b + (t - last_refill b) * refill_rate b),
       last_refill := t\<rparr>"

definition consume :: "rat \<Rightarrow> int \<Rightarrow> token_bucket \<Rightarrow> token_bucket \<times> bool" where
  "consume t n b =
     (let b1 = refill t b
      in if tokens b1 \<ge> of_int n then (b1\<lparr>tokens := tokens b1 - of_int n\<rparr>, True) else (b1, False))"

definition remaining :: "rat \<Rightarrow> token_bucket \<Rightarrow> token_bucket \<times> rat" where
  "remaining t b = (let b1 = refill t b in (b1, tokens b1))"

text \<open>\<open>float("inf")\<close> is \<^const>\<open>None\<close>.\<close>

definition time_until_available :: "rat \<Rightarrow> int \<Rightarrow> token_bucket \<Rightarrow> token_bucket \<times> rat option" where
  "time_until_available t n b =
     (let b1 = refill t b
      in (b1, if tokens b1 \<ge> of_int n then Some 0
              else let deficit = of_int n - tokens b1
                   in if refill_rate b1 > 0 then Some (deficit / refill_rate b1) else None))"

definition bucket_reset :: "rat \<Rightarrow> int \<Rightarrow> rat \<Rightarrow> token_bucket \<Rightarrow> token_bucket" where
  "bucket_reset t rem reset_seconds b =
     (let b1 = b\<lparr>tokens := of_int (min rem (capacity b))\<rparr>;
          b2 = (if reset_seconds > 0 \<and> rem < capacity b1
                then b1\<lparr>refill_rate := of_int (capacity b1 - rem) / reset_seconds\<rparr> else b1)
      in b2\<lparr>last_refill := t\<rparr>)"

section \<open>Parsing headers\<close>

record clocks =
  monotonic :: rat
  epoch :: rat
  utc :: instant

text \<open>A parsed date carries an offset or is naive; subtracting an aware date from a naive
  one raises \<open>TypeError\<close>.\<close>

datatype date_value = Aware instant | Naive

datatype header_error = NaiveDateTypeError

record date_parsers =
  http_date :: "string \<Rightarrow> date_value option"
  iso_date :: "string \<Rightarrow> date_value option"

definition extract_provider :: "string \<Rightarrow> string" where
  "extract_provider model =
     (if CHR '':'' \<in> set model then lower (before_char (CHR '':'') model)
      else if CHR ''/'' \<in> set model then lower (before_char (CHR ''/'') model)
      else ''unknown'')"

definition safe_int :: "string option \<Rightarrow> int option" where
  "safe_int v =
     (case v of None \<Rightarrow> None
      | Some s \<Rightarrow> (case parse_int s of None \<Rightarrow> None | Some k \<Rightarrow> if k \<ge> 0 then Some k else None))"

definition cooldown_seconds :: "rat option \<Rightarrow> int option" where
  "cooldown_seconds s =
     (case s of None \<Rightarrow> None
      | Some x \<Rightarrow> if x \<le> 0 \<or> x > 3600 then None else Some (max 1 \<lceil>x\<rceil>))"

text \<open>\<open>re.search(r"(\d+(?:\.\d+)?)m(?!s)", s)\<close>: at a position the digits run as far as they
  can, a fraction only when digits follow its point; the leftmost position that matches.\<close>

definition match_minutes_here :: "string \<Rightarrow> (string \<times> string) option" where
  "match_minutes_here s =
     (let ds = takeWhile is_digit s;
          r1 = dropWhile is_digit s;
          fr = (if r1 \<noteq> [] \<and> hd r1 = CHR ''.'' then takeWhile is_digit (tl r1) else []);
          num = (if fr = [] then ds else ds @ CHR ''.'' # fr);
          r2 = (if fr = [] then r1 else dropWhile is_digit (tl r1))
      in if ds \<noteq> [] \<and> r2 \<noteq> [] \<and> hd r2 = CHR ''m'' \<and> \<not> (tl r2 \<noteq> [] \<and> hd (tl r2) = CHR ''s'')
         then Some (num, tl r2) else None)"

fun search_minutes :: "string \<Rightarrow> (string \<times> string \<times> string) option" where
  "search_minutes [] = None"
| "search_minutes (c # cs) =
     (case match_minutes_here (c # cs) of
        Some (num, rest) \<Rightarrow> Some ([], num, rest)
      | None \<Rightarrow> map_option (\<lambda>(pre, r). (c # pre, r)) (search_minutes cs))"

definition consume_duration_minutes :: "string \<Rightarrow> rat \<times> string \<times> bool" where
  "consume_duration_minutes s =
     (case search_minutes s of
        Some (pre, num, rest) \<Rightarrow>
          (case parse_float num of
             None \<Rightarrow> (0, s, True)
           | Some m \<Rightarrow> (m * 60, pre @ rest, False))
      | None \<Rightarrow> (0, s, False))"

fun contains_ms :: "string \<Rightarrow> bool" where
  "contains_ms (a # b # cs) = ((a = CHR ''m'' \<and> b = CHR ''s'') \<or> contains_ms (b # cs))"
| "contains_ms _ = False"

definition consume_duration_seconds :: "string \<Rightarrow> rat \<times> string" where
  "consume_duration_seconds s =
     (if CHR ''s'' \<in> set s \<and> \<not> contains_ms s
      then let rest = tl (dropWhile (\<lambda>c. c \<noteq> CHR ''s'') s)
           in (case parse_float (before_char (CHR ''s'') s) of None \<Rightarrow> (0, rest) | Some x \<Rightarrow> (x, rest))
      else (0, s))"

fun before_ms :: "string \<Rightarrow> string" where
  "before_ms (a # b # cs) = (if a = CHR ''m'' \<and> b = CHR ''s'' then [] else a # before_ms (b # cs))"
| "before_ms s = s"

definition consume_duration_milliseconds :: "string \<Rightarrow> rat" where
  "consume_duration_milliseconds s =
     (if contains_ms s
      then (case parse_float (before_ms s) of None \<Rightarrow> 0 | Some x \<Rightarrow> x / 1000)
      else 0)"

definition parse_duration :: "string \<Rightarrow> rat option" where
  "parse_duration v =
     (case parse_float v of
        Some x \<Rightarrow> Some x
      | None \<Rightarrow>
          (case consume_duration_minutes (strip v) of (mins, r1, failed) \<Rightarrow>
             if failed then None
             else (case consume_duration_seconds r1 of (secs, r2) \<Rightarrow>
                    let total = mins + secs + consume_duration_milliseconds r2
                    in if total > 0 then Some total else None)))"

definition positive :: "rat \<Rightarrow> rat option" where
  "positive x = (if x > 0 then Some x else None)"

text \<open>The HTTP-date branch catches the \<open>TypeError\<close> of a naive date, the ISO branch does not.\<close>

definition parse_iso_reset :: "date_parsers \<Rightarrow> clocks \<Rightarrow> string \<Rightarrow> header_error + rat option" where
  "parse_iso_reset dp ck t =
     (case iso_date dp (concat (map (\<lambda>c. if c = CHR ''Z'' then ''+00:00'' else [c]) t)) of
        Some (Aware dt) \<Rightarrow> Inr (positive (dt - utc ck))
      | Some Naive \<Rightarrow> Inl NaiveDateTypeError
      | None \<Rightarrow> Inr None)"

definition parse_reset_seconds ::
  "date_parsers \<Rightarrow> clocks \<Rightarrow> string option \<Rightarrow> header_error + rat option" where
  "parse_reset_seconds dp ck v =
     (case v of
        None \<Rightarrow> Inr None
      | Some s \<Rightarrow>
          let t = strip s in
          if t = [] then Inr None
          else case parse_float t of
                 Some x \<Rightarrow>
                   Inr (positive (if x > 1000000000000 then x / 1000 - epoch ck
                                  else if x > 1000000000 then x - epoch ck else x))
               | None \<Rightarrow>
                   (case parse_duration t of
                      Some d \<Rightarrow> Inr (Some d)
                    | None \<Rightarrow>
                        (case http_date dp t of
                           Some (Aware dt) \<Rightarrow> Inr (positive (dt - utc ck))
                         | _ \<Rightarrow> parse_iso_reset dp ck t)))"

definition parse_milliseconds :: "string option \<Rightarrow> rat option" where
  "parse_milliseconds v =
     (case v of None \<Rightarrow> None
      | Some s \<Rightarrow> (case parse_float s of None \<Rightarrow> None | Some x \<Rightarrow> positive (x / 1000)))"

type_synonym headers = "(string \<times> string) list"

definition lower_headers :: "headers \<Rightarrow> headers" where
  "lower_headers h = fold (\<lambda>(k, v). AList.update (lower k) v) h []"

fun first_header :: "headers \<Rightarrow> string list \<Rightarrow> string option" where
  "first_header h [] = None"
| "first_header h (n # ns) =
     (case map_of h n of
        Some v \<Rightarrow> if strip v \<noteq> [] then Some v else first_header h ns
      | None \<Rightarrow> first_header h ns)"

fun first_safe_int :: "headers \<Rightarrow> string list \<Rightarrow> int option" where
  "first_safe_int h [] = None"
| "first_safe_int h (n # ns) =
     (case safe_int (map_of h n) of Some k \<Rightarrow> Some k | None \<Rightarrow> first_safe_int h ns)"

fun first_reset_seconds ::
  "date_parsers \<Rightarrow> clocks \<Rightarrow> headers \<Rightarrow> string list \<Rightarrow> header_error + rat option" where
  "first_reset_seconds dp ck h [] = Inr None"
| "first_reset_seconds dp ck h (n # ns) =
     (case parse_reset_seconds dp ck (map_of h n) of
        Inl e \<Rightarrow> Inl e
      | Inr (Some x) \<Rightarrow> Inr (Some x)
      | Inr None \<Rightarrow> first_reset_seconds dp ck h ns)"

text \<open>\<open>parse_retry_after\<close>: delta seconds, then an HTTP date, then the millisecond headers.\<close>

definition parse_retry_after :: "date_parsers \<Rightarrow> clocks \<Rightarrow> headers \<Rightarrow> int option" where
  "parse_retry_after dp ck h =
     (let lh = lower_headers h;
          from_seconds = (\<lambda>v. case parse_int v of None \<Rightarrow> None | Some k \<Rightarrow> cooldown_seconds (Some (of_int k)));
          from_date = (\<lambda>v. case http_date dp v of
              Some (Aware dt) \<Rightarrow> cooldown_seconds (Some (dt - utc ck)) | _ \<Rightarrow> None);
          from_ms = (case first_header lh [''retry-after-ms'', ''x-ms-retry-after-ms''] of
                       None \<Rightarrow> None
                     | Some v \<Rightarrow> cooldown_seconds (parse_milliseconds (Some v)))
      in case map_of lh ''retry-after'' of
           None \<Rightarrow> from_ms
         | Some v \<Rightarrow>
             if v = [] then from_ms
             else case from_seconds v of
                    Some c \<Rightarrow> Some c
                  | None \<Rightarrow> (case from_date v of Some c \<Rightarrow> Some c | None \<Rightarrow> from_ms))"

section \<open>The tracker\<close>

record provider_limits =
  provider :: string
  rpm_bucket :: token_bucket
  tpm_bucket :: "token_bucket option"
  last_retry_after :: "rat option"
  total_requests :: nat
  recent_errors :: nat

type_synonym tracker = "(string \<times> provider_limits) list"

definition default_limits :: "(string \<times> int \<times> int) list" where
  "default_limits =
     [(''openai'', 60, 90000), (''anthropic'', 60, 80000), (''gemini'', 60, 100000),
      (''gh'', 15, 150000), (''azure'', 60, 120000), (''ollama'', 1000, 1000000)]"

definition new_provider :: "rat \<Rightarrow> string \<Rightarrow> provider_limits" where
  "new_provider t p =
     (case (case map_of default_limits p of None \<Rightarrow> (30, 50000) | Some l \<Rightarrow> l) of (rpm, tpm) \<Rightarrow>
        \<lparr>provider = p, rpm_bucket = new_bucket t rpm (of_int rpm / 60),
         tpm_bucket = Some (new_bucket t tpm (of_int tpm / 60)),
         last_retry_after = None, total_requests = 0, recent_errors = 0\<rparr>)"

definition get_provider :: "rat \<Rightarrow> string \<Rightarrow> tracker \<Rightarrow> provider_limits" where
  "get_provider t model tr =
     (case map_of tr (extract_provider model) of
        Some p \<Rightarrow> p
      | None \<Rightarrow> new_provider t (extract_provider model))"

definition put_provider :: "string \<Rightarrow> provider_limits \<Rightarrow> tracker \<Rightarrow> tracker" where
  "put_provider model p tr = AList.update (extract_provider model) p tr"

text \<open>The two \<open>consume\<close> calls read the clock one after the other.\<close>

definition can_request :: "rat \<Rightarrow> rat \<Rightarrow> string \<Rightarrow> int \<Rightarrow> tracker \<Rightarrow> tracker \<times> bool" where
  "can_request t1 t2 model estimated_tokens tr =
     (let p = get_provider t1 model tr
      in case consume t1 1 (rpm_bucket p) of (rpm, ok) \<Rightarrow>
           let p1 = p\<lparr>rpm_bucket := rpm\<rparr>
           in if \<not> ok then (put_provider model p1 tr, False)
              else case tpm_bucket p1 of
                     None \<Rightarrow> (put_provider model p1 tr, True)
                   | Some b \<Rightarrow>
                       (case consume t2 estimated_tokens b of (tpm, ok2) \<Rightarrow>
                          (put_provider model (p1\<lparr>tpm_bucket := Some tpm\<rparr>) tr, ok2)))"

definition reset_if :: "rat \<Rightarrow> int option \<Rightarrow> rat option \<Rightarrow> token_bucket \<Rightarrow> token_bucket" where
  "reset_if t rem reset b =
     (case (rem, reset) of (Some r, Some s) \<Rightarrow> bucket_reset t r s b | _ \<Rightarrow> b)"

definition exhausted_cooldown :: "int option \<Rightarrow> rat option \<Rightarrow> int list" where
  "exhausted_cooldown rem reset =
     (case rem of
        None \<Rightarrow> []
      | Some r \<Rightarrow> if r \<le> 0 then (case cooldown_seconds reset of None \<Rightarrow> [] | Some c \<Rightarrow> [c]) else [])"

definition max_cooldown :: "int list \<Rightarrow> int option" where
  "max_cooldown cs = (if cs = [] then None else Some (Max (set cs)))"

text \<open>The parsers of one provider's headers: the state they leave and what they return or
  raise. A pair of resets is read before the buckets change.\<close>

definition two_resets ::
  "date_parsers \<Rightarrow> clocks \<Rightarrow> headers \<Rightarrow> string list \<Rightarrow> string list \<Rightarrow> header_error + rat option \<times> rat option" where
  "two_resets dp ck h ns ms =
     rbind (first_reset_seconds dp ck h ns) (\<lambda>a. rbind (first_reset_seconds dp ck h ms) (\<lambda>b. Inr (a, b)))"

definition reset_both ::
  "clocks \<Rightarrow> int option \<Rightarrow> rat option \<Rightarrow> int option \<Rightarrow> rat option \<Rightarrow> provider_limits \<Rightarrow>
    provider_limits \<times> (header_error + int option)" where
  "reset_both ck rem_req res_req rem_tok res_tok p =
     (p\<lparr>rpm_bucket := reset_if (monotonic ck) rem_req res_req (rpm_bucket p),
        tpm_bucket := map_option (reset_if (monotonic ck) rem_tok res_tok) (tpm_bucket p)\<rparr>,
      Inr (max_cooldown (exhausted_cooldown rem_req res_req @ exhausted_cooldown rem_tok res_tok)))"

definition parse_openai_headers ::
  "date_parsers \<Rightarrow> clocks \<Rightarrow> headers \<Rightarrow> provider_limits \<Rightarrow> provider_limits \<times> (header_error + int option)" where
  "parse_openai_headers dp ck h p =
     (let rem_req = first_safe_int h [''x-ratelimit-remaining-requests'', ''x-ms-ratelimit-remaining-requests''];
          rem_tok = first_safe_int h [''x-ratelimit-remaining-tokens'', ''x-ms-ratelimit-remaining-tokens'']
      in case two_resets dp ck h [''x-ratelimit-reset-requests'', ''x-ms-ratelimit-reset-requests'']
                [''x-ratelimit-reset-tokens'', ''x-ms-ratelimit-reset-tokens''] of
           Inl e \<Rightarrow> (p, Inl e)
         | Inr (res_req, res_tok) \<Rightarrow> reset_both ck rem_req res_req rem_tok res_tok p)"

definition parse_github_headers ::
  "date_parsers \<Rightarrow> clocks \<Rightarrow> headers \<Rightarrow> provider_limits \<Rightarrow> provider_limits \<times> (header_error + int option)" where
  "parse_github_headers dp ck h p =
     (case parse_openai_headers dp ck h p of
        (p1, Inl e) \<Rightarrow> (p1, Inl e)
      | (p1, Inr (Some c)) \<Rightarrow> (p1, Inr (Some c))
      | (p1, Inr None) \<Rightarrow>
          (let rem = first_safe_int h [''x-ratelimit-remaining'', ''ratelimit-remaining'']
           in case first_reset_seconds dp ck h [''x-ratelimit-reset'', ''ratelimit-reset''] of
                Inl e \<Rightarrow> (p1, Inl e)
              | Inr res \<Rightarrow>
                  (p1\<lparr>rpm_bucket := reset_if (monotonic ck) rem res (rpm_bucket p1)\<rparr>,
                   Inr (case rem of None \<Rightarrow> None | Some r \<Rightarrow> if r \<le> 0 then cooldown_seconds res else None))))"

definition parse_gemini_headers ::
  "date_parsers \<Rightarrow> clocks \<Rightarrow> headers \<Rightarrow> provider_limits \<Rightarrow> provider_limits \<times> (header_error + int option)" where
  "parse_gemini_headers dp ck h p =
     (let rem = first_safe_int h [''x-ratelimit-remaining-requests'', ''x-ratelimit-remaining'',
            ''x-goog-ratelimit-remaining-requests'', ''x-goog-ratelimit-remaining''];
          rem_tok = first_safe_int h [''x-ratelimit-remaining-tokens'', ''x-goog-ratelimit-remaining-tokens'']
      in case two_resets dp ck h
                [''x-ratelimit-reset-requests'', ''x-ratelimit-reset'',
                 ''x-goog-ratelimit-reset-requests'', ''x-goog-ratelimit-reset'']
                [''x-ratelimit-reset-tokens'', ''x-goog-ratelimit-reset-tokens''] of
           Inl e \<Rightarrow> (p, Inl e)
         | Inr (res, res_tok) \<Rightarrow> reset_both ck rem res rem_tok res_tok p)"

text \<open>\<open>reset or 60.0\<close> takes 60 when no reset is given or it is 0, and
  \<open>_cooldown_seconds(reset) or 60\<close> when there is no cooldown (a cooldown is never 0).\<close>

definition parse_anthropic_headers ::
  "date_parsers \<Rightarrow> clocks \<Rightarrow> headers \<Rightarrow> provider_limits \<Rightarrow> provider_limits \<times> (header_error + int option)" where
  "parse_anthropic_headers dp ck h p =
     (let rem = first_safe_int h [''anthropic-ratelimit-requests-remaining'', ''x-ratelimit-remaining-requests'']
      in case first_reset_seconds dp ck h [''anthropic-ratelimit-requests-reset'', ''x-ratelimit-reset-requests''] of
           Inl e \<Rightarrow> (p, Inl e)
         | Inr res \<Rightarrow>
             (case rem of
                None \<Rightarrow> (p, Inr None)
              | Some r \<Rightarrow>
                  (p\<lparr>rpm_bucket := bucket_reset (monotonic ck) r
                       (case res of None \<Rightarrow> 60 | Some s \<Rightarrow> if s = 0 then 60 else s) (rpm_bucket p)\<rparr>,
                   Inr (if r \<le> 0 then Some (case cooldown_seconds res of None \<Rightarrow> 60 | Some c \<Rightarrow> c) else None))))"

definition update_from_headers ::
  "date_parsers \<Rightarrow> clocks \<Rightarrow> string \<Rightarrow> headers \<Rightarrow> tracker \<Rightarrow> tracker \<times> (header_error + int option)" where
  "update_from_headers dp ck model h tr =
     (let lh = lower_headers h;
          prov = extract_provider model;
          p = get_provider (monotonic ck) model tr
      in case parse_retry_after dp ck h of
           Some c \<Rightarrow> (put_provider model (p\<lparr>last_retry_after := Some (of_int c)\<rparr>) tr, Inr (Some c))
         | None \<Rightarrow>
             (case (if prov = ''openai'' \<or> prov = ''azure'' then parse_openai_headers dp ck lh p
                    else if prov = ''gh'' then parse_github_headers dp ck lh p
                    else if prov = ''gemini'' then parse_gemini_headers dp ck lh p
                    else if prov = ''anthropic'' then parse_anthropic_headers dp ck lh p
                    else (p, Inr None)) of
                (p1, r) \<Rightarrow> (put_provider model p1 tr, r)))"

definition get_cooldown_seconds ::
  "date_parsers \<Rightarrow> clocks \<Rightarrow> (rat \<Rightarrow> rat \<Rightarrow> rat) \<Rightarrow> string \<Rightarrow> headers option \<Rightarrow> int \<Rightarrow> tracker \<Rightarrow>
    tracker \<times> (header_error + int)" where
  "get_cooldown_seconds dp ck uniform model hs default_cooldown tr =
     (let (tr1, from_headers) =
            (case hs of
               None \<Rightarrow> (tr, Inr None)
             | Some h \<Rightarrow> if h = [] then (tr, Inr None) else update_from_headers dp ck model h tr)
      in case from_headers of
           Inl e \<Rightarrow> (tr1, Inl e)
         | Inr (Some c) \<Rightarrow> (tr1, Inr c)
         | Inr None \<Rightarrow>
             (let p = get_provider (monotonic ck) model tr1;
                  base = (case last_retry_after p of Some r \<Rightarrow> trunc r | None \<Rightarrow> default_cooldown)
              in (put_provider model p tr1, Inr (trunc (of_int base * (1 + uniform (1/10) (25/100)))))))"

definition record_request :: "rat \<Rightarrow> string \<Rightarrow> tracker \<Rightarrow> tracker" where
  "record_request t model tr =
     (let p = get_provider t model tr
      in put_provider model (p\<lparr>total_requests := total_requests p + 1\<rparr>) tr)"

definition record_error :: "rat \<Rightarrow> string \<Rightarrow> tracker \<Rightarrow> tracker" where
  "record_error t model tr =
     (let p = get_provider t model tr
      in put_provider model (p\<lparr>recent_errors := recent_errors p + 1\<rparr>) tr)"

definition compute_throttle_factor :: "string \<Rightarrow> tracker \<Rightarrow> rat" where
  "compute_throttle_factor model tr =
     (case map_of tr (extract_provider model) of
        None \<Rightarrow> 0
      | Some p \<Rightarrow>
          if total_requests p < 10 then 0
          else min 1 (of_nat (recent_errors p) / of_nat (total_requests p) * 2))"

section \<open>Buckets bound the rate\<close>

definition bucket_inv :: "token_bucket \<Rightarrow> bool" where
  "bucket_inv b \<longleftrightarrow> 0 \<le> capacity b \<and> 0 \<le> refill_rate b \<and> 0 \<le> tokens b \<and> tokens b \<le> of_int (capacity b)"

lemma refill_inv:
  "bucket_inv b \<Longrightarrow> last_refill b \<le> t \<Longrightarrow> bucket_inv (refill t b)"
  by (auto simp: bucket_inv_def refill_def)

lemma consume_inv:
  "bucket_inv b \<Longrightarrow> last_refill b \<le> t \<Longrightarrow> 0 \<le> n \<Longrightarrow> bucket_inv (fst (consume t n b))"
  using refill_inv [of b t] by (auto simp: consume_def Let_def bucket_inv_def)

lemma bucket_reset_inv:
  "bucket_inv b \<Longrightarrow> 0 \<le> r \<Longrightarrow> bucket_inv (bucket_reset t r secs b)"
  by (auto simp: bucket_inv_def bucket_reset_def Let_def min_def)

lemma new_bucket_inv: "0 \<le> cap \<Longrightarrow> 0 \<le> rate \<Longrightarrow> bucket_inv (new_bucket t cap rate)"
  by (simp add: bucket_inv_def new_bucket_def)

lemma consume_fields [simp]:
  "capacity (fst (consume t n b)) = capacity b" "refill_rate (fst (consume t n b)) = refill_rate b"
  "last_refill (fst (consume t n b)) = t"
  by (auto simp: consume_def Let_def refill_def)

lemma consume_potential:
  "tokens (fst (consume t n b)) + (if snd (consume t n b) then of_int n else 0) \<le>
     tokens b + refill_rate b * (t - last_refill b)"
  by (auto simp: consume_def Let_def refill_def mult.commute)

text \<open>
  A limiter: what its clients rely on. Every request moves its clock, and the capacity
  that is left plus the request granted never exceed what was there plus the refill.
\<close>

fun grants :: "(rat \<Rightarrow> 's \<Rightarrow> 's \<times> bool) \<Rightarrow> rat list \<Rightarrow> 's \<Rightarrow> nat" where
  "grants request [] s = 0"
| "grants request (t # ts) s =
     (case request t s of (s', ok) \<Rightarrow> (if ok then 1 else 0) + grants request ts s')"

locale rate_limiter =
  fixes valid :: "'s \<Rightarrow> bool" and avail top_level rate stamp :: "'s \<Rightarrow> rat"
    and request :: "rat \<Rightarrow> 's \<Rightarrow> 's \<times> bool"
  assumes request_valid: "valid s \<Longrightarrow> stamp s \<le> t \<Longrightarrow> valid (fst (request t s))"
    and request_stamp: "valid s \<Longrightarrow> stamp s \<le> t \<Longrightarrow> stamp (fst (request t s)) = t"
    and request_rate: "valid s \<Longrightarrow> stamp s \<le> t \<Longrightarrow> rate (fst (request t s)) = rate s"
    and request_potential: "valid s \<Longrightarrow> stamp s \<le> t \<Longrightarrow>
      avail (fst (request t s)) + (if snd (request t s) then 1 else 0) \<le> avail s + rate s * (t - stamp s)"
    and avail_nonneg: "valid s \<Longrightarrow> 0 \<le> avail s"
    and avail_top: "valid s \<Longrightarrow> avail s \<le> top_level s"
begin

lemma grants_potential:
  "valid s \<Longrightarrow> sorted (stamp s # ts) \<Longrightarrow>
     of_nat (grants request ts s) \<le> avail s + rate s * (last (stamp s # ts) - stamp s)"
proof (induction ts arbitrary: s)
  case Nil
  then show ?case by (simp add: avail_nonneg)
next
  case (Cons t ts)
  let ?s = "fst (request t s)" and ?ok = "snd (request t s)"
  have t: "stamp s \<le> t" using Cons.prems(2) by simp
  note r = request_valid [OF Cons.prems(1) t] request_stamp [OF Cons.prems(1) t]
    request_rate [OF Cons.prems(1) t] request_potential [OF Cons.prems(1) t]
  have "sorted (stamp ?s # ts)" using Cons.prems(2) r(2) by simp
  from Cons.IH [OF r(1) this] r(2,3) have
    ih: "of_nat (grants request ts ?s) \<le> avail ?s + rate s * (last (t # ts) - t)" by simp
  have "of_nat (grants request (t # ts) s) = (if ?ok then 1 else 0) + of_nat (grants request ts ?s)"
    by (simp add: case_prod_beta)
  also have "\<dots> \<le> (if ?ok then 1 else 0) + avail ?s + rate s * (last (t # ts) - t)" using ih by simp
  also have "\<dots> \<le> avail s + rate s * (t - stamp s) + rate s * (last (t # ts) - t)" using r(4) by simp
  also have "\<dots> = avail s + rate s * (last (stamp s # t # ts) - stamp s)" by (simp add: algebra_simps)
  finally show ?case .
qed

lemma grants_bounded:
  "valid s \<Longrightarrow> sorted (stamp s # ts) \<Longrightarrow>
     of_nat (grants request ts s) \<le> top_level s + rate s * (last (stamp s # ts) - stamp s)"
  using grants_potential [of s ts] avail_top [of s] by simp

end

interpretation bucket_limiter: rate_limiter bucket_inv tokens "\<lambda>b. of_int (capacity b)" refill_rate
  last_refill "\<lambda>t. consume t 1"
proof
  fix b t
  assume b: "bucket_inv b" and t: "last_refill b \<le> t"
  show "bucket_inv (fst (consume t 1 b))" using consume_inv [OF b t] by simp
  show "tokens (fst (consume t 1 b)) + (if snd (consume t 1 b) then 1 else 0) \<le>
      tokens b + refill_rate b * (t - last_refill b)"
    using consume_potential [of t 1 b] by (cases "snd (consume t 1 b)") simp_all
qed (auto simp: bucket_inv_def)

text \<open>A tracker that knows the provider of a model, both of its buckets in order.\<close>

definition tracker_ok :: "string \<Rightarrow> tracker \<Rightarrow> bool" where
  "tracker_ok model tr \<longleftrightarrow>
     (case map_of tr (extract_provider model) of
        None \<Rightarrow> False
      | Some p \<Rightarrow> bucket_inv (rpm_bucket p))"

definition rpm_of :: "string \<Rightarrow> tracker \<Rightarrow> token_bucket" where
  "rpm_of model tr = rpm_bucket (the (map_of tr (extract_provider model)))"

lemma can_request_rpm:
  assumes "tracker_ok model tr"
  shows "rpm_of model (fst (can_request t t2 model n tr)) = fst (consume t 1 (rpm_of model tr))"
    and "snd (can_request t t2 model n tr) \<Longrightarrow> snd (consume t 1 (rpm_of model tr))"
    and "\<exists>p. map_of (fst (can_request t t2 model n tr)) (extract_provider model) = Some p \<and>
      rpm_bucket p = fst (consume t 1 (rpm_of model tr))"
proof -
  from assms obtain p where p: "map_of tr (extract_provider model) = Some p"
    by (auto simp: tracker_ok_def split: option.splits)
  obtain rpm ok where c: "consume t 1 (rpm_bucket p) = (rpm, ok)" by fastforce
  show "\<exists>p. map_of (fst (can_request t t2 model n tr)) (extract_provider model) = Some p \<and>
      rpm_bucket p = fst (consume t 1 (rpm_of model tr))"
    using p c by (auto simp: can_request_def get_provider_def put_provider_def rpm_of_def Let_def
        split: option.split prod.split)
  then show "rpm_of model (fst (can_request t t2 model n tr)) = fst (consume t 1 (rpm_of model tr))"
    by (auto simp: rpm_of_def [of model "fst (can_request t t2 model n tr)"])
  show "snd (can_request t t2 model n tr) \<Longrightarrow> snd (consume t 1 (rpm_of model tr))"
    using p c by (auto simp: can_request_def get_provider_def rpm_of_def Let_def split: if_splits)
qed

lemma tracker_ok_rpm: "tracker_ok model tr \<Longrightarrow> bucket_inv (rpm_of model tr)"
  by (auto simp: tracker_ok_def rpm_of_def split: option.splits)

interpretation tracker_limiter: rate_limiter "tracker_ok model" "\<lambda>tr. tokens (rpm_of model tr)"
  "\<lambda>tr. of_int (capacity (rpm_of model tr))" "\<lambda>tr. refill_rate (rpm_of model tr)"
  "\<lambda>tr. last_refill (rpm_of model tr)" "\<lambda>t. can_request t t model n"
  for model n
proof
  fix tr t
  assume ok: "tracker_ok model tr" and t: "last_refill (rpm_of model tr) \<le> t"
  note c = can_request_rpm [OF ok, of t t n]
  note b = tracker_ok_rpm [OF ok]
  show "tracker_ok model (fst (can_request t t model n tr))"
    using c(3) consume_inv [OF b t, of 1] by (auto simp: tracker_ok_def)
  show "last_refill (rpm_of model (fst (can_request t t model n tr))) = t"
    "refill_rate (rpm_of model (fst (can_request t t model n tr))) = refill_rate (rpm_of model tr)"
    by (simp_all add: c(1))
  show "tokens (rpm_of model (fst (can_request t t model n tr))) + (if snd (can_request t t model n tr) then 1 else 0)
      \<le> tokens (rpm_of model tr) + refill_rate (rpm_of model tr) * (t - last_refill (rpm_of model tr))"
    using c(2) bucket_limiter.request_potential [OF b t] unfolding c(1) by (auto split: if_splits)
qed (auto dest: tracker_ok_rpm simp: bucket_inv_def)

section \<open>Properties\<close>


definition sample_tracker :: tracker where
  "sample_tracker = [(''gh'', new_provider 0 ''gh'')]"

lemma sample_tracker_ok: "tracker_ok ''gh:gpt'' sample_tracker" "rpm_of ''gh:gpt'' sample_tracker = new_bucket 0 15 (1/4)"
proof -
  have p: "extract_provider ''gh:gpt'' = ''gh''" by code_simp
  have n: "new_provider 0 ''gh'' = \<lparr>provider = ''gh'', rpm_bucket = new_bucket 0 15 (15/60),
         tpm_bucket = Some (new_bucket 0 150000 (150000/60)),
         last_retry_after = None, total_requests = 0, recent_errors = 0\<rparr>"
    by (simp add: new_provider_def default_limits_def)
  show "tracker_ok ''gh:gpt'' sample_tracker" "rpm_of ''gh:gpt'' sample_tracker = new_bucket 0 15 (1/4)"
    by (simp_all add: p n tracker_ok_def rpm_of_def sample_tracker_def new_bucket_def bucket_inv_def)
qed


text \<open>
  A bucket's level stays between 0 and its capacity under refills, requests and resets
  from headers, and the waiting time it announces is exact: at that time, and not
  earlier, the tokens asked for are available.
\<close>

theorem bucket_wait_exact:
  assumes "bucket_inv b" "last_refill b \<le> t" "0 \<le> n" "n \<le> capacity b"
  shows "bucket_inv (fst (consume t n b)) \<and> (0 \<le> r \<longrightarrow> bucket_inv (bucket_reset t r secs b)) \<and>
    (case snd (time_until_available t n b) of
       None \<Rightarrow> \<forall>t'\<ge>t. \<not> snd (consume t' n (refill t b))
     | Some w \<Rightarrow> 0 \<le> w \<and> (\<forall>t'\<ge>t. snd (consume t' n (refill t b)) \<longleftrightarrow> t + w \<le> t'))"
proof -
  let ?b = "refill t b"
  have inv: "bucket_inv ?b" by (rule refill_inv [OF assms(1,2)])
  have get: "snd (consume t' n ?b) \<longleftrightarrow> of_int n \<le> tokens ?b + (t' - t) * refill_rate b" for t'
    using assms(4) by (auto simp: consume_def Let_def refill_def [of t'] refill_def [of t])
  have rate: "refill_rate ?b = refill_rate b" "0 \<le> refill_rate b"
    using assms(1) by (simp_all add: refill_def bucket_inv_def)
  have "case snd (time_until_available t n b) of
       None \<Rightarrow> \<forall>t'\<ge>t. \<not> snd (consume t' n ?b)
     | Some w \<Rightarrow> 0 \<le> w \<and> (\<forall>t'\<ge>t. snd (consume t' n ?b) \<longleftrightarrow> t + w \<le> t')"
  proof (cases "of_int n \<le> tokens ?b")
    case True
    have "of_int n \<le> tokens ?b + (t' - t) * refill_rate b" if "t \<le> t'" for t'
      using True that rate(2) by (intro order_trans [OF True]) simp
    with True show ?thesis by (auto simp: time_until_available_def Let_def get)
  next
    case False
    show ?thesis
    proof (cases "refill_rate b > 0")
      case True
      have "of_int n \<le> tokens ?b + (t' - t) * refill_rate b \<longleftrightarrow> t + (of_int n - tokens ?b) / refill_rate b \<le> t'" for t'
        using True by (simp add: divide_le_eq le_divide_eq field_simps)
      with True False rate(1) show ?thesis by (simp add: time_until_available_def Let_def get)
    next
      case zero: False
      with rate(2) have "refill_rate b = 0" by simp
      with False rate(1) show ?thesis by (simp add: time_until_available_def Let_def get)
    qed
  qed
  with consume_inv [OF assms(1-3)] bucket_reset_inv [OF assms(1)] show ?thesis by blast
qed

theorem bucket_wait_exact_witness:
  "snd (time_until_available 0 3 ((new_bucket 0 15 (1/4))\<lparr>tokens := 2\<rparr>)) = Some 4 \<and>
   snd (consume 4 3 (refill 0 ((new_bucket 0 15 (1/4))\<lparr>tokens := 2\<rparr>)))"
proof -
  let ?b = "(new_bucket 0 15 (1/4))\<lparr>tokens := 2\<rparr>"
  have pre: "bucket_inv ?b" "last_refill ?b \<le> 0" "(0::int) \<le> 3" "3 \<le> capacity ?b"
    by (simp_all add: bucket_inv_def new_bucket_def)
  have w: "snd (time_until_available 0 3 ?b) = Some 4"
    by (simp add: time_until_available_def refill_def new_bucket_def Let_def)
  from bucket_wait_exact [OF pre, of 0 0] w show ?thesis by simp
qed

lemma cooldown_seconds_bounds: "cooldown_seconds x = Some c \<Longrightarrow> 1 \<le> c \<and> c \<le> 3600"
proof -
  assume "cooldown_seconds x = Some c"
  then obtain y where y: "x = Some y" "0 < y" "y \<le> 3600" "c = max 1 \<lceil>y\<rceil>"
    by (auto simp: cooldown_seconds_def split: option.splits if_splits)
  then have "\<lceil>y\<rceil> \<le> 3600" by (simp add: ceiling_le_iff)
  with y(4) show ?thesis by simp
qed

lemma exhausted_cooldown_mem: "c \<in> set (exhausted_cooldown a b) \<Longrightarrow> cooldown_seconds b = Some c"
proof -
  have "exhausted_cooldown a b = [] \<or> (\<exists>k. exhausted_cooldown a b = [k] \<and> cooldown_seconds b = Some k)"
    by (auto simp: exhausted_cooldown_def split: option.split)
  moreover assume "c \<in> set (exhausted_cooldown a b)"
  ultimately show ?thesis by auto
qed

lemmas exhausted_cooldown_bounds = cooldown_seconds_bounds [OF exhausted_cooldown_mem]

lemma max_cooldown_bounds:
  assumes "max_cooldown (exhausted_cooldown a b @ exhausted_cooldown a' b') = Some c"
  shows "1 \<le> c \<and> c \<le> 3600"
proof -
  let ?cs = "exhausted_cooldown a b @ exhausted_cooldown a' b'"
  have "c \<in> set ?cs" using assms Max_in [of "set ?cs"] by (auto simp: max_cooldown_def split: if_splits)
  then show ?thesis using exhausted_cooldown_bounds [of c a b] exhausted_cooldown_bounds [of c a' b'] by auto
qed

lemma reset_both_bounds: "reset_both ck rr sr rt st p = (p', Inr (Some c)) \<Longrightarrow> 1 \<le> c \<and> c \<le> 3600"
  unfolding reset_both_def prod.inject sum.inject by (elim conjE max_cooldown_bounds)

lemma parse_openai_bounds: "parse_openai_headers dp ck h p = (p', Inr (Some c)) \<Longrightarrow> 1 \<le> c \<and> c \<le> 3600"
  by (auto simp: parse_openai_headers_def Let_def dest: reset_both_bounds
      simp del: first_safe_int.simps split: sum.splits prod.splits)

lemma parse_github_bounds: "parse_github_headers dp ck h p = (p', Inr (Some c)) \<Longrightarrow> 1 \<le> c \<and> c \<le> 3600"
  by (auto simp: parse_github_headers_def Let_def dest: parse_openai_bounds cooldown_seconds_bounds
      simp del: first_safe_int.simps first_reset_seconds.simps
      split: sum.splits prod.splits option.splits if_splits)

lemma parse_gemini_bounds: "parse_gemini_headers dp ck h p = (p', Inr (Some c)) \<Longrightarrow> 1 \<le> c \<and> c \<le> 3600"
  by (auto simp: parse_gemini_headers_def Let_def dest: reset_both_bounds
      simp del: first_safe_int.simps split: sum.splits prod.splits)

lemma parse_anthropic_bounds: "parse_anthropic_headers dp ck h p = (p', Inr (Some c)) \<Longrightarrow> 1 \<le> c \<and> c \<le> 3600"
  by (auto simp: parse_anthropic_headers_def Let_def dest: cooldown_seconds_bounds
      simp del: first_safe_int.simps first_reset_seconds.simps
      split: sum.splits option.splits if_splits)

lemmas provider_header_bounds =
  parse_openai_bounds parse_github_bounds parse_gemini_bounds parse_anthropic_bounds

lemma parse_retry_after_bounds: "parse_retry_after dp ck h = Some c \<Longrightarrow> 1 \<le> c \<and> c \<le> 3600"
  by (auto simp: parse_retry_after_def Let_def dest: cooldown_seconds_bounds simp del: first_header.simps
      split: option.splits if_splits date_value.splits)

text \<open>
  Cooldowns derived from provider headers are bounded: whatever headers a provider
  sends, a cooldown that \<open>update_from_headers\<close> returns is between one second and one hour.
\<close>

theorem header_cooldowns_bounded:
  assumes "update_from_headers dp ck model h tr = (tr', Inr (Some c))"
  shows "1 \<le> c \<and> c \<le> 3600"
  using assms parse_retry_after_bounds [of dp ck h c]
  by (auto simp: update_from_headers_def Let_def dest: provider_header_bounds
      split: option.splits if_splits prod.splits)

theorem header_cooldowns_bounded_witness:
  "\<exists>tr'. update_from_headers \<lparr>http_date = (\<lambda>_. None), iso_date = (\<lambda>_. None)\<rparr>
     \<lparr>monotonic = 0, epoch = 0, utc = 0\<rparr> ''openai:gpt'' [(''Retry-After'', ''17'')] [] = (tr', Inr (Some 17)) \<and> (17::int) \<le> 3600"
proof -
  let ?dp = "\<lparr>http_date = (\<lambda>_. None), iso_date = (\<lambda>_. None)\<rparr>" and ?ck = "\<lparr>monotonic = 0, epoch = 0, utc = 0\<rparr>"
  have "parse_retry_after ?dp ?ck [(''Retry-After'', ''17'')] = Some 17" by code_simp
  then obtain tr' where t: "update_from_headers ?dp ?ck ''openai:gpt'' [(''Retry-After'', ''17'')] [] = (tr', Inr (Some 17))"
    by (simp add: update_from_headers_def Let_def)
  from header_cooldowns_bounded [OF t] t show ?thesis by blast
qed

text \<open>
  A reset header with an ISO date that has no offset makes the parser raise: only the
  HTTP-date branch guards the subtraction of an aware date from a naive one.
\<close>

lemma naive_reset_header_raises:
  assumes "http_date dp ''2026-01-01T00:00:00'' = None" "iso_date dp ''2026-01-01T00:00:00'' = Some Naive"
  shows "snd (update_from_headers dp ck ''openai:gpt'' [(''x-ratelimit-reset-requests'', ''2026-01-01T00:00:00'')] tr) =
    Inl NaiveDateTypeError"
proof -
  let ?h = "[(''x-ratelimit-reset-requests'', ''2026-01-01T00:00:00'')]" and ?t = "''2026-01-01T00:00:00''"
  have l: "lower_headers ?h = ?h" by code_simp
  have prov: "extract_provider ''openai:gpt'' = ''openai''" by code_simp
  have s: "strip ?t = ?t" "parse_float ?t = None" "parse_duration ?t = None"
    "concat (map (\<lambda>c. if c = CHR ''Z'' then ''+00:00'' else [c]) ?t) = ?t"
    by code_simp+
  have r: "parse_reset_seconds dp ck (Some ?t) = Inl NaiveDateTypeError"
    unfolding parse_reset_seconds_def parse_iso_reset_def Let_def by (simp add: s assms)
  show ?thesis
    by (simp add: update_from_headers_def Let_def l prov parse_retry_after_def parse_openai_headers_def
        two_resets_def rbind_def r)
qed

text \<open>A request refused for its tokens has still used up a request slot.\<close>

lemma refused_request_costs_a_slot:
  "snd (can_request 0 0 ''gh:gpt'' 200000 sample_tracker) = False \<and>
   tokens (rpm_of ''gh:gpt'' (fst (can_request 0 0 ''gh:gpt'' 200000 sample_tracker))) = 14"
  by code_simp

end
