(* ===== verification/Circuit_Breaker.thy ===== *)
theory Circuit_Breaker
  imports Py_Strings
begin

text \<open>
  Model statistics and the circuit breaker of \<open>models/model_stats.py\<close>. The wall clock
  (\<open>datetime.now(UTC)\<close>) and the monotonic clock (\<open>time.monotonic()\<close>) are arguments of the
  operations that read them, \<open>random.randint\<close> the index it returns. Floats are rationals.
\<close>

section \<open>Model\<close>

datatype circuit_state = CLOSED | OPEN | HALF_OPEN

fun circuit_value :: "circuit_state \<Rightarrow> string" where
  "circuit_value CLOSED = ''closed''"
| "circuit_value OPEN = ''open''"
| "circuit_value HALF_OPEN = ''half_open''"

record latency_percentiles =
  p50 :: rat
  p75 :: rat
  p90 :: rat
  p95 :: rat
  p99 :: rat

record model_stats =
  model_id :: string
  success_count :: nat
  failure_count :: nat
  rate_limit_count :: nat
  timeout_count :: nat
  ema_latency_ms :: rat
  ema_alpha :: rat
  latency_samples :: "rat list"
  max_samples :: nat
  recent_results :: "(instant \<times> bool) list"
  window_size :: nat
  circuit :: circuit_state
  failure_threshold :: nat
  recovery_timeout_seconds :: rat
  last_failure_time :: "instant option"
  last_failure_mono :: "rat option"
  consecutive_failures :: nat
  half_open_success_required :: nat
  half_open_successes :: nat
  probe_in_progress :: bool
  last_success :: "instant option"
  last_failure :: "instant option"
  first_seen :: instant
  cooldown_until :: "instant option"
  cooldown_until_mono :: "rat option"

definition new_stats :: "string \<Rightarrow> instant \<Rightarrow> model_stats" where
  "new_stats m now =
     \<lparr>model_id = m, success_count = 0, failure_count = 0, rate_limit_count = 0, timeout_count = 0,
      ema_latency_ms = 0, ema_alpha = 1/5, latency_samples = [], max_samples = 1000,
      recent_results = [], window_size = 50, circuit = CLOSED, failure_threshold = 5,
      recovery_timeout_seconds = 60, last_failure_time = None, last_failure_mono = None,
      consecutive_failures = 0, half_open_success_required = 2, half_open_successes = 0,
      probe_in_progress = False, last_success = None, last_failure = None, first_seen = now,
      cooldown_until = None, cooldown_until_mono = None\<rparr>"

subsection \<open>Derived values\<close>

definition total_calls :: "model_stats \<Rightarrow> nat" where
  "total_calls s = success_count s + failure_count s"

definition stats_success_rate :: "model_stats \<Rightarrow> rat" where
  "stats_success_rate s =
     (if total_calls s = 0 then 1 else of_nat (success_count s) / of_nat (total_calls s))"

definition recent_success_rate :: "model_stats \<Rightarrow> rat" where
  "recent_success_rate s =
     (if recent_results s = [] then 1
      else of_nat (length (filter snd (recent_results s))) / of_nat (length (recent_results s)))"

text \<open>\<open>int(p * n)\<close> truncates; \<open>p\<close> is positive.\<close>

definition get_percentile :: "rat list \<Rightarrow> rat \<Rightarrow> rat" where
  "get_percentile xs p = xs ! min (nat \<lfloor>p * of_nat (length xs)\<rfloor>) (length xs - 1)"

definition percentiles :: "model_stats \<Rightarrow> latency_percentiles" where
  "percentiles s =
     (if latency_samples s = [] then \<lparr>p50 = 0, p75 = 0, p90 = 0, p95 = 0, p99 = 0\<rparr>
      else let xs = sort (latency_samples s)
           in \<lparr>p50 = get_percentile xs (50/100), p75 = get_percentile xs (75/100),
               p90 = get_percentile xs (90/100), p95 = get_percentile xs (95/100),
               p99 = get_percentile xs (99/100)\<rparr>)"

definition is_in_cooldown :: "rat \<Rightarrow> model_stats \<Rightarrow> bool" where
  "is_in_cooldown mt s = (case cooldown_until_mono s of None \<Rightarrow> False | Some t \<Rightarrow> mt < t)"

definition cooldown_remaining_seconds :: "rat \<Rightarrow> model_stats \<Rightarrow> rat" where
  "cooldown_remaining_seconds mt s =
     (case cooldown_until_mono s of None \<Rightarrow> 0 | Some t \<Rightarrow> max 0 (t - mt))"

definition is_healthy :: "rat \<Rightarrow> model_stats \<Rightarrow> bool" where
  "is_healthy mt s =
     (if circuit s = OPEN then False
      else if is_in_cooldown mt s then False
      else if length (recent_results s) \<ge> 5 \<and> recent_success_rate s < 1/2 then False
      else True)"

subsection \<open>Recording\<close>

definition push_recent :: "instant \<times> bool \<Rightarrow> model_stats \<Rightarrow> model_stats" where
  "push_recent r s =
     (let rs = recent_results s @ [r]
      in s\<lparr>recent_results := (if length rs > window_size s then tl rs else rs)\<rparr>)"

definition update_ema :: "rat \<Rightarrow> model_stats \<Rightarrow> model_stats" where
  "update_ema latency s =
     s\<lparr>ema_latency_ms := (if ema_latency_ms s = 0 then latency
        else ema_alpha s * latency + (1 - ema_alpha s) * ema_latency_ms s)\<rparr>"

definition update_samples :: "nat \<Rightarrow> rat \<Rightarrow> model_stats \<Rightarrow> model_stats" where
  "update_samples idx latency s =
     s\<lparr>latency_samples := (if length (latency_samples s) < max_samples s
        then insort latency (latency_samples s)
        else sort ((latency_samples s)[idx := latency]))\<rparr>"

definition circuit_success :: "model_stats \<Rightarrow> model_stats" where
  "circuit_success s =
     (let s1 = s\<lparr>consecutive_failures := 0\<rparr>
      in if circuit s1 = HALF_OPEN
         then let s2 = s1\<lparr>half_open_successes := half_open_successes s1 + 1\<rparr>
              in if half_open_successes s2 \<ge> half_open_success_required s2
                 then s2\<lparr>circuit := CLOSED, half_open_successes := 0\<rparr> else s2
         else s1)"

definition record_success :: "instant \<Rightarrow> nat \<Rightarrow> rat \<Rightarrow> model_stats \<Rightarrow> model_stats" where
  "record_success wall idx latency s =
     circuit_success (push_recent (wall, True) (update_samples idx latency (update_ema latency
       (s\<lparr>success_count := success_count s + 1, last_success := Some wall\<rparr>))))"

definition circuit_failure :: "model_stats \<Rightarrow> model_stats" where
  "circuit_failure s =
     (let s1 = s\<lparr>consecutive_failures := consecutive_failures s + 1\<rparr>
      in if circuit s1 = HALF_OPEN then s1\<lparr>circuit := OPEN, half_open_successes := 0\<rparr>
         else if consecutive_failures s1 \<ge> failure_threshold s1 then s1\<lparr>circuit := OPEN\<rparr>
         else s1)"

definition record_failure :: "instant \<Rightarrow> rat \<Rightarrow> model_stats \<Rightarrow> model_stats" where
  "record_failure wall mt s =
     circuit_failure (push_recent (wall, False)
       (s\<lparr>failure_count := failure_count s + 1, last_failure := Some wall,
          last_failure_time := Some wall, last_failure_mono := Some mt\<rparr>))"

definition set_cooldown :: "instant \<Rightarrow> rat \<Rightarrow> rat \<Rightarrow> model_stats \<Rightarrow> model_stats" where
  "set_cooldown wall mt secs s =
     s\<lparr>cooldown_until_mono := Some (mt + secs), cooldown_until := Some (wall + secs)\<rparr>"

definition clear_cooldown :: "model_stats \<Rightarrow> model_stats" where
  "clear_cooldown s = s\<lparr>cooldown_until_mono := None, cooldown_until := None\<rparr>"

definition record_rate_limit :: "instant \<Rightarrow> rat \<Rightarrow> rat option \<Rightarrow> model_stats \<Rightarrow> model_stats" where
  "record_rate_limit wall mt retry_after s =
     set_cooldown wall mt (case retry_after of None \<Rightarrow> 120 | Some r \<Rightarrow> r)
       (record_failure wall mt (s\<lparr>rate_limit_count := rate_limit_count s + 1\<rparr>))"

definition record_timeout :: "instant \<Rightarrow> rat \<Rightarrow> model_stats \<Rightarrow> model_stats" where
  "record_timeout wall mt s = record_failure wall mt (s\<lparr>timeout_count := timeout_count s + 1\<rparr>)"

definition check_circuit :: "instant \<Rightarrow> rat \<Rightarrow> model_stats \<Rightarrow> model_stats \<times> bool" where
  "check_circuit wall mt s =
     (case circuit s of
        CLOSED \<Rightarrow> (s, True)
      | OPEN \<Rightarrow>
          (case last_failure_mono s of
             Some t \<Rightarrow>
               (if mt - t \<ge> recovery_timeout_seconds s then (s\<lparr>circuit := HALF_OPEN\<rparr>, True)
                else (s, False))
           | None \<Rightarrow>
               (case last_failure_time s of
                  Some t \<Rightarrow>
                    (if wall - t \<ge> recovery_timeout_seconds s then (s\<lparr>circuit := HALF_OPEN\<rparr>, True)
                     else (s, False))
                | None \<Rightarrow> (s, False)))
      | HALF_OPEN \<Rightarrow> (s, \<not> probe_in_progress s))"

subsection \<open>Persistence\<close>

text \<open>The persisted form: dates stand for their ISO text; \<open>from_dict\<close> ignores the derived
  rates and percentiles, and a missing or \<open>None\<close> date reads as absent.\<close>

record stats_dict =
  d_model_id :: string
  d_success_count :: nat
  d_failure_count :: nat
  d_rate_limit_count :: nat
  d_timeout_count :: nat
  d_ema_latency_ms :: rat
  d_circuit_state :: string
  d_last_success :: "instant option"
  d_last_failure :: "instant option"
  d_first_seen :: "instant option"
  d_cooldown_until :: "instant option"
  d_success_rate :: rat
  d_recent_success_rate :: rat
  d_percentiles :: latency_percentiles

definition to_dict :: "model_stats \<Rightarrow> stats_dict" where
  "to_dict s =
     \<lparr>d_model_id = model_id s, d_success_count = success_count s, d_failure_count = failure_count s,
      d_rate_limit_count = rate_limit_count s, d_timeout_count = timeout_count s,
      d_ema_latency_ms = ema_latency_ms s, d_circuit_state = circuit_value (circuit s),
      d_last_success = last_success s, d_last_failure = last_failure s,
      d_first_seen = Some (first_seen s), d_cooldown_until = cooldown_until s,
      d_success_rate = stats_success_rate s, d_recent_success_rate = recent_success_rate s,
      d_percentiles = percentiles s\<rparr>"

datatype stats_error = UnknownCircuitState string

definition parse_circuit :: "string \<Rightarrow> stats_error + circuit_state" where
  "parse_circuit v =
     (if v = ''closed'' then Inr CLOSED
      else if v = ''open'' then Inr OPEN
      else if v = ''half_open'' then Inr HALF_OPEN
      else Inl (UnknownCircuitState v))"

definition from_dict :: "instant \<Rightarrow> rat \<Rightarrow> stats_dict \<Rightarrow> stats_error + model_stats" where
  "from_dict wall mt d =
     rbind (parse_circuit (d_circuit_state d)) (\<lambda>c.
       let s0 = new_stats (d_model_id d) wall;
           s1 = s0\<lparr>success_count := d_success_count d, failure_count := d_failure_count d,
                   rate_limit_count := d_rate_limit_count d, timeout_count := d_timeout_count d,
                   ema_latency_ms := d_ema_latency_ms d, circuit := c\<rparr>;
           s2 = s1\<lparr>last_success := d_last_success d\<rparr>;
           s3 = (case d_last_failure d of None \<Rightarrow> s2
                 | Some t \<Rightarrow> s2\<lparr>last_failure := Some t, last_failure_time := Some t\<rparr>);
           s4 = (case d_first_seen d of None \<Rightarrow> s3 | Some t \<Rightarrow> s3\<lparr>first_seen := t\<rparr>);
           s5 = (case d_cooldown_until d of None \<Rightarrow> s4
                 | Some t \<Rightarrow> s4\<lparr>cooldown_until := Some t,
                     cooldown_until_mono := (if t - wall > 0 then Some (mt + (t - wall)) else None)\<rparr>)
       in Inr s5)"

section \<open>Reachable statistics\<close>

text \<open>The probe flag belongs to the router, which sets it and clears it.\<close>

inductive stats_step :: "model_stats \<Rightarrow> model_stats \<Rightarrow> bool" where
  step_success: "idx < length (latency_samples s) \<or> latency_samples s = [] \<Longrightarrow>
     stats_step s (record_success wall idx latency s)"
| step_failure: "stats_step s (record_failure wall mt s)"
| step_rate_limit: "stats_step s (record_rate_limit wall mt ra s)"
| step_timeout: "stats_step s (record_timeout wall mt s)"
| step_check: "stats_step s (fst (check_circuit wall mt s))"
| step_cooldown: "stats_step s (set_cooldown wall mt secs s)"
| step_clear: "stats_step s (clear_cooldown s)"
| step_probe: "stats_step s (s\<lparr>probe_in_progress := b\<rparr>)"

inductive_cases stats_stepE: "stats_step s s'"

definition stats_inv :: "model_stats \<Rightarrow> bool" where
  "stats_inv s \<longleftrightarrow>
     0 < failure_threshold s \<and> 0 < half_open_success_required s \<and> 0 < window_size s \<and>
     (circuit s = CLOSED \<longrightarrow> consecutive_failures s < failure_threshold s) \<and>
     (circuit s \<noteq> HALF_OPEN \<longrightarrow> half_open_successes s = 0) \<and>
     half_open_successes s < half_open_success_required s \<and>
     (circuit s \<noteq> CLOSED \<longrightarrow> last_failure s \<noteq> None) \<and>
     length (recent_results s) \<le> window_size s \<and>
     sorted (latency_samples s) \<and> length (latency_samples s) \<le> max_samples s \<and>
     (last_failure_time s = last_failure s)"

lemma new_stats_inv: "stats_inv (new_stats m now)"
  by (simp add: stats_inv_def new_stats_def)

lemma record_success_inv: "stats_inv s \<Longrightarrow> stats_inv (record_success wall idx latency s)"
  by (auto simp: stats_inv_def record_success_def circuit_success_def push_recent_def update_samples_def
      update_ema_def Let_def sorted_insort simp del: not_None_eq)

lemma record_failure_inv: "stats_inv s \<Longrightarrow> stats_inv (record_failure wall mt s)"
  by (auto simp: stats_inv_def record_failure_def circuit_failure_def push_recent_def Let_def)

lemma stats_inv_counters [simp]:
  "stats_inv (s\<lparr>rate_limit_count := k\<rparr>) = stats_inv s"
  "stats_inv (s\<lparr>timeout_count := k\<rparr>) = stats_inv s"
  "stats_inv (s\<lparr>probe_in_progress := b\<rparr>) = stats_inv s"
  "stats_inv (set_cooldown wall mt secs s) = stats_inv s"
  "stats_inv (clear_cooldown s) = stats_inv s"
  by (auto simp: stats_inv_def set_cooldown_def clear_cooldown_def)

lemma check_circuit_inv: "stats_inv s \<Longrightarrow> stats_inv (fst (check_circuit wall mt s))"
  by (auto simp: stats_inv_def check_circuit_def split: circuit_state.splits option.splits)

lemma stats_step_inv: "stats_step s s' \<Longrightarrow> stats_inv s \<Longrightarrow> stats_inv s'"
  by (erule stats_stepE)
     (auto simp: record_success_inv record_failure_inv check_circuit_inv record_rate_limit_def record_timeout_def)

lemma parse_circuit_value [simp]: "parse_circuit (circuit_value c) = Inr c"
  by (cases c) (auto simp: parse_circuit_def)

section \<open>Runs of failures and successes\<close>

lemma record_failure_circuit [simp]:
  "circuit (record_failure wall mt s) =
     (if circuit s = HALF_OPEN then OPEN
      else if Suc (consecutive_failures s) \<ge> failure_threshold s then OPEN else circuit s)"
  "consecutive_failures (record_failure wall mt s) = Suc (consecutive_failures s)"
  "failure_threshold (record_failure wall mt s) = failure_threshold s"
  "last_failure_mono (record_failure wall mt s) = Some mt"
  "recovery_timeout_seconds (record_failure wall mt s) = recovery_timeout_seconds s"
  by (auto simp: record_failure_def circuit_failure_def push_recent_def Let_def)

lemma record_success_circuit [simp]:
  "circuit (record_success wall idx latency s) =
     (if circuit s = HALF_OPEN \<and> Suc (half_open_successes s) \<ge> half_open_success_required s
      then CLOSED else circuit s)"
  "consecutive_failures (record_success wall idx latency s) = 0"
  by (auto simp: record_success_def circuit_success_def push_recent_def update_samples_def update_ema_def Let_def)

text \<open>A run of failures without a success between them.\<close>

definition fail_run :: "(instant \<times> rat) list \<Rightarrow> model_stats \<Rightarrow> model_stats" where
  "fail_run ts s = fold (\<lambda>(w, m). record_failure w m) ts s"

lemma fail_run_closed:
  "circuit s = CLOSED \<Longrightarrow>
     circuit (fail_run ts s) =
       (if ts \<noteq> [] \<and> consecutive_failures s + length ts \<ge> failure_threshold s then OPEN else CLOSED)"
proof (induction ts arbitrary: s)
  case Nil
  then show ?case by (simp add: fail_run_def)
next
  case (Cons t ts)
  obtain w m where t: "t = (w, m)" by fastforce
  let ?s = "record_failure w m s"
  have open_stays: "circuit u = OPEN \<Longrightarrow> circuit (fail_run us u) = OPEN" for us u
    by (induction us arbitrary: u) (auto simp: fail_run_def)
  have step: "fail_run (t # ts) s = fail_run ts ?s" by (simp add: fail_run_def t)
  show ?case
  proof (cases "Suc (consecutive_failures s) \<ge> failure_threshold s")
    case True
    then have "circuit ?s = OPEN" using Cons.prems by simp
    from open_stays [OF this] True show ?thesis by (simp add: step)
  next
    case False
    then have "circuit ?s = CLOSED" using Cons.prems by simp
    from Cons.IH [OF this] False show ?thesis unfolding step by (cases ts) simp_all
  qed
qed

lemma sorted_get_percentile:
  assumes "xs \<noteq> []" "sorted xs" "0 \<le> p" "p \<le> q"
  shows "get_percentile xs p \<le> get_percentile xs q"
proof -
  have "p * of_nat (length xs) \<le> q * of_nat (length xs)" using assms(4) by (intro mult_right_mono) auto
  then have "\<lfloor>p * of_nat (length xs)\<rfloor> \<le> \<lfloor>q * of_nat (length xs)\<rfloor>" by (rule floor_mono)
  then have "min (nat \<lfloor>p * of_nat (length xs)\<rfloor>) (length xs - 1) \<le> min (nat \<lfloor>q * of_nat (length xs)\<rfloor>) (length xs - 1)"
    by (intro min.mono nat_mono) auto
  moreover have "min (nat \<lfloor>q * of_nat (length xs)\<rfloor>) (length xs - 1) < length xs"
    using assms(1) by (cases xs) auto
  ultimately show ?thesis unfolding get_percentile_def by (intro sorted_nth_mono [OF assms(2)]) auto
qed

section \<open>Properties\<close>

text \<open>
  C12. The statistics of a model stay consistent over every sequence of recordings, checks,
  cooldowns and probes: a closed circuit has seen fewer consecutive failures than the
  threshold, an open one remembers a failure to time its recovery by, successes are counted
  only while half open and below the number that closes it, the window and the latency
  reservoir stay within their sizes, and the reservoir is sorted.
\<close>

theorem stats_invariant:
  assumes "stats_step\<^sup>*\<^sup>* (new_stats m now) s"
  shows "(circuit s = CLOSED \<longrightarrow> consecutive_failures s < failure_threshold s) \<and>
    (circuit s \<noteq> CLOSED \<longrightarrow> last_failure_time s \<noteq> None) \<and>
    (circuit s \<noteq> HALF_OPEN \<longrightarrow> half_open_successes s = 0) \<and>
    half_open_successes s < half_open_success_required s \<and>
    length (recent_results s) \<le> window_size s \<and> length (latency_samples s) \<le> max_samples s \<and>
    sorted (latency_samples s)"
proof -
  have "stats_inv s"
    using assms by (induction rule: rtranclp_induct) (auto intro: new_stats_inv stats_step_inv)
  then show ?thesis by (simp add: stats_inv_def)
qed

theorem stats_invariant_witness:
  "length (recent_results (record_failure 1 1 (new_stats ''m'' 0))) \<le> 50"
proof -
  have "stats_step\<^sup>*\<^sup>* (new_stats ''m'' 0) (record_failure 1 1 (new_stats ''m'' 0))"
    by (rule r_into_rtranclp) (rule step_failure)
  from stats_invariant [OF this] show ?thesis
    by (simp add: record_failure_def circuit_failure_def push_recent_def Let_def new_stats_def)
qed

text \<open>
  The breaker opens exactly at its threshold: from a closed circuit, a run of failures
  without a success between them opens it when the consecutive failures reach the
  threshold, and not before; a single success starts the count over.
\<close>

theorem circuit_opens_at_threshold:
  assumes "circuit s = CLOSED" "consecutive_failures s < failure_threshold s"
  shows "circuit (fold (\<lambda>(w, m). record_failure w m) ts s) =
      (if consecutive_failures s + length ts \<ge> failure_threshold s then OPEN else CLOSED) \<and>
    consecutive_failures (record_success wall idx latency s) = 0"
  using fail_run_closed [OF assms(1), of ts] assms(2) by (auto simp: fail_run_def)

theorem circuit_opens_at_threshold_witness:
  "circuit (fold (\<lambda>(w, m). record_failure w m) (replicate 5 (0, 0)) (new_stats ''m'' 0)) = OPEN"
  using circuit_opens_at_threshold [of "new_stats ''m'' 0" "replicate 5 (0, 0)"] by (simp add: new_stats_def)

text \<open>
  The breaker always recovers: an open circuit, in memory or reloaded from its persisted
  form, refuses requests until the recovery timeout after the last failure has passed and
  then admits a probe as half open; a failure of the probe opens it again, and the
  required number of successes closes it.
\<close>

theorem circuit_recovers:
  assumes "stats_inv s" "circuit s = OPEN"
  shows "last_failure_time s \<noteq> None \<and>
    check_circuit wall mt s =
      (if (case last_failure_mono s of Some t \<Rightarrow> mt - t | None \<Rightarrow> wall - the (last_failure_time s))
            \<ge> recovery_timeout_seconds s
       then (s\<lparr>circuit := HALF_OPEN\<rparr>, True) else (s, False)) \<and>
    circuit (record_failure w m (s\<lparr>circuit := HALF_OPEN\<rparr>)) = OPEN \<and>
    circuit (fold (\<lambda>_. record_success w idx latency) [0..<half_open_success_required s] (s\<lparr>circuit := HALF_OPEN\<rparr>)) = CLOSED"
proof -
  have closes: "circuit u = HALF_OPEN \<Longrightarrow> half_open_successes u + length xs = half_open_success_required u \<Longrightarrow>
      xs \<noteq> [] \<Longrightarrow> circuit (fold (\<lambda>_. record_success w idx latency) xs u) = CLOSED" for xs :: "nat list" and u
  proof (induction xs arbitrary: u)
    case (Cons x xs)
    let ?u = "record_success w idx latency u"
    show ?case
    proof (cases "xs = []")
      case True
      with Cons.prems show ?thesis by simp
    next
      case False
      with Cons.prems have "circuit ?u = HALF_OPEN" by (cases xs) auto
      moreover have "half_open_successes ?u = Suc (half_open_successes u)"
        "half_open_success_required ?u = half_open_success_required u"
        using Cons.prems False
        by (cases xs; simp add: record_success_def circuit_success_def push_recent_def update_samples_def
            update_ema_def Let_def)+
      ultimately show ?thesis using Cons.IH [of ?u] Cons.prems False by simp
    qed
  qed simp
  have "circuit (fold (\<lambda>_. record_success w idx latency) [0..<half_open_success_required s] (s\<lparr>circuit := HALF_OPEN\<rparr>)) = CLOSED"
    using assms by (intro closes) (auto simp: stats_inv_def)
  moreover have "last_failure_time s \<noteq> None" using assms by (simp add: stats_inv_def)
  ultimately show ?thesis
    using assms(2) by (cases "last_failure_mono s") (auto simp: check_circuit_def)
qed

definition opened_stats :: model_stats where
  "opened_stats = (new_stats ''m'' 0)\<lparr>circuit := OPEN, last_failure := Some 3, last_failure_time := Some 3\<rparr>"

theorem circuit_recovers_witness:
  "check_circuit 70 0 opened_stats = (opened_stats\<lparr>circuit := HALF_OPEN\<rparr>, True)"
proof -
  have "stats_inv opened_stats" "circuit opened_stats = OPEN"
    by (simp_all add: opened_stats_def new_stats_def stats_inv_def)
  note r = circuit_recovers [OF this, where wall = 70 and mt = 0]
  have "last_failure_mono opened_stats = None" "last_failure_time opened_stats = Some 3"
    "recovery_timeout_seconds opened_stats = 60"
    by (simp_all add: opened_stats_def new_stats_def)
  with r show ?thesis by simp
qed

text \<open>
  Persistence keeps what decides about a model: reloading a persisted model gives back
  its counters, its latency average, its circuit state and dates, an active cooldown with
  the remaining time on the new monotonic clock, and again a consistent state.
\<close>

theorem stats_persistence_round_trip:
  assumes "stats_inv s"
  shows "\<exists>s'. from_dict wall mt (to_dict s) = Inr s' \<and> success_count s' = success_count s \<and>
    failure_count s' = failure_count s \<and> rate_limit_count s' = rate_limit_count s \<and>
    timeout_count s' = timeout_count s \<and> ema_latency_ms s' = ema_latency_ms s \<and>
    circuit s' = circuit s \<and> last_success s' = last_success s \<and> last_failure s' = last_failure s \<and>
    last_failure_time s' = last_failure_time s \<and> first_seen s' = first_seen s \<and>
    cooldown_until s' = cooldown_until s \<and>
    (\<forall>t. cooldown_until s = Some t \<longrightarrow> cooldown_remaining_seconds mt s' = max 0 (t - wall)) \<and>
    stats_inv s'"
  using assms
  by (auto simp: from_dict_def to_dict_def Let_def new_stats_def stats_inv_def cooldown_remaining_seconds_def
      split: option.splits)

theorem stats_persistence_round_trip_witness:
  "\<exists>s'. from_dict 5 9 (to_dict opened_stats) = Inr s' \<and> circuit s' = OPEN"
  using stats_persistence_round_trip [of opened_stats 5 9]
  by (auto simp: opened_stats_def new_stats_def stats_inv_def)

text \<open>
  Percentiles are ordered: p50, p75, p90, p95 and p99 of a model are nondecreasing, and
  with samples each of them is one of the samples; success rates lie between 0 and 1.
\<close>

theorem percentiles_ordered:
  "p50 (percentiles s) \<le> p75 (percentiles s) \<and> p75 (percentiles s) \<le> p90 (percentiles s) \<and>
   p90 (percentiles s) \<le> p95 (percentiles s) \<and> p95 (percentiles s) \<le> p99 (percentiles s) \<and>
   (latency_samples s = [] \<or> p99 (percentiles s) \<in> set (latency_samples s)) \<and>
   0 \<le> stats_success_rate s \<and> stats_success_rate s \<le> 1 \<and>
   0 \<le> recent_success_rate s \<and> recent_success_rate s \<le> 1"
proof -
  have "p50 (percentiles s) \<le> p75 (percentiles s) \<and> p75 (percentiles s) \<le> p90 (percentiles s) \<and>
     p90 (percentiles s) \<le> p95 (percentiles s) \<and> p95 (percentiles s) \<le> p99 (percentiles s) \<and>
     (latency_samples s = [] \<or> p99 (percentiles s) \<in> set (latency_samples s))"
  proof (cases "latency_samples s = []")
    case True
    then show ?thesis by (simp add: percentiles_def)
  next
    case False
    let ?xs = "sort (latency_samples s)"
    have ne: "?xs \<noteq> []" using False by (metis set_empty set_sort)
    have "get_percentile ?xs (99/100) \<in> set ?xs"
      unfolding get_percentile_def using ne by (intro nth_mem) (cases ?xs; simp)
    with False sorted_get_percentile [OF ne] show ?thesis by (simp add: percentiles_def Let_def)
  qed
  moreover have "0 \<le> stats_success_rate s \<and> stats_success_rate s \<le> 1"
    by (auto simp: stats_success_rate_def total_calls_def divide_le_eq simp flip: of_nat_add)
  moreover have "length (filter snd (recent_results s)) \<le> length (recent_results s)" by simp
  then have "0 \<le> recent_success_rate s \<and> recent_success_rate s \<le> 1"
    by (auto simp: recent_success_rate_def divide_le_eq)
  ultimately show ?thesis by blast
qed

end
