(* ===== verification/Consensus.thy ===== *)
theory Consensus
  imports Py_Numbers "HOL-Library.Multiset"
begin

text \<open>
  Majority voting and self-consistency of \<open>engine/consensus.py\<close>. The text that \<open>json.dumps\<close>
  (with sorted keys) or \<open>repr\<close> gives for a value that is no string is a parameter, as are the
  caller's \<open>key\<close> and \<open>extract\<close> functions and the outcomes of the concurrent generator calls.
\<close>

section \<open>Model\<close>

record consensus_result =
  winner :: pyval
  votes :: "(string \<times> nat) list"
  total_samples :: nat
  agreement :: rat
  tied :: bool
  meets_threshold :: bool
  failed_samples :: nat
  samples :: "pyval list"

definition canonical_key :: "(pyval \<Rightarrow> string) \<Rightarrow> pyval \<Rightarrow> string" where
  "canonical_key text_of v = (case v of PStr s \<Rightarrow> strip (lower s) | _ \<Rightarrow> text_of v)"

datatype consensus_error = ConfigurationError pyval | BadSampleCount int | AllSamplesFailed int | SampleRaised string

definition to_float :: "pyval \<Rightarrow> rat option" where
  "to_float v =
     (case v of
        PBool b \<Rightarrow> Some (if b then 1 else 0)
      | PInt k \<Rightarrow> Some (of_int k)
      | PFloat x \<Rightarrow> Some x
      | PStr s \<Rightarrow> parse_float s
      | _ \<Rightarrow> None)"

definition coerce_min_agreement :: "pyval \<Rightarrow> consensus_error + rat" where
  "coerce_min_agreement raw =
     (if raw = PNone then Inr 0
      else case to_float raw of
             None \<Rightarrow> Inl (ConfigurationError raw)
           | Some x \<Rightarrow> if \<not> (0 \<le> x \<and> x \<le> 1) then Inl (ConfigurationError raw) else Inr x)"

definition resolve_key_fn :: "(pyval \<Rightarrow> string) \<Rightarrow> (pyval \<Rightarrow> string) option \<Rightarrow> pyval \<Rightarrow> string" where
  "resolve_key_fn text_of key = (case key of Some k \<Rightarrow> k | None \<Rightarrow> canonical_key text_of)"

definition pick_winner :: "(string \<times> nat) list \<Rightarrow> (string \<times> pyval) list \<Rightarrow> pyval \<times> nat \<times> bool" where
  "pick_winner vs first_seen =
     (let max_count = Max (set (map snd vs));
          top_keys = map fst (filter (\<lambda>kc. snd kc = max_count) vs)
      in (the (map_of first_seen (hd top_keys)), max_count, length top_keys > 1))"

text \<open>One turn of the counting loop: the bucket's count, and its first sample.\<close>

definition cast_vote ::
  "(pyval \<Rightarrow> string) \<Rightarrow> (pyval \<Rightarrow> pyval) option \<Rightarrow> pyval \<Rightarrow>
    (string \<times> nat) list \<times> (string \<times> pyval) list \<Rightarrow> (string \<times> nat) list \<times> (string \<times> pyval) list" where
  "cast_vote key_fn extract raw s =
     (let candidate = (case extract of Some f \<Rightarrow> f raw | None \<Rightarrow> raw);
          bucket = key_fn candidate;
          n = (case map_of (fst s) bucket of None \<Rightarrow> 0 | Some n \<Rightarrow> n)
      in (AList.update bucket (n + 1) (fst s),
          if map_of (snd s) bucket = None then AList.update bucket raw (snd s) else snd s))"

definition majority_vote ::
  "(pyval \<Rightarrow> string) \<Rightarrow> (pyval \<Rightarrow> string) option \<Rightarrow> rat \<Rightarrow> (pyval \<Rightarrow> pyval) option \<Rightarrow> pyval list \<Rightarrow> consensus_result" where
  "majority_vote text_of key min_agreement extract raw_samples =
     (case fold (cast_vote (resolve_key_fn text_of key) extract) raw_samples ([], []) of (vs, first_seen) \<Rightarrow>
        let total = length raw_samples
        in if total = 0
           then \<lparr>winner = PNone, votes = [], total_samples = 0, agreement = 0, tied = False,
                 meets_threshold = (min_agreement \<le> 0), failed_samples = 0, samples = raw_samples\<rparr>
           else case pick_winner vs first_seen of (w, winner_votes, t) \<Rightarrow>
                  let agree = of_nat winner_votes / of_nat total
                  in \<lparr>winner = w, votes = vs, total_samples = total, agreement = agree, tied = t,
                      meets_threshold = (agree \<ge> min_agreement), failed_samples = 0, samples = raw_samples\<rparr>)"

text \<open>The results of \<open>asyncio.gather\<close>: a sample, or the exception a call raised.\<close>

definition partition_results :: "(string + pyval) list \<Rightarrow> pyval list \<times> nat" where
  "partition_results results =
     (let successes = [v. Inr v \<leftarrow> results] in (successes, length results - length successes))"

text \<open>Without \<open>return_exceptions\<close> an exception propagates: here the first one in the order the
  calls finish, given as the list of the exceptions in that order.\<close>

definition self_consistency ::
  "(pyval \<Rightarrow> string) \<Rightarrow> (int \<Rightarrow> (string + pyval) list \<times> string list) \<Rightarrow> int \<Rightarrow> (pyval \<Rightarrow> string) option \<Rightarrow> rat \<Rightarrow>
    (pyval \<Rightarrow> pyval) option \<Rightarrow> bool \<Rightarrow> consensus_error + consensus_result" where
  "self_consistency text_of run n key min_agreement extract return_exceptions =
     (if n < 1 then Inl (BadSampleCount n)
      else case run n of (results, raised) \<Rightarrow>
             if \<not> return_exceptions \<and> raised \<noteq> [] then Inl (SampleRaised (hd raised))
             else case partition_results results of (successes, failed) \<Rightarrow>
                    if successes = [] then Inl (AllSamplesFailed n)
                    else Inr ((majority_vote text_of key min_agreement extract successes)
                               \<lparr>failed_samples := failed\<rparr>))"

section \<open>The vote counts\<close>

definition bucket_of ::
  "(pyval \<Rightarrow> string) \<Rightarrow> (pyval \<Rightarrow> string) option \<Rightarrow> (pyval \<Rightarrow> pyval) option \<Rightarrow> pyval \<Rightarrow> string" where
  "bucket_of text_of key extract raw =
     resolve_key_fn text_of key (case extract of Some f \<Rightarrow> f raw | None \<Rightarrow> raw)"

text \<open>Specification: how often a bucket occurs among the samples.\<close>

definition tally :: "('a \<Rightarrow> string) \<Rightarrow> 'a list \<Rightarrow> string \<Rightarrow> nat" where
  "tally b xs k = length (filter (\<lambda>x. b x = k) xs)"

definition top_count :: "('a \<Rightarrow> string) \<Rightarrow> 'a list \<Rightarrow> nat" where
  "top_count b xs = Max (set (map (tally b xs \<circ> b) xs))"

text \<open>The keys of the dictionaries are the buckets in the order of their first occurrence.\<close>

fun first_occurrences :: "'a list \<Rightarrow> 'a list" where
  "first_occurrences [] = []"
| "first_occurrences (x # xs) = x # filter (\<lambda>y. y \<noteq> x) (first_occurrences xs)"

lemma set_first_occurrences [simp]: "set (first_occurrences xs) = set xs"
  by (induction xs) auto

lemma distinct_first_occurrences [simp]: "distinct (first_occurrences xs)"
  by (induction xs) auto

lemma first_occurrences_snoc:
  "first_occurrences (xs @ [x]) = (if x \<in> set xs then first_occurrences xs else first_occurrences xs @ [x])"
  by (induction xs) auto

lemma map_fst_update: "map fst (AList.update k v d) = (if k \<in> set (map fst d) then map fst d else map fst d @ [k])"
  by (induction d) auto

definition counted :: "('a \<Rightarrow> string) \<Rightarrow> 'a list \<Rightarrow> (string \<times> nat) list \<Rightarrow> (string \<times> 'a) list \<Rightarrow> bool" where
  "counted b xs vs fs \<longleftrightarrow>
     map fst vs = first_occurrences (map b xs) \<and> (\<forall>k\<in>b ` set xs. map_of vs k = Some (tally b xs k)) \<and>
     map_of fs = (\<lambda>k. List.find (\<lambda>x. b x = k) xs)"

lemma find_snoc: "List.find P (xs @ [x]) = (case List.find P xs of Some y \<Rightarrow> Some y | None \<Rightarrow> if P x then Some x else None)"
  by (induction xs) auto

lemma find_bucket_None: "List.find (\<lambda>x. b x = k) xs = None \<longleftrightarrow> k \<notin> b ` set xs"
  by (auto simp: find_None_iff)

lemma counted_snoc:
  assumes "counted b xs vs fs" "b = bucket_of text_of key extract"
  shows "case cast_vote (resolve_key_fn text_of key) extract x (vs, fs) of (vs', fs') \<Rightarrow> counted b (xs @ [x]) vs' fs'"
proof -
  have b: "resolve_key_fn text_of key (case extract of None \<Rightarrow> x | Some f \<Rightarrow> f x) = b x"
    by (simp add: assms(2) bucket_of_def)
  have keys: "set (map fst vs) = b ` set xs" using assms(1) by (metis counted_def set_first_occurrences set_map)
  have n: "(case map_of vs (b x) of None \<Rightarrow> 0 | Some n \<Rightarrow> n) = tally b xs (b x)"
  proof (cases "b x \<in> b ` set xs")
    case True
    with assms(1) show ?thesis by (auto simp: counted_def)
  next
    case False
    then have "map_of vs (b x) = None" using keys by (simp add: map_of_eq_None_iff)
    moreover have "b y \<noteq> b x" if "y \<in> set xs" for y using False that by (metis imageI)
    then have "tally b xs (b x) = 0" by (simp add: tally_def filter_empty_conv)
    ultimately show ?thesis by simp
  qed
  have t: "tally b (xs @ [x]) k = tally b xs k + (if b x = k then 1 else 0)" for k
    by (simp add: tally_def)
  have first: "map fst (AList.update (b x) (tally b xs (b x) + 1) vs) = first_occurrences (map b (xs @ [x]))"
    using assms(1) keys by (simp add: map_fst_update first_occurrences_snoc counted_def)
  have cnt: "\<forall>k\<in>b ` set (xs @ [x]). map_of (AList.update (b x) (tally b xs (b x) + 1) vs) k = Some (tally b (xs @ [x]) k)"
    using assms(1) by (auto simp: counted_def t)
  have fs: "map_of (if map_of fs (b x) = None then AList.update (b x) x fs else fs) =
      (\<lambda>k. List.find (\<lambda>y. b y = k) (xs @ [x]))"
  proof -
    have m: "map_of fs = (\<lambda>k. List.find (\<lambda>y. b y = k) xs)" using assms(1) by (simp add: counted_def)
    show ?thesis
      by (cases "List.find (\<lambda>y. b y = b x) xs") (auto simp: m fun_eq_iff find_snoc split: option.split)
  qed
  have cv: "cast_vote (resolve_key_fn text_of key) extract x (vs, fs) =
      (AList.update (b x) (tally b xs (b x) + 1) vs, if map_of fs (b x) = None then AList.update (b x) x fs else fs)"
    by (simp add: cast_vote_def Let_def b n)
  show ?thesis unfolding cv prod.case counted_def using first cnt fs by blast
qed

lemma fold_counted:
  assumes "b = bucket_of text_of key extract"
  shows "case fold (cast_vote (resolve_key_fn text_of key) extract) xs ([], []) of (vs, fs) \<Rightarrow> counted b xs vs fs"
proof (induction xs rule: rev_induct)
  case Nil
  show ?case by (simp add: counted_def)
next
  case (snoc x xs)
  obtain vs fs where f: "fold (cast_vote (resolve_key_fn text_of key) extract) xs ([], []) = (vs, fs)"
    by fastforce
  with snoc have "counted b xs vs fs" by simp
  from counted_snoc [OF this assms, of x] show ?case by (simp add: f)
qed

lemma assoc_eq_map: "distinct (map fst d) \<Longrightarrow> d = map (\<lambda>k. (k, the (map_of d k))) (map fst d)"
proof (induction d)
  case (Cons kv d)
  obtain k v where kv: "kv = (k, v)" by fastforce
  with Cons.prems have "map (\<lambda>k'. (k', the (map_of (kv # d) k'))) (map fst d) =
      map (\<lambda>k'. (k', the (map_of d k'))) (map fst d)"
    by (intro map_cong) auto
  with Cons kv show ?case by simp
qed simp

lemma counted_votes:
  assumes "counted b xs vs fs"
  shows "vs = map (\<lambda>k. (k, tally b xs k)) (first_occurrences (map b xs))"
proof -
  have k: "map fst vs = first_occurrences (map b xs)" using assms by (simp add: counted_def)
  then have "vs = map (\<lambda>k. (k, the (map_of vs k))) (first_occurrences (map b xs))"
    by (metis assoc_eq_map distinct_first_occurrences)
  also have "\<dots> = map (\<lambda>k. (k, tally b xs k)) (first_occurrences (map b xs))"
    using assms by (intro map_cong) (auto simp: counted_def)
  finally show ?thesis .
qed

section \<open>The winner\<close>

lemma hd_filter_first_occurrences:
  "\<exists>x\<in>set xs. P x \<Longrightarrow> hd (filter P (first_occurrences xs)) = hd (filter P xs)"
proof (induction xs)
  case (Cons x xs)
  show ?case
  proof (cases "P x")
    case False
    then have "filter P (filter (\<lambda>y. y \<noteq> x) (first_occurrences xs)) = filter P (first_occurrences xs)"
      by (auto intro: filter_cong)
    with Cons False show ?thesis by auto
  qed simp
qed simp

lemma find_hd_filter:
  "\<exists>x\<in>set xs. P (b x) \<Longrightarrow>
     List.find (\<lambda>x. b x = hd (filter P (map b xs))) xs = Some (hd (filter (\<lambda>x. P (b x)) xs))"
proof (induction xs)
  case (Cons x xs)
  show ?case
  proof (cases "P (b x)")
    case False
    with Cons.prems have ex: "\<exists>x\<in>set xs. P (b x)" by auto
    then have "filter P (map b xs) \<noteq> []" by (auto simp: filter_empty_conv)
    then have "P (hd (filter P (map b xs)))" using hd_in_set [of "filter P (map b xs)"] by simp
    with False ex Cons.IH show ?thesis by auto
  qed simp
qed simp

lemma top_attained: "xs \<noteq> [] \<Longrightarrow> \<exists>x\<in>set xs. tally b xs (b x) = top_count b xs"
proof -
  assume "xs \<noteq> []"
  then have "top_count b xs \<in> set (map (tally b xs \<circ> b) xs)" unfolding top_count_def by (intro Max_in) auto
  then show ?thesis by auto
qed

lemma tally_le_top: "x \<in> set xs \<Longrightarrow> tally b xs (b x) \<le> top_count b xs"
  by (auto simp: top_count_def intro!: Max_ge)

lemma top_count_bounds: "xs \<noteq> [] \<Longrightarrow> 0 < top_count b xs \<and> top_count b xs \<le> length xs"
proof -
  assume ne: "xs \<noteq> []"
  obtain x where x: "x \<in> set xs" "tally b xs (b x) = top_count b xs" using top_attained [OF ne] by blast
  from x(1) have "filter (\<lambda>y. b y = b x) xs \<noteq> []" by (auto simp: filter_empty_conv)
  then have "0 < tally b xs (b x)" by (simp add: tally_def)
  moreover have "tally b xs (b x) \<le> length xs" by (simp add: tally_def)
  ultimately show ?thesis using x(2) by simp
qed

lemma majority_vote_fields:
  assumes "xs \<noteq> []" "b = bucket_of text_of key extract"
    and r_def: "r = majority_vote text_of key min_agreement extract xs"
  shows "winner r = hd (filter (\<lambda>x. tally b xs (b x) = top_count b xs) xs)"
    and "votes r = map (\<lambda>k. (k, tally b xs k)) (first_occurrences (map b xs))"
    and "agreement r = of_nat (top_count b xs) / of_nat (length xs)"
    and "tied r \<longleftrightarrow> 1 < card {k \<in> b ` set xs. tally b xs k = top_count b xs}"
    and "meets_threshold r \<longleftrightarrow> min_agreement \<le> agreement r"
    and "total_samples r = length xs" "samples r = xs"
proof -
  obtain vs fs where f: "fold (cast_vote (resolve_key_fn text_of key) extract) xs ([], []) = (vs, fs)"
    by fastforce
  with fold_counted [OF assms(2), of xs] have c: "counted b xs vs fs" by simp
  let ?ks = "first_occurrences (map b xs)" and ?P = "\<lambda>k. tally b xs k = top_count b xs"
  have vs: "vs = map (\<lambda>k. (k, tally b xs k)) ?ks" by (rule counted_votes [OF c])
  have mx: "Max (set (map snd vs)) = top_count b xs"
    by (simp add: vs top_count_def image_image comp_def)
  have top: "map fst (filter (\<lambda>kc. snd kc = top_count b xs) vs) = filter ?P ?ks"
    by (simp add: vs filter_map comp_def)
  have ex: "\<exists>x\<in>set xs. ?P (b x)" by (rule top_attained [OF assms(1)])
  then have "\<exists>k\<in>set (map b xs). ?P k" by auto
  then have "hd (filter ?P ?ks) = hd (filter ?P (map b xs))" by (rule hd_filter_first_occurrences)
  then have w: "map_of fs (hd (filter ?P ?ks)) = Some (hd (filter (\<lambda>x. ?P (b x)) xs))"
    using c find_hd_filter [of xs ?P b, OF ex] by (simp add: counted_def)
  have pw: "pick_winner vs fs = (hd (filter (\<lambda>x. ?P (b x)) xs), top_count b xs, length (filter ?P ?ks) > 1)"
    unfolding pick_winner_def Let_def mx top by (simp add: w)
  have len: "length (filter ?P ?ks) = card {k \<in> b ` set xs. ?P k}"
    using distinct_card [of "filter ?P ?ks"] by simp
  note r = r_def majority_vote_def f pw len
  show "winner r = hd (filter (\<lambda>x. ?P (b x)) xs)" "votes r = map (\<lambda>k. (k, tally b xs k)) ?ks"
    "agreement r = of_nat (top_count b xs) / of_nat (length xs)"
    "tied r \<longleftrightarrow> 1 < card {k \<in> b ` set xs. ?P k}" "meets_threshold r \<longleftrightarrow> min_agreement \<le> agreement r"
    "total_samples r = length xs" "samples r = xs"
    using assms(1) by (simp_all add: r Let_def) (simp add: vs)
qed

section \<open>Properties\<close>

text \<open>
  Majority voting is what it says: the winner is the first sample whose bucket has the
  most votes, the votes of the buckets are their numbers of samples, the agreement is the
  winner's share (in \<open>(0, 1]\<close>), \<open>tied\<close> says that another bucket has as many votes, and the
  threshold is met exactly when the agreement reaches it.
\<close>

theorem majority_vote_correct:
  assumes "xs \<noteq> []"
  shows "let b = bucket_of text_of key extract; r = majority_vote text_of key min_agreement extract xs
    in (\<exists>pre suf. xs = pre @ winner r # suf \<and> tally b xs (b (winner r)) = top_count b xs \<and>
          (\<forall>x\<in>set pre. tally b xs (b x) < top_count b xs)) \<and>
       (\<forall>k. map_of (votes r) k = (if tally b xs k = 0 then None else Some (tally b xs k))) \<and>
       agreement r = of_nat (top_count b xs) / of_nat (length xs) \<and> 0 < agreement r \<and> agreement r \<le> 1 \<and>
       (tied r \<longleftrightarrow> (\<exists>x\<in>set xs. b x \<noteq> b (winner r) \<and> tally b xs (b x) = top_count b xs)) \<and>
       (meets_threshold r \<longleftrightarrow> min_agreement \<le> agreement r)"
proof -
  define b where "b = bucket_of text_of key extract"
  define r where "r = majority_vote text_of key min_agreement extract xs"
  let ?P = "\<lambda>x. tally b xs (b x) = top_count b xs" and ?K = "{k \<in> b ` set xs. tally b xs k = top_count b xs}"
  note f = majority_vote_fields [OF assms b_def r_def]
  obtain pre y suf where split: "xs = pre @ y # suf" "?P y" "\<forall>x\<in>set pre. \<not> ?P x"
    using top_attained [OF assms, of b] split_list_first_prop [of xs ?P] by metis
  have w: "winner r = y" using split by (simp add: f(1))
  have "tally b xs (b x) < top_count b xs" if "x \<in> set pre" for x
    using that split tally_le_top [of x xs b] by force
  then have first: "\<exists>pre suf. xs = pre @ winner r # suf \<and> ?P (winner r) \<and> (\<forall>x\<in>set pre. tally b xs (b x) < top_count b xs)"
    using split w by blast
  have votes: "map_of (votes r) k = (if tally b xs k = 0 then None else Some (tally b xs k))" for k
    by (auto simp: f(2) map_of_map_restrict tally_def filter_empty_conv restrict_map_def)
  have "y \<in> set xs" using split by simp
  then have yK: "b y \<in> ?K" using split(2) by auto
  then have "1 < card ?K \<longleftrightarrow> ?K \<noteq> {b y}"
    by (metis (no_types, lifting) card_1_singleton_iff card_gt_0_iff empty_iff finite_imageI finite_set
        finite_subset less_one linorder_neqE_nat not_less_iff_gr_or_eq singletonD One_nat_def mem_Collect_eq subsetI)
  then have tied: "tied r \<longleftrightarrow> (\<exists>x\<in>set xs. b x \<noteq> b (winner r) \<and> ?P x)"
    using yK by (auto simp: f(4) w)
  have "0 < agreement r" "agreement r \<le> 1"
    using top_count_bounds [OF assms, of b] assms by (simp_all add: f(3) divide_le_eq zero_less_divide_iff)
  with first votes tied f(3,5) show ?thesis
    unfolding Let_def b_def [symmetric] r_def [symmetric] by blast
qed

theorem majority_vote_correct_witness:
  "winner (majority_vote (\<lambda>_. []) None (1/2) None [PStr ''no'', PStr '' Yes'', PStr ''yes'']) = PStr '' Yes''"
proof -
  let ?xs = "[PStr ''no'', PStr '' Yes'', PStr ''yes'']" and ?b = "bucket_of (\<lambda>_. []) None None"
  have k: "strip (lower ''no'') = ''no''" "strip (lower '' Yes'') = ''yes''" "strip (lower ''yes'') = ''yes''"
    by code_simp+
  have b: "?b (PStr ''no'') = ''no''" "?b (PStr '' Yes'') = ''yes''" "?b (PStr ''yes'') = ''yes''"
    by (simp_all add: bucket_of_def resolve_key_fn_def canonical_key_def k)
  have t: "tally ?b ?xs (?b (PStr ''no'')) = 1" "tally ?b ?xs (?b (PStr '' Yes'')) = 2" "top_count ?b ?xs = 2"
    by (simp_all add: tally_def top_count_def b)
  from majority_vote_correct [of ?xs "\<lambda>_. []" None None "1/2"] obtain pre suf where
    p: "?xs = pre @ winner (majority_vote (\<lambda>_. []) None (1/2) None ?xs) # suf"
       "tally ?b ?xs (?b (winner (majority_vote (\<lambda>_. []) None (1/2) None ?xs))) = top_count ?b ?xs"
       "\<forall>x\<in>set pre. tally ?b ?xs (?b x) < top_count ?b ?xs"
    unfolding Let_def by auto
  then show ?thesis using t by (cases pre rule: remdups_adj.cases) (auto simp: Cons_eq_append_conv)
qed

lemma tally_mset: "mset xs = mset ys \<Longrightarrow> tally b xs k = tally b ys k"
  unfolding tally_def by (metis mset_filter size_mset)

lemma top_count_mset: "mset xs = mset ys \<Longrightarrow> top_count b xs = top_count b ys"
  unfolding top_count_def using tally_mset [of xs ys b] mset_eq_setD [of xs ys] by simp

text \<open>
  The verdict does not depend on the order in which the samples arrive: a reordering
  gives the same agreement and the same tie flag, and without a tie a winner of the same
  bucket.
\<close>

theorem consensus_order_independent:
  assumes "mset xs = mset ys" "xs \<noteq> []"
  shows "let r = majority_vote text_of key min_agreement extract xs;
             r' = majority_vote text_of key min_agreement extract ys;
             b = bucket_of text_of key extract
    in agreement r = agreement r' \<and> tied r = tied r' \<and> meets_threshold r = meets_threshold r' \<and>
       (\<not> tied r \<longrightarrow> b (winner r) = b (winner r'))"
proof -
  define b where "b = bucket_of text_of key extract"
  define r where "r = majority_vote text_of key min_agreement extract xs"
  define r' where "r' = majority_vote text_of key min_agreement extract ys"
  have ys: "ys \<noteq> []" "length ys = length xs" "set ys = set xs"
    using assms by (auto dest: mset_eq_setD mset_eq_length)
  note f = majority_vote_fields [OF assms(2) b_def r_def] and f' = majority_vote_fields [OF ys(1) b_def r'_def]
  note t = tally_mset [OF assms(1), of b] top_count_mset [OF assms(1), of b]
  let ?K = "{k \<in> b ` set xs. tally b xs k = top_count b xs}"
  have same: "agreement r = agreement r'" "tied r = tied r'" "meets_threshold r = meets_threshold r'"
    by (simp_all add: f f' t ys)
  have in_K: "b (hd (filter (\<lambda>x. tally b zs (b x) = top_count b zs) zs)) \<in> ?K"
    if "mset zs = mset xs" for zs
  proof -
    have "zs \<noteq> []" "set zs = set xs" using that assms(2) by (auto dest: mset_eq_setD)
    moreover have "filter (\<lambda>x. tally b zs (b x) = top_count b zs) zs \<noteq> []"
      using top_attained [OF \<open>zs \<noteq> []\<close>, of b] by (auto simp: filter_empty_conv)
    ultimately show ?thesis
      using hd_in_set [of "filter (\<lambda>x. tally b zs (b x) = top_count b zs) zs"]
        tally_mset [OF that, of b] top_count_mset [OF that, of b] by auto
  qed
  have "b (winner r) = b (winner r')" if "\<not> tied r"
  proof -
    have "card ?K \<le> 1" using that by (simp add: f)
    then show ?thesis
      using in_K [of xs] in_K [of ys] assms(1) card_le_Suc0_iff_eq [of ?K] by (auto simp: f(1) f'(1))
  qed
  with same show ?thesis unfolding Let_def b_def [symmetric] r_def [symmetric] r'_def [symmetric] by blast
qed

theorem consensus_order_independent_witness:
  "agreement (majority_vote (\<lambda>_. []) None 0 None [PStr ''a'', PStr ''b'', PStr ''a'']) =
   agreement (majority_vote (\<lambda>_. []) None 0 None [PStr ''b'', PStr ''a'', PStr ''a''])"
  using consensus_order_independent [of "[PStr ''a'', PStr ''b'', PStr ''a'']" "[PStr ''b'', PStr ''a'', PStr ''a'']"
      "\<lambda>_. []" None 0 None]
  by (simp add: Let_def)

text \<open>
  Self-consistency accounts for every sample: it returns a result exactly when a
  positive number of samples was asked for, some call succeeded, and no exception is to
  propagate; the result is the majority vote of the successes, and the successes and the
  failures add up to the calls.
\<close>

theorem self_consistency_accounts:
  assumes "length (fst (run n)) = nat n"
  shows "case self_consistency text_of run n key min_agreement pick re of
      Inl e \<Rightarrow> n < 1 \<or> (\<not> re \<and> snd (run n) \<noteq> []) \<or> (\<forall>v. Inr v \<notin> set (fst (run n)))
    | Inr r \<Rightarrow> 1 \<le> n \<and> samples r \<noteq> [] \<and> samples r = [v. Inr v \<leftarrow> fst (run n)] \<and>
        total_samples r + failed_samples r = nat n \<and>
        r = (majority_vote text_of key min_agreement pick (samples r))\<lparr>failed_samples := failed_samples r\<rparr>"
proof -
  obtain results raised where rn: "run n = (results, raised)" by fastforce
  let ?ok = "[v. Inr v \<leftarrow> results]"
  have le: "length ?ok \<le> length results" by (induction results) (auto split: sum.split)
  have empty: "?ok = [] \<Longrightarrow> \<forall>v. Inr v \<notin> set results" by (induction results) (auto split: sum.splits)
  show ?thesis
  proof (cases "n < 1 \<or> (\<not> re \<and> raised \<noteq> []) \<or> ?ok = []")
    case True
    with empty show ?thesis by (auto simp: self_consistency_def rn partition_results_def Let_def)
  next
    case False
    then have r: "self_consistency text_of run n key min_agreement pick re =
        Inr ((majority_vote text_of key min_agreement pick ?ok)\<lparr>failed_samples := length results - length ?ok\<rparr>)"
      by (simp add: self_consistency_def rn partition_results_def Let_def)
    have f: "total_samples (majority_vote text_of key min_agreement pick ?ok) = length ?ok"
        "samples (majority_vote text_of key min_agreement pick ?ok) = ?ok"
      using majority_vote_fields(6,7) [OF _ refl refl] False by blast+
    show ?thesis using False le assms f by (simp add: r rn)
  qed
qed

theorem self_consistency_accounts_witness:
  "\<exists>r. self_consistency (\<lambda>_. []) (\<lambda>n. ([Inr (PStr ''a''), Inl ''timeout''], [''timeout''])) 2 None 0 None True = Inr r \<and>
     total_samples r + failed_samples r = 2"
proof -
  let ?run = "\<lambda>n :: int. ([Inr (PStr ''a''), Inl ''timeout''], [''timeout''])"
  obtain r where r: "self_consistency (\<lambda>_. []) ?run 2 None 0 None True = Inr r"
    by (simp add: self_consistency_def partition_results_def Let_def)
  have "case self_consistency (\<lambda>_. []) ?run 2 None 0 None True of Inl e \<Rightarrow> True
      | Inr r \<Rightarrow> total_samples r + failed_samples r = nat 2"
    using self_consistency_accounts [where run = ?run and n = 2 and text_of = "\<lambda>_. []" and key = None
        and min_agreement = 0 and pick = None and re = True] r
    by simp
  then show ?thesis using r by simp
qed

end
