(* ===== verification/Model_Registry.thy ===== *)
theory Model_Registry
  imports Py_Strings
begin

text \<open>
  The curated model registry of \<open>models/model_registry.py\<close>: its validation, cost lanes and
  the cost-lane ceiling, prices, and the runtime quarantine. The environment variables, the
  host name of a URL (\<open>urlparse(url).hostname\<close>) and the answer of the local Ollama daemon are
  parameters; reading the YAML file is left out.
\<close>

section \<open>The registry\<close>

datatype cost_lane = Local | Free | Paid

datatype model_status = ActiveModel | DeprecatedModel | QuarantinedModel

record registered_model =
  rm_id :: string
  rm_provider :: string
  rm_tiers :: "int list"
  rm_capability :: string
  rm_status :: model_status
  rm_cost_lane :: "cost_lane option"
  price_in :: "rat option"
  price_out :: "rat option"
  context_window :: "int option"

record special_models =
  judge_default :: string
  notebooklm_fallback :: string
  tier_ultimate_fallback :: string

record registry =
  reg_version :: int
  reg_models :: "registered_model list"
  reg_tiers :: "(int \<times> string list) list"
  reg_special :: special_models

definition by_id :: "registry \<Rightarrow> (string \<times> registered_model) list" where
  "by_id r = fold (\<lambda>m. AList.update (rm_id m) m) (reg_models r) []"

datatype registry_error =
    MissingTiers "int list"
  | UnknownProviders "string list"
  | DanglingReferences "string list"

definition tier_chain :: "registry \<Rightarrow> int \<Rightarrow> string list" where
  "tier_chain r t = (case map_of (reg_tiers r) t of Some c \<Rightarrow> c | None \<Rightarrow> [])"

definition all_ids :: "registry \<Rightarrow> string set" where
  "all_ids r = set (map rm_id (reg_models r))"

definition special_ids :: "registry \<Rightarrow> string list" where
  "special_ids r =
     [judge_default (reg_special r), notebooklm_fallback (reg_special r), tier_ultimate_fallback (reg_special r)]"

text \<open>The ids and tiers of the errors are listed in the order of the registry.\<close>

definition validate_registry :: "string set \<Rightarrow> registry \<Rightarrow> registry_error + unit" where
  "validate_registry providers r =
     (let missing = filter (\<lambda>t. tier_chain r t = []) [1, 2, 3, 4, 5];
          bad = filter (\<lambda>m. rm_provider m \<notin> providers) (reg_models r);
          dangling = filter (\<lambda>i. i \<notin> all_ids r) (concat (map snd (reg_tiers r)) @ special_ids r)
      in if missing \<noteq> [] then Inl (MissingTiers missing)
         else if bad \<noteq> [] then Inl (UnknownProviders (map rm_id bad))
         else if dangling \<noteq> [] then Inl (DanglingReferences dangling)
         else Inr ())"

section \<open>Cost lanes\<close>

record routing_env =
  environ :: "string \<Rightarrow> string option"
  url_host :: "string \<Rightarrow> string option"
  served_locally :: "string \<Rightarrow> bool"
  registry_of :: registry
  quarantined :: "string set"

definition loopback_hosts :: "string set" where
  "loopback_hosts = {''localhost'', ''127.0.0.1'', ''::1''}"

definition strip_brackets :: "string \<Rightarrow> string" where
  "strip_brackets s =
     (let b = (\<lambda>c. c = CHR ''['' \<or> c = CHR '']'') in rev (dropWhile b (rev (dropWhile b s))))"

definition is_loopback_url :: "routing_env \<Rightarrow> string \<Rightarrow> bool" where
  "is_loopback_url env url \<longleftrightarrow>
     strip_brackets (lower (case url_host env url of Some h \<Rightarrow> h | None \<Rightarrow> [])) \<in> loopback_hosts"

definition ollama_base_is_loopback :: "routing_env \<Rightarrow> bool" where
  "ollama_base_is_loopback env =
     is_loopback_url env (case environ env ''OLLAMA_BASE_URL'' of Some u \<Rightarrow> u | None \<Rightarrow> ''http://localhost:11434'')"

definition env_set :: "routing_env \<Rightarrow> string \<Rightarrow> bool" where
  "env_set env k = (case environ env k of Some v \<Rightarrow> v \<noteq> [] | None \<Rightarrow> False)"

definition cost_lane_for :: "routing_env \<Rightarrow> string \<Rightarrow> cost_lane" where
  "cost_lane_for env m =
     (let lane = (case map_of (by_id (registry_of env)) m of
                    None \<Rightarrow> Paid
                  | Some e \<Rightarrow> (case rm_cost_lane e of None \<Rightarrow> Paid | Some l \<Rightarrow> l))
      in if lane = Local \<and> startswith m ''ollama:''
         then if \<not> ollama_base_is_loopback env then Free
              else if env_set env ''OLLAMA_API_KEY'' \<and> \<not> served_locally env (drop 7 m) then Free
              else lane
         else lane)"

fun cost_lane_rank :: "cost_lane \<Rightarrow> nat" where
  "cost_lane_rank Local = 0"
| "cost_lane_rank Free = 1"
| "cost_lane_rank Paid = 2"

definition is_within_cost_lane :: "routing_env \<Rightarrow> string \<Rightarrow> cost_lane \<Rightarrow> bool" where
  "is_within_cost_lane env m cl \<longleftrightarrow> cost_lane_rank (cost_lane_for env m) \<le> cost_lane_rank cl"

definition max_cost_lane_ceiling :: "routing_env \<Rightarrow> cost_lane" where
  "max_cost_lane_ceiling env =
     (let raw = lower (strip (case environ env ''AGENTIC_MAX_COST_LANE'' of Some v \<Rightarrow> v | None \<Rightarrow> []))
      in if raw = ''local'' then Local else if raw = ''free'' then Free else Paid)"

datatype routing_error =
    CostLaneCeilingExceeded cost_lane nat
  | NoProviderConfigured
  | EmptyChain
  | NoDefaultChain

definition apply_cost_lane_ceiling ::
  "routing_env \<Rightarrow> cost_lane option \<Rightarrow> string list \<Rightarrow> routing_error + string list" where
  "apply_cost_lane_ceiling env cl candidates =
     (let resolved = (case cl of Some c \<Rightarrow> c | None \<Rightarrow> max_cost_lane_ceiling env);
          ok = filter (\<lambda>m. is_within_cost_lane env m resolved) candidates
      in if resolved = Paid then Inr candidates
         else if candidates \<noteq> [] \<and> ok = [] then Inl (CostLaneCeilingExceeded resolved (length candidates))
         else Inr ok)"

definition enforce_cost_lane_ceiling :: "routing_env \<Rightarrow> cost_lane option \<Rightarrow> string \<Rightarrow> routing_error + unit" where
  "enforce_cost_lane_ceiling env cl m =
     (let resolved = (case cl of Some c \<Rightarrow> c | None \<Rightarrow> max_cost_lane_ceiling env)
      in if resolved \<noteq> Paid \<and> \<not> is_within_cost_lane env m resolved
         then Inl (CostLaneCeilingExceeded resolved 1) else Inr ())"

section \<open>Prices\<close>

definition price_for :: "registry \<Rightarrow> string \<Rightarrow> rat option \<times> rat option" where
  "price_for r m = (case map_of (by_id r) m of None \<Rightarrow> (None, None) | Some e \<Rightarrow> (price_in e, price_out e))"

text \<open>The spend, and the ids warned about so far.\<close>

definition compute_spend :: "registry \<Rightarrow> string \<Rightarrow> int \<Rightarrow> int \<Rightarrow> string set \<Rightarrow> rat option \<times> string set" where
  "compute_spend r m prompt completion warned =
     (case price_for r m of
        (Some p1, Some p2) \<Rightarrow>
          (Some (of_int prompt / 1000000 * p1 + of_int completion / 1000000 * p2), warned)
      | _ \<Rightarrow> (None, insert m warned))"

section \<open>Quarantine\<close>

definition quarantine :: "string list \<Rightarrow> routing_env \<Rightarrow> routing_env" where
  "quarantine ids env = env\<lparr>quarantined := quarantined env \<union> set ids\<rparr>"

definition set_quarantine :: "string list \<Rightarrow> routing_env \<Rightarrow> routing_env" where
  "set_quarantine ids env = env\<lparr>quarantined := set ids\<rparr>"

definition is_quarantined :: "routing_env \<Rightarrow> string \<Rightarrow> bool" where
  "is_quarantined env m \<longleftrightarrow> m \<in> quarantined env"

definition clear_quarantine :: "routing_env \<Rightarrow> routing_env" where
  "clear_quarantine env = env\<lparr>quarantined := {}\<rparr>"

section \<open>Properties\<close>

lemma within_paid [simp]: "is_within_cost_lane env m Paid"
  by (cases "cost_lane_for env m") (simp_all add: is_within_cost_lane_def)

text \<open>A model the registry does not know is within no ceiling but \<open>paid\<close>.\<close>

lemma unknown_model_paid:
  "map_of (by_id (registry_of env)) m = None \<Longrightarrow> is_within_cost_lane env m c \<longleftrightarrow> c = Paid"
  by (cases c) (simp_all add: is_within_cost_lane_def cost_lane_for_def)

lemma apply_cost_lane_ceiling_within:
  assumes "apply_cost_lane_ceiling env cl ms = Inr out"
  shows "set out \<subseteq> set ms \<and>
    (\<forall>m\<in>set out. is_within_cost_lane env m (case cl of Some c \<Rightarrow> c | None \<Rightarrow> max_cost_lane_ceiling env)) \<and>
    (ms \<noteq> [] \<longrightarrow> out \<noteq> [])"
  using assms by (auto simp: apply_cost_lane_ceiling_def Let_def split: if_splits)

text \<open>In a validated registry every tier has a chain, and every id of a chain is declared.\<close>

lemma validate_registry_ok:
  assumes "validate_registry providers r = Inr ()"
  shows "t \<in> {1, 2, 3, 4, 5} \<Longrightarrow> tier_chain r t \<noteq> []"
    and "set (tier_chain r t) \<subseteq> all_ids r"
proof -
  have f: "filter (\<lambda>t. tier_chain r t = []) [1, 2, 3, 4, 5] = []"
      "filter (\<lambda>i. i \<notin> all_ids r) (concat (map snd (reg_tiers r)) @ special_ids r) = []"
    using assms unfolding validate_registry_def Let_def by (meson sum.distinct)+
  show "tier_chain r t \<noteq> []" if "t \<in> {1, 2, 3, 4, 5}" for t
    using f(1) that unfolding filter_empty_conv by auto
  show "set (tier_chain r t) \<subseteq> all_ids r"
  proof (cases "map_of (reg_tiers r) t")
    case (Some c)
    then have "set c \<subseteq> set (concat (map snd (reg_tiers r)))" by (force dest: map_of_SomeD)
    with f(2) Some show ?thesis unfolding filter_empty_conv by (auto simp: tier_chain_def)
  qed (simp add: tier_chain_def)
qed

end
