(* ===== verification/Model_Router.thy ===== *)
theory Model_Router
  imports Model_Registry
begin

text \<open>
  \<open>models/router.py\<close>: fallback chains, availability, and routing within the cost-lane
  ceiling. The health checker is a function of the model; it may be another one at the next
  call. The worker threads of \<open>discover_models_async\<close> only run the checker, so its results are
  those of a loop.
\<close>

section \<open>Chains\<close>

datatype model_tier = TIER_0 | TIER_1 | TIER_2 | TIER_3 | TIER_4 | TIER_5

fun tier_value :: "model_tier \<Rightarrow> nat" where
  "tier_value TIER_0 = 0"
| "tier_value TIER_1 = 1"
| "tier_value TIER_2 = 2"
| "tier_value TIER_3 = 3"
| "tier_value TIER_4 = 4"
| "tier_value TIER_5 = 5"

definition all_tiers :: "model_tier list" where
  "all_tiers = [TIER_0, TIER_1, TIER_2, TIER_3, TIER_4, TIER_5]"

definition tier_name :: "model_tier \<Rightarrow> string" where
  "tier_name t = ''TIER_'' @ show_nat (tier_value t)"

record fallback_chain =
  chain_models :: "string list"
  chain_name :: string

definition make_chain :: "string list \<Rightarrow> string \<Rightarrow> routing_error + fallback_chain" where
  "make_chain ms n = (if ms = [] then Inl EmptyChain else Inr \<lparr>chain_models = ms, chain_name = n\<rparr>)"

text \<open>The builder: a name and the models so far.\<close>

type_synonym chain_builder = "string \<times> string list"

definition builder_add :: "string \<Rightarrow> chain_builder \<Rightarrow> chain_builder" where
  "builder_add m b = (fst b, snd b @ [m])"

definition builder_add_tier :: "string list \<Rightarrow> chain_builder \<Rightarrow> chain_builder" where
  "builder_add_tier ms b = (fst b, snd b @ ms)"

definition builder_done :: "chain_builder \<Rightarrow> routing_error + fallback_chain" where
  "builder_done b = make_chain (snd b) (fst b)"

definition default_chain :: "routing_env \<Rightarrow> model_tier \<Rightarrow> fallback_chain option" where
  "default_chain env t =
     (let ids = tier_chain (registry_of env) (int (tier_value t))
      in if t = TIER_0 \<or> ids = [] then None
         else Some \<lparr>chain_models = ids, chain_name = ''tier'' @ show_nat (tier_value t) @ ''-default''\<rparr>)"

definition env_tier_pin :: "routing_env \<Rightarrow> model_tier \<Rightarrow> string option" where
  "env_tier_pin env t =
     (if t = TIER_0 then None
      else let v = strip (case environ env (''AGENTIC_MODEL_TIER_'' @ show_nat (tier_value t)) of Some x \<Rightarrow> x | None \<Rightarrow> [])
           in if v = [] then None else Some v)"

section \<open>The router\<close>

record model_router =
  custom_chains :: "(model_tier \<times> fallback_chain) list"
  available_models :: "string set"
  unavailable_models :: "string set"
  discovered :: bool
  health_checker :: "(string \<Rightarrow> bool) option"

definition register_chain :: "model_tier \<Rightarrow> fallback_chain \<Rightarrow> 'r model_router_scheme \<Rightarrow> 'r model_router_scheme" where
  "register_chain t c r = r\<lparr>custom_chains := AList.update t c (custom_chains r)\<rparr>"

text \<open>The default of \<open>dict.get\<close> is evaluated first: without a chain for tier 2 there is a
  \<open>KeyError\<close>.\<close>

definition get_chain :: "routing_env \<Rightarrow> model_tier \<Rightarrow> 'r model_router_scheme \<Rightarrow> routing_error + fallback_chain" where
  "get_chain env t r =
     (case map_of (custom_chains r) t of
        Some c \<Rightarrow> Inr c
      | None \<Rightarrow>
          (case default_chain env TIER_2 of
             None \<Rightarrow> Inl NoDefaultChain
           | Some c2 \<Rightarrow>
               let d = (case default_chain env t of Some c \<Rightarrow> c | None \<Rightarrow> c2)
               in case env_tier_pin env t of
                    None \<Rightarrow> Inr d
                  | Some pinned \<Rightarrow>
                      make_chain (pinned # filter (\<lambda>m. m \<noteq> pinned) (chain_models d))
                        (''tier'' @ show_nat (tier_value t) @ ''-env'')))"

definition is_model_available :: "string \<Rightarrow> 'r model_router_scheme \<Rightarrow> bool \<times> 'r model_router_scheme" where
  "is_model_available m r =
     (if m \<in> available_models r then (True, r)
      else if m \<in> unavailable_models r then (False, r)
      else case health_checker r of
             None \<Rightarrow> (True, r)
           | Some check \<Rightarrow>
               if check m then (True, r\<lparr>available_models := insert m (available_models r)\<rparr>)
               else (False, r\<lparr>unavailable_models := insert m (unavailable_models r)\<rparr>))"

definition mark_available :: "string \<Rightarrow> 'r model_router_scheme \<Rightarrow> 'r model_router_scheme" where
  "mark_available m r =
     r\<lparr>available_models := insert m (available_models r), unavailable_models := unavailable_models r - {m}\<rparr>"

definition mark_unavailable :: "string \<Rightarrow> 'r model_router_scheme \<Rightarrow> 'r model_router_scheme" where
  "mark_unavailable m r =
     r\<lparr>unavailable_models := insert m (unavailable_models r), available_models := available_models r - {m}\<rparr>"

text \<open>The loop over a chain, with the number of candidates that only the ceiling excluded.\<close>

fun route_from ::
  "routing_env \<Rightarrow> nat \<Rightarrow> string list \<Rightarrow> 'r model_router_scheme \<Rightarrow> (routing_error + string option) \<times> 'r model_router_scheme" where
  "route_from env excluded [] r =
     (if excluded > 0 then Inl (CostLaneCeilingExceeded (max_cost_lane_ceiling env) excluded) else Inr None, r)"
| "route_from env excluded (m # ms) r =
     (if is_quarantined env m then route_from env excluded ms r
      else case is_model_available m r of
             (False, r1) \<Rightarrow> route_from env excluded ms r1
           | (True, r1) \<Rightarrow>
               if max_cost_lane_ceiling env \<noteq> Paid \<and> \<not> is_within_cost_lane env m (max_cost_lane_ceiling env)
               then route_from env (Suc excluded) ms r1
               else (Inr (Some m), r1))"

definition route_model ::
  "routing_env \<Rightarrow> model_tier \<Rightarrow> 'r model_router_scheme \<Rightarrow> (routing_error + string option) \<times> 'r model_router_scheme" where
  "route_model env t r =
     (case get_chain env t r of Inl e \<Rightarrow> (Inl e, r) | Inr c \<Rightarrow> route_from env 0 (chain_models c) r)"

text \<open>\<open>get_fallback_for_model\<close>: the loop goes through the models after the first occurrence of
  the given one.\<close>

definition get_fallback_for_model ::
  "routing_env \<Rightarrow> string \<Rightarrow> model_tier \<Rightarrow> 'r model_router_scheme \<Rightarrow> (routing_error + string option) \<times> 'r model_router_scheme" where
  "get_fallback_for_model env m t r =
     (case get_chain env t r of
        Inl e \<Rightarrow> (Inl e, r)
      | Inr c \<Rightarrow> route_from env 0 (drop 1 (dropWhile (\<lambda>x. x \<noteq> m) (chain_models c))) r)"

fun discover_models_sync :: "string list \<Rightarrow> 'r model_router_scheme \<Rightarrow> (string \<times> bool) list \<times> 'r model_router_scheme" where
  "discover_models_sync [] r = ([], r\<lparr>discovered := True\<rparr>)"
| "discover_models_sync (m # ms) r =
     (case is_model_available m r of (b, r1) \<Rightarrow>
        (case discover_models_sync ms r1 of (res, r2) \<Rightarrow> ((m, b) # res, r2)))"

definition note_discovered :: "string \<times> bool \<Rightarrow> 'r model_router_scheme \<Rightarrow> 'r model_router_scheme" where
  "note_discovered mb r =
     (if snd mb then r\<lparr>available_models := insert (fst mb) (available_models r)\<rparr>
      else r\<lparr>unavailable_models := insert (fst mb) (unavailable_models r)\<rparr>)"

definition discover_models_async :: "string list \<Rightarrow> 'r model_router_scheme \<Rightarrow> (string \<times> bool) list \<times> 'r model_router_scheme" where
  "discover_models_async ms r =
     (case health_checker r of
        None \<Rightarrow> (map (\<lambda>m. (m, True)) ms, r)
      | Some check \<Rightarrow>
          let results = map (\<lambda>m. (m, check m)) ms
          in (results, (fold note_discovered results r)\<lparr>discovered := True\<rparr>))"

section \<open>Scoped routing\<close>

text \<open>\<open>ScopedRouter.__enter__\<close>, with the chain it saves, and \<open>__exit__\<close>.\<close>

definition scoped_enter ::
  "model_tier \<Rightarrow> string list \<Rightarrow> 'r model_router_scheme \<Rightarrow> routing_error + fallback_chain option \<times> 'r model_router_scheme" where
  "scoped_enter t ms r =
     rbind (make_chain ms (''scoped-'' @ tier_name t)) (\<lambda>c. Inr (map_of (custom_chains r) t, register_chain t c r))"

definition scoped_exit :: "model_tier \<Rightarrow> fallback_chain option \<Rightarrow> 'r model_router_scheme \<Rightarrow> 'r model_router_scheme" where
  "scoped_exit t original r =
     (case original of
        Some c \<Rightarrow> r\<lparr>custom_chains := AList.update t c (custom_chains r)\<rparr>
      | None \<Rightarrow> r\<lparr>custom_chains := AList.delete t (custom_chains r)\<rparr>)"

fun get_all_available :: "string list \<Rightarrow> 'r model_router_scheme \<Rightarrow> string list \<times> 'r model_router_scheme" where
  "get_all_available [] r = ([], r)"
| "get_all_available (m # ms) r =
     (case is_model_available m r of (b, r1) \<Rightarrow>
        (case get_all_available ms r1 of (res, r2) \<Rightarrow> (if b then m # res else res, r2)))"

section \<open>Properties\<close>

text \<open>Whether a model is available, without the cache.\<close>

definition usable :: "'r model_router_scheme \<Rightarrow> string \<Rightarrow> bool" where
  "usable r m \<longleftrightarrow> fst (is_model_available m r)"

lemma usable_stable:
  assumes "is_model_available m r = (b, r1)"
  shows "usable r1 x = usable r x" and "b = usable r m"
    and "custom_chains r1 = custom_chains r" and "health_checker r1 = health_checker r"
  using assms by (auto simp: usable_def is_model_available_def split: if_splits option.splits)

definition in_budget :: "routing_env \<Rightarrow> string \<Rightarrow> bool" where
  "in_budget env m \<longleftrightarrow> is_within_cost_lane env m (max_cost_lane_ceiling env)"

lemma in_budget_paid: "max_cost_lane_ceiling env = Paid \<Longrightarrow> in_budget env m"
  by (simp add: in_budget_def)

text \<open>The loop returns the first model that is not quarantined, available and within the
  ceiling; without one, it raises exactly when the ceiling alone was in the way.\<close>

definition ceiling_verdict :: "routing_env \<Rightarrow> nat \<Rightarrow> routing_error + string option" where
  "ceiling_verdict env n =
     (if n > 0 then Inl (CostLaneCeilingExceeded (max_cost_lane_ceiling env) n) else Inr None)"

definition route_result :: "routing_env \<Rightarrow> (string \<Rightarrow> bool) \<Rightarrow> nat \<Rightarrow> string list \<Rightarrow> routing_error + string option" where
  "route_result env ok k ms =
     (case List.find (\<lambda>m. \<not> is_quarantined env m \<and> ok m \<and> in_budget env m) ms of
        Some m \<Rightarrow> Inr (Some m)
      | None \<Rightarrow> ceiling_verdict env (k + length (filter (\<lambda>m. \<not> is_quarantined env m \<and> ok m) ms)))"

lemma route_from_spec: "fst (route_from env k ms r) = route_result env (usable r) k ms"
proof (induction ms arbitrary: k r)
  case (Cons m ms)
  obtain b r1 where a: "is_model_available m r = (b, r1)" by fastforce
  have u: "usable r1 = usable r" "b = usable r m" using usable_stable [OF a] by auto
  have g: "max_cost_lane_ceiling env \<noteq> Paid \<and> \<not> is_within_cost_lane env m (max_cost_lane_ceiling env) \<longleftrightarrow> \<not> in_budget env m"
    using in_budget_paid [of env m] by (auto simp: in_budget_def)
  have step: "route_result env ok k (m # ms) =
      (if is_quarantined env m \<or> \<not> ok m then route_result env ok k ms
       else if in_budget env m then Inr (Some m) else route_result env ok (Suc k) ms)" for ok
    by (auto simp: route_result_def cong: option.case_cong)
  show ?case using a by (cases b) (simp_all only: route_from.simps g step, simp_all add: Cons.IH u flip: u(2))
qed (simp add: route_result_def ceiling_verdict_def)

text \<open>\<open>discover_models_async\<close> does not take a model that fails its check out of the available
  ones, so it stays available.\<close>

lemma discovery_keeps_stale_model:
  assumes "m \<in> available_models r"
  shows "usable (snd (discover_models_async ms r)) m"
proof -
  have "m \<in> available_models s \<Longrightarrow> m \<in> available_models (fold note_discovered res s)" for res and s :: "'r model_router_scheme"
    by (induction res arbitrary: s) (auto simp: note_discovered_def)
  with assms show ?thesis
    by (auto simp: discover_models_async_def usable_def is_model_available_def Let_def split: option.splits)
qed

lemma scoped_restores:
  assumes "scoped_enter t ms r = Inr (saved, r1)" "custom_chains r2 = custom_chains r1"
  shows "map_of (custom_chains (scoped_exit t saved r2)) = map_of (custom_chains r)"
  using assms by (auto simp: scoped_enter_def scoped_exit_def register_chain_def result_simps split: option.splits)

text \<open>
  Routing fails closed on cost: it returns the first model of the chain that is not
  quarantined, available and within the cost-lane ceiling; when only the ceiling is in the way it
  raises, with the number of models it excluded, and it returns nothing only when no model of the
  chain is usable at all. Under a ceiling below \<open>paid\<close> a model without a declared lane in the
  registry is never returned.
\<close>

theorem cost_ceiling_fail_closed:
  assumes "get_chain env t r = Inr c"
  shows "fst (route_model env t r) =
      (case List.find (\<lambda>m. \<not> is_quarantined env m \<and> usable r m \<and>
           is_within_cost_lane env m (max_cost_lane_ceiling env)) (chain_models c) of
         Some m \<Rightarrow> Inr (Some m)
       | None \<Rightarrow>
           (let n = length (filter (\<lambda>m. \<not> is_quarantined env m \<and> usable r m) (chain_models c))
            in if n > 0 then Inl (CostLaneCeilingExceeded (max_cost_lane_ceiling env) n) else Inr None)) \<and>
    (fst (route_model env t r) = Inr (Some m) \<and> max_cost_lane_ceiling env \<noteq> Paid \<longrightarrow>
      (\<exists>e l. map_of (by_id (registry_of env)) m = Some e \<and> rm_cost_lane e = Some l))"
proof -
  have res: "fst (route_model env t r) = route_result env (usable r) 0 (chain_models c)"
    using assms by (simp add: route_model_def route_from_spec)
  have "\<exists>e l. map_of (by_id (registry_of env)) m = Some e \<and> rm_cost_lane e = Some l"
    if "fst (route_model env t r) = Inr (Some m)" "max_cost_lane_ceiling env \<noteq> Paid"
  proof -
    have "in_budget env m"
      using that(1) by (auto simp: res route_result_def ceiling_verdict_def find_Some_iff split: option.splits if_splits)
    then have "cost_lane_for env m \<noteq> Paid"
      using that(2) by (cases "max_cost_lane_ceiling env") (auto simp: in_budget_def is_within_cost_lane_def)
    then show ?thesis
      by (auto simp: cost_lane_for_def Let_def split: option.splits if_splits)
  qed
  then show ?thesis unfolding res by (simp add: route_result_def ceiling_verdict_def in_budget_def cong: option.case_cong)
qed

definition sample_model :: "string \<Rightarrow> cost_lane option \<Rightarrow> registered_model" where
  "sample_model i l =
     \<lparr>rm_id = i, rm_provider = ''gh'', rm_tiers = [2], rm_capability = ''chat'', rm_status = ActiveModel,
      rm_cost_lane = l, price_in = None, price_out = None, context_window = None\<rparr>"

definition sample_env :: routing_env where
  "sample_env =
     \<lparr>environ = (\<lambda>k. if k = ''AGENTIC_MAX_COST_LANE'' then Some ''free'' else None), url_host = (\<lambda>_. None),
      served_locally = (\<lambda>_. False),
      registry_of = \<lparr>reg_version = 1,
        reg_models = [sample_model ''gh:big'' (Some Paid), sample_model ''gh:mini'' (Some Free), sample_model ''gh:tiny'' (Some Free)],
        reg_tiers = [(1, [''gh:tiny'']), (2, [''gh:big'', ''gh:new'', ''gh:mini'', ''gh:tiny'']), (3, [''gh:big''])],
        reg_special = \<lparr>judge_default = ''gh:big'', notebooklm_fallback = ''gh:big'', tier_ultimate_fallback = ''gh:big''\<rparr>\<rparr>,
      quarantined = {}\<rparr>"

definition sample_router :: model_router where
  "sample_router =
     \<lparr>custom_chains = [], available_models = {}, unavailable_models = {}, discovered = False, health_checker = None\<rparr>"

theorem cost_ceiling_fail_closed_witness:
  "fst (route_model sample_env TIER_3 sample_router) = Inl (CostLaneCeilingExceeded Free 1) \<and>
   fst (route_model sample_env TIER_2 sample_router) = Inr (Some ''gh:mini'')"
proof -
  have 3: "get_chain sample_env TIER_3 sample_router = Inr \<lparr>chain_models = [''gh:big''], chain_name = ''tier3-default''\<rparr>"
    and 2: "get_chain sample_env TIER_2 sample_router =
      Inr \<lparr>chain_models = [''gh:big'', ''gh:new'', ''gh:mini'', ''gh:tiny''], chain_name = ''tier2-default''\<rparr>"
    by code_simp+
  have "max_cost_lane_ceiling sample_env = Free" "usable sample_router m"
    "\<not> is_quarantined sample_env m" for m
    by (code_simp, simp_all add: usable_def is_model_available_def sample_router_def is_quarantined_def sample_env_def)
  moreover have "\<not> is_within_cost_lane sample_env ''gh:big'' Free" "\<not> is_within_cost_lane sample_env ''gh:new'' Free"
    "is_within_cost_lane sample_env ''gh:mini'' Free" by code_simp+
  ultimately show ?thesis
    using cost_ceiling_fail_closed [OF 3] cost_ceiling_fail_closed [OF 2] by simp
qed

end
