(* ===== verification/Llm_Errors.thy ===== *)
theory Llm_Errors
  imports Py_Regex Py_Numbers
begin

text \<open>
  The classification of provider errors by their message, \<open>classify_error\<close> of
  \<open>core/errors.py\<close>.
\<close>

datatype error_code = RATE_LIMITED | AUTH_ERROR | NOT_FOUND | MODEL_RETIRED | TRANSIENT | UNKNOWN_ERROR

text \<open>\<open>_GONE_STATUS_RE\<close>: the number 410 in a status context, or "410 gone".\<close>

definition gone_status_re :: rx where
  "gone_status_re =
     RAlt
       (rseq [RWordB,
              ralts [rtext ''error code'',
                     RSeq (rtext ''status'') (ropt (rtext ''_code'')),
                     RSeq (rtext ''http'')
                       (ropt (rseq [rchar CHR ''/'', RChar is_digit, ropt (RSeq (rchar CHR ''.'') (RChar is_digit))]))],
              ropt (RChar (\<lambda>c. c = CHR 0x27 \<or> c = CHR 0x22)), RStar rspace,
              ropt (RChar (\<lambda>c. c = CHR '':'' \<or> c = CHR ''='')), RStar rspace, rtext ''410'', RWordB])
       (rseq [RWordB, rtext ''410'', rplus rspace, rtext ''gone'', RWordB])"

definition retired_markers :: "string list" where
  "retired_markers = [''end of life'', ''end-of-life'']"

definition mentions :: "string \<Rightarrow> string list \<Rightarrow> bool" where
  "mentions msg kws \<longleftrightarrow> list_ex (contains msg) kws"

definition classify_error :: "string \<Rightarrow> error_code \<times> bool" where
  "classify_error error_message =
     (let msg = lower error_message
      in if mentions msg [''rate limit'', ''rate_limit'', ''ratelimit'', ''429'', ''too many requests'']
         then (RATE_LIMITED, True)
         else if mentions msg [''401'', ''403'', ''unauthorized'', ''forbidden'', ''authentication'']
         then (AUTH_ERROR, False)
         else if rx_search gone_status_re msg \<noteq> None \<or> mentions msg retired_markers
         then (MODEL_RETIRED, False)
         else if contains msg ''404'' \<or> contains msg ''not found'' then (NOT_FOUND, False)
         else (TRANSIENT, True))"

text \<open>The examples of the comment in the source.\<close>

lemma classify_examples:
  "classify_error ''Error code: 410 - retired'' = (MODEL_RETIRED, False)"
  "classify_error ''HTTP/1.1 410'' = (MODEL_RETIRED, False)"
  "classify_error ''status_code=410'' = (MODEL_RETIRED, False)"
  "classify_error ''timed out after 410 ms'' = (TRANSIENT, True)"
  "classify_error ''request 410'' = (TRANSIENT, True)"
  by code_simp+

end
