(* ===== verification/Smart_Router.thy ===== *)
theory Smart_Router
  imports Model_Router Rate_Limit Circuit_Breaker Llm_Errors "HOL-Library.Product_Lexorder"
begin

text \<open>
  \<open>SmartModelRouter\<close> of \<open>models/smart_router.py\<close>: selection of a healthy model of a tier with
  degradation across tiers, recording of outcomes, per-provider bulkheads and probe locks, and
  the fallback loops (also \<open>models/fallback_selector.py\<close>). A synchronous method reads each clock
  at one instant. Left out: metrics, the callback of a degraded selection, and persistence to files
  and Redis.
\<close>

section \<open>State\<close>

record model_selection =
  selected_name :: string
  requested_tier :: string
  actual_tier :: string
  is_degraded :: bool

record cooldown_config =
  base_failure_cooldown :: int
  base_rate_limit_cooldown :: int
  base_timeout_cooldown :: int
  consecutive_failure_multiplier :: rat
  max_cooldown_seconds :: int
  success_count_to_clear :: int

definition default_cooldown_config :: cooldown_config where
  "default_cooldown_config =
     \<lparr>base_failure_cooldown = 30, base_rate_limit_cooldown = 120, base_timeout_cooldown = 60,
      consecutive_failure_multiplier = 3/2, max_cooldown_seconds = 600, success_count_to_clear = 3\<rparr>"

record smart_router = model_router +
  stats_of :: "(string \<times> model_stats) list"
  cooldowns :: cooldown_config
  model_costs :: "(string \<times> rat) list"
  rate_tracker :: tracker
  provider_semaphores :: "(string \<times> nat) list"
  probe_locks :: "(string \<times> bool) list"
  last_selection :: "model_selection option"
  degraded_selection_count :: nat

text \<open>What the environment contributes to one call: clocks, date parsers, random numbers.\<close>

record router_tick = clocks +
  parsers :: date_parsers
  uniform :: "rat \<Rightarrow> rat \<Rightarrow> rat"
  sample_index :: nat

definition get_stats :: "instant \<Rightarrow> string \<Rightarrow> 'r smart_router_scheme \<Rightarrow> model_stats" where
  "get_stats now m r = (case map_of (stats_of r) m of Some s \<Rightarrow> s | None \<Rightarrow> new_stats m now)"

definition put_stats :: "string \<Rightarrow> model_stats \<Rightarrow> 'r smart_router_scheme \<Rightarrow> 'r smart_router_scheme" where
  "put_stats m s r = r\<lparr>stats_of := AList.update m s (stats_of r)\<rparr>"

definition touch_stats :: "instant \<Rightarrow> string \<Rightarrow> 'r smart_router_scheme \<Rightarrow> 'r smart_router_scheme" where
  "touch_stats now m r = put_stats m (get_stats now m r) r"

definition bulkhead_limits :: "(string \<times> nat) list" where
  "bulkhead_limits =
     [(''ollama'', 10), (''openai'', 50), (''anthropic'', 50), (''gemini'', 50), (''gh'', 30), (''azure'', 50)]"

definition bulkhead_limit :: "string \<Rightarrow> nat" where
  "bulkhead_limit p = (case map_of bulkhead_limits p of Some l \<Rightarrow> l | None \<Rightarrow> 20)"

text \<open>The free permits of a provider's semaphore, and whether its probe lock is held; both are
  created at their first use.\<close>

definition semaphore_value :: "string \<Rightarrow> 'r smart_router_scheme \<Rightarrow> nat" where
  "semaphore_value m r =
     (case map_of (provider_semaphores r) (extract_provider m) of
        Some v \<Rightarrow> v | None \<Rightarrow> bulkhead_limit (extract_provider m))"

definition set_semaphore :: "string \<Rightarrow> nat \<Rightarrow> 'r smart_router_scheme \<Rightarrow> 'r smart_router_scheme" where
  "set_semaphore m v r =
     r\<lparr>provider_semaphores := AList.update (extract_provider m) v (provider_semaphores r)\<rparr>"

definition probe_locked :: "string \<Rightarrow> 'r smart_router_scheme \<Rightarrow> bool" where
  "probe_locked m r = (case map_of (probe_locks r) (extract_provider m) of Some b \<Rightarrow> b | None \<Rightarrow> False)"

definition set_probe_lock :: "string \<Rightarrow> bool \<Rightarrow> 'r smart_router_scheme \<Rightarrow> 'r smart_router_scheme" where
  "set_probe_lock m b r = r\<lparr>probe_locks := AList.update (extract_provider m) b (probe_locks r)\<rparr>"

definition set_last_selection :: "model_selection \<Rightarrow> 'r smart_router_scheme \<Rightarrow> 'r smart_router_scheme" where
  "set_last_selection sel r =
     (let r1 = r\<lparr>last_selection := Some sel\<rparr>
      in if is_degraded sel then r1\<lparr>degraded_selection_count := degraded_selection_count r1 + 1\<rparr> else r1)"

section \<open>Recording outcomes\<close>

definition calculate_cooldown :: "cooldown_config \<Rightarrow> model_stats \<Rightarrow> string \<Rightarrow> int" where
  "calculate_cooldown cfg s error_type =
     (let base = (if error_type = ''rate_limit'' then base_rate_limit_cooldown cfg
                  else if error_type = ''timeout'' then base_timeout_cooldown cfg
                  else base_failure_cooldown cfg);
          multiplier = consecutive_failure_multiplier cfg ^ min (consecutive_failures s) 5
      in min (trunc (of_int base * multiplier)) (max_cooldown_seconds cfg))"

definition router_record_success :: "router_tick \<Rightarrow> string \<Rightarrow> rat \<Rightarrow> 'r smart_router_scheme \<Rightarrow> 'r smart_router_scheme" where
  "router_record_success tk m latency r =
     mark_available m (put_stats m (record_success (utc tk) (sample_index tk) latency (get_stats (utc tk) m r)) r)"

definition failed_stats :: "router_tick \<Rightarrow> cooldown_config \<Rightarrow> string \<Rightarrow> model_stats \<Rightarrow> model_stats" where
  "failed_stats tk cfg error_type s =
     (let s1 = record_failure (utc tk) (monotonic tk) s
      in set_cooldown (utc tk) (monotonic tk) (of_int (calculate_cooldown cfg s1 error_type)) s1)"

definition router_record_failure ::
  "router_tick \<Rightarrow> string \<Rightarrow> string \<Rightarrow> bool \<Rightarrow> 'r smart_router_scheme \<Rightarrow> 'r smart_router_scheme" where
  "router_record_failure tk m error_type is_permanent r =
     (let r1 = put_stats m (failed_stats tk (cooldowns r) error_type (get_stats (utc tk) m r)) r
      in if is_permanent then mark_unavailable m r1 else r1)"

definition timed_out_stats :: "router_tick \<Rightarrow> cooldown_config \<Rightarrow> model_stats \<Rightarrow> model_stats" where
  "timed_out_stats tk cfg s =
     (let s1 = record_timeout (utc tk) (monotonic tk) s
      in set_cooldown (utc tk) (monotonic tk) (of_int (calculate_cooldown cfg s1 ''timeout'')) s1)"

definition router_record_timeout :: "router_tick \<Rightarrow> string \<Rightarrow> 'r smart_router_scheme \<Rightarrow> 'r smart_router_scheme" where
  "router_record_timeout tk m r = put_stats m (timed_out_stats tk (cooldowns r) (get_stats (utc tk) m r)) r"

text \<open>The tracker raises \<open>TypeError\<close> for a header with a naive date.\<close>

definition router_record_rate_limit ::
  "router_tick \<Rightarrow> string \<Rightarrow> headers option \<Rightarrow> 'r smart_router_scheme \<Rightarrow> (header_error + unit) \<times> 'r smart_router_scheme" where
  "router_record_rate_limit tk m hs r =
     (let r1 = touch_stats (utc tk) m r
      in case get_cooldown_seconds (parsers tk) (clocks.truncate tk) (uniform tk) m hs 120 (rate_tracker r1) of
           (tr, Inl e) \<Rightarrow> (Inl e, r1\<lparr>rate_tracker := tr\<rparr>)
         | (tr, Inr c) \<Rightarrow>
             (Inr (), put_stats m
                (record_rate_limit (utc tk) (monotonic tk) (Some (of_int c)) (get_stats (utc tk) m r1))
                (r1\<lparr>rate_tracker := tr\<rparr>)))"

text \<open>A provider exception: its type and text, and the attributes the router looks for
  (\<^const>\<open>None\<close> where one is missing or has another type).\<close>

record error_response =
  resp_headers :: "headers option"
  resp_status :: "int option"

record provider_error =
  err_type :: string
  err_text :: string
  err_headers :: "headers option"
  err_status :: "int option"
  err_response :: "error_response option"

definition headers_from_error :: "provider_error \<Rightarrow> headers option" where
  "headers_from_error e =
     (case err_headers e of
        Some h \<Rightarrow> Some h
      | None \<Rightarrow> (case err_response e of Some resp \<Rightarrow> resp_headers resp | None \<Rightarrow> None))"

definition status_code_from_error :: "provider_error \<Rightarrow> int option" where
  "status_code_from_error e =
     (case err_status e of
        Some s \<Rightarrow> Some s
      | None \<Rightarrow> (case err_response e of Some resp \<Rightarrow> resp_status resp | None \<Rightarrow> None))"

definition permanent_http_status :: "int set" where
  "permanent_http_status = {401, 403, 404, 410}"

definition record_by_status ::
  "router_tick \<Rightarrow> string \<Rightarrow> provider_error \<Rightarrow> 'r smart_router_scheme \<Rightarrow> (header_error + unit) \<times> 'r smart_router_scheme" where
  "record_by_status tk m e r =
     (let error_str = lower (err_text e);
          hs = headers_from_error e;
          status = status_code_from_error e
      in if status \<in> Some ` permanent_http_status then (Inr (), router_record_failure tk m ''permanent'' True r)
         else if status = Some 429 then router_record_rate_limit tk m hs r
         else if status = Some 408 then (Inr (), router_record_timeout tk m r)
         else if fst (classify_error error_str) = RATE_LIMITED then router_record_rate_limit tk m hs r
         else if contains error_str ''timeout'' then (Inr (), router_record_timeout tk m r)
         else (Inr (), router_record_failure tk m (err_type e) False r))"

definition classify_and_record_error ::
  "router_tick \<Rightarrow> string \<Rightarrow> provider_error \<Rightarrow> 'r smart_router_scheme \<Rightarrow> (header_error + unit) \<times> 'r smart_router_scheme" where
  "classify_and_record_error tk m e r =
     (case headers_from_error e of
        None \<Rightarrow> record_by_status tk m e r
      | Some h \<Rightarrow>
          (case update_from_headers (parsers tk) (clocks.truncate tk) m h (rate_tracker r) of
             (tr, Inl err) \<Rightarrow> (Inl err, r\<lparr>rate_tracker := tr\<rparr>)
           | (tr, Inr _) \<Rightarrow> record_by_status tk m e (r\<lparr>rate_tracker := tr\<rparr>)))"

section \<open>Selection\<close>

text \<open>The loop body of \<open>_find_candidates_in_tier\<close> for one model of the chain.\<close>

definition consider_model ::
  "routing_env \<Rightarrow> router_tick \<Rightarrow> rat option \<Rightarrow> string \<Rightarrow> 'r smart_router_scheme \<Rightarrow> bool \<times> 'r smart_router_scheme" where
  "consider_model env tk max_cost m r =
     (if is_quarantined env m then (False, r)
      else case is_model_available m r of
             (False, r1) \<Rightarrow> (False, r1)
           | (True, r1) \<Rightarrow>
               if max_cost_lane_ceiling env \<noteq> Paid \<and> \<not> is_within_cost_lane env m (max_cost_lane_ceiling env)
               then (False, r1)
               else case check_circuit (utc tk) (monotonic tk) (get_stats (utc tk) m r1) of
                      (s, admitted) \<Rightarrow>
                        (admitted \<and> \<not> is_in_cooldown (monotonic tk) s \<and>
                           (case max_cost of
                              None \<Rightarrow> True
                            | Some c \<Rightarrow> \<not> (case map_of (model_costs r1) m of Some x \<Rightarrow> x | None \<Rightarrow> 0) > c),
                         put_stats m s r1))"

text \<open>A candidate is paired in the source with its statistics object; the statistics are
  looked up in the state where they are read.\<close>

fun candidates_from ::
  "routing_env \<Rightarrow> router_tick \<Rightarrow> rat option \<Rightarrow> string list \<Rightarrow> 'r smart_router_scheme \<Rightarrow> string list \<times> 'r smart_router_scheme" where
  "candidates_from env tk max_cost [] r = ([], r)"
| "candidates_from env tk max_cost (m # ms) r =
     (case consider_model env tk max_cost m r of (ok, r1) \<Rightarrow>
        (case candidates_from env tk max_cost ms r1 of (cs, r2) \<Rightarrow> (if ok then m # cs else cs, r2)))"

definition find_candidates_in_tier ::
  "routing_env \<Rightarrow> router_tick \<Rightarrow> rat option \<Rightarrow> model_tier \<Rightarrow> 'r smart_router_scheme \<Rightarrow>
    (routing_error + string list) \<times> 'r smart_router_scheme" where
  "find_candidates_in_tier env tk max_cost t r =
     (case get_chain env t r of
        Inl e \<Rightarrow> (Inl e, r)
      | Inr c \<Rightarrow> (case candidates_from env tk max_cost (chain_models c) r of (cs, r1) \<Rightarrow> (Inr cs, r1)))"

definition tier_distance :: "model_tier \<Rightarrow> model_tier \<Rightarrow> nat" where
  "tier_distance t orig = nat \<bar>int (tier_value t) - int (tier_value orig)\<bar>"

definition tier_priority :: "model_tier \<Rightarrow> model_tier \<Rightarrow> nat \<times> nat" where
  "tier_priority orig t = (tier_distance t orig, if tier_value t < tier_value orig then 0 else 1)"

definition eligible_tiers :: "model_tier \<Rightarrow> model_tier list" where
  "eligible_tiers orig = sort_key (tier_priority orig) (filter (\<lambda>t. t \<noteq> orig \<and> t \<noteq> TIER_0) all_tiers)"

fun search_tiers ::
  "routing_env \<Rightarrow> router_tick \<Rightarrow> rat option \<Rightarrow> model_tier list \<Rightarrow> 'r smart_router_scheme \<Rightarrow>
    (routing_error + string list \<times> model_tier option) \<times> 'r smart_router_scheme" where
  "search_tiers env tk max_cost [] r = (Inr ([], None), r)"
| "search_tiers env tk max_cost (t # ts) r =
     (case find_candidates_in_tier env tk max_cost t r of
        (Inl e, r1) \<Rightarrow> (Inl e, r1)
      | (Inr cs, r1) \<Rightarrow> if cs \<noteq> [] then (Inr (cs, Some t), r1) else search_tiers env tk max_cost ts r1)"

definition cross_tier_search ::
  "routing_env \<Rightarrow> router_tick \<Rightarrow> rat option \<Rightarrow> model_tier \<Rightarrow> 'r smart_router_scheme \<Rightarrow>
    (routing_error + string list \<times> model_tier option) \<times> 'r smart_router_scheme" where
  "cross_tier_search env tk max_cost orig r = search_tiers env tk max_cost (eligible_tiers orig) r"

definition health_score :: "instant \<Rightarrow> model_stats \<Rightarrow> rat" where
  "health_score now s =
     recent_success_rate s * (6/10)
     + (if ema_latency_ms s > 0 then max 0 (1 - ema_latency_ms s / 10000) * (2/10) else 2/10)
     + (case last_success s of None \<Rightarrow> 2/10 | Some t \<Rightarrow> max 0 (1 - (now - t) / 3600) * (2/10))"

text \<open>The stable descending sort by score, of which the first is taken.\<close>

definition best_by_health :: "instant \<Rightarrow> 'r smart_router_scheme \<Rightarrow> string list \<Rightarrow> string" where
  "best_by_health now r cs = hd (sort_key (\<lambda>m. - health_score now (get_stats now m r)) cs)"

text \<open>The end of \<open>get_model_for_tier\<close>, once there are candidates.\<close>

definition choose_candidate ::
  "routing_env \<Rightarrow> router_tick \<Rightarrow> model_tier \<Rightarrow> bool \<Rightarrow> string list \<Rightarrow> model_tier \<Rightarrow> bool \<Rightarrow> 'r smart_router_scheme \<Rightarrow>
    string \<times> 'r smart_router_scheme" where
  "choose_candidate env tk t prefer_healthy cs actual degraded r =
     (let pinned = (if degraded \<or> t \<in> fst ` set (custom_chains r) then None else env_tier_pin env t);
          cs1 = (case pinned of Some p \<Rightarrow> if p \<in> set cs then [p] else cs | None \<Rightarrow> cs);
          selected = (if \<not> prefer_healthy \<or> length cs1 = 1 then hd cs1 else best_by_health (utc tk) r cs1)
      in (selected, set_last_selection
            \<lparr>selected_name = selected, requested_tier = tier_name t, actual_tier = tier_name actual,
             is_degraded = degraded\<rparr> r))"

definition no_candidates ::
  "routing_env \<Rightarrow> bool \<Rightarrow> 'r smart_router_scheme \<Rightarrow> (routing_error + string option) \<times> 'r smart_router_scheme" where
  "no_candidates env allow_cross_tier r =
     (if allow_cross_tier \<and> \<not> env_set env ''AGENTIC_NO_LLM'' then Inl NoProviderConfigured else Inr None,
      r\<lparr>last_selection := None\<rparr>)"

definition get_model_for_tier ::
  "routing_env \<Rightarrow> router_tick \<Rightarrow> model_tier \<Rightarrow> bool \<Rightarrow> rat option \<Rightarrow> bool \<Rightarrow> string list \<Rightarrow> 'r smart_router_scheme \<Rightarrow>
    (routing_error + string option) \<times> 'r smart_router_scheme" where
  "get_model_for_tier env tk t prefer_healthy max_cost allow_cross_tier exclude r =
     (case find_candidates_in_tier env tk max_cost t r of
        (Inl e, r1) \<Rightarrow> (Inl e, r1)
      | (Inr cs0, r1) \<Rightarrow>
          let cs = filter (\<lambda>m. m \<notin> set exclude) cs0 in
          if cs0 \<noteq> [] \<and> cs = [] then (Inr None, r1\<lparr>last_selection := None\<rparr>)
          else if cs \<noteq> [] then apfst (Inr \<circ> Some) (choose_candidate env tk t prefer_healthy cs t False r1)
          else if \<not> allow_cross_tier then no_candidates env allow_cross_tier r1
          else case cross_tier_search env tk max_cost t r1 of
                 (Inl e, r2) \<Rightarrow> (Inl e, r2)
               | (Inr (cs2, None), r2) \<Rightarrow> no_candidates env allow_cross_tier r2
               | (Inr (cs2, Some t2), r2) \<Rightarrow>
                   apfst (Inr \<circ> Some) (choose_candidate env tk t prefer_healthy cs2 t2 True r2))"

section \<open>Inspection\<close>

fun healthy_from ::
  "router_tick \<Rightarrow> string list \<Rightarrow> 'r smart_router_scheme \<Rightarrow> (string \<times> rat) list \<times> 'r smart_router_scheme" where
  "healthy_from tk [] r = ([], r)"
| "healthy_from tk (m # ms) r =
     (case check_circuit (utc tk) (monotonic tk) (get_stats (utc tk) m r) of (s, admitted) \<Rightarrow>
        (case healthy_from tk ms (put_stats m s r) of (scored, r2) \<Rightarrow>
           (if admitted \<and> \<not> is_in_cooldown (monotonic tk) s then (m, recent_success_rate s) # scored else scored, r2)))"

definition get_fallback_chain_with_health ::
  "routing_env \<Rightarrow> router_tick \<Rightarrow> model_tier \<Rightarrow> 'r smart_router_scheme \<Rightarrow>
    (routing_error + (string \<times> rat) list) \<times> 'r smart_router_scheme" where
  "get_fallback_chain_with_health env tk t r =
     (case get_chain env t r of
        Inl e \<Rightarrow> (Inl e, r)
      | Inr c \<Rightarrow>
          (case healthy_from tk (chain_models c) r of
             (scored, r1) \<Rightarrow> (Inr (sort_key (\<lambda>x. - snd x) scored), r1)))"

datatype availability_reason =
    Quarantined
  | MarkedUnavailable
  | CircuitOpen rat
  | InCooldown rat
  | PoorRecentPerformance rat
  | RateLimitHistory nat
  | Healthy rat

record prediction =
  predicted_available :: bool
  confidence :: rat
  reason :: availability_reason

definition predict_availability ::
  "routing_env \<Rightarrow> router_tick \<Rightarrow> string \<Rightarrow> 'r smart_router_scheme \<Rightarrow> prediction \<times> 'r smart_router_scheme" where
  "predict_availability env tk m r =
     (let r0 = touch_stats (utc tk) m r;
          s = get_stats (utc tk) m r0;
          predict = (\<lambda>a c why. \<lparr>predicted_available = a, confidence = c, reason = why\<rparr>)
      in if is_quarantined env m then (predict False 1 Quarantined, r0)
         else case is_model_available m r0 of
                (False, r1) \<Rightarrow> (predict False 1 MarkedUnavailable, r1)
              | (True, r1) \<Rightarrow>
                  (if circuit s = OPEN then predict False (9/10) (CircuitOpen (recovery_timeout_seconds s))
                   else if is_in_cooldown (monotonic tk) s
                   then predict False (95/100) (InCooldown (cooldown_remaining_seconds (monotonic tk) s))
                   else if recent_success_rate s < 3/10
                   then predict True (4/10) (PoorRecentPerformance (recent_success_rate s))
                   else if rate_limit_count s > 5 then predict True (6/10) (RateLimitHistory (rate_limit_count s))
                   else predict True (min (9/10) (recent_success_rate s + 1/10)) (Healthy (recent_success_rate s)),
                   r1))"

record stats_summary =
  total_models :: nat
  healthy_models :: nat
  summary_degraded :: nat
  summary_models :: "(string \<times> stats_dict) list"

definition get_stats_summary :: "router_tick \<Rightarrow> 'r smart_router_scheme \<Rightarrow> stats_summary" where
  "get_stats_summary tk r =
     \<lparr>total_models = length (stats_of r),
      healthy_models = length (filter (\<lambda>(_, s). is_healthy (monotonic tk) s) (stats_of r)),
      summary_degraded = degraded_selection_count r,
      summary_models = map (\<lambda>(m, s). (m, to_dict s)) (stats_of r)\<rparr>"

section \<open>Bulkheads and probes\<close>

definition is_model_ready_for_attempt ::
  "instant \<Rightarrow> string \<Rightarrow> 'r smart_router_scheme \<Rightarrow> bool \<times> 'r smart_router_scheme" where
  "is_model_ready_for_attempt now m r =
     (let r1 = touch_stats now m r;
          s = get_stats now m r1
      in if circuit s = HALF_OPEN
         then let r2 = set_probe_lock m (probe_locked m r1) r1
              in if probe_locked m r2 then (False, r2)
                 else (semaphore_value m r2 > 0, set_semaphore m (semaphore_value m r2) r2)
         else (semaphore_value m r1 > 0, set_semaphore m (semaphore_value m r1) r1))"

text \<open>\<open>execute_with_bulkhead\<close> with a free permit: the permit is taken; in a half-open circuit the
  caller becomes the probe, unless the lock is held. Taking a free \<open>asyncio.Lock\<close> does not
  suspend, so the state is half open still when it is read again. The result says whether the
  caller holds the probe lock, or the circuit state of the \<open>CircuitResolvedError\<close>; then the
  permit is released.\<close>

definition bulkhead_enter ::
  "instant \<Rightarrow> string \<Rightarrow> 'r smart_router_scheme \<Rightarrow> (circuit_state + bool) \<times> 'r smart_router_scheme" where
  "bulkhead_enter now m r =
     (let r1 = touch_stats now m r;
          s = get_stats now m r1;
          r2 = set_semaphore m (semaphore_value m r1 - 1) r1
      in if circuit s = HALF_OPEN
         then if probe_locked m r2
              then (Inl (circuit s), set_semaphore m (semaphore_value m r2 + 1) (set_probe_lock m True r2))
              else (Inr True, put_stats m (s\<lparr>probe_in_progress := True\<rparr>) (set_probe_lock m True r2))
         else (Inr False, r2))"

definition bulkhead_exit :: "instant \<Rightarrow> string \<Rightarrow> bool \<Rightarrow> 'r smart_router_scheme \<Rightarrow> 'r smart_router_scheme" where
  "bulkhead_exit now m probing r =
     (let r1 = (if probing
                then set_probe_lock m False (put_stats m ((get_stats now m r)\<lparr>probe_in_progress := False\<rparr>) r)
                else r)
      in set_semaphore m (semaphore_value m r1 + 1) r1)"

section \<open>Calls with fallback\<close>

text \<open>What an awaited provider call does. While it runs, other coroutines may use the router:
  the call maps the router and the rest of the world to an outcome, a router and a world.\<close>

datatype 'a call_outcome = Returned 'a | Raised provider_error | RaisedResolved | CallCancelled

type_synonym ('w, 'a) caller = "string \<Rightarrow> smart_router \<times> 'w \<Rightarrow> 'a call_outcome \<times> smart_router \<times> 'w"

datatype call_error =
    Routing routing_error
  | BadHeader header_error
  | AllModelsFailed "string list" "provider_error option"
  | Cancelled
  | Attempt provider_error
  | Hook string

text \<open>The environment at each attempt: when it selects, and when its call is over.\<close>

record attempt_world =
  at_env :: routing_env
  at_select :: router_tick
  at_done :: router_tick

definition execute_call ::
  "instant \<Rightarrow> instant \<Rightarrow> ('w, 'a) caller \<Rightarrow> string \<Rightarrow> smart_router \<times> 'w \<Rightarrow> 'a call_outcome \<times> smart_router \<times> 'w" where
  "execute_call t1 t2 caller m st =
     (case bulkhead_enter t1 m (fst st) of
        (Inl c, r1) \<Rightarrow> (RaisedResolved, r1, snd st)
      | (Inr probing, r1) \<Rightarrow>
          (case caller m (r1, snd st) of (res, r2, w) \<Rightarrow> (res, bulkhead_exit t2 m probing r2, w)))"

definition elapsed_ms :: "attempt_world \<Rightarrow> rat" where
  "elapsed_ms a = (monotonic (at_done a) - monotonic (at_select a)) * 1000"

text \<open>The loop of \<open>call_with_fallback\<close>: \<open>n\<close> attempts are left, \<open>a\<close> gives the environment of each.\<close>

fun call_loop ::
  "(nat \<Rightarrow> attempt_world) \<Rightarrow> ('w, 'a) caller \<Rightarrow> model_tier \<Rightarrow> nat \<Rightarrow> string list \<Rightarrow> provider_error option \<Rightarrow>
    smart_router \<times> 'w \<Rightarrow> (call_error + string \<times> 'a) \<times> smart_router \<times> 'w" where
  "call_loop a caller t 0 tried last_error st = (Inl (AllModelsFailed tried last_error), st)"
| "call_loop a caller t (Suc n) tried last_error st =
     (case get_model_for_tier (at_env (a n)) (at_select (a n)) t True None True tried (fst st) of
        (Inl e, r1) \<Rightarrow> (Inl (Routing e), r1, snd st)
      | (Inr None, r1) \<Rightarrow> (Inl (AllModelsFailed tried last_error), r1, snd st)
      | (Inr (Some m), r1) \<Rightarrow>
          if m \<in> set tried then (Inl (AllModelsFailed tried last_error), r1, snd st)
          else case is_model_ready_for_attempt (utc (at_select (a n))) m r1 of
                 (False, r2) \<Rightarrow> call_loop a caller t n (tried @ [m]) last_error (r2, snd st)
               | (True, r2) \<Rightarrow>
                   (case execute_call (utc (at_select (a n))) (utc (at_done (a n))) caller m (r2, snd st) of
                      (Returned x, r3, w) \<Rightarrow>
                        (Inr (m, x), router_record_success (at_done (a n)) m (elapsed_ms (a n)) r3, w)
                    | (CallCancelled, r3, w) \<Rightarrow> (Inl Cancelled, r3, w)
                    | (RaisedResolved, r3, w) \<Rightarrow> call_loop a caller t n (tried @ [m]) last_error (r3, w)
                    | (Raised e, r3, w) \<Rightarrow>
                        (case classify_and_record_error (at_done (a n)) m e r3 of
                           (Inl h, r4) \<Rightarrow> (Inl (BadHeader h), r4, w)
                         | (Inr _, r4) \<Rightarrow> call_loop a caller t n (tried @ [m]) (Some e) (r4, w))))"

definition call_with_fallback ::
  "(nat \<Rightarrow> attempt_world) \<Rightarrow> ('w, 'a) caller \<Rightarrow> model_tier \<Rightarrow> nat \<Rightarrow> smart_router \<times> 'w \<Rightarrow>
    (call_error + string \<times> 'a) \<times> smart_router \<times> 'w" where
  "call_with_fallback a caller t max_retries st = call_loop a caller t max_retries [] None st"

text \<open>\<open>run_with_fallback\<close>: the hooks may raise; an exception of \<open>attempt\<close> goes to \<open>on_error\<close>.\<close>

record ('w, 'a) hooks =
  pre_attempt :: "string \<Rightarrow> smart_router \<times> 'w \<Rightarrow> call_error option \<times> smart_router \<times> 'w"
  attempt :: "('w, 'a) caller"
  on_error :: "string \<Rightarrow> provider_error \<Rightarrow> smart_router \<times> 'w \<Rightarrow> call_error option \<times> smart_router \<times> 'w"

definition fallback_failure :: "string list \<Rightarrow> provider_error option \<Rightarrow> call_error" where
  "fallback_failure tried last_error =
     (case last_error of Some e \<Rightarrow> Attempt e | None \<Rightarrow> AllModelsFailed tried None)"

definition select_for_attempt ::
  "attempt_world \<Rightarrow> model_tier \<Rightarrow> string option \<Rightarrow> string list \<Rightarrow> smart_router \<Rightarrow>
    (routing_error + string option) \<times> smart_router" where
  "select_for_attempt a t forced tried r =
     (case forced of
        None \<Rightarrow> get_model_for_tier (at_env a) (at_select a) t True None True tried r
      | Some m \<Rightarrow>
          if m = [] then get_model_for_tier (at_env a) (at_select a) t True None True tried r
          else (Inr (Some m), r))"

fun fallback_loop ::
  "(nat \<Rightarrow> attempt_world) \<Rightarrow> ('w, 'a) hooks \<Rightarrow> model_tier \<Rightarrow> string option \<Rightarrow> nat \<Rightarrow> string list \<Rightarrow>
    provider_error option \<Rightarrow> smart_router \<times> 'w \<Rightarrow> (call_error + 'a) \<times> smart_router \<times> 'w" where
  "fallback_loop a h t forced 0 tried last_error st = (Inl (fallback_failure tried last_error), st)"
| "fallback_loop a h t forced (Suc n) tried last_error st =
     (case select_for_attempt (a n) t forced tried (fst st) of
        (Inl e, r1) \<Rightarrow> (Inl (Routing e), r1, snd st)
      | (Inr None, r1) \<Rightarrow> (Inl (fallback_failure tried last_error), r1, snd st)
      | (Inr (Some m), r1) \<Rightarrow>
          if m \<in> set tried then (Inl (fallback_failure tried last_error), r1, snd st)
          else case pre_attempt h m (r1, snd st) of
                 (Some e, st2) \<Rightarrow> (Inl e, st2)
               | (None, st2) \<Rightarrow>
                   (case attempt h m st2 of
                      (Returned x, st3) \<Rightarrow> (Inr x, st3)
                    | (CallCancelled, st3) \<Rightarrow> (Inl Cancelled, st3)
                    | (RaisedResolved, st3) \<Rightarrow> fallback_loop a h t forced n (tried @ [m]) last_error st3
                    | (Raised e, st3) \<Rightarrow>
                        (case on_error h m e st3 of
                           (Some err, st4) \<Rightarrow> (Inl err, st4)
                         | (None, st4) \<Rightarrow> fallback_loop a h t forced n (tried @ [m]) (Some e) st4)))"

definition run_with_fallback ::
  "routing_env \<Rightarrow> (nat \<Rightarrow> attempt_world) \<Rightarrow> ('w, 'a) hooks \<Rightarrow> model_tier \<Rightarrow> string option \<Rightarrow> nat \<Rightarrow>
    smart_router \<times> 'w \<Rightarrow> (call_error + 'a) \<times> smart_router \<times> 'w" where
  "run_with_fallback env a h t forced max_retries st =
     (case (case forced of None \<Rightarrow> Inr () | Some m \<Rightarrow> enforce_cost_lane_ceiling env None m) of
        Inl e \<Rightarrow> (Inl (Routing e), st)
      | Inr u \<Rightarrow> fallback_loop a h t forced max_retries [] None st)"

end
