(* ===== verification/Smart_Router_Props.thy ===== *)
theory Smart_Router_Props
  imports Smart_Router "HOL-Library.Multiset"
begin

text \<open>
  Properties of the smart router: which models it selects and when it gives up, how errors are
  recorded, that the fallback loops call every model at most once, and that bulkheads and probe
  locks keep their limits for every interleaving of calls.
\<close>

section \<open>What the operations leave alone\<close>

text \<open>A view of the router that a selection does not change: it depends on no cache, and not
  on a circuit going half open.\<close>

locale router_view =
  fixes look :: "smart_router \<Rightarrow> 'v"
  assumes look_checked [simp]: "look (put_stats m (fst (check_circuit w mt (get_stats now m r))) r) = look r"
    and look_available [simp]: "look (r\<lparr>available_models := ms\<rparr>) = look r"
    and look_unavailable [simp]: "look (r\<lparr>unavailable_models := ms\<rparr>) = look r"
    and look_selection [simp]: "look (r\<lparr>last_selection := sel\<rparr>) = look r"
    and look_degraded [simp]: "look (r\<lparr>degraded_selection_count := k\<rparr>) = look r"
begin

lemma look_check: "check_circuit w mt (get_stats now m r) = (s, b) \<Longrightarrow> look (put_stats m s r) = look r"
  using look_checked [of m w mt now r] by simp

lemma look_available_check: "is_model_available m r = (b, r1) \<Longrightarrow> look r1 = look r"
  by (auto simp: is_model_available_def split: if_splits option.splits)

lemma look_consider: "consider_model env tk mc m r = (ok, r1) \<Longrightarrow> look r1 = look r"
  by (auto simp: consider_model_def Let_def split: if_splits prod.splits bool.splits
      dest!: look_available_check look_check)

lemma look_candidates: "candidates_from env tk mc ms r = (cs, r1) \<Longrightarrow> look r1 = look r"
proof (induction ms arbitrary: r cs)
  case (Cons m ms)
  then show ?case by (auto split: prod.splits dest: look_consider)
qed simp

lemma look_find: "find_candidates_in_tier env tk mc t r = (res, r1) \<Longrightarrow> look r1 = look r"
  by (auto simp: find_candidates_in_tier_def split: sum.splits prod.splits dest: look_candidates)

lemma look_search: "search_tiers env tk mc ts r = (res, r1) \<Longrightarrow> look r1 = look r"
proof (induction ts arbitrary: r)
  case (Cons t ts)
  then show ?case by (auto split: prod.splits sum.splits if_splits dest: look_find)
qed simp

lemma look_choose: "choose_candidate env tk t ph cs t' d r = (m, r1) \<Longrightarrow> look r1 = look r"
  by (auto simp: choose_candidate_def set_last_selection_def Let_def)

lemma look_get_model: "get_model_for_tier env tk t ph mc cross ex r = (res, r1) \<Longrightarrow> look r1 = look r"
  by (auto simp: get_model_for_tier_def cross_tier_search_def no_candidates_def Let_def apfst_def map_prod_def
      split: prod.splits sum.splits if_splits option.splits
      dest!: look_find look_search look_choose)

end

lemma put_stats_fields [simp]:
  "custom_chains (put_stats m s r) = custom_chains r"
  "model_costs (put_stats m s r) = model_costs r"
  "provider_semaphores (put_stats m s r) = provider_semaphores r"
  "probe_locks (put_stats m s r) = probe_locks r"
  by (simp_all add: put_stats_def)

text \<open>Whether a probe of a model is marked as running.\<close>

definition probe_flag :: "smart_router \<Rightarrow> string \<Rightarrow> bool" where
  "probe_flag r m \<longleftrightarrow> (case map_of (stats_of r) m of Some s \<Rightarrow> probe_in_progress s | None \<Rightarrow> False)"

lemma probe_flag_put: "probe_flag (put_stats m s r) x = (if x = m then probe_in_progress s else probe_flag r x)"
  by (simp add: probe_flag_def put_stats_def)

lemma probe_flag_stats: "probe_in_progress (get_stats now m r) = probe_flag r m"
  by (simp add: probe_flag_def get_stats_def new_stats_def split: option.split)

lemma probe_flag_caches [simp]:
  "probe_flag (r\<lparr>available_models := ms\<rparr>) = probe_flag r"
  "probe_flag (r\<lparr>unavailable_models := ms\<rparr>) = probe_flag r"
  "probe_flag (r\<lparr>last_selection := sel\<rparr>) = probe_flag r"
  "probe_flag (r\<lparr>degraded_selection_count := k\<rparr>) = probe_flag r"
  "probe_flag (r\<lparr>rate_tracker := tr\<rparr>) = probe_flag r"
  "probe_flag (r\<lparr>provider_semaphores := sv\<rparr>) = probe_flag r"
  "probe_flag (r\<lparr>probe_locks := pl\<rparr>) = probe_flag r"
  by (simp_all add: fun_eq_iff probe_flag_def)

lemma check_keeps_probe [simp]: "probe_in_progress (fst (check_circuit w mt s)) = probe_in_progress s"
  by (auto simp: check_circuit_def split: circuit_state.splits option.splits)

interpretation chains: router_view custom_chains
  by unfold_locales simp_all

interpretation costs: router_view model_costs
  by unfold_locales simp_all

interpretation permits: router_view provider_semaphores
  by unfold_locales simp_all

interpretation plocks: router_view probe_locks
  by unfold_locales simp_all

interpretation flags: router_view probe_flag
  by unfold_locales (auto simp: probe_flag_put probe_flag_stats fun_eq_iff)

section \<open>Admissible models\<close>

text \<open>What makes a model a candidate, in terms of the state the selection starts from.\<close>

definition within_cost :: "rat option \<Rightarrow> smart_router \<Rightarrow> string \<Rightarrow> bool" where
  "within_cost mc r m \<longleftrightarrow>
     (case mc of None \<Rightarrow> True | Some c \<Rightarrow> (case map_of (model_costs r) m of Some x \<Rightarrow> x | None \<Rightarrow> 0) \<le> c)"

definition healthy_now :: "router_tick \<Rightarrow> model_stats \<Rightarrow> bool" where
  "healthy_now tk s \<longleftrightarrow> snd (check_circuit (utc tk) (monotonic tk) s) \<and> \<not> is_in_cooldown (monotonic tk) s"

definition admissible :: "routing_env \<Rightarrow> router_tick \<Rightarrow> rat option \<Rightarrow> smart_router \<Rightarrow> string \<Rightarrow> bool" where
  "admissible env tk mc r m \<longleftrightarrow>
     \<not> is_quarantined env m \<and> usable r m \<and> in_budget env m \<and> within_cost mc r m \<and>
     healthy_now tk (get_stats (utc tk) m r)"

lemma get_put_stats [simp]:
  "get_stats now x (put_stats m s r) = (if x = m then s else get_stats now x r)"
  by (simp add: get_stats_def put_stats_def)

lemma usable_put_stats [simp]: "usable (put_stats m s r) = usable r"
  by (rule ext) (simp add: usable_def is_model_available_def put_stats_def split: option.splits)

lemma checked_cooldown [simp]: "is_in_cooldown mt (fst (check_circuit w mt s)) = is_in_cooldown mt s"
  by (auto simp: check_circuit_def is_in_cooldown_def split: circuit_state.splits option.splits)

lemma healthy_checked: "healthy_now tk (fst (check_circuit (utc tk) (monotonic tk) s)) \<Longrightarrow> healthy_now tk s"
  unfolding healthy_now_def checked_cooldown
  by (auto simp: check_circuit_def split: circuit_state.splits option.splits if_splits)

lemma available_stats: "is_model_available m r = (b, r1) \<Longrightarrow> stats_of r1 = stats_of r"
  by (auto simp: is_model_available_def split: if_splits option.splits)

lemma admissible_cong:
  "usable r1 = usable r \<Longrightarrow> stats_of r1 = stats_of r \<Longrightarrow> model_costs r1 = model_costs r \<Longrightarrow>
     admissible env tk mc r1 = admissible env tk mc r"
  by (rule ext, cases mc) (simp_all add: admissible_def within_cost_def get_stats_def)

lemma admissible_checked:
  assumes "is_model_available m r = (b, r1)"
  shows "admissible env tk mc r1 = admissible env tk mc r"
  using usable_stable(1) [OF assms] available_stats [OF assms] costs.look_available_check [OF assms]
  by (intro admissible_cong) auto

lemma admissible_put_stats:
  "admissible env tk mc (put_stats m s r) x =
     (if x = m then \<not> is_quarantined env m \<and> usable r m \<and> in_budget env m \<and> within_cost mc r m \<and> healthy_now tk s
      else admissible env tk mc r x)"
  by (cases mc) (simp_all add: admissible_def within_cost_def)

text \<open>One iteration: the verdict is admissibility, and looking at a model only ever takes
  admissibility away, and only from that model when it is admitted.\<close>

lemma consider_model_spec:
  assumes c: "consider_model env tk mc m r = (ok, r1)"
  shows "ok = admissible env tk mc r m"
    and "admissible env tk mc r1 x \<Longrightarrow> admissible env tk mc r x"
    and "admissible env tk mc r x \<Longrightarrow> x \<noteq> m \<or> \<not> ok \<Longrightarrow> admissible env tk mc r1 x"
proof -
  obtain b r0 where a: "is_model_available m r = (b, r0)" by fastforce
  note same = admissible_checked [OF a] usable_stable(2) [OF a] costs.look_available_check [OF a] available_stats [OF a]
  let ?s = "get_stats (utc tk) m r"
  have st: "get_stats (utc tk) m r0 = ?s" using same by (simp add: get_stats_def)
  have bud: "max_cost_lane_ceiling env \<noteq> Paid \<and> \<not> is_within_cost_lane env m (max_cost_lane_ceiling env) \<longleftrightarrow> \<not> in_budget env m"
    using in_budget_paid [of env m] by (auto simp: in_budget_def)
  have wc: "(case mc of None \<Rightarrow> True | Some c \<Rightarrow> \<not> (case map_of (model_costs r0) m of Some x \<Rightarrow> x | None \<Rightarrow> 0) > c) = within_cost mc r m"
    using same by (auto simp: within_cost_def split: option.splits)
  consider "is_quarantined env m \<or> \<not> usable r m \<or> \<not> in_budget env m" "\<not> ok" "r1 = r \<or> r1 = r0"
    | "\<not> is_quarantined env m" "usable r m" "in_budget env m" "ok = (healthy_now tk ?s \<and> within_cost mc r m)"
      "r1 = put_stats m (fst (check_circuit (utc tk) (monotonic tk) ?s)) r0"
  proof (cases "is_quarantined env m \<or> \<not> usable r m \<or> \<not> in_budget env m")
    case True
    then show thesis using c same(2) a by (intro that(1)) (auto simp: consider_model_def bud split: if_splits bool.splits)
  next
    case False
    obtain s adm where chk: "check_circuit (utc tk) (monotonic tk) ?s = (s, adm)" by fastforce
    have "is_in_cooldown (monotonic tk) s = is_in_cooldown (monotonic tk) ?s"
      using checked_cooldown [of "monotonic tk" "utc tk" ?s] chk by simp
    with c False same(2) show thesis
      by (intro that(2)) (simp_all add: consider_model_def a bud wc st chk healthy_now_def)
  qed
  note cases = this
  have wc0: "usable r0 m = usable r m" "within_cost mc r0 m = within_cost mc r m"
    using usable_stable(1) [OF a] same(3) by (cases mc; simp add: within_cost_def)+
  show "ok = admissible env tk mc r m" using cases by cases (auto simp: admissible_def)
  show "admissible env tk mc r x" if "admissible env tk mc r1 x"
    using cases
  proof cases
    case 1
    then show ?thesis using that same(1) by auto
  next
    case 2
    then show ?thesis
      using that same(1) wc0 healthy_checked [of tk ?s]
      by (cases "x = m") (auto simp: admissible_put_stats admissible_def [of _ _ _ r])
  qed
  show "admissible env tk mc r1 x" if "admissible env tk mc r x" "x \<noteq> m \<or> \<not> ok"
    using cases
  proof cases
    case 1
    then show ?thesis using that same(1) by auto
  next
    case 2
    then show ?thesis using that same(1) by (cases "x = m") (auto simp: admissible_put_stats admissible_def [of _ _ _ r])
  qed
qed

lemma candidates_from_spec:
  assumes "candidates_from env tk mc ms r = (cs, r1)"
  shows "set cs = {m \<in> set ms. admissible env tk mc r m}"
    and "cs = [] \<Longrightarrow> admissible env tk mc r1 = admissible env tk mc r"
    and "admissible env tk mc r1 x \<Longrightarrow> admissible env tk mc r x"
  using assms
proof (induction ms arbitrary: r cs)
  case (Cons m ms)
  {
    case 1
    then obtain ok r0 cs0 where c: "consider_model env tk mc m r = (ok, r0)" "candidates_from env tk mc ms r0 = (cs0, r1)"
      "cs = (if ok then m # cs0 else cs0)" by (auto split: prod.splits)
    note k = consider_model_spec [OF c(1)]
    show ?case using Cons.IH(1) [OF c(2)] k c(3) by (cases ok) auto
  next
    case 2
    then obtain ok r0 where c: "consider_model env tk mc m r = (ok, r0)" "candidates_from env tk mc ms r0 = ([], r1)" "\<not> ok"
      by (auto split: prod.splits if_splits)
    note k = consider_model_spec [OF c(1)]
    show ?case using Cons.IH(2) [OF refl c(2)] k(2, 3) c(3) by (auto simp: fun_eq_iff)
  next
    case 3
    then show ?case using Cons.IH(3) consider_model_spec(2) by (auto split: prod.splits)
  }
qed auto

text \<open>The models of a tier that can be selected.\<close>

definition tier_options :: "routing_env \<Rightarrow> router_tick \<Rightarrow> rat option \<Rightarrow> smart_router \<Rightarrow> model_tier \<Rightarrow> string list" where
  "tier_options env tk mc r t =
     (case get_chain env t r of Inl _ \<Rightarrow> [] | Inr c \<Rightarrow> filter (admissible env tk mc r) (chain_models c))"

lemma get_chain_cong: "custom_chains r1 = custom_chains r \<Longrightarrow> get_chain env t r1 = get_chain env t r"
  by (simp add: get_chain_def)

lemma find_candidates_spec:
  assumes f: "find_candidates_in_tier env tk mc t r = (Inr cs, r1)"
  shows "set cs = set (tier_options env tk mc r t)"
    and "cs = [] \<Longrightarrow> tier_options env tk mc r1 = tier_options env tk mc r"
proof -
  obtain c where c: "get_chain env t r = Inr c" "candidates_from env tk mc (chain_models c) r = (cs, r1)"
    using f by (auto simp: find_candidates_in_tier_def split: sum.splits prod.splits)
  show "set cs = set (tier_options env tk mc r t)"
    using candidates_from_spec(1) [OF c(2)] c(1) by (simp add: tier_options_def)
  show "tier_options env tk mc r1 = tier_options env tk mc r" if "cs = []"
    using candidates_from_spec(2) [OF c(2) that] chains.look_find [OF f]
    by (intro ext) (simp add: tier_options_def get_chain_cong [of r1 r] split: sum.split)
qed

lemma search_tiers_spec:
  assumes "search_tiers env tk mc ts r = (Inr (cs, found), r1)"
  shows "case found of
      None \<Rightarrow> (\<forall>t\<in>set ts. tier_options env tk mc r t = [])
    | Some t \<Rightarrow> cs \<noteq> [] \<and> set cs = set (tier_options env tk mc r t) \<and> t \<in> set ts \<and>
        (\<forall>t'\<in>set (takeWhile (\<lambda>x. x \<noteq> t) ts). tier_options env tk mc r t' = [])"
  using assms
proof (induction ts arbitrary: r)
  case (Cons t ts)
  obtain res r0 where f: "find_candidates_in_tier env tk mc t r = (res, r0)" by fastforce
  with Cons.prems obtain cs0 where cs0: "res = Inr cs0" by (cases res) auto
  note k = find_candidates_spec [OF f [unfolded cs0]]
  show ?case
  proof (cases "cs0 = []")
    case True
    with Cons.prems f cs0 have "search_tiers env tk mc ts r0 = (Inr (cs, found), r1)" by simp
    from Cons.IH [OF this] k True show ?thesis by (auto split: option.splits)
  next
    case False
    with Cons.prems f cs0 k show ?thesis by auto
  qed
qed simp

section \<open>Selection\<close>

lemma choose_candidate_spec:
  assumes "choose_candidate env tk t ph cs t' d r = (m, r1)" "cs \<noteq> []"
  shows "m \<in> set cs" and "last_selection r1 =
      Some \<lparr>selected_name = m, requested_tier = tier_name t, actual_tier = tier_name t', is_degraded = d\<rparr>"
    and "stats_of r1 = stats_of r"
proof -
  have best: "best_by_health (utc tk) r xs \<in> set xs" if "xs \<noteq> []" for xs
    using that hd_in_set [of "sort_key (\<lambda>m. - health_score (utc tk) (get_stats (utc tk) m r)) xs"]
    by (metis best_by_health_def set_empty set_sort)
  show "m \<in> set cs" using assms best by (auto simp: choose_candidate_def Let_def split: if_splits option.splits)
  show "last_selection r1 =
      Some \<lparr>selected_name = m, requested_tier = tier_name t, actual_tier = tier_name t', is_degraded = d\<rparr>"
    and "stats_of r1 = stats_of r"
    using assms by (auto simp: choose_candidate_def set_last_selection_def Let_def)
qed

text \<open>How a selection that returns a model went.\<close>

lemma get_model_cases:
  assumes "get_model_for_tier env tk t ph mc cross ex r = (Inr (Some m), r')"
  obtains (own) cs r1 where "find_candidates_in_tier env tk mc t r = (Inr cs, r1)"
      "filter (\<lambda>m. m \<notin> set ex) cs \<noteq> []" "choose_candidate env tk t ph (filter (\<lambda>m. m \<notin> set ex) cs) t False r1 = (m, r')"
  | (degraded) r1 cs t' r2 where "find_candidates_in_tier env tk mc t r = (Inr [], r1)" "cross"
      "search_tiers env tk mc (eligible_tiers t) r1 = (Inr (cs, Some t'), r2)"
      "choose_candidate env tk t ph cs t' True r2 = (m, r')"
  using assms
  by (auto simp: get_model_for_tier_def cross_tier_search_def no_candidates_def Let_def apfst_def map_prod_def
      split: prod.splits sum.splits if_splits option.splits)

lemma all_tiers_UNIV: "set all_tiers = UNIV"
proof -
  have "t \<in> set all_tiers" for t by (cases t) (simp_all add: all_tiers_def)
  then show ?thesis by blast
qed

lemma eligible_tiers_set [simp]: "set (eligible_tiers t) = {t'. t' \<noteq> t \<and> t' \<noteq> TIER_0}"
  by (auto simp: eligible_tiers_def all_tiers_UNIV)

lemma tier_priority_inj: "tier_priority t a = tier_priority t b \<Longrightarrow> a = b"
  by (cases t; cases a; cases b) (simp_all add: tier_priority_def tier_distance_def)

lemma sorted_before:
  assumes "sorted (map f xs)" "y \<in> set xs" "f x < f y" "x \<in> set xs"
  shows "x \<in> set (takeWhile (\<lambda>z. z \<noteq> y) xs)"
  using assms by (induction xs) auto

lemma nearer_tier_first:
  assumes "t' \<in> set (eligible_tiers t)" "t'' \<in> set (eligible_tiers t)" "tier_priority t t'' < tier_priority t t'"
  shows "t'' \<in> set (takeWhile (\<lambda>x. x \<noteq> t') (eligible_tiers t))"
  using assms by (intro sorted_before [where f = "tier_priority t"]) (auto simp: eligible_tiers_def)

text \<open>
  C21. A selected model is admissible: it belongs to the chain of the tier recorded as actual, is
  neither quarantined nor unavailable, lies within the cost-lane ceiling and the cost limit, its
  circuit admits a request and it is not in cooldown. Without degradation it comes from the
  requested tier and was not excluded; degradation happens only when allowed and when the
  requested tier has no admissible model, and then the nearest tier with one is taken, the
  lower one first.
\<close>

theorem selection_admissible:
  assumes "get_model_for_tier env tk t ph mc cross ex r = (Inr (Some m), r')"
  shows "\<exists>t' c d. last_selection r' =
      Some \<lparr>selected_name = m, requested_tier = tier_name t, actual_tier = tier_name t', is_degraded = d\<rparr> \<and>
    get_chain env t' r = Inr c \<and> m \<in> set (chain_models c) \<and>
    \<not> is_quarantined env m \<and> usable r m \<and> is_within_cost_lane env m (max_cost_lane_ceiling env) \<and>
    within_cost mc r m \<and> healthy_now tk (get_stats (utc tk) m r) \<and>
    (if d then cross \<and> t' \<noteq> t \<and> t' \<noteq> TIER_0 \<and> tier_options env tk mc r t = [] \<and>
        (\<forall>t''. t'' \<noteq> t \<and> t'' \<noteq> TIER_0 \<and> tier_priority t t'' < tier_priority t t' \<longrightarrow> tier_options env tk mc r t'' = [])
     else t' = t \<and> m \<notin> set ex)"
proof -
  have opt: "\<exists>c. get_chain env x r = Inr c \<and> m \<in> set (chain_models c) \<and> admissible env tk mc r m"
    if "m \<in> set (tier_options env tk mc r x)" for x
    using that by (cases "get_chain env x r") (auto simp: tier_options_def)
  show ?thesis
    using assms
  proof (cases rule: get_model_cases)
    case (own cs r1)
    note ch = choose_candidate_spec(1, 2) [OF own(3, 2)]
    have "m \<in> set (tier_options env tk mc r t)" "m \<notin> set ex" using ch(1) find_candidates_spec(1) [OF own(1)] by auto
    moreover from opt [OF this(1)] obtain c
      where "get_chain env t r = Inr c" "m \<in> set (chain_models c)" "admissible env tk mc r m" by blast
    ultimately show ?thesis using ch(2)
      by (intro exI [of _ t] exI [of _ c] exI [of _ False]) (simp add: admissible_def in_budget_def)
  next
    case (degraded r1 cs t' r2)
    note f = find_candidates_spec [OF degraded(1)]
    note se = search_tiers_spec [OF degraded(3)]
    have "cs \<noteq> []" using se by simp
    note ch = choose_candidate_spec(1, 2) [OF degraded(4) this]
    have none: "tier_options env tk mc r t = []" using f(1) by simp
    have near: "tier_options env tk mc r t'' = []"
      if "t'' \<noteq> t" "t'' \<noteq> TIER_0" "tier_priority t t'' < tier_priority t t'" for t''
      using nearer_tier_first [of t' t t''] se f(2) that by auto
    have "m \<in> set (tier_options env tk mc r t')" using ch(1) se f(2) by simp
    then obtain c where "get_chain env t' r = Inr c" "m \<in> set (chain_models c)" "admissible env tk mc r m"
      using opt by blast
    with ch(2) se none near degraded(2) show ?thesis
      by (intro exI [of _ t'] exI [of _ c] exI [of _ True]) (auto simp: admissible_def in_budget_def)
  qed
qed

text \<open>The order of preference in the requested tier: an eligible pin, else by health.\<close>

lemma sort_key_hd_least:
  assumes "x \<in> set xs"
  shows "f (hd (sort_key f xs)) \<le> f x"
proof -
  have "x \<in> set (sort_key f xs)" "sorted (map f (sort_key f xs))" using assms by simp_all
  then show ?thesis by (cases "sort_key f xs") auto
qed

lemma choose_candidate_order:
  assumes "choose_candidate env tk t True cs t' d r = (m, r1)" "cs \<noteq> []"
  shows "\<lbrakk>\<not> d; t \<notin> fst ` set (custom_chains r); env_tier_pin env t = Some p; p \<in> set cs\<rbrakk> \<Longrightarrow> m = p"
    and "\<lbrakk>d \<or> t \<in> fst ` set (custom_chains r) \<or> env_tier_pin env t = None; x \<in> set cs\<rbrakk> \<Longrightarrow>
      health_score (utc tk) (get_stats (utc tk) x r) \<le> health_score (utc tk) (get_stats (utc tk) m r)"
proof -
  show "m = p" if "\<not> d" "t \<notin> fst ` set (custom_chains r)" "env_tier_pin env t = Some p" "p \<in> set cs"
    using assms that by (simp add: choose_candidate_def Let_def)
  show "health_score (utc tk) (get_stats (utc tk) x r) \<le> health_score (utc tk) (get_stats (utc tk) m r)"
    if h: "d \<or> t \<in> fst ` set (custom_chains r) \<or> env_tier_pin env t = None" and x: "x \<in> set cs"
  proof -
    have p: "(if d \<or> t \<in> fst ` set (custom_chains r) then None else env_tier_pin env t) = None" using h by auto
    have "m = (if length cs = 1 then hd cs else best_by_health (utc tk) r cs)"
      using assms(1) unfolding choose_candidate_def p by (auto simp: Let_def)
    moreover have "length cs = 1 \<Longrightarrow> x = hd cs" using x by (cases cs) auto
    ultimately show ?thesis
      using sort_key_hd_least [OF x, of "\<lambda>m. - health_score (utc tk) (get_stats (utc tk) m r)"]
      by (auto simp: best_by_health_def split: if_splits)
  qed
qed

text \<open>
  The order of preference in the requested tier: an eligible pin of the environment that was
  not excluded always wins, unless a registered chain owns the tier; without a pin no other
  eligible model has a better health score than the selected one.
\<close>

theorem selection_prefers:
  assumes "get_model_for_tier env tk t True mc cross ex r = (Inr (Some m), r')"
    and "last_selection r' = Some sel" "\<not> is_degraded sel"
    and "x \<in> set (tier_options env tk mc r t)" "x \<notin> set ex"
  shows "(t \<notin> fst ` set (custom_chains r) \<and> env_tier_pin env t = Some x \<longrightarrow> m = x) \<and>
    (t \<in> fst ` set (custom_chains r) \<or> env_tier_pin env t = None \<longrightarrow>
      health_score (utc tk) (get_stats (utc tk) x r') \<le> health_score (utc tk) (get_stats (utc tk) m r'))"
  using assms(1)
proof (cases rule: get_model_cases)
  case (own cs r1)
  have x: "x \<in> set (filter (\<lambda>m. m \<notin> set ex) cs)" using find_candidates_spec(1) [OF own(1)] assms(4, 5) by simp
  have c: "custom_chains r1 = custom_chains r" by (rule chains.look_find [OF own(1)])
  have "get_stats (utc tk) y r' = get_stats (utc tk) y r1" for y
    using choose_candidate_spec(3) [OF own(3, 2)] by (simp add: get_stats_def)
  with choose_candidate_order [OF own(3, 2), of x] x c show ?thesis by auto
next
  case (degraded r1 cs t' r2)
  have "cs \<noteq> []" using search_tiers_spec [OF degraded(3)] by simp
  from choose_candidate_spec(2) [OF degraded(4) this] assms(2, 3) show ?thesis by simp
qed

lemma find_no_provider_error:
  "find_candidates_in_tier env tk mc t r = (res, r1) \<Longrightarrow> res \<noteq> Inl NoProviderConfigured"
  by (auto simp: find_candidates_in_tier_def get_chain_def make_chain_def Let_def
      split: sum.splits prod.splits option.splits if_splits)

lemma search_no_provider_error:
  "search_tiers env tk mc ts r = (res, r1) \<Longrightarrow> res \<noteq> Inl NoProviderConfigured"
proof (induction ts arbitrary: r)
  case (Cons t ts)
  then show ?case by (auto split: prod.splits sum.splits if_splits dest: find_no_provider_error)
qed auto


section \<open>Recording errors\<close>

lemma calculate_cooldown_le: "calculate_cooldown cfg s e \<le> max_cooldown_seconds cfg"
  by (simp add: calculate_cooldown_def Let_def)

lemma trunc_ge:
  assumes "of_int k \<le> x" "0 \<le> k"
  shows "k \<le> trunc x"
proof -
  have "0 \<le> (of_int k :: rat)" using assms(2) by simp
  with assms(1) have "\<not> x < 0" by linarith
  then show ?thesis using assms(1) by (simp only: trunc_def if_False le_floor_iff)
qed

lemma default_cooldown_ge: "30 \<le> calculate_cooldown default_cooldown_config s e"
proof -
  have "30 \<le> trunc (of_int b * (3/2) ^ k)" if b: "30 \<le> b" for b k
  proof -
    have "(1::rat) \<le> (3/2) ^ k" by (rule one_le_power) simp
    moreover have "(30::rat) \<le> of_int b" using b by simp
    ultimately have "30 * 1 \<le> of_int b * (3/2 :: rat) ^ k" by (intro mult_mono) auto
    then show ?thesis by (intro trunc_ge) simp_all
  qed
  then show ?thesis by (simp add: calculate_cooldown_def default_cooldown_config_def Let_def)
qed

lemma record_failure_counts [simp]:
  "failure_count (record_failure w mt s) = Suc (failure_count s)"
  "timeout_count (record_failure w mt s) = timeout_count s"
  "rate_limit_count (record_failure w mt s) = rate_limit_count s"
  "probe_in_progress (record_failure w mt s) = probe_in_progress s"
  by (auto simp: record_failure_def circuit_failure_def push_recent_def Let_def)

lemma router_availability [simp]:
  "unavailable_models (put_stats m s r) = unavailable_models r"
  "unavailable_models (mark_unavailable m r) = insert m (unavailable_models r)"
  "stats_of (mark_unavailable m r) = stats_of r"
  "map_of (stats_of (put_stats m s r)) x = (if x = m then Some s else map_of (stats_of r) x)"
  "get_stats now x (r\<lparr>rate_tracker := tr\<rparr>) = get_stats now x r"
  "get_stats now x (mark_unavailable m r) = get_stats now x r"
  by (simp_all add: put_stats_def mark_unavailable_def get_stats_def)

lemma rate_limit_recorded:
  assumes "router_record_rate_limit tk m hs r = (Inr u, r')"
  shows "\<exists>c tr. r' = put_stats m (record_rate_limit (utc tk) (monotonic tk) (Some (of_int c)) (get_stats (utc tk) m r))
    (r\<lparr>rate_tracker := tr\<rparr>)"
proof -
  obtain tr res where "get_cooldown_seconds (parsers tk) (clocks.truncate tk) (uniform tk) m hs 120 (rate_tracker r) = (tr, res)"
    by fastforce
  with assms show ?thesis
    by (cases res) (auto simp: router_record_rate_limit_def touch_stats_def Let_def put_stats_def get_stats_def
        intro!: exI [of _ tr] exI [of _ "projr res"])
qed

text \<open>How an error changes the router: the statistics of the model, and its availability.\<close>

definition error_recorded :: "router_tick \<Rightarrow> string \<Rightarrow> bool \<Rightarrow> smart_router \<Rightarrow> smart_router \<Rightarrow> bool" where
  "error_recorded tk m permanent r r' \<longleftrightarrow>
     unavailable_models r' = (if permanent then insert m (unavailable_models r) else unavailable_models r) \<and>
     (\<forall>x. x \<noteq> m \<longrightarrow> map_of (stats_of r') x = map_of (stats_of r) x) \<and>
     failure_count (get_stats (utc tk) m r') = Suc (failure_count (get_stats (utc tk) m r)) \<and>
     consecutive_failures (get_stats (utc tk) m r') = Suc (consecutive_failures (get_stats (utc tk) m r))"

lemma record_by_status_cases:
  assumes "record_by_status tk m e r = (Inr u, r')"
  obtains (permanent) "status_code_from_error e \<in> Some ` permanent_http_status"
      "r' = mark_unavailable m (put_stats m (failed_stats tk (cooldowns r) ''permanent'' (get_stats (utc tk) m r)) r)"
    | (limited) c tr where "status_code_from_error e \<notin> Some ` permanent_http_status" "status_code_from_error e \<noteq> Some 408"
      "r' = put_stats m (record_rate_limit (utc tk) (monotonic tk) (Some (of_int c)) (get_stats (utc tk) m r)) (r\<lparr>rate_tracker := tr\<rparr>)"
    | (timed_out) "status_code_from_error e \<notin> Some ` permanent_http_status" "status_code_from_error e \<noteq> Some 429"
      "r' = put_stats m (timed_out_stats tk (cooldowns r) (get_stats (utc tk) m r)) r"
    | (failed) "status_code_from_error e \<notin> Some ` permanent_http_status \<union> {Some 429, Some 408}"
      "r' = put_stats m (failed_stats tk (cooldowns r) (err_type e) (get_stats (utc tk) m r)) r"
  using assms
  by (auto simp: record_by_status_def router_record_failure_def router_record_timeout_def Let_def permanent_http_status_def
      split: if_splits dest!: rate_limit_recorded)

lemmas recorded_stats =
  failed_stats_def timed_out_stats_def record_rate_limit_def record_timeout_def set_cooldown_def

lemma record_by_status_spec:
  assumes "record_by_status tk m e r = (Inr u, r')"
  shows "error_recorded tk m (status_code_from_error e \<in> Some ` permanent_http_status) r r'"
    and "status_code_from_error e = Some 429 \<Longrightarrow>
      rate_limit_count (get_stats (utc tk) m r') = Suc (rate_limit_count (get_stats (utc tk) m r))"
    and "status_code_from_error e = Some 408 \<Longrightarrow>
      timeout_count (get_stats (utc tk) m r') = Suc (timeout_count (get_stats (utc tk) m r)) \<and>
      rate_limit_count (get_stats (utc tk) m r') = rate_limit_count (get_stats (utc tk) m r)"
    and "\<exists>c. cooldown_until_mono (get_stats (utc tk) m r') = Some (monotonic tk + of_int c) \<and>
      (cooldowns r = default_cooldown_config \<and>
         rate_limit_count (get_stats (utc tk) m r') = rate_limit_count (get_stats (utc tk) m r) \<longrightarrow> 30 \<le> c \<and> c \<le> 600)"
proof -
  have le: "calculate_cooldown default_cooldown_config s k \<le> 600" for s k
    using calculate_cooldown_le [of default_cooldown_config s k] by (simp add: default_cooldown_config_def)
  show "error_recorded tk m (status_code_from_error e \<in> Some ` permanent_http_status) r r'"
    using assms by (cases rule: record_by_status_cases) (simp_all add: error_recorded_def recorded_stats Let_def)
  show "rate_limit_count (get_stats (utc tk) m r') = Suc (rate_limit_count (get_stats (utc tk) m r))"
    if "status_code_from_error e = Some 429"
    using assms by (cases rule: record_by_status_cases) (use that in \<open>simp_all add: permanent_http_status_def recorded_stats\<close>)
  show "timeout_count (get_stats (utc tk) m r') = Suc (timeout_count (get_stats (utc tk) m r)) \<and>
      rate_limit_count (get_stats (utc tk) m r') = rate_limit_count (get_stats (utc tk) m r)"
    if "status_code_from_error e = Some 408"
    using assms
    by (cases rule: record_by_status_cases) (use that in \<open>auto simp: permanent_http_status_def recorded_stats Let_def\<close>)
  show "\<exists>c. cooldown_until_mono (get_stats (utc tk) m r') = Some (monotonic tk + of_int c) \<and>
      (cooldowns r = default_cooldown_config \<and>
         rate_limit_count (get_stats (utc tk) m r') = rate_limit_count (get_stats (utc tk) m r) \<longrightarrow> 30 \<le> c \<and> c \<le> 600)"
    using assms
    by (cases rule: record_by_status_cases)
       (auto simp: recorded_stats Let_def le default_cooldown_ge intro!: exI)
qed

text \<open>
  Errors are recorded by their HTTP status first: a model becomes unavailable exactly for
  401, 403, 404 and 410, 429 counts as a rate limit and 408 as a timeout and not as a rate
  limit, whatever the message says. Each error adds one failure to the statistics of this model
  only and starts a cooldown, of 30 to 600 seconds with the default configuration unless it is a
  rate limit.
\<close>

theorem error_recorded_by_status:
  fixes r :: smart_router
  assumes "classify_and_record_error tk m e r = (Inr u, r')"
  shows "unavailable_models r' =
      (if status_code_from_error e \<in> Some ` {401, 403, 404, 410} then insert m (unavailable_models r) else unavailable_models r) \<and>
    (\<forall>x. x \<noteq> m \<longrightarrow> map_of (stats_of r') x = map_of (stats_of r) x) \<and>
    failure_count (get_stats (utc tk) m r') = Suc (failure_count (get_stats (utc tk) m r)) \<and>
    (status_code_from_error e = Some 429 \<longrightarrow>
      rate_limit_count (get_stats (utc tk) m r') = Suc (rate_limit_count (get_stats (utc tk) m r))) \<and>
    (status_code_from_error e = Some 408 \<longrightarrow>
      timeout_count (get_stats (utc tk) m r') = Suc (timeout_count (get_stats (utc tk) m r)) \<and>
      rate_limit_count (get_stats (utc tk) m r') = rate_limit_count (get_stats (utc tk) m r)) \<and>
    (\<exists>c. cooldown_until_mono (get_stats (utc tk) m r') = Some (monotonic tk + of_int c) \<and>
      (cooldowns r = default_cooldown_config \<and>
         rate_limit_count (get_stats (utc tk) m r') = rate_limit_count (get_stats (utc tk) m r) \<longrightarrow> 30 \<le> c \<and> c \<le> 600))"
proof -
  obtain tr where "record_by_status tk m e (r\<lparr>rate_tracker := tr\<rparr>) = (Inr u, r')"
  proof (cases "headers_from_error e")
    case None
    then show thesis using assms by (intro that [of "rate_tracker r"]) (simp add: classify_and_record_error_def)
  next
    case (Some h)
    then show thesis using assms that by (auto simp: classify_and_record_error_def split: prod.splits sum.splits)
  qed
  note s = record_by_status_spec [OF this]
  show ?thesis
    using s(1) s(2, 3) s(4) unfolding error_recorded_def permanent_http_status_def by simp
qed

section \<open>Fallback\<close>

text \<open>A caller that notes the models it is called for.\<close>

definition traced :: "(unit, 'a) caller \<Rightarrow> (string list, 'a) caller" where
  "traced c m st = (case c m (fst st, ()) of (res, r, _) \<Rightarrow> (res, r, snd st @ [m]))"

lemma execute_traced:
  "execute_call t1 t2 (traced c) m (r, w) = (res, r1, w1) \<Longrightarrow>
     w1 = w @ [m] \<or> (w1 = w \<and> res = RaisedResolved)"
  by (auto simp: execute_call_def traced_def split: prod.splits sum.splits)

definition trace_ok :: "nat \<Rightarrow> call_error + string \<times> 'a \<Rightarrow> string list \<Rightarrow> bool" where
  "trace_ok n res w \<longleftrightarrow> distinct w \<and> length w \<le> n \<and>
     (\<forall>m x. res = Inr (m, x) \<longrightarrow> w \<noteq> [] \<and> last w = m) \<and>
     (\<forall>ms e. res = Inl (AllModelsFailed ms e) \<longrightarrow> set w \<subseteq> set ms)"

lemma trace_ok_mono: "trace_ok k res w \<Longrightarrow> k \<le> n \<Longrightarrow> trace_ok n res w"
  by (auto simp: trace_ok_def)

lemma call_loop_trace:
  assumes "call_loop a (traced c) t n tried le (r, w) = (res, r', w')" "distinct w" "set w \<subseteq> set tried"
  shows "trace_ok (length w + n) res w'"
  using assms
proof (induction n arbitrary: tried le r w)
  case (Suc n)
  let ?goal = "trace_ok (length w + Suc n) res w'"
  obtain g r1 where g: "get_model_for_tier (at_env (a n)) (at_select (a n)) t True None True tried r = (g, r1)" by fastforce
  note prems = Suc.prems(2, 3)
  show ?goal
  proof (cases "\<exists>m. g = Inr (Some m) \<and> m \<notin> set tried")
    case False
    then show ?thesis using Suc.prems g by (cases g; cases "projr g") (auto simp: trace_ok_def)
  next
    case True
    then obtain m where m: "g = Inr (Some m)" "m \<notin> set tried" by blast
    obtain b r2 where b: "is_model_ready_for_attempt (utc (at_select (a n))) m r1 = (b, r2)" by fastforce
    have rec: ?goal if "call_loop a (traced c) t n (tried @ [m]) le2 (r3, w2) = (res, r', w')" "w2 = w \<or> w2 = w @ [m]" for le2 r3 w2
    proof -
      have "distinct w2" "set w2 \<subseteq> set (tried @ [m])" "length w2 \<le> Suc (length w)" using that(2) prems m(2) by auto
      from trace_ok_mono [OF Suc.IH [OF that(1) this(1, 2)]] this(3) show ?thesis by simp
    qed
    show ?thesis
    proof (cases b)
      case False
      then show ?thesis using Suc.prems(1) g m b by (intro rec [of le r2 w]) simp_all
    next
      case True
      obtain o1 r3 w3 where ex: "execute_call (utc (at_select (a n))) (utc (at_done (a n))) (traced c) m (r2, w) = (o1, r3, w3)"
        by (metis prod_cases3)
      note w3 = execute_traced [OF ex]
      have step: "call_loop a (traced c) t (Suc n) tried le (r, w) =
          (case (o1, r3, w3) of
             (Returned x, r3, w) \<Rightarrow> (Inr (m, x), router_record_success (at_done (a n)) m (elapsed_ms (a n)) r3, w)
           | (CallCancelled, r3, w) \<Rightarrow> (Inl Cancelled, r3, w)
           | (RaisedResolved, r3, w) \<Rightarrow> call_loop a (traced c) t n (tried @ [m]) le (r3, w)
           | (Raised e, r3, w) \<Rightarrow>
               (case classify_and_record_error (at_done (a n)) m e r3 of
                  (Inl h, r4) \<Rightarrow> (Inl (BadHeader h), r4, w)
                | (Inr _, r4) \<Rightarrow> call_loop a (traced c) t n (tried @ [m]) (Some e) (r4, w)))"
        using g m b ex True by simp
      show ?thesis
      proof (cases o1)
        case (Raised e)
        then have w: "w3 = w @ [m]" using w3 by simp
        obtain q r4 where q: "classify_and_record_error (at_done (a n)) m e r3 = (q, r4)" by fastforce
        show ?thesis
        proof (cases q)
          case (Inl h)
          then show ?thesis using Suc.prems(1) [unfolded step] Raised q w prems m(2) by (auto simp: trace_ok_def)
        next
          case (Inr v)
          then show ?thesis using Suc.prems(1) [unfolded step] Raised q w by (intro rec [of "Some e" r4 w3]) simp_all
        qed
      next
        case RaisedResolved
        then show ?thesis using Suc.prems(1) [unfolded step] w3 by (intro rec [of le r3 w3]) auto
      qed (use Suc.prems(1) [unfolded step] w3 prems m(2) in \<open>auto simp: trace_ok_def\<close>)
    qed
  qed
qed (auto simp: trace_ok_def)

text \<open>
  C23. Fallback calls distinct models: whatever the provider calls return and whatever other
  tasks do to the router meanwhile, \<open>call_with_fallback\<close> calls every model at most once and at
  most \<open>max_retries\<close> models in all; the answer it returns is of the last model called, and when
  it fails the error lists every model that was called.
\<close>

theorem fallback_calls_distinct:
  assumes "call_with_fallback a (traced c) t n (r, []) = (res, r', calls)"
  shows "distinct calls \<and> length calls \<le> n \<and>
    (\<forall>m x. res = Inr (m, x) \<longrightarrow> calls \<noteq> [] \<and> last calls = m) \<and>
    (\<forall>tried e. res = Inl (AllModelsFailed tried e) \<longrightarrow> set calls \<subseteq> set tried)"
  using call_loop_trace [OF assms [unfolded call_with_fallback_def]] by (simp add: trace_ok_def)

text \<open>A forced model above the ceiling is refused before anything is called.\<close>

lemma forced_model_checked:
  assumes "max_cost_lane_ceiling env \<noteq> Paid" "\<not> is_within_cost_lane env m (max_cost_lane_ceiling env)"
  shows "run_with_fallback env a h t (Some m) n st =
    (Inl (Routing (CostLaneCeilingExceeded (max_cost_lane_ceiling env) 1)), st)"
  using assms by (simp add: run_with_fallback_def enforce_cost_lane_ceiling_def Let_def)

section \<open>Witnesses\<close>

definition blank_router :: smart_router where
  "blank_router =
     \<lparr>custom_chains = [], available_models = {}, unavailable_models = {}, discovered = False, health_checker = None,
      stats_of = [], cooldowns = default_cooldown_config, model_costs = [], rate_tracker = [],
      provider_semaphores = [], probe_locks = [], last_selection = None, degraded_selection_count = 0\<rparr>"

definition sample_tick :: router_tick where
  "sample_tick =
     \<lparr>monotonic = 100, epoch = 100, utc = 100,
      parsers = \<lparr>http_date = (\<lambda>_. None), iso_date = (\<lambda>_. None)\<rparr>, uniform = (\<lambda>a b. a), sample_index = 0\<rparr>"

definition sample_error :: provider_error where
  "sample_error =
     \<lparr>err_type = ''APIError'', err_text = ''Rate limit while waiting'', err_headers = None, err_status = Some 408, err_response = None\<rparr>"

definition failed_router :: smart_router where
  "failed_router = snd (classify_and_record_error sample_tick ''gh:mini'' sample_error blank_router)"

lemma sample_selections:
  "fst (get_model_for_tier sample_env sample_tick TIER_2 True None True [''gh:mini''] blank_router) = Inr (Some ''gh:tiny'')"
  "fst (get_model_for_tier sample_env sample_tick TIER_3 True None True [] blank_router) = Inr (Some ''gh:mini'')"
  "fst (get_model_for_tier sample_env sample_tick TIER_3 True None False [] blank_router) = Inr None"
  "fst (get_model_for_tier sample_env sample_tick TIER_2 True None True [] failed_router) = Inr (Some ''gh:tiny'')"
  "fst (get_model_for_tier sample_env sample_tick TIER_2 True None True [] blank_router) = Inr (Some ''gh:mini'')"
  "map_option is_degraded (last_selection (snd (get_model_for_tier sample_env sample_tick TIER_2 True None True [] blank_router)))
     = Some False"
  "tier_options sample_env sample_tick None blank_router TIER_2 = [''gh:mini'', ''gh:tiny'']"
  "env_tier_pin sample_env TIER_2 = None"
  by code_simp+

text \<open>The excluded models are not dropped from the candidates of another tier: a degraded
  selection returns the same model again.\<close>

lemma degraded_ignores_exclude:
  "fst (get_model_for_tier sample_env sample_tick TIER_3 True None True [''gh:mini''] blank_router) = Inr (Some ''gh:mini'')"
  by code_simp

theorem selection_admissible_witness:
  "admissible sample_env sample_tick None failed_router ''gh:tiny'' \<and> ''gh:tiny'' \<noteq> ''gh:mini''"
  using selection_admissible [of sample_env sample_tick TIER_2 True None True "[]" failed_router "''gh:tiny''"
      "snd (get_model_for_tier sample_env sample_tick TIER_2 True None True [] failed_router)"] sample_selections(4)
  by (auto simp: prod_eq_iff admissible_def in_budget_def)

theorem error_recorded_by_status_witness:
  "unavailable_models failed_router = {} \<and>
   timeout_count (get_stats 100 ''gh:mini'' failed_router) = Suc (timeout_count (get_stats 100 ''gh:mini'' blank_router))"
proof -
  have "fst (classify_and_record_error sample_tick ''gh:mini'' sample_error blank_router) = Inr ()"
    "status_code_from_error sample_error = Some 408" by code_simp+
  then show ?thesis
    using error_recorded_by_status [of sample_tick "''gh:mini''" sample_error blank_router "()" failed_router]
    by (simp add: prod_eq_iff failed_router_def) (simp add: sample_tick_def blank_router_def)
qed

theorem selection_prefers_witness:
  "health_score 100 (get_stats 100 ''gh:tiny'' (snd (get_model_for_tier sample_env sample_tick TIER_2 True None True [] blank_router)))
   \<le> health_score 100 (get_stats 100 ''gh:mini'' (snd (get_model_for_tier sample_env sample_tick TIER_2 True None True [] blank_router)))"
proof -
  let ?r = "snd (get_model_for_tier sample_env sample_tick TIER_2 True None True [] blank_router)"
  obtain sel where "last_selection ?r = Some sel" "\<not> is_degraded sel" using sample_selections(6) by auto
  then have "env_tier_pin sample_env TIER_2 = None \<longrightarrow>
      health_score (utc sample_tick) (get_stats (utc sample_tick) ''gh:tiny'' ?r)
      \<le> health_score (utc sample_tick) (get_stats (utc sample_tick) ''gh:mini'' ?r)"
    using selection_prefers [of sample_env sample_tick TIER_2 None True "[]" blank_router "''gh:mini''" ?r sel "''gh:tiny''"]
      sample_selections(5, 7) by (simp add: prod_eq_iff)
  then show ?thesis using sample_selections(8) by (simp add: sample_tick_def)
qed


definition flaky :: "(unit, nat) caller" where
  "flaky m st = (if m = ''gh:mini'' then (Raised sample_error, st) else (Returned 7, st))"

definition sample_attempts :: "nat \<Rightarrow> attempt_world" where
  "sample_attempts n = \<lparr>at_env = sample_env, at_select = sample_tick, at_done = sample_tick\<rparr>"

theorem fallback_calls_distinct_witness:
  "case call_with_fallback sample_attempts (traced flaky) TIER_2 3 (blank_router, []) of
     (res, _, calls) \<Rightarrow> res = Inr (''gh:tiny'', 7) \<and> distinct calls \<and> last calls = ''gh:tiny''"
proof -
  obtain res r calls where c: "call_with_fallback sample_attempts (traced flaky) TIER_2 3 (blank_router, []) = (res, r, calls)"
    by (metis prod_cases3)
  have "fst (call_with_fallback sample_attempts (traced flaky) TIER_2 3 (blank_router, [])) = Inr (''gh:tiny'', 7)"
    by code_simp
  with c fallback_calls_distinct [OF c] show ?thesis by simp
qed

end
