(* ===== verification/Bulkhead.thy ===== *)
theory Bulkhead
  imports Smart_Router_Props
begin

text \<open>
  The bulkheads and probe locks of \<open>execute_with_bulkhead\<close> under concurrency: the calls in
  flight are a multiset, and tasks enter, leave, record outcomes and select models in any order.
  The code between two awaits is one step.
\<close>

section \<open>Interleavings\<close>

text \<open>A call in flight: its model, and whether it holds the probe lock.\<close>

type_synonym flight = "(string \<times> bool) multiset"

inductive bulkhead_step :: "smart_router \<times> flight \<Rightarrow> smart_router \<times> flight \<Rightarrow> bool" where
  enters: "semaphore_value m r > 0 \<Longrightarrow> bulkhead_enter now m r = (Inr p, r') \<Longrightarrow>
     bulkhead_step (r, C) (r', add_mset (m, p) C)"
| refused: "semaphore_value m r > 0 \<Longrightarrow> bulkhead_enter now m r = (Inl c, r') \<Longrightarrow> bulkhead_step (r, C) (r', C)"
| leaves: "bulkhead_step (r, add_mset (m, p) C) (bulkhead_exit now m p r, C)"
| asks: "bulkhead_step (r, C) (snd (is_model_ready_for_attempt now m r), C)"
| succeeds: "bulkhead_step (r, C) (router_record_success tk m latency r, C)"
| fails: "bulkhead_step (r, C) (snd (classify_and_record_error tk m e r), C)"
| selects: "bulkhead_step (r, C) (snd (get_model_for_tier env tk t ph mc cross ex r), C)"

inductive_cases bulkhead_stepE: "bulkhead_step s s'"

definition permits_of :: "smart_router \<Rightarrow> string \<Rightarrow> nat" where
  "permits_of r p = (case map_of (provider_semaphores r) p of Some v \<Rightarrow> v | None \<Rightarrow> bulkhead_limit p)"

definition lock_held :: "smart_router \<Rightarrow> string \<Rightarrow> bool" where
  "lock_held r p \<longleftrightarrow> map_of (probe_locks r) p = Some True"

definition calls_of :: "flight \<Rightarrow> string \<Rightarrow> nat" where
  "calls_of C p = size {#x \<in># C. extract_provider (fst x) = p#}"

definition probes_of :: "flight \<Rightarrow> string \<Rightarrow> nat" where
  "probes_of C p = size {#x \<in># C. extract_provider (fst x) = p \<and> snd x#}"

definition bulkhead_inv :: "smart_router \<times> flight \<Rightarrow> bool" where
  "bulkhead_inv s \<longleftrightarrow>
     (\<forall>p. permits_of (fst s) p + calls_of (snd s) p = bulkhead_limit p \<and>
          probes_of (snd s) p = (if lock_held (fst s) p then 1 else 0)) \<and>
     (\<forall>m. probe_flag (fst s) m \<longleftrightarrow> (m, True) \<in># snd s)"

lemma semaphore_permits: "semaphore_value m r = permits_of r (extract_provider m)"
  by (simp add: semaphore_value_def permits_of_def)

lemma locked_held: "probe_locked m r = lock_held r (extract_provider m)"
  by (simp add: probe_locked_def lock_held_def split: option.split)

lemma calls_add [simp]:
  "calls_of (add_mset (m, b) C) p = calls_of C p + (if extract_provider m = p then 1 else 0)"
  "probes_of (add_mset (m, b) C) p = probes_of C p + (if extract_provider m = p \<and> b then 1 else 0)"
  by (simp_all add: calls_of_def probes_of_def)

lemma permits_ops [simp]:
  "permits_of (set_semaphore m v r) p = (if p = extract_provider m then v else permits_of r p)"
  "permits_of (set_probe_lock m b r) p = permits_of r p"
  "permits_of (put_stats m s r) p = permits_of r p"
  "permits_of (touch_stats now m r) p = permits_of r p"
  "lock_held (set_semaphore m v r) p = lock_held r p"
  "lock_held (set_probe_lock m b r) p = (if p = extract_provider m then b else lock_held r p)"
  "lock_held (put_stats m s r) p = lock_held r p"
  "lock_held (touch_stats now m r) p = lock_held r p"
  by (simp_all add: permits_of_def lock_held_def set_semaphore_def set_probe_lock_def touch_stats_def)

lemma flag_ops [simp]:
  "probe_flag (set_semaphore m v r) = probe_flag r"
  "probe_flag (set_probe_lock m b r) = probe_flag r"
  "probe_flag (touch_stats now m r) = probe_flag r"
  "probe_flag (mark_available m r) = probe_flag r"
  "probe_flag (mark_unavailable m r) = probe_flag r"
  by (simp_all add: touch_stats_def probe_flag_put probe_flag_stats set_semaphore_def set_probe_lock_def
      mark_available_def mark_unavailable_def fun_eq_iff)

lemma probes_none: "probes_of C (extract_provider m) = 0 \<Longrightarrow> (m, True) \<notin># C"
  by (auto dest!: multi_member_split)

lemma probes_one: "probes_of (add_mset (m, True) C) (extract_provider m) = 1 \<Longrightarrow> (m, True) \<notin># C"
  using probes_none [of C m] by simp

text \<open>Recording an outcome and selecting a model leave permits, locks and flags alone.\<close>

definition same_guards :: "smart_router \<Rightarrow> smart_router \<Rightarrow> bool" where
  "same_guards r' r \<longleftrightarrow> permits_of r' = permits_of r \<and> lock_held r' = lock_held r \<and> probe_flag r' = probe_flag r"

lemma same_guards_inv: "same_guards r' r \<Longrightarrow> bulkhead_inv (r, C) \<Longrightarrow> bulkhead_inv (r', C)"
  by (simp add: same_guards_def bulkhead_inv_def)

lemma same_guards_trans: "same_guards a b \<Longrightarrow> same_guards b c \<Longrightarrow> same_guards a c"
  by (simp add: same_guards_def)

lemma guards_cong:
  "provider_semaphores r' = provider_semaphores r \<Longrightarrow> probe_locks r' = probe_locks r \<Longrightarrow> probe_flag r' = probe_flag r \<Longrightarrow>
     same_guards r' r"
  by (simp add: same_guards_def permits_of_def lock_held_def fun_eq_iff)

lemma same_guards_put:
  "probe_in_progress s = probe_in_progress (get_stats now m r) \<Longrightarrow> same_guards (put_stats m s r) r"
  by (rule guards_cong) (auto simp: probe_flag_put probe_flag_stats fun_eq_iff)

lemma same_guards_ops:
  "same_guards (r\<lparr>rate_tracker := tr\<rparr>) r"
  "same_guards (mark_available m r) r"
  "same_guards (mark_unavailable m r) r"
  "same_guards (touch_stats now m r) r"
  by (rule guards_cong; simp add: mark_available_def mark_unavailable_def touch_stats_def put_stats_def;
      simp add: touch_stats_def [symmetric] put_stats_def [symmetric])+

lemma success_guards: "same_guards (router_record_success tk m latency r) r"
  unfolding router_record_success_def
  by (rule same_guards_trans [OF same_guards_ops(2) same_guards_put [where now = "utc tk"]])
     (simp add: record_success_def circuit_success_def push_recent_def update_samples_def update_ema_def Let_def)

lemma recorded_probe [simp]:
  "probe_in_progress (failed_stats tk cfg e s) = probe_in_progress s"
  "probe_in_progress (timed_out_stats tk cfg s) = probe_in_progress s"
  "probe_in_progress (record_rate_limit w mt ra s) = probe_in_progress s"
  by (simp_all add: recorded_stats Let_def)

lemma failure_guards: "same_guards (router_record_failure tk m e perm r) r"
  using same_guards_trans [OF same_guards_ops(3) same_guards_put [where now = "utc tk"]]
  by (auto simp: router_record_failure_def Let_def intro: same_guards_put [where now = "utc tk"])

lemma timeout_guards: "same_guards (router_record_timeout tk m r) r"
  unfolding router_record_timeout_def by (rule same_guards_put) simp

lemma rate_limit_guards: "same_guards (snd (router_record_rate_limit tk m hs r)) r"
proof -
  let ?r1 = "touch_stats (utc tk) m r"
  have t: "same_guards (?r1\<lparr>rate_tracker := tr\<rparr>) r" for tr
    by (rule same_guards_trans [OF same_guards_ops(1, 4)])
  show ?thesis
    by (auto simp: router_record_rate_limit_def Let_def t split: prod.splits sum.splits
        intro!: same_guards_trans [OF same_guards_put [where now = "utc tk"] t])
qed

lemma error_guards: "same_guards (snd (classify_and_record_error tk m e r)) r"
proof -
  have st: "same_guards (snd (record_by_status tk m e r)) r" for r
    by (simp add: record_by_status_def Let_def failure_guards timeout_guards rate_limit_guards)
  show ?thesis
    by (auto simp: classify_and_record_error_def same_guards_ops(1) split: option.splits prod.splits sum.splits
        intro: st same_guards_trans [OF st same_guards_ops(1)])
qed

lemma select_guards: "same_guards (snd (get_model_for_tier env tk t ph mc cross ex r)) r"
  by (rule guards_cong; metis prod.collapse permits.look_get_model plocks.look_get_model flags.look_get_model)

lemma ready_guards: "same_guards (snd (is_model_ready_for_attempt now m r)) r"
  by (auto simp: same_guards_def is_model_ready_for_attempt_def Let_def semaphore_permits locked_held fun_eq_iff)

lemma bulkhead_step_inv: "bulkhead_step s s' \<Longrightarrow> bulkhead_inv s \<Longrightarrow> bulkhead_inv s'"
proof (erule bulkhead_stepE)
  fix m r now p r' C
  assume s: "s = (r, C)" "s' = (r', add_mset (m, p) C)" and v: "semaphore_value m r > 0"
    and e: "bulkhead_enter now m r = (Inr p, r')" and inv: "bulkhead_inv s"
  show "bulkhead_inv s'"
    using inv v e unfolding s
    by (auto simp: bulkhead_inv_def bulkhead_enter_def Let_def semaphore_permits locked_held probe_flag_put split: if_splits)
next
  fix m r now c r' C
  assume "s = (r, C)" "s' = (r', C)" "semaphore_value m r > 0" "bulkhead_enter now m r = (Inl c, r')" "bulkhead_inv s"
  then show "bulkhead_inv s'"
    by (auto simp: bulkhead_inv_def bulkhead_enter_def Let_def semaphore_permits locked_held split: if_splits)
next
  fix r m p C now
  assume s: "s = (r, add_mset (m, p) C)" "s' = (bulkhead_exit now m p r, C)" and inv: "bulkhead_inv s"
  then show "bulkhead_inv s'"
    using probes_one [of m C]
    by (auto simp: bulkhead_inv_def bulkhead_exit_def Let_def semaphore_permits locked_held probe_flag_put split: if_splits)
qed (auto intro: same_guards_inv success_guards error_guards select_guards ready_guards)

lemma bulkhead_runs_inv: "bulkhead_step\<^sup>*\<^sup>* s s' \<Longrightarrow> bulkhead_inv s \<Longrightarrow> bulkhead_inv s'"
  by (induction rule: rtranclp_induct) (auto dest: bulkhead_step_inv)

section \<open>Properties\<close>

text \<open>The initial router: no permit taken, no lock held, no probe marked.\<close>

definition idle :: "smart_router \<Rightarrow> bool" where
  "idle r \<longleftrightarrow> permits_of r = bulkhead_limit \<and> lock_held r = (\<lambda>_. False) \<and> probe_flag r = (\<lambda>_. False)"

text \<open>
  C24. Bulkheads and probes keep their limits for every interleaving of the tasks: a provider
  never has more calls in flight than its limit and never more than one probe, a model is marked
  as being probed exactly while a probe of it is in flight, and a permit or a lock is never
  lost: when no call is in flight, all permits are free and no lock is held.
\<close>

theorem bulkhead_limits_kept:
  assumes "bulkhead_step\<^sup>*\<^sup>* (r0, {#}) (r, C)" "idle r0"
  shows "calls_of C p \<le> bulkhead_limit p \<and> probes_of C p \<le> 1 \<and>
    (probe_flag r m \<longleftrightarrow> (m, True) \<in># C) \<and> (C = {#} \<longrightarrow> idle r)"
proof -
  have "bulkhead_inv (r0, {#})" using assms(2) by (simp add: idle_def bulkhead_inv_def calls_of_def probes_of_def)
  with assms(1) have "bulkhead_inv (r, C)" by (rule bulkhead_runs_inv)
  then have i: "\<And>p. permits_of r p + calls_of C p = bulkhead_limit p"
      "\<And>p. probes_of C p = (if lock_held r p then 1 else 0)" "\<And>m. probe_flag r m \<longleftrightarrow> (m, True) \<in># C"
    by (auto simp: bulkhead_inv_def)
  have "calls_of C p \<le> bulkhead_limit p" using i(1) [of p] by simp
  moreover have "idle r" if "C = {#}"
  proof -
    have "permits_of r q = bulkhead_limit q" "\<not> lock_held r q" for q
      using i(1) [of q] i(2) [of q] that by (auto simp: calls_of_def probes_of_def split: if_splits)
    then show ?thesis using i(3) that by (auto simp: idle_def fun_eq_iff)
  qed
  ultimately show ?thesis using i(2) [of p] i(3) by simp
qed

definition probing_router :: smart_router where
  "probing_router = blank_router\<lparr>stats_of := [(''gh:x'', (new_stats ''gh:x'' 0)\<lparr>circuit := HALF_OPEN\<rparr>)]\<rparr>"

theorem bulkhead_limits_kept_witness:
  "bulkhead_step (probing_router, {#}) (snd (bulkhead_enter 5 ''gh:x'' probing_router), {#(''gh:x'', True)#}) \<and>
   idle probing_router \<and> probes_of {#(''gh:x'', True)#} ''gh'' \<le> 1"
proof -
  have e: "fst (bulkhead_enter 5 ''gh:x'' probing_router) = Inr True" "semaphore_value ''gh:x'' probing_router > 0"
    by code_simp+
  then have st: "bulkhead_step (probing_router, {#}) (snd (bulkhead_enter 5 ''gh:x'' probing_router), {#(''gh:x'', True)#})"
    using enters [of "''gh:x''" probing_router 5 True _ "{#}"] by (metis prod.collapse)
  have id: "idle probing_router"
    by (simp add: idle_def probing_router_def blank_router_def permits_of_def lock_held_def probe_flag_def new_stats_def fun_eq_iff)
  show ?thesis using st id bulkhead_limits_kept [OF r_into_rtranclp [of bulkhead_step, OF st] id] by simp
qed

end
