(* ===== verification/Redis_State.thy ===== *)
theory Redis_State
  imports Smart_Router
begin

text \<open>
  The shared circuit-breaker store of \<open>models/redis_state.py\<close> and the saving and loading of
  statistics by the router (\<open>_save_stats_to_redis\<close>, \<open>_load_stats_from_redis\<close> of
  \<open>models/smart_router.py\<close>). The server is a map from keys to values; what a command does when it
  fails, and what other workers do between two commands, are parameters. A stored text is the
  document it parses to, or a text that is no JSON. Expiry by TTL is an action of the server.
\<close>

section \<open>Counters\<close>

datatype counter_field = SuccessCount | FailureCount | RateLimitCount | TimeoutCount

definition counter_fields :: "counter_field list" where
  "counter_fields = [SuccessCount, FailureCount, RateLimitCount, TimeoutCount]"

fun get_counter :: "counter_field \<Rightarrow> stats_dict \<Rightarrow> nat" where
  "get_counter SuccessCount d = d_success_count d"
| "get_counter FailureCount d = d_failure_count d"
| "get_counter RateLimitCount d = d_rate_limit_count d"
| "get_counter TimeoutCount d = d_timeout_count d"

fun set_counter :: "counter_field \<Rightarrow> nat \<Rightarrow> stats_dict \<Rightarrow> stats_dict" where
  "set_counter SuccessCount v d = d\<lparr>d_success_count := v\<rparr>"
| "set_counter FailureCount v d = d\<lparr>d_failure_count := v\<rparr>"
| "set_counter RateLimitCount v d = d\<lparr>d_rate_limit_count := v\<rparr>"
| "set_counter TimeoutCount v d = d\<lparr>d_timeout_count := v\<rparr>"

text \<open>A baseline, missing fields being 0.\<close>

type_synonym counters = "counter_field \<Rightarrow> nat"

definition counter_snapshot :: "stats_dict \<Rightarrow> counters" where
  "counter_snapshot d = (\<lambda>f. get_counter f d)"

text \<open>\<open>redis_current\<close> is \<^const>\<open>None\<close> for the empty dictionary. Subtraction stops at 0, as
  \<open>max(0, ...)\<close> does.\<close>

definition merge_stats_dicts :: "stats_dict option \<Rightarrow> stats_dict \<Rightarrow> counters \<Rightarrow> stats_dict" where
  "merge_stats_dicts redis_current loc baseline =
     fold (\<lambda>f merged. set_counter f
         ((case redis_current of None \<Rightarrow> 0 | Some c \<Rightarrow> get_counter f c) + (get_counter f loc - baseline f)) merged)
       counter_fields loc"

section \<open>The store\<close>

datatype raw = Doc stats_dict | NotJson string

type_synonym server = "string \<Rightarrow> raw option"

record redis_store =
  rs_prefix :: string
  connected :: bool
  script_loaded :: bool

text \<open>A failing command, and whether the exception is of the connection class. A write may have
  been applied before its reply was lost.\<close>

datatype fault = NoFault | Fault bool

definition handle_connection_loss :: "bool \<Rightarrow> redis_store \<Rightarrow> redis_store" where
  "handle_connection_loss connection st = (if connection then st\<lparr>connected := False\<rparr> else st)"

definition make_key :: "redis_store \<Rightarrow> string \<Rightarrow> string" where
  "make_key st m = rs_prefix st @ m"

definition store_get :: "fault \<Rightarrow> string \<Rightarrow> redis_store \<Rightarrow> server \<Rightarrow> stats_dict option \<times> redis_store" where
  "store_get flt m st sv =
     (if \<not> connected st then (None, st)
      else case flt of
             Fault c \<Rightarrow> (None, handle_connection_loss c st)
           | NoFault \<Rightarrow>
               (case sv (make_key st m) of
                  Some (Doc d) \<Rightarrow> (Some d, st)
                | Some (NotJson t) \<Rightarrow> (None, handle_connection_loss False st)
                | None \<Rightarrow> (None, st)))"

text \<open>\<open>get_all\<close> over the keys in the order of the scan.\<close>

definition get_all :: "fault \<Rightarrow> string list \<Rightarrow> redis_store \<Rightarrow> server \<Rightarrow> (string \<times> stats_dict) list \<times> redis_store" where
  "get_all flt scanned st sv =
     (if \<not> connected st then ([], st)
      else case flt of
             Fault c \<Rightarrow> ([], handle_connection_loss c st)
           | NoFault \<Rightarrow>
               (fold (\<lambda>k res. if startswith k (rs_prefix st)
                   then (case sv k of Some (Doc d) \<Rightarrow> AList.update (drop (length (rs_prefix st)) k) d res | _ \<Rightarrow> res)
                   else res) scanned [], st))"

definition store_set :: "fault \<Rightarrow> bool \<Rightarrow> string \<Rightarrow> stats_dict \<Rightarrow> redis_store \<Rightarrow> server \<Rightarrow> bool \<times> redis_store \<times> server" where
  "store_set flt applied m d st sv =
     (if \<not> connected st then (False, st, sv)
      else case flt of
             NoFault \<Rightarrow> (True, st, sv(make_key st m \<mapsto> Doc d))
           | Fault c \<Rightarrow>
               (False, handle_connection_loss c st, if applied then sv(make_key st m \<mapsto> Doc d) else sv))"

text \<open>The Lua script on one value: the result, and the value left. An empty expected text says
  that the key must not exist, so a stored empty text is never replaced.\<close>

definition cas_script :: "raw option \<Rightarrow> raw \<Rightarrow> raw option \<Rightarrow> bool \<times> raw option" where
  "cas_script expected new current =
     (case expected of
        None \<Rightarrow> if current \<noteq> None then (False, current) else (True, Some new)
      | Some e \<Rightarrow> if e = NotJson [] then (if current \<noteq> None then (False, current) else (True, Some new))
                  else if current \<noteq> Some e then (False, current) else (True, Some new))"

text \<open>The fallback with \<open>WATCH\<close>: \<open>touched\<close> says that another client wrote the key before \<open>EXEC\<close>.\<close>

definition cas_via_watch :: "bool \<Rightarrow> raw option \<Rightarrow> raw \<Rightarrow> raw option \<Rightarrow> bool \<times> raw option" where
  "cas_via_watch touched expected new current =
     (if (case expected of None \<Rightarrow> current \<noteq> None | Some e \<Rightarrow> current \<noteq> Some e) then (False, current)
      else if touched then (False, current)
      else (True, Some new))"

definition store_cas ::
  "fault \<Rightarrow> bool \<Rightarrow> bool \<Rightarrow> string \<Rightarrow> raw option \<Rightarrow> stats_dict \<Rightarrow> redis_store \<Rightarrow> server \<Rightarrow> bool \<times> redis_store \<times> server" where
  "store_cas flt applied touched m expected d st sv =
     (if \<not> connected st then (False, st, sv)
      else let k = make_key st m;
               (ok, v) = (if script_loaded st then cas_script expected (Doc d) (sv k)
                          else cas_via_watch touched expected (Doc d) (sv k))
           in case flt of
                NoFault \<Rightarrow> (ok, st, sv(k := v))
              | Fault c \<Rightarrow> (False, handle_connection_loss c st, if applied then sv(k := v) else sv))"

definition store_delete :: "fault \<Rightarrow> bool \<Rightarrow> string \<Rightarrow> redis_store \<Rightarrow> server \<Rightarrow> bool \<times> redis_store \<times> server" where
  "store_delete flt applied m st sv =
     (if \<not> connected st then (False, st, sv)
      else case flt of
             NoFault \<Rightarrow> (True, st, sv(make_key st m := None))
           | Fault c \<Rightarrow> (False, handle_connection_loss c st, if applied then sv(make_key st m := None) else sv))"

text \<open>The pipeline of \<open>save_all_stats\<close>; when it fails, a first part of its commands was executed.\<close>

definition save_all_stats ::
  "fault \<Rightarrow> nat \<Rightarrow> (string \<times> model_stats) list \<Rightarrow> redis_store \<Rightarrow> server \<Rightarrow> bool \<times> redis_store \<times> server" where
  "save_all_stats flt executed ms st sv =
     (if \<not> connected st then (False, st, sv)
      else let write = fold (\<lambda>(m, s) v. v(make_key st m \<mapsto> Doc (to_dict s)))
           in case flt of
                NoFault \<Rightarrow> (True, st, write ms sv)
              | Fault c \<Rightarrow> (False, handle_connection_loss c st, write (take executed ms) sv))"

definition read_raw :: "fault \<Rightarrow> string \<Rightarrow> redis_store \<Rightarrow> server \<Rightarrow> raw option \<times> redis_store" where
  "read_raw flt m st sv =
     (if \<not> connected st then (None, st)
      else case flt of
             NoFault \<Rightarrow> (sv (make_key st m), st)
           | Fault c \<Rightarrow> (None, handle_connection_loss c st))"

definition cas_max_retries :: nat where
  "cas_max_retries = 8"

text \<open>One attempt of the loop: what its commands meet, and what happens on the server between
  the read and the swap.\<close>

record cas_attempt =
  read_fault :: fault
  between :: "server \<Rightarrow> server"
  cas_fault :: fault
  cas_applied :: bool
  cas_touched :: bool

definition current_doc :: "raw option \<Rightarrow> stats_dict option" where
  "current_doc v = (case v of Some (Doc d) \<Rightarrow> Some d | _ \<Rightarrow> None)"

fun cas_loop ::
  "(nat \<Rightarrow> cas_attempt) \<Rightarrow> nat \<Rightarrow> string \<Rightarrow> stats_dict \<Rightarrow> counters \<Rightarrow> redis_store \<Rightarrow> server \<Rightarrow>
    counters option \<times> redis_store \<times> server" where
  "cas_loop a 0 m loc baseline st sv = (None, st, sv)"
| "cas_loop a (Suc n) m loc baseline st sv =
     (case read_raw (read_fault (a n)) m st sv of (expected, st1) \<Rightarrow>
        (case store_cas (cas_fault (a n)) (cas_applied (a n)) (cas_touched (a n)) m expected
                (merge_stats_dicts (current_doc expected) loc baseline) st1 (between (a n) sv) of
           (ok, st2, sv2) \<Rightarrow>
             if ok then (Some (counter_snapshot loc), st2, sv2)
             else cas_loop a n m loc baseline st2 sv2))"

definition save_stats_cas ::
  "(nat \<Rightarrow> cas_attempt) \<Rightarrow> string \<Rightarrow> model_stats \<Rightarrow> counters option \<Rightarrow> redis_store \<Rightarrow> server \<Rightarrow>
    counters option \<times> redis_store \<times> server" where
  "save_stats_cas a m s baseline st sv =
     (if \<not> connected st then (None, st, sv)
      else cas_loop a cas_max_retries m (to_dict s) (case baseline of None \<Rightarrow> (\<lambda>_. 0) | Some b \<Rightarrow> b) st sv)"

definition load_all_stats ::
  "instant \<Rightarrow> rat \<Rightarrow> fault \<Rightarrow> string list \<Rightarrow> redis_store \<Rightarrow> server \<Rightarrow> (string \<times> model_stats) list \<times> redis_store" where
  "load_all_stats wall mt flt scanned st sv =
     (case get_all flt scanned st sv of (raw_all, st1) \<Rightarrow>
        (fold (\<lambda>(m, d) res. case from_dict wall mt d of Inl _ \<Rightarrow> res | Inr s \<Rightarrow> AList.update m s res) raw_all [], st1))"

definition store_close :: "redis_store \<Rightarrow> redis_store" where
  "store_close st = st\<lparr>connected := False\<rparr>"

definition health_check :: "bool \<Rightarrow> redis_store \<Rightarrow> bool \<times> redis_store" where
  "health_check answers st =
     (if \<not> connected st then (False, st) else if answers then (True, st) else (False, st\<lparr>connected := False\<rparr>))"

text \<open>\<open>_establish_connection\<close>: \<open>ping\<close> and \<open>script_load\<close> succeed or the store is disconnected.\<close>

definition establish_connection :: "bool \<Rightarrow> redis_store \<Rightarrow> redis_store" where
  "establish_connection up st =
     (if up then st\<lparr>connected := True, script_loaded := True\<rparr> else st\<lparr>connected := False\<rparr>)"

definition store_reconnect :: "bool \<Rightarrow> bool \<Rightarrow> redis_store \<Rightarrow> bool \<times> redis_store" where
  "store_reconnect available up st =
     (if \<not> available then (False, st)
      else let st1 = establish_connection up (store_close st) in (connected st1, st1))"

section \<open>The router's side\<close>

text \<open>\<open>_save_stats_to_redis\<close> under its lock: every model in turn; whether all were persisted, and
  the baselines.\<close>

fun save_models ::
  "(string \<Rightarrow> nat \<Rightarrow> cas_attempt) \<Rightarrow> (string \<times> model_stats) list \<Rightarrow> (string \<times> counters) list \<Rightarrow> redis_store \<Rightarrow> server \<Rightarrow>
    bool \<times> (string \<times> counters) list \<times> redis_store \<times> server" where
  "save_models a [] baselines st sv = (True, baselines, st, sv)"
| "save_models a ((m, s) # ms) baselines st sv =
     (case save_stats_cas (a m) m s (map_of baselines m) st sv of
        (None, st1, sv1) \<Rightarrow>
          (case save_models a ms baselines st1 sv1 of (_, b, st2, sv2) \<Rightarrow> (False, b, st2, sv2))
      | (Some b0, st1, sv1) \<Rightarrow> save_models a ms (AList.update m b0 baselines) st1 sv1)"

definition load_stats_from_redis ::
  "instant \<Rightarrow> rat \<Rightarrow> fault \<Rightarrow> string list \<Rightarrow> redis_store \<Rightarrow> server \<Rightarrow> (string \<times> counters) list \<Rightarrow> 'r smart_router_scheme \<Rightarrow>
    'r smart_router_scheme \<times> (string \<times> counters) list \<times> redis_store" where
  "load_stats_from_redis wall mt flt scanned st sv baselines r =
     (case load_all_stats wall mt flt scanned st sv of (loaded, st1) \<Rightarrow>
        (r\<lparr>stats_of := dict_update (stats_of r) loaded\<rparr>,
         fold (\<lambda>(m, s). AList.update m (counter_snapshot (to_dict s))) loaded baselines, st1))"

section \<open>Several workers\<close>

text \<open>
  Workers that share the value of one model. A worker has its statistics (as a dictionary), the
  baseline of its last save, the counts it started from, and a save in progress: the dictionary
  and baseline it began with and the value it read. Saves of a worker are serialised by
  \<open>_redis_save_lock\<close>; a worker that joins starts from nothing or from the loaded value.
\<close>

record worker =
  w_local :: stats_dict
  w_base :: counters
  w_start :: counters
  w_saving :: "(stats_dict \<times> counters \<times> raw option option) option"

type_synonym shared = "raw option \<times> worker list"

inductive shared_step :: "shared \<Rightarrow> shared \<Rightarrow> bool" where
  joins_fresh: "shared_step (v, ws) (v, ws @ [\<lparr>w_local = d, w_base = (\<lambda>_. 0), w_start = (\<lambda>_. 0), w_saving = None\<rparr>])"
| joins_loaded: "shared_step (Some (Doc d), ws)
     (Some (Doc d), ws @ [\<lparr>w_local = d, w_base = counter_snapshot d, w_start = counter_snapshot d, w_saving = None\<rparr>])"
| records: "k < length ws \<Longrightarrow> (\<And>f. get_counter f (w_local (ws ! k)) \<le> get_counter f d) \<Longrightarrow>
     shared_step (v, ws) (v, ws[k := (ws ! k)\<lparr>w_local := d\<rparr>])"
| begins: "k < length ws \<Longrightarrow> w_saving (ws ! k) = None \<Longrightarrow>
     shared_step (v, ws) (v, ws[k := (ws ! k)\<lparr>w_saving := Some (w_local (ws ! k), w_base (ws ! k), None)\<rparr>])"
| reads: "k < length ws \<Longrightarrow> w_saving (ws ! k) = Some (d, b, x) \<Longrightarrow>
     shared_step (v, ws) (v, ws[k := (ws ! k)\<lparr>w_saving := Some (d, b, Some v)\<rparr>])"
| swaps: "k < length ws \<Longrightarrow> w_saving (ws ! k) = Some (d, b, Some expected) \<Longrightarrow>
     cas_script expected (Doc (merge_stats_dicts (current_doc expected) d b)) v = (True, v') \<Longrightarrow>
     shared_step (v, ws) (v', ws[k := (ws ! k)\<lparr>w_base := counter_snapshot d, w_saving := None\<rparr>])"
| conflicts: "k < length ws \<Longrightarrow> w_saving (ws ! k) = Some (d, b, Some expected) \<Longrightarrow>
     cas_script expected (Doc (merge_stats_dicts (current_doc expected) d b)) v = (False, v') \<Longrightarrow>
     shared_step (v, ws) (v', ws[k := (ws ! k)\<lparr>w_saving := Some (d, b, None)\<rparr>])"
| gives_up: "k < length ws \<Longrightarrow> shared_step (v, ws) (v, ws[k := (ws ! k)\<lparr>w_saving := None\<rparr>])"

inductive_cases shared_stepE: "shared_step s s'"

definition shared_count :: "raw option \<Rightarrow> counter_field \<Rightarrow> nat" where
  "shared_count v f = (case current_doc v of None \<Rightarrow> 0 | Some d \<Rightarrow> get_counter f d)"

text \<open>What a worker has contributed to the shared value.\<close>

definition contributed :: "counter_field \<Rightarrow> worker \<Rightarrow> nat" where
  "contributed f w = w_base w f - w_start w f"

definition worker_ok :: "worker \<Rightarrow> bool" where
  "worker_ok w \<longleftrightarrow>
     (\<forall>f. w_start w f \<le> w_base w f \<and> w_base w f \<le> get_counter f (w_local w)) \<and>
     (\<forall>d b x. w_saving w = Some (d, b, x) \<longrightarrow>
        b = w_base w \<and> (\<forall>f. w_base w f \<le> get_counter f d \<and> get_counter f d \<le> get_counter f (w_local w)))"

definition shared_inv :: "shared \<Rightarrow> bool" where
  "shared_inv s \<longleftrightarrow>
     (\<forall>w\<in>set (snd s). worker_ok w) \<and> (\<forall>t. fst s \<noteq> Some (NotJson t)) \<and>
     (\<forall>f. shared_count (fst s) f = sum_list (map (contributed f) (snd s)))"

lemma get_set_counter [simp]: "get_counter f (set_counter g v d) = (if f = g then v else get_counter f d)"
  by (cases f; cases g) simp_all

lemma merge_counter [simp]:
  "get_counter f (merge_stats_dicts cur d b) =
     (case cur of None \<Rightarrow> 0 | Some c \<Rightarrow> get_counter f c) + (get_counter f d - b f)"
  by (cases cur; cases f) (simp_all add: merge_stats_dicts_def counter_fields_def)

text \<open>Fields that are no counters come from the worker that writes.\<close>

lemma merge_other_fields:
  "d_circuit_state (merge_stats_dicts cur d b) = d_circuit_state d"
  "d_cooldown_until (merge_stats_dicts cur d b) = d_cooldown_until d"
  "d_last_failure (merge_stats_dicts cur d b) = d_last_failure d"
  by (simp_all add: merge_stats_dicts_def counter_fields_def)

lemma cas_script_cases:
  assumes "cas_script expected new v = (ok, v')"
  shows "ok \<Longrightarrow> v' = Some new \<and> (v = expected \<or> v = None \<and> expected = Some (NotJson []))" and "\<not> ok \<Longrightarrow> v' = v"
  using assms by (auto simp: cas_script_def split: option.splits if_splits)

lemma sum_list_replace:
  fixes ws :: "worker list"
  assumes "k < length ws"
  shows "sum_list (map g (ws[k := w])) + g (ws ! k) = sum_list (map g ws) + (g w :: nat)"
  using assms by (induction ws arbitrary: k) (auto split: nat.splits simp: less_Suc_eq_0_disj)

lemma replace_worker:
  assumes "shared_inv (v, ws)" "k < length ws" "worker_ok w" "\<And>t. v' \<noteq> Some (NotJson t)"
    "\<And>f. shared_count v' f + contributed f (ws ! k) = shared_count v f + contributed f w"
  shows "shared_inv (v', ws[k := w])"
proof -
  have "\<forall>x\<in>set (ws[k := w]). worker_ok x"
    using assms(1, 3) by (auto simp: shared_inv_def dest: set_update_subset_insert [THEN subsetD])
  moreover have "shared_count v' f = sum_list (map (contributed f) (ws[k := w]))" for f
    using sum_list_replace [OF assms(2), of "contributed f" w] assms(1) assms(5) [of f] by (simp add: shared_inv_def)
  ultimately show ?thesis using assms(4) by (simp add: shared_inv_def)
qed

lemma replace_quiet:
  assumes "shared_inv (v, ws)" "k < length ws" "worker_ok w" "w_base w = w_base (ws ! k)" "w_start w = w_start (ws ! k)"
  shows "shared_inv (v, ws[k := w])"
  by (rule replace_worker [OF assms(1, 2, 3)]) (use assms in \<open>simp_all add: contributed_def shared_inv_def\<close>)

lemma shared_step_inv: "shared_step s s' \<Longrightarrow> shared_inv s \<Longrightarrow> shared_inv s'"
proof (induction rule: shared_step.induct)
  case (records k ws d v)
  then have "worker_ok (ws ! k)" by (simp add: shared_inv_def)
  with records show ?case by (intro replace_quiet) (auto simp: worker_ok_def intro: order.trans [OF _ records(2)])
next
  case (begins k ws v)
  then have "worker_ok (ws ! k)" by (simp add: shared_inv_def)
  with begins show ?case by (intro replace_quiet) (auto simp: worker_ok_def)
next
  case (reads k ws d b x v)
  then have "worker_ok (ws ! k)" by (simp add: shared_inv_def)
  with reads show ?case by (intro replace_quiet) (auto simp: worker_ok_def)
next
  case (swaps k ws d b expected v v')
  then have ok: "worker_ok (ws ! k)" by (simp add: shared_inv_def)
  have b: "b = w_base (ws ! k)" "\<And>f. w_start (ws ! k) f \<le> b f" "\<And>f. b f \<le> get_counter f d"
      "\<And>f. get_counter f d \<le> get_counter f (w_local (ws ! k))"
    using ok swaps(2) by (auto simp: worker_ok_def)
  have v': "v' = Some (Doc (merge_stats_dicts (current_doc expected) d b))" "current_doc v = current_doc expected"
    using cas_script_cases(1) [OF swaps(3)] by (auto simp: current_doc_def)
  show ?case
  proof (rule replace_worker [OF swaps(4, 1)])
    show "worker_ok ((ws ! k)\<lparr>w_base := counter_snapshot d, w_saving := None\<rparr>)"
      using b by (auto simp: worker_ok_def counter_snapshot_def intro: order.trans)
    show "shared_count v' f + contributed f (ws ! k) =
        shared_count v f + contributed f ((ws ! k)\<lparr>w_base := counter_snapshot d, w_saving := None\<rparr>)" for f
      using b(2, 3) [of f] b(1) v' by (simp add: shared_count_def contributed_def counter_snapshot_def current_doc_def)
  qed (simp add: v')
next
  case (conflicts k ws d b expected v v')
  then have "worker_ok (ws ! k)" "v' = v" using cas_script_cases(2) [OF conflicts(3)] by (auto simp: shared_inv_def)
  with conflicts show ?case by (auto simp: worker_ok_def intro!: replace_quiet)
next
  case (gives_up k ws v)
  then have "worker_ok (ws ! k)" by (simp add: shared_inv_def)
  with gives_up show ?case by (intro replace_quiet) (auto simp: worker_ok_def)
qed (auto simp: shared_inv_def worker_ok_def contributed_def counter_snapshot_def)

lemma shared_runs_inv: "shared_step\<^sup>*\<^sup>* s s' \<Longrightarrow> shared_inv s \<Longrightarrow> shared_inv s'"
  by (induction rule: rtranclp_induct) (auto dest: shared_step_inv)

section \<open>Properties\<close>


definition one_failure :: stats_dict where
  "one_failure = to_dict ((new_stats ''m'' 0)\<lparr>failure_count := 1\<rparr>)"


text \<open>The loop itself: without faults and interference the first swap succeeds, and the server
  then holds the old counts and the new ones of this worker.\<close>

lemma save_stats_undisturbed:
  assumes "connected st" "script_loaded st" "sv (make_key st m) \<noteq> Some (NotJson [])"
    and "read_fault (a 7) = NoFault" "between (a 7) = id" "cas_fault (a 7) = NoFault"
  shows "save_stats_cas a m s baseline st sv =
    (Some (counter_snapshot (to_dict s)), st,
     sv(make_key st m \<mapsto> Doc (merge_stats_dicts (current_doc (sv (make_key st m))) (to_dict s)
       (case baseline of None \<Rightarrow> (\<lambda>_. 0) | Some b \<Rightarrow> b))))"
proof -
  have 8: "cas_max_retries = Suc 7" by (simp add: cas_max_retries_def)
  have "cas_script (sv (make_key st m)) (Doc d) (sv (make_key st m)) = (True, Some (Doc d))" for d
    using assms(3) by (simp add: cas_script_def split: option.split)
  then show ?thesis using assms unfolding save_stats_cas_def 8 cas_loop.simps by (simp add: read_raw_def store_cas_def Let_def)
qed

text \<open>A swap that is applied although its reply is lost is counted twice: the worker keeps its
  baseline and merges the same increments again.\<close>

lemma lost_reply_counts_twice:
  assumes "connected st" "script_loaded st" "sv (make_key st m) = None"
    and "read_fault (a 7) = NoFault" "between (a 7) = id" "cas_fault (a 7) = Fault False" "cas_applied (a 7)"
    and "read_fault (a 6) = NoFault" "between (a 6) = id" "cas_fault (a 6) = NoFault"
  shows "\<exists>d. snd (snd (save_stats_cas a m s None st sv)) (make_key st m) = Some (Doc d) \<and>
    get_counter f d = 2 * get_counter f (to_dict s)"
proof -
  have 8: "cas_max_retries = Suc (Suc 6)" by (simp add: cas_max_retries_def)
  show ?thesis
    using assms unfolding save_stats_cas_def 8 cas_loop.simps
    by (simp add: read_raw_def store_cas_def cas_script_def handle_connection_loss_def current_doc_def)
qed

end
