(* ===== verification/Net_Address.thy ===== *)
theory Net_Address
  imports Py_Numbers "HOL-Library.Word"
begin

text \<open>
  What the address guard uses of Python's standard library: \<open>ipaddress\<close> (parsing of IPv4 and IPv6
  texts and the address categories of Python 3.11), \<open>socket.inet_aton\<close> with the legacy IPv4 forms
  of the platform resolver, and the scheme and host name of \<open>urllib.parse.urlparse\<close>.
\<close>

section \<open>Addresses\<close>

datatype ip_addr = V4 "32 word" | V6 "128 word" "string option"

fun all_some :: "'a option list \<Rightarrow> 'a list option" where
  "all_some [] = Some []"
| "all_some (None # xs) = None"
| "all_some (Some x # xs) = map_option (Cons x) (all_some xs)"

definition big_endian :: "int \<Rightarrow> int list \<Rightarrow> int" where
  "big_endian base ds = foldl (\<lambda>acc d. acc * base + d) 0 ds"

definition parse_octet :: "string \<Rightarrow> int option" where
  "parse_octet s =
     (if s = [] \<or> \<not> list_all is_digit s \<or> length s > 3 \<or> (s \<noteq> ''0'' \<and> hd s = CHR ''0'') then None
      else let n = big_endian 10 (map (\<lambda>c. int (digit_val c)) s) in if n > 255 then None else Some n)"

definition parse_ipv4 :: "string \<Rightarrow> int option" where
  "parse_ipv4 s =
     (let octets = split_on (CHR ''.'') s
      in if length octets \<noteq> 4 then None else map_option (big_endian 256) (all_some (map parse_octet octets)))"

definition hex_val :: "char \<Rightarrow> int option" where
  "hex_val c =
     (let n = ord_of c
      in if 48 \<le> n \<and> n \<le> 57 then Some (int (n - 48))
         else if 97 \<le> n \<and> n \<le> 102 then Some (int (n - 87))
         else if 65 \<le> n \<and> n \<le> 70 then Some (int (n - 55)) else None)"

definition parse_hextet :: "string \<Rightarrow> int option" where
  "parse_hextet s = (if s = [] \<or> length s > 4 then None else map_option (big_endian 16) (all_some (map hex_val s)))"

text \<open>An IPv4 tail becomes two hextets.\<close>

definition expand_tail :: "string list \<Rightarrow> (string list \<times> int list) option" where
  "expand_tail parts =
     (if parts \<noteq> [] \<and> CHR ''.'' \<in> set (last parts)
      then map_option (\<lambda>n. (butlast parts, [n div 65536, n mod 65536])) (parse_ipv4 (last parts))
      else Some (parts, []))"

definition hextets :: "string list \<Rightarrow> int list option" where
  "hextets parts = all_some (map parse_hextet parts)"

text \<open>The groups before and after the empty part; the IPv4 tail is already numbers.\<close>

definition parse_groups :: "string list \<Rightarrow> int list \<Rightarrow> int list option" where
  "parse_groups parts tail =
     (let n = length parts + length tail;
          inner = filter (\<lambda>i. i < length parts \<and> parts ! i = []) [1..<n - 1]
      in if n > 9 then None
         else case inner of
                [] \<Rightarrow>
                  if n \<noteq> 8 then None
                  else map_option (\<lambda>g. g @ tail) (hextets parts)
              | [skip] \<Rightarrow>
                  let lead = (parts ! 0 = []);
                      trail = (tail = [] \<and> last parts = []);
                      hi = (if lead then skip - 1 else skip);
                      lo = (if trail then n - skip - 2 else n - skip - 1)
                  in if (lead \<and> hi \<noteq> 0) \<or> (trail \<and> lo \<noteq> 0) \<or> hi + lo > 7 then None
                     else (case (hextets (take hi parts), hextets (if trail then [] else drop (Suc skip) parts)) of
                             (Some a, Some b) \<Rightarrow> Some (a @ replicate (8 - (hi + lo)) 0 @ b @ tail)
                           | _ \<Rightarrow> None)
              | _ \<Rightarrow> None)"

definition parse_ipv6_number :: "string \<Rightarrow> int option" where
  "parse_ipv6_number s =
     (let parts = split_on (CHR '':'') s
      in if s = [] \<or> length parts < 3 then None
         else case expand_tail parts of
                None \<Rightarrow> None
              | Some (ps, tail) \<Rightarrow> map_option (big_endian 65536) (parse_groups ps tail))"

definition split_scope :: "string \<Rightarrow> (string \<times> string option) option" where
  "split_scope s =
     (if CHR ''%'' \<notin> set s then Some (s, None)
      else let scope = tl (dropWhile (\<lambda>c. c \<noteq> CHR ''%'') s)
           in if scope = [] \<or> CHR ''%'' \<in> set scope then None
              else Some (takeWhile (\<lambda>c. c \<noteq> CHR ''%'') s, Some scope))"

definition parse_ipv6 :: "string \<Rightarrow> ip_addr option" where
  "parse_ipv6 s =
     (if CHR ''/'' \<in> set s then None
      else case split_scope s of
             None \<Rightarrow> None
           | Some (t, scope) \<Rightarrow> map_option (\<lambda>n. V6 (word_of_int n) scope) (parse_ipv6_number t))"

text \<open>\<open>ipaddress.ip_address\<close>.\<close>

definition ip_address :: "string \<Rightarrow> ip_addr option" where
  "ip_address s = (case parse_ipv4 s of Some n \<Rightarrow> Some (V4 (word_of_int n)) | None \<Rightarrow> parse_ipv6 s)"

section \<open>Legacy IPv4 forms\<close>

text \<open>\<open>strtoul(s, &end, 0)\<close> of a text that starts with a digit: the value and the rest.\<close>

fun digits_while :: "int \<Rightarrow> int \<Rightarrow> string \<Rightarrow> int \<times> string" where
  "digits_while base acc [] = (acc, [])"
| "digits_while base acc (c # cs) =
     (case hex_val c of
        Some d \<Rightarrow> if d < base then digits_while base (acc * base + d) cs else (acc, c # cs)
      | None \<Rightarrow> (acc, c # cs))"

definition strtoul :: "string \<Rightarrow> int \<times> string" where
  "strtoul s =
     (if startswith s ''0x'' \<or> startswith s ''0X''
      then (if drop 2 s \<noteq> [] \<and> hex_val (hd (drop 2 s)) \<noteq> None then digits_while 16 0 (drop 2 s) else (0, tl s))
      else if startswith s ''0'' then digits_while 8 0 s
      else digits_while 10 0 s)"

text \<open>Up to four numbers separated by dots, ended by the end of the text or white space.\<close>

fun aton_parts :: "nat \<Rightarrow> string \<Rightarrow> int list option" where
  "aton_parts 0 s = None"
| "aton_parts (Suc k) s =
     (if s = [] \<or> \<not> is_digit (hd s) then None
      else case strtoul s of (n, rest) \<Rightarrow>
             if n \<ge> 4294967296 then None
             else if rest = [] \<or> is_space (hd rest) then Some [n]
             else if hd rest = CHR ''.'' \<and> n \<le> 255 then map_option (Cons n) (aton_parts k (tl rest))
             else None)"

text \<open>The last number fills the bytes the others leave.\<close>

definition inet_aton :: "string \<Rightarrow> int option" where
  "inet_aton s =
     (case aton_parts 4 s of
        None \<Rightarrow> None
      | Some ns \<Rightarrow>
          let k = length ns - 1
          in if last ns < 256 ^ (4 - k) then Some (big_endian 256 (butlast ns) * 256 ^ (4 - k) + last ns) else None)"

section \<open>Categories\<close>

definition in_net4 :: "32 word \<Rightarrow> int list \<times> nat \<Rightarrow> bool" where
  "in_net4 a net \<longleftrightarrow> drop_bit (32 - snd net) a = drop_bit (32 - snd net) (word_of_int (big_endian 256 (fst net)))"

definition in_net6 :: "128 word \<Rightarrow> int list \<times> nat \<Rightarrow> bool" where
  "in_net6 a net \<longleftrightarrow> drop_bit (128 - snd net) a = drop_bit (128 - snd net) (word_of_int (big_endian 65536 (fst net)))"

definition private4 :: "(int list \<times> nat) list" where
  "private4 =
     [([0,0,0,0], 8), ([10,0,0,0], 8), ([127,0,0,0], 8), ([169,254,0,0], 16), ([172,16,0,0], 12), ([192,0,0,0], 24),
      ([192,0,0,170], 31), ([192,0,2,0], 24), ([192,168,0,0], 16), ([198,18,0,0], 15), ([198,51,100,0], 24),
      ([203,0,113,0], 24), ([240,0,0,0], 4), ([255,255,255,255], 32)]"

definition private4_exceptions :: "(int list \<times> nat) list" where
  "private4_exceptions = [([192,0,0,9], 32), ([192,0,0,10], 32)]"

definition restricted4 :: "32 word \<Rightarrow> bool" where
  "restricted4 a \<longleftrightarrow>
     (list_ex (in_net4 a) private4 \<and> \<not> list_ex (in_net4 a) private4_exceptions)
     \<or> in_net4 a ([127,0,0,0], 8) \<or> in_net4 a ([169,254,0,0], 16) \<or> in_net4 a ([240,0,0,0], 4)
     \<or> a = 0 \<or> in_net4 a ([224,0,0,0], 4)"

definition private6 :: "(int list \<times> nat) list" where
  "private6 =
     [([0,0,0,0,0,0,0,1], 128), ([0,0,0,0,0,0,0,0], 128), ([0,0,0,0,0,0xffff,0,0], 96), ([0x64,0xff9b,1,0,0,0,0,0], 48),
      ([0x100,0,0,0,0,0,0,0], 64), ([0x2001,0,0,0,0,0,0,0], 23), ([0x2001,0xdb8,0,0,0,0,0,0], 32),
      ([0x2002,0,0,0,0,0,0,0], 16), ([0xfc00,0,0,0,0,0,0,0], 7), ([0xfe80,0,0,0,0,0,0,0], 10)]"

definition private6_exceptions :: "(int list \<times> nat) list" where
  "private6_exceptions =
     [([0x2001,1,0,0,0,0,0,1], 128), ([0x2001,1,0,0,0,0,0,2], 128), ([0x2001,3,0,0,0,0,0,0], 32),
      ([0x2001,4,0x112,0,0,0,0,0], 48), ([0x2001,0x20,0,0,0,0,0,0], 28), ([0x2001,0x30,0,0,0,0,0,0], 28)]"

definition reserved6 :: "(int list \<times> nat) list" where
  "reserved6 =
     [([0,0,0,0,0,0,0,0], 8), ([0x100,0,0,0,0,0,0,0], 8), ([0x200,0,0,0,0,0,0,0], 7), ([0x400,0,0,0,0,0,0,0], 6),
      ([0x800,0,0,0,0,0,0,0], 5), ([0x1000,0,0,0,0,0,0,0], 4), ([0x4000,0,0,0,0,0,0,0], 3), ([0x6000,0,0,0,0,0,0,0], 3),
      ([0x8000,0,0,0,0,0,0,0], 3), ([0xa000,0,0,0,0,0,0,0], 3), ([0xc000,0,0,0,0,0,0,0], 3), ([0xe000,0,0,0,0,0,0,0], 4),
      ([0xf000,0,0,0,0,0,0,0], 5), ([0xf800,0,0,0,0,0,0,0], 6), ([0xfe00,0,0,0,0,0,0,0], 9)]"

definition restricted6 :: "128 word \<Rightarrow> bool" where
  "restricted6 a \<longleftrightarrow>
     (list_ex (in_net6 a) private6 \<and> \<not> list_ex (in_net6 a) private6_exceptions)
     \<or> a = 1 \<or> in_net6 a ([0xfe80,0,0,0,0,0,0,0], 10) \<or> list_ex (in_net6 a) reserved6
     \<or> a = 0 \<or> in_net6 a ([0xff00,0,0,0,0,0,0,0], 8)"

definition ipv4_mapped :: "128 word \<Rightarrow> 32 word option" where
  "ipv4_mapped a = (if drop_bit 32 a = 0xffff then Some (ucast a) else None)"

section \<open>URLs\<close>

definition scheme_char :: "char \<Rightarrow> bool" where
  "scheme_char c \<longleftrightarrow>
     (let n = ord_of c in (97 \<le> n \<and> n \<le> 122) \<or> (65 \<le> n \<and> n \<le> 90) \<or> is_digit c \<or> c \<in> {CHR ''+'', CHR ''-'', CHR ''.''})"

definition ascii_alpha :: "char \<Rightarrow> bool" where
  "ascii_alpha c \<longleftrightarrow> (let n = ord_of c in (97 \<le> n \<and> n \<le> 122) \<or> (65 \<le> n \<and> n \<le> 90))"

definition after_char :: "char \<Rightarrow> string \<Rightarrow> string" where
  "after_char c s = tl (dropWhile (\<lambda>x. x \<noteq> c) s)"

text \<open>The text after the last \<open>@\<close>.\<close>

definition after_last :: "char \<Rightarrow> string \<Rightarrow> string" where
  "after_last c s = rev (takeWhile (\<lambda>x. x \<noteq> c) (rev s))"

text \<open>\<open>_check_bracketed_host\<close>: \<open>v<hex>.<text>\<close> or an IPv6 address.\<close>

definition bracketed_ok :: "string \<Rightarrow> bool" where
  "bracketed_ok h \<longleftrightarrow>
     (if startswith h ''v''
      then let hs = takeWhile (\<lambda>c. hex_val c \<noteq> None) (tl h); rest = dropWhile (\<lambda>c. hex_val c \<noteq> None) (tl h)
           in hs \<noteq> [] \<and> startswith rest ''.'' \<and> tl rest \<noteq> [] \<and> CHR 10 \<notin> set (tl rest)
      else (case ip_address h of Some (V6 _ _) \<Rightarrow> True | _ \<Rightarrow> False))"

definition host_of :: "string \<Rightarrow> string" where
  "host_of netloc =
     (let info = after_last (CHR ''@'') netloc;
          h = (if CHR ''['' \<in> set info then before_char (CHR '']'') (after_char (CHR ''['') info)
               else before_char (CHR '':'') info)
      in lower (takeWhile (\<lambda>c. c \<noteq> CHR ''%'') h) @ dropWhile (\<lambda>c. c \<noteq> CHR ''%'') h)"

text \<open>The scheme and the host name (empty when there is none) of \<open>urlparse\<close>; \<^const>\<open>None\<close> where
  it raises \<open>ValueError\<close>.\<close>

definition split_scheme :: "string \<Rightarrow> string \<times> string" where
  "split_scheme u =
     (let p = before_char (CHR '':'') u
      in if CHR '':'' \<in> set u \<and> p \<noteq> [] \<and> ascii_alpha (hd u) \<and> list_all scheme_char p
         then (lower p, after_char (CHR '':'') u) else ([], u))"

definition urlparse :: "string \<Rightarrow> (string \<times> string) option" where
  "urlparse url =
     (let u = filter (\<lambda>c. c \<notin> {CHR 9, CHR 10, CHR 13}) (dropWhile (\<lambda>c. ord_of c \<le> 32) url);
          (scheme, rest) = split_scheme u;
          netloc = (if startswith rest ''//''
                    then takeWhile (\<lambda>c. c \<notin> {CHR ''/'', CHR ''?'', CHR ''#''}) (drop 2 rest) else []);
          opened = (CHR ''['' \<in> set netloc); closed = (CHR '']'' \<in> set netloc)
      in if opened \<noteq> closed then None
         else if opened \<and> \<not> bracketed_ok (before_char (CHR '']'') (after_char (CHR ''['') netloc)) then None
         else Some (scheme, host_of netloc))"

lemma address_examples:
  "ip_address ''192.168.0.1'' = Some (V4 3232235521)"
  "ip_address ''192.168.00.1'' = None"
  "ip_address ''::ffff:127.0.0.1'' = Some (V6 281472812449793 None)"
  "ip_address ''fe80::1%eth0'' = Some (V6 338288524927261089654018896841347694593 (Some ''eth0''))"
  "ip_address ''1::2::3'' = None"
  "ip_address ''::'' = Some (V6 0 None)"
  "inet_aton ''2852039166'' = Some 2852039166"
  "inet_aton ''0xA9.0376.43518'' = Some 2852039166"
  "inet_aton ''09'' = None"
  "urlparse ''HTTP://user@[::1%25en0]:80/x'' = Some (''http'', ''::1%25en0'')"
  "urlparse ''http://Example.com?q'' = Some (''http'', ''example.com'')"
  "urlparse ''http://[::1/'' = None"
  by code_simp+

end
