(* ===== verification/Url_Guard.thy ===== *)
theory Url_Guard
  imports Net_Address
begin

text \<open>
  The guard of outgoing requests against server-side request forgery, \<open>security/url_guard.py\<close>. The
  resolver (\<open>socket.getaddrinfo\<close>) is a parameter: the address texts it returns for a host name, or
  \<^const>\<open>None\<close> where it raises. A blocked request is an error value; the messages are left out.
\<close>

datatype guard_error =
    UnparsableUrl
  | SchemeNotAllowed string
  | NoHostname
  | MetadataEndpoint string
  | RestrictedAddress string
  | UnresolvableHost string
  | UnparsableAddress string
  | NoUsableAddress string

definition allowed_schemes :: "string set" where
  "allowed_schemes = {''http'', ''https''}"

definition metadata_hosts :: "string list" where
  "metadata_hosts =
     [''169.254.169.254'', ''fd00:ec2::254'', ''100.100.100.200'', ''metadata.google.internal'', ''metadata'']"

definition is_restricted_address :: "ip_addr \<Rightarrow> bool" where
  "is_restricted_address a =
     (case a of
        V4 w \<Rightarrow> restricted4 w
      | V6 w _ \<Rightarrow> (case ipv4_mapped w of Some v \<Rightarrow> restricted4 v | None \<Rightarrow> restricted6 w))"

definition parse_ip_literal :: "string \<Rightarrow> ip_addr option" where
  "parse_ip_literal h =
     (case ip_address h of
        Some a \<Rightarrow> Some a
      | None \<Rightarrow> map_option (\<lambda>n. V4 (word_of_int n)) (inet_aton h))"

text \<open>\<open>str(addr) in _METADATA_HOSTS\<close>: \<open>str\<close> writes an address in one way, so it is one of the three
  address texts of the list exactly when the address is one of these; the text of an address with
  a scope carries the scope.\<close>

definition metadata_literals :: "ip_addr list" where
  "metadata_literals = [V4 2852039166, V4 1684301000, V6 0xfd000ec2000000000000000000000254 None]"

definition is_metadata_address :: "ip_addr \<Rightarrow> bool" where
  "is_metadata_address a \<longleftrightarrow>
     a \<in> set metadata_literals \<or>
     (case a of V6 w _ \<Rightarrow> (case ipv4_mapped w of Some v \<Rightarrow> V4 v \<in> set metadata_literals | None \<Rightarrow> False) | V4 _ \<Rightarrow> False)"

definition check_always_blocked :: "string \<Rightarrow> guard_error option" where
  "check_always_blocked hostname =
     (let hn = lower hostname
      in if hn \<in> set metadata_hosts then Some (MetadataEndpoint hostname)
         else case parse_ip_literal hn of
                Some a \<Rightarrow> if is_metadata_address a then Some (MetadataEndpoint hostname) else None
              | None \<Rightarrow> None)"

text \<open>\<open>min(ips, key=lambda ip: ":" in ip)\<close>: the first text without a colon, else the first.\<close>

definition prefer_ipv4 :: "string list \<Rightarrow> string" where
  "prefer_ipv4 ips = (case filter (\<lambda>ip. CHR '':'' \<notin> set ip) ips of x # _ \<Rightarrow> x | [] \<Rightarrow> hd ips)"

definition check_resolved_address :: "bool \<Rightarrow> string \<Rightarrow> guard_error option" where
  "check_resolved_address block_private ip =
     (case ip_address ip of
        None \<Rightarrow> Some (UnparsableAddress ip)
      | Some a \<Rightarrow>
          if is_metadata_address a then Some (MetadataEndpoint ip)
          else if block_private \<and> is_restricted_address a then Some (RestrictedAddress ip)
          else None)"

text \<open>The loop over the resolved addresses, keeping each once.\<close>

fun collect_addresses :: "bool \<Rightarrow> string list \<Rightarrow> string list \<Rightarrow> string list option" where
  "collect_addresses block_private [] ips = Some ips"
| "collect_addresses block_private (raw_ip # rest) ips =
     (case check_resolved_address block_private raw_ip of
        Some _ \<Rightarrow> None
      | None \<Rightarrow> collect_addresses block_private rest (if raw_ip \<in> set ips then ips else ips @ [raw_ip]))"

definition resolve_and_collect ::
  "(string \<Rightarrow> string list option) \<Rightarrow> string \<Rightarrow> bool \<Rightarrow> guard_error + string list" where
  "resolve_and_collect resolve hostname block_private =
     (case resolve hostname of
        None \<Rightarrow> Inl (UnresolvableHost hostname)
      | Some addrs \<Rightarrow>
          (case collect_addresses block_private addrs [] of
             None \<Rightarrow> Inl (RestrictedAddress hostname)
           | Some ips \<Rightarrow> Inr ips))"

text \<open>\<open>str(resolved)\<close> of an address parsed from a resolver's answer is a parameter \<open>show_ip\<close>. The
  loop without the private-address guard skips what does not parse.\<close>

fun screen_metadata :: "(ip_addr \<Rightarrow> string) \<Rightarrow> string list \<Rightarrow> string list option" where
  "screen_metadata show_ip [] = Some []"
| "screen_metadata show_ip (t # ts) =
     (case parse_ip_literal t of
        None \<Rightarrow> screen_metadata show_ip ts
      | Some a \<Rightarrow> if is_metadata_address a then None else map_option (Cons (show_ip a)) (screen_metadata show_ip ts))"

text \<open>The part with the guard opted out.\<close>

definition validate_opted_out ::
  "(string \<Rightarrow> string list option) \<Rightarrow> (ip_addr \<Rightarrow> string) \<Rightarrow> string \<Rightarrow> guard_error option \<times> string option" where
  "validate_opted_out resolve show_ip hostname =
     (if parse_ip_literal hostname \<noteq> None then (None, None)
      else case resolve hostname of
             None \<Rightarrow> (None, None)
           | Some addrs \<Rightarrow>
               (case screen_metadata show_ip addrs of
                  None \<Rightarrow> (Some (MetadataEndpoint hostname), None)
                | Some [] \<Rightarrow> (None, None)
                | Some ips \<Rightarrow> (None, Some (prefer_ipv4 ips))))"

definition validate_guarded :: "(string \<Rightarrow> string list option) \<Rightarrow> string \<Rightarrow> guard_error option \<times> string option" where
  "validate_guarded resolve hostname =
     (case parse_ip_literal hostname of
        Some literal \<Rightarrow> (if is_restricted_address literal then Some (RestrictedAddress hostname) else None, None)
      | None \<Rightarrow>
          (case resolve_and_collect resolve hostname True of
             Inl e \<Rightarrow> (Some e, None)
           | Inr ips \<Rightarrow> if ips = [] then (Some (NoUsableAddress hostname), None) else (None, Some (prefer_ipv4 ips))))"

definition validate_url_core ::
  "(string \<Rightarrow> string list option) \<Rightarrow> (ip_addr \<Rightarrow> string) \<Rightarrow> string \<Rightarrow> bool \<Rightarrow> guard_error option \<times> string option" where
  "validate_url_core resolve show_ip url block_private =
     (case urlparse url of
        None \<Rightarrow> (Some UnparsableUrl, None)
      | Some (scheme, hostname) \<Rightarrow>
          if scheme \<notin> allowed_schemes then (Some (SchemeNotAllowed scheme), None)
          else if hostname = [] then (Some NoHostname, None)
          else case check_always_blocked hostname of
                 Some e \<Rightarrow> (Some e, None)
               | None \<Rightarrow>
                   if \<not> block_private then validate_opted_out resolve show_ip hostname
                   else validate_guarded resolve hostname)"

definition validate_url ::
  "(string \<Rightarrow> string list option) \<Rightarrow> (ip_addr \<Rightarrow> string) \<Rightarrow> string \<Rightarrow> bool \<Rightarrow> guard_error option" where
  "validate_url resolve show_ip url block_private = fst (validate_url_core resolve show_ip url block_private)"

section \<open>Forbidden addresses\<close>

text \<open>
  The addresses a request must not reach, by their bits: 0/8, 10/8, 127/8, 169.254/16, 172.16/12,
  192.168/16, multicast and 240/4; for IPv6 \<open>::\<close>, \<open>::1\<close>, fc00::/7, fe80::/10 and ff00::/8, and the IPv6
  forms of those IPv4 addresses. Metadata endpoints are 169.254.169.254, 100.100.100.200 and
  fd00:ec2::254 (without a scope).
\<close>

definition internal4 :: "32 word \<Rightarrow> bool" where
  "internal4 v \<longleftrightarrow>
     drop_bit 24 v \<in> {0, 10, 127} \<or> drop_bit 16 v \<in> {0xA9FE, 0xC0A8} \<or> drop_bit 20 v = 0xAC1 \<or> drop_bit 28 v \<in> {0xE, 0xF}"

definition internal6 :: "128 word \<Rightarrow> bool" where
  "internal6 w \<longleftrightarrow> w \<in> {0, 1} \<or> drop_bit 121 w = 0x7E \<or> drop_bit 118 w = 0x3FA \<or> drop_bit 120 w = 0xFF"

fun reaches_internal :: "ip_addr \<Rightarrow> bool" where
  "reaches_internal (V4 v) = internal4 v"
| "reaches_internal (V6 w scope) = (internal6 w \<or> drop_bit 32 w = 0xFFFF \<and> internal4 (ucast w))"

fun reaches_metadata :: "ip_addr \<Rightarrow> bool" where
  "reaches_metadata (V4 v) = (v \<in> {0xA9FEA9FE, 0x646464C8})"
| "reaches_metadata (V6 w scope) =
     (scope = None \<and> w = 0xFD000EC2000000000000000000000254 \<or>
      drop_bit 32 w = 0xFFFF \<and> ucast w \<in> {0xA9FEA9FE, 0x646464C8 :: 32 word})"

lemma exceptions4: "list_ex (in_net4 v) private4_exceptions \<Longrightarrow> \<not> internal4 v"
  by (auto simp: private4_exceptions_def in_net4_def big_endian_def internal4_def)

lemma internal4_restricted: "internal4 v \<Longrightarrow> restricted4 v"
  using exceptions4 [of v] by (auto simp: restricted4_def private4_def in_net4_def big_endian_def internal4_def)
lemma net6_prefix:
  "in_net6 w (hs, n) \<Longrightarrow> n \<le> 128 \<Longrightarrow> k \<le> n \<Longrightarrow>
     drop_bit (128 - k) w = drop_bit (128 - k) (word_of_int (big_endian 65536 hs))"
proof -
  assume "in_net6 w (hs, n)" "n \<le> 128" "k \<le> n"
  moreover have "drop_bit (128 - k) x = drop_bit (n - k) (drop_bit (128 - n) x)" for x :: "128 word"
    using \<open>n \<le> 128\<close> \<open>k \<le> n\<close> by simp
  ultimately show ?thesis unfolding in_net6_def fst_conv snd_conv by metis
qed

lemma exceptions6: "list_ex (in_net6 w) private6_exceptions \<Longrightarrow> drop_bit 121 w = (0x10 :: 128 word)"
  by (auto simp: private6_exceptions_def big_endian_def dest!: net6_prefix [where k = 7])

lemma internal6_restricted: "internal6 w \<Longrightarrow> restricted6 w"
  using exceptions6 [of w] by (auto simp: restricted6_def private6_def in_net6_def big_endian_def internal6_def)

lemma mapped_not_internal6: "drop_bit 32 w = (0xFFFF :: 128 word) \<Longrightarrow> \<not> internal6 w"
proof -
  assume m: "drop_bit 32 w = (0xFFFF :: 128 word)"
  have "drop_bit 121 w = drop_bit 89 (drop_bit 32 w)" "drop_bit 118 w = drop_bit 86 (drop_bit 32 w)"
    "drop_bit 120 w = drop_bit 88 (drop_bit 32 w)" by simp_all
  with m have "drop_bit 121 w = 0" "drop_bit 118 w = 0" "drop_bit 120 w = 0" by simp_all
  with m show ?thesis by (auto simp: internal6_def)
qed

lemma restricted_if_internal: "reaches_internal a \<Longrightarrow> is_restricted_address a"
proof (cases a)
  case (V6 w scope)
  assume "reaches_internal a"
  with V6 show ?thesis using mapped_not_internal6 [of w]
    by (auto simp: is_restricted_address_def ipv4_mapped_def intro: internal4_restricted internal6_restricted)
qed (simp add: is_restricted_address_def internal4_restricted)

lemma metadata_if_reached: "reaches_metadata a \<Longrightarrow> is_metadata_address a"
  by (cases a) (auto simp: is_metadata_address_def metadata_literals_def ipv4_mapped_def)

section \<open>Properties\<close>

definition public_address :: "ip_addr \<Rightarrow> bool" where
  "public_address a \<longleftrightarrow> \<not> is_restricted_address a \<and> \<not> is_metadata_address a"

lemma collect_addresses_ok:
  "collect_addresses bp ts acc = Some ips \<Longrightarrow>
     set ips = set acc \<union> set ts \<and> (\<forall>t\<in>set ts. check_resolved_address bp t = None)"
  by (induction ts arbitrary: acc) (auto split: option.splits if_splits)

lemma checked_public: "check_resolved_address True t = None \<Longrightarrow> \<exists>a. ip_address t = Some a \<and> public_address a"
  by (auto simp: check_resolved_address_def public_address_def split: option.splits if_splits)

lemma prefer_ipv4_in: "ips \<noteq> [] \<Longrightarrow> prefer_ipv4 ips \<in> set ips"
proof -
  assume "ips \<noteq> []"
  moreover have "x \<in> set ips" if "filter P ips = x # xs" for P x xs
    using arg_cong [OF that, of set] by auto
  ultimately show ?thesis by (auto simp: prefer_ipv4_def split: list.splits)
qed

lemma screen_metadata_ok:
  "screen_metadata show_ip ts = Some ips \<Longrightarrow>
     (\<forall>t\<in>set ts. \<forall>a. parse_ip_literal t = Some a \<longrightarrow> \<not> is_metadata_address a) \<and>
     (\<forall>ip\<in>set ips. \<exists>a. \<exists>t\<in>set ts. parse_ip_literal t = Some a \<and> ip = show_ip a)"
proof (induction ts arbitrary: ips)
  case (Cons t ts)
  then show ?case by (cases "parse_ip_literal t") (auto split: if_splits, blast+)
qed simp

lemma allowed_cases:
  assumes "validate_url_core resolve show_ip url bp = (None, pin)"
  obtains scheme h where "urlparse url = Some (scheme, h)" "scheme \<in> allowed_schemes" "h \<noteq> []"
    "check_always_blocked h = None"
    "(if bp then validate_guarded resolve h else validate_opted_out resolve show_ip h) = (None, pin)"
  using assms by (auto simp: validate_url_core_def split: option.splits if_splits prod.splits)

text \<open>The host name of \<open>urlparse\<close> is in lower case up to a scope.\<close>

lemma parsed_host_lower:
  assumes "urlparse url = Some (scheme, h)" "CHR ''%'' \<notin> set h"
  shows "lower h = h"
proof -
  obtain n where "h = host_of n" using assms(1) by (auto simp: urlparse_def Let_def split: prod.splits if_splits)
  moreover have "lower (takeWhile P x) @ dropWhile P x = lower x" if "CHR ''%'' \<notin> set (lower (takeWhile P x) @ dropWhile P x)"
      "P = (\<lambda>c. c \<noteq> CHR ''%'')" for P x
  proof -
    have "dropWhile P x = []"
    proof (rule ccontr)
      assume ne: "dropWhile P x \<noteq> []"
      from hd_dropWhile [OF ne] hd_in_set [OF ne] that show False by simp
    qed
    then show ?thesis by (metis append_Nil2 takeWhile_dropWhile_id)
  qed
  ultimately show ?thesis using assms(2) by (auto simp: host_of_def Let_def)
qed

lemma unblocked_literal:
  "check_always_blocked h = None \<Longrightarrow> lower h = h \<Longrightarrow> parse_ip_literal h = Some a \<Longrightarrow> \<not> is_metadata_address a"
  by (auto simp: check_always_blocked_def Let_def split: if_splits)

lemma guarded_pin:
  assumes "validate_guarded resolve h = (None, pin)" "parse_ip_literal h = None"
  shows "\<exists>addrs ip. resolve h = Some addrs \<and> pin = Some ip \<and> ip \<in> set addrs \<and>
    (\<forall>t\<in>set addrs. \<exists>a. ip_address t = Some a \<and> \<not> reaches_internal a \<and> \<not> reaches_metadata a)"
proof -
  obtain ips where ips: "resolve_and_collect resolve h True = Inr ips" "ips \<noteq> []" "pin = Some (prefer_ipv4 ips)"
    using assms by (auto simp: validate_guarded_def split: sum.splits if_splits)
  then obtain addrs where a: "resolve h = Some addrs" "collect_addresses True addrs [] = Some ips"
    by (auto simp: resolve_and_collect_def split: option.splits)
  from collect_addresses_ok [OF a(2)] prefer_ipv4_in [OF ips(2)] checked_public show ?thesis
    using a(1) ips(3) restricted_if_internal metadata_if_reached by (simp add: public_address_def) blast
qed

lemma opted_out_pin:
  assumes "validate_opted_out resolve show_ip h = (None, Some ip)" "parse_ip_literal h = None"
  shows "\<exists>addrs. resolve h = Some addrs \<and>
    (\<forall>t\<in>set addrs. \<forall>a. parse_ip_literal t = Some a \<longrightarrow> \<not> reaches_metadata a) \<and>
    (\<exists>t\<in>set addrs. \<exists>a. parse_ip_literal t = Some a \<and> ip = show_ip a)"
proof -
  obtain addrs ips where "resolve h = Some addrs" "screen_metadata show_ip addrs = Some ips" "ips \<noteq> []"
      "ip = prefer_ipv4 ips"
    using assms by (auto simp: validate_opted_out_def split: option.splits list.splits)
  with screen_metadata_ok [of show_ip addrs ips] prefer_ipv4_in [of ips] metadata_if_reached show ?thesis by blast
qed


definition sample_resolve :: "string \<Rightarrow> string list option" where
  "sample_resolve h =
     (if h = ''example.com'' then Some [''2606:2800:220:1::1'', ''93.184.216.34'']
      else if h = ''rebind.test'' then Some [''93.184.216.34'', ''10.0.0.7''] else None)"

lemma guard_samples:
  "validate_url_core sample_resolve (\<lambda>_. []) ''https://example.com/a'' True = (None, Some ''93.184.216.34'')"
  "validate_url sample_resolve (\<lambda>_. []) ''http://rebind.test/'' True = Some (RestrictedAddress ''rebind.test'')"
  "validate_url sample_resolve (\<lambda>_. []) ''http://2852039166/latest'' False = Some (MetadataEndpoint ''2852039166'')"
  "validate_url sample_resolve (\<lambda>_. []) ''http://0251.0376.0251.0376/'' False = Some (MetadataEndpoint ''0251.0376.0251.0376'')"
  "validate_url sample_resolve (\<lambda>_. []) ''http://[::ffff:7f00:1]/'' True = Some (RestrictedAddress ''::ffff:7f00:1'')"
  "validate_url sample_resolve (\<lambda>_. []) ''http://127.1/'' True = Some (RestrictedAddress ''127.1'')"
  "validate_url sample_resolve (\<lambda>_. []) ''file:///etc/passwd'' True = Some (SchemeNotAllowed ''file'')"
  "validate_url sample_resolve (\<lambda>_. []) ''http://8.8.8.8/'' True = None"
  by code_simp+


text \<open>With the guard off, the IPv6 metadata endpoint passes when its literal carries a scope.\<close>

lemma scoped_metadata_allowed:
  "validate_url_core sample_resolve (\<lambda>_. []) ''http://[fd00:ec2::254]/'' False = (Some (MetadataEndpoint ''fd00:ec2::254''), None)"
  "validate_url_core sample_resolve (\<lambda>_. []) ''http://[fd00:ec2::254%1]/'' False = (None, None)"
  by code_simp+

end
