(* ===== verification/Approval.thy ===== *)
theory Approval
  imports Py_Strings
begin

text \<open>
  The human-approval gate of \<open>governance/approval.py\<close>. A registered provider is a parameter with a
  label (its class name): it answers after some time, never, or raises. Settings are a record.
  The world type \<open>'w\<close> stands for whatever the provider and the tools change.
\<close>

datatype approval_decision = APPROVED | DENIED

fun decision_value :: "approval_decision \<Rightarrow> string" where
  "decision_value APPROVED = ''approved''"
| "decision_value DENIED = ''denied''"

record approval_request =
  req_tool_name :: string
  req_tool_args :: pydict
  req_call_id :: string
  req_agent_or_step :: "string option"

definition max_arg_repr_chars :: nat where
  "max_arg_repr_chars = 200"

text \<open>\<open>repr\<close> is a parameter.\<close>

definition redact_arg_value :: "('v \<Rightarrow> string) \<Rightarrow> 'v \<Rightarrow> string" where
  "redact_arg_value show_repr v =
     (let text = show_repr v
      in if length text > max_arg_repr_chars then take max_arg_repr_chars text @ ''...[redacted]'' else text)"

definition redacted_args :: "(pyval \<Rightarrow> string) \<Rightarrow> approval_request \<Rightarrow> string" where
  "redacted_args show_repr r =
     ''{'' @ join '', '' (map (\<lambda>(k, v). k @ ''='' @ redact_arg_value show_repr v) (req_tool_args r)) @ ''}''"

section \<open>Providers\<close>

text \<open>An exception that is no cancellation, with its type and text; \<open>TimeoutError\<close> is one of them.\<close>

datatype tool_exn = ToolExc string string | ToolCancelled

datatype provider_answer =
    Answers approval_decision rat
  | NeverAnswers
  | ProviderRaises tool_exn

type_synonym 'w provider = "string \<times> (approval_request \<Rightarrow> 'w \<Rightarrow> provider_answer \<times> 'w)"

definition auto_approve :: "'w provider" where
  "auto_approve = (''AutoApproveProvider'', \<lambda>r w. (Answers APPROVED 0, w))"

definition auto_deny :: "'w provider" where
  "auto_deny = (''AutoDenyProvider'', \<lambda>r w. (Answers DENIED 0, w))"

definition callback_provider :: "(approval_request \<Rightarrow> 'w \<Rightarrow> provider_answer \<times> 'w) \<Rightarrow> 'w provider" where
  "callback_provider fn = (''CallbackApprovalProvider'', fn)"

definition policy_provider :: "string set \<Rightarrow> 'w provider" where
  "policy_provider allowlist =
     (''PolicyApprovalProvider'',
      \<lambda>r w. (Answers (if req_tool_name r \<in> allowlist then APPROVED else DENIED) 0, w))"

section \<open>The gate\<close>

record approval_settings =
  require_tool_approval :: bool
  approval_required_tools :: string
  approval_timeout_seconds :: rat

definition resolve_required_tool_names :: "string \<Rightarrow> string set" where
  "resolve_required_tool_names raw = set (filter (\<lambda>n. n \<noteq> []) (map strip (split_on (CHR '','') raw)))"

definition tool_requires_approval :: "approval_settings \<Rightarrow> bool \<Rightarrow> string \<Rightarrow> bool" where
  "tool_requires_approval cfg flag tool_name \<longleftrightarrow>
     flag \<or> require_tool_approval cfg \<or> tool_name \<in> resolve_required_tool_names (approval_required_tools cfg)"

record approval_outcome =
  allowed :: bool
  decision :: approval_decision
  error_message :: "string option"
  provider_label :: string

text \<open>What consulting the gate ends in: an outcome, an exception of the provider, or no end at all
  when the provider never answers and no bound is set. Requests and decisions are logged, which is
  left out; \<open>show_rat\<close> writes the timeout.\<close>

datatype gate_result = Outcome approval_outcome | GateRaises tool_exn | GateHangs

definition denied_outcome :: "string \<Rightarrow> string \<Rightarrow> gate_result" where
  "denied_outcome msg label =
     Outcome \<lparr>allowed = False, decision = DENIED, error_message = Some msg, provider_label = label\<rparr>"

definition no_provider_message :: "string \<Rightarrow> string" where
  "no_provider_message tool_name =
     ''Tool '' @ [CHR 0x27] @ tool_name @ [CHR 0x27] @
     '' requires approval: denied by no provider registered (fail-closed). Register an ApprovalProvider via '' @
     ''agentic_v2.governance.set_approval_provider(...) or disable the requirement.''"

definition timeout_message :: "(rat \<Rightarrow> string) \<Rightarrow> string \<Rightarrow> rat \<Rightarrow> string \<Rightarrow> string" where
  "timeout_message show_rat tool_name t label =
     ''Tool '' @ [CHR 0x27] @ tool_name @ [CHR 0x27] @ '' requires approval: timed out after '' @ show_rat t @
     ''s waiting for '' @ label @ '' (fail-closed).''"

definition denied_message :: "string \<Rightarrow> string \<Rightarrow> string" where
  "denied_message tool_name label =
     ''Tool '' @ [CHR 0x27] @ tool_name @ [CHR 0x27] @ '' requires approval: denied by '' @ label @ ''.''"

definition too_late :: "approval_settings \<Rightarrow> provider_answer \<Rightarrow> bool" where
  "too_late cfg a \<longleftrightarrow>
     (case a of
        Answers _ secs \<Rightarrow> approval_timeout_seconds cfg > 0 \<and> secs \<ge> approval_timeout_seconds cfg
      | NeverAnswers \<Rightarrow> approval_timeout_seconds cfg > 0
      | ProviderRaises e \<Rightarrow> (case e of ToolExc t _ \<Rightarrow> t = ''TimeoutError'' | ToolCancelled \<Rightarrow> False))"

definition judge_answer ::
  "(rat \<Rightarrow> string) \<Rightarrow> approval_settings \<Rightarrow> string \<Rightarrow> string \<Rightarrow> provider_answer \<Rightarrow> gate_result" where
  "judge_answer show_rat cfg tool_name label a =
     (if too_late cfg a
      then denied_outcome (timeout_message show_rat tool_name (approval_timeout_seconds cfg) label) label
      else case a of
             NeverAnswers \<Rightarrow> GateHangs
           | ProviderRaises e \<Rightarrow> GateRaises e
           | Answers APPROVED _ \<Rightarrow>
               Outcome \<lparr>allowed = True, decision = APPROVED, error_message = None, provider_label = label\<rparr>
           | Answers DENIED _ \<Rightarrow> denied_outcome (denied_message tool_name label) label)"

definition evaluate_tool_approval ::
  "(rat \<Rightarrow> string) \<Rightarrow> approval_settings \<Rightarrow> 'w provider option \<Rightarrow> bool \<Rightarrow> string \<Rightarrow> pydict \<Rightarrow> string \<Rightarrow> string option \<Rightarrow> 'w \<Rightarrow>
    gate_result \<times> 'w" where
  "evaluate_tool_approval show_rat cfg prov flag tool_name args call_id agent_or_step w =
     (if \<not> tool_requires_approval cfg flag tool_name
      then (Outcome \<lparr>allowed = True, decision = APPROVED, error_message = None, provider_label = ''not-required''\<rparr>, w)
      else case prov of
             None \<Rightarrow> (denied_outcome (no_provider_message tool_name) ''no provider registered'', w)
           | Some (label, ask) \<Rightarrow>
               (case ask \<lparr>req_tool_name = tool_name, req_tool_args = args, req_call_id = call_id,
                      req_agent_or_step = agent_or_step\<rparr> w of
                  (a, w1) \<Rightarrow> (judge_answer show_rat cfg tool_name label a, w1)))"

section \<open>Properties\<close>

text \<open>The gate allows a call that needs approval only on a timely approval.\<close>

lemma allowed_needs_approval:
  assumes "judge_answer show_rat cfg n label a = Outcome out" "allowed out"
  shows "\<exists>secs. a = Answers APPROVED secs \<and> (approval_timeout_seconds cfg > 0 \<longrightarrow> secs < approval_timeout_seconds cfg)"
  using assms
  by (auto simp: judge_answer_def denied_outcome_def too_late_def split: if_splits provider_answer.splits approval_decision.splits)

lemma redacted_length: "length (redact_arg_value show_repr v) \<le> 214"
  by (simp add: redact_arg_value_def max_arg_repr_chars_def Let_def)

end
