(* ===== verification/Tool_Dispatch.thy ===== *)
theory Tool_Dispatch
  imports Approval Model_Router "HOL-Library.Char_ord" "HOL-Library.List_Lexorder"
begin

text \<open>
  Tools and their dispatch: \<open>tools/base.py\<close> (the approval gate inside \<open>execute\<close>), \<open>tools/registry.py\<close>
  and the tool loop of \<open>engine/tool_execution.py\<close>. Parameters: the bodies of the tools, JSON
  (\<open>json.dumps\<close>, \<open>json.loads\<close>), \<open>str\<close> of a value that is no string, and the digest of \<open>call_id_for\<close>.
\<close>

section \<open>Tools\<close>

record tool_result =
  tr_success :: bool
  tr_data :: pyval
  tr_error :: "string option"
  tr_execution_time_ms :: rat
  tr_tool_name :: string
  tr_metadata :: pydict

definition make_tool_result :: "bool \<Rightarrow> pyval \<Rightarrow> string option \<Rightarrow> rat \<Rightarrow> string \<Rightarrow> pydict \<Rightarrow> tool_result" where
  "make_tool_result ok d err ms n md =
     \<lparr>tr_success = ok, tr_data = d,
      tr_error = (if \<not> ok \<and> err = None then Some ''Tool execution failed (no error message provided)'' else err),
      tr_execution_time_ms = ms, tr_tool_name = n, tr_metadata = md\<rparr>"

text \<open>A tool: \<open>is_base_tool\<close> says whether its class derives from \<open>BaseTool\<close>, whose subclasses have
  their \<open>execute\<close> wrapped; \<open>tool_body\<close> is the code of the class itself.\<close>

record 'w tool =
  t_name :: string
  t_description :: string
  t_tier :: int
  t_parameters :: pydict
  t_requires_approval :: bool
  is_base_tool :: bool
  tool_body :: "pydict \<Rightarrow> 'w \<Rightarrow> (tool_exn + tool_result) \<times> 'w"

record 'w tool_env =
  settings :: approval_settings
  approver :: "'w provider option"
  write_rat :: "rat \<Rightarrow> string"
  json_dumps :: "pyval \<Rightarrow> string"
  json_dumps_sorted :: "pyval \<Rightarrow> string"
  json_loads :: "string \<Rightarrow> pyval option"
  value_text :: "pyval \<Rightarrow> string"
  digest16 :: "string \<Rightarrow> string"

definition call_id_for :: "'w tool_env \<Rightarrow> string \<Rightarrow> pydict \<Rightarrow> string" where
  "call_id_for env n args =
     ''tool-'' @ digest16 env (n @ [CHR 0x00] @ json_dumps_sorted env (PDict args))"

text \<open>The wrapped \<open>execute\<close>. The gate may hang; then there is no result.\<close>

datatype 'a eventually = Ends 'a | Hangs

definition denial_metadata :: "approval_outcome \<Rightarrow> pydict" where
  "denial_metadata out =
     [(''approval_required'', PBool True), (''approval_decision'', PStr (decision_value (decision out))),
      (''approval_provider'', PStr (provider_label out))]"

definition gated_execute ::
  "'w tool_env \<Rightarrow> 'w tool \<Rightarrow> pydict \<Rightarrow> 'w \<Rightarrow> (tool_exn + tool_result) eventually \<times> 'w" where
  "gated_execute env t args w =
     (case evaluate_tool_approval (write_rat env) (settings env) (approver env) (t_requires_approval t) (t_name t) args
             (call_id_for env (t_name t) args) None w of
        (GateHangs, w1) \<Rightarrow> (Hangs, w1)
      | (GateRaises e, w1) \<Rightarrow> (Ends (Inl e), w1)
      | (Outcome out, w1) \<Rightarrow>
          if \<not> allowed out
          then (Ends (Inr (make_tool_result False PNone (error_message out) 0 (t_name t) (denial_metadata out))), w1)
          else apfst Ends (tool_body t args w1))"

definition tool_execute ::
  "'w tool_env \<Rightarrow> 'w tool \<Rightarrow> pydict \<Rightarrow> 'w \<Rightarrow> (tool_exn + tool_result) eventually \<times> 'w" where
  "tool_execute env t args w =
     (if is_base_tool t then gated_execute env t args w else apfst Ends (tool_body t args w))"

text \<open>The arguments are passed as keywords, so an argument named \<open>self\<close> collides with the method's own
  first parameter and the call raises \<open>TypeError\<close> before the method begins.\<close>

definition self_clash :: "pydict \<Rightarrow> bool" where
  "self_clash args \<longleftrightarrow> ''self'' \<in> fst ` set args"

definition self_clash_error :: "string \<Rightarrow> tool_exn" where
  "self_clash_error fn =
     ToolExc ''TypeError'' (fn @ ''() got multiple values for argument '' @ [CHR 0x27] @ ''self'' @ [CHR 0x27])"

text \<open>\<open>__call__\<close> of a \<open>BaseTool\<close>, with the time measured; exceptions become results.\<close>

definition tool_call :: "'w tool_env \<Rightarrow> rat \<Rightarrow> 'w tool \<Rightarrow> pydict \<Rightarrow> 'w \<Rightarrow> (tool_exn + tool_result) eventually \<times> 'w" where
  "tool_call env ms t args w =
     (if self_clash args then (Ends (Inl (self_clash_error ''__call__'')), w)
      else case tool_execute env t args w of
        (Hangs, w1) \<Rightarrow> (Hangs, w1)
      | (Ends (Inr r), w1) \<Rightarrow> (Ends (Inr (r\<lparr>tr_execution_time_ms := ms, tr_tool_name := t_name t\<rparr>)), w1)
      | (Ends (Inl ToolCancelled), w1) \<Rightarrow> (Ends (Inl ToolCancelled), w1)
      | (Ends (Inl (ToolExc ty txt)), w1) \<Rightarrow>
          (Ends (Inr (make_tool_result False PNone (Some (ty @ '': '' @ txt)) ms (t_name t) [])), w1))"

text \<open>A parameter specification that is no dictionary raises \<open>AttributeError\<close>. \<open>truthy\<close> of the values
  JSON has. The unexpected names are listed in the order of the arguments.\<close>

fun truthy_json :: "pyval \<Rightarrow> bool" where
  "truthy_json PNone = False"
| "truthy_json (PBool b) = b"
| "truthy_json (PInt i) = (i \<noteq> 0)"
| "truthy_json (PFloat x) = (x \<noteq> 0)"
| "truthy_json (PStr s) = (s \<noteq> [])"
| "truthy_json (PList xs) = (xs \<noteq> [])"
| "truthy_json (PDict d) = (d \<noteq> [])"
| "truthy_json (PTuple xs) = (xs \<noteq> [])"
| "truthy_json _ = True"

definition quoted :: "string \<Rightarrow> string" where
  "quoted s = [CHR 0x27] @ s @ [CHR 0x27]"

fun check_required_params :: "pydict \<Rightarrow> pydict \<Rightarrow> tool_exn + string option" where
  "check_required_params [] args = Inr None"
| "check_required_params ((n, PDict spec) # ps) args =
     (if (case map_of spec ''required'' of Some v \<Rightarrow> truthy_json v | None \<Rightarrow> False) \<and> n \<notin> fst ` set args
      then Inr (Some (''Required parameter '' @ quoted n @ '' is missing''))
      else check_required_params ps args)"
| "check_required_params ((n, v) # ps) args = Inl (ToolExc ''AttributeError'' ''get'')"

definition validate_parameters :: "'w tool \<Rightarrow> pydict \<Rightarrow> tool_exn + string option" where
  "validate_parameters t args =
     (if self_clash args then Inl (self_clash_error ''validate_parameters'')
      else rbind (check_required_params (t_parameters t) args) (\<lambda>r.
       case r of
         Some e \<Rightarrow> Inr (Some e)
       | None \<Rightarrow>
           let unexpected = filter (\<lambda>n. n \<notin> fst ` set (t_parameters t)) (map fst args)
           in if unexpected \<noteq> [] then Inr (Some (''Unexpected parameters: '' @ join '', '' unexpected)) else Inr None))"

section \<open>The registry\<close>

record 'w tool_registry =
  registered :: "(string \<times> 'w tool) list"
  initialized :: bool

text \<open>The tools that discovery finds, in the order of the modules; \<^const>\<open>None\<close> marks where it raises.\<close>

definition register_tool :: "'w tool \<Rightarrow> 'w tool_registry \<Rightarrow> 'w tool_registry" where
  "register_tool t reg = reg\<lparr>registered := AList.update (t_name t) t (registered reg)\<rparr>"

fun register_found :: "'w tool option list \<Rightarrow> 'w tool_registry \<Rightarrow> 'w tool_registry" where
  "register_found [] reg = reg\<lparr>initialized := True\<rparr>"
| "register_found (None # ts) reg = reg"
| "register_found (Some t # ts) reg = register_found ts (register_tool t reg)"

definition discover_builtin :: "'w tool option list \<Rightarrow> 'w tool_registry \<Rightarrow> 'w tool_registry" where
  "discover_builtin found reg = (if initialized reg then reg else register_found found reg)"

definition registry_get :: "'w tool option list \<Rightarrow> string \<Rightarrow> 'w tool_registry \<Rightarrow> 'w tool option \<times> 'w tool_registry" where
  "registry_get found n reg = (let reg1 = discover_builtin found reg in (map_of (registered reg1) n, reg1))"

definition list_tools :: "'w tool option list \<Rightarrow> int option \<Rightarrow> 'w tool_registry \<Rightarrow> 'w tool list \<times> 'w tool_registry" where
  "list_tools found tier reg =
     (let reg1 = discover_builtin found reg; ts = map snd (registered reg1)
      in (case tier of None \<Rightarrow> ts | Some k \<Rightarrow> filter (\<lambda>t. t_tier t = k) ts, reg1))"

definition registry_contains :: "'w tool option list \<Rightarrow> string \<Rightarrow> 'w tool_registry \<Rightarrow> bool \<times> 'w tool_registry" where
  "registry_contains found n reg =
     (let reg1 = discover_builtin found reg in (n \<in> fst ` set (registered reg1), reg1))"

definition clear_registry :: "'w tool_registry \<Rightarrow> 'w tool_registry" where
  "clear_registry reg = reg\<lparr>registered := [], initialized := False\<rparr>"

section \<open>Tool contracts\<close>

definition parameter_spec_to_json_schema :: "pyval \<Rightarrow> pydict" where
  "parameter_spec_to_json_schema spec =
     (case spec of
        PDict d \<Rightarrow>
          let normalized = filter (\<lambda>(k, _). k \<noteq> ''required'') d
          in if ''type'' \<in> fst ` set normalized then normalized else normalized @ [(''type'', PStr ''string'')]
      | _ \<Rightarrow> [(''type'', PStr ''string'')])"

datatype tool_choice = AutoChoice | RequiredChoice | NoToolChoice | ForcedTool string

datatype choice_error = ForcedToolUnavailable string | UnsupportedChoice

definition force_tool :: "string set option \<Rightarrow> string \<Rightarrow> choice_error + tool_choice" where
  "force_tool available n =
     (case available of
        Some names \<Rightarrow> if n \<notin> names then Inl (ForcedToolUnavailable n) else Inr (ForcedTool n)
      | None \<Rightarrow> Inr (ForcedTool n))"

definition normalize_choice_text :: "string set option \<Rightarrow> string \<Rightarrow> choice_error + tool_choice" where
  "normalize_choice_text available s =
     (let lowered = lower (strip s)
      in if lowered \<in> {''auto'', []} then Inr AutoChoice
         else if lowered \<in> {''any'', ''required''} then Inr RequiredChoice
         else if lowered = ''none'' then Inr NoToolChoice
         else force_tool available (strip s))"

definition dict_value :: "pydict \<Rightarrow> string \<Rightarrow> pyval" where
  "dict_value d k = (case map_of d k of Some v \<Rightarrow> v | None \<Rightarrow> PNone)"

text \<open>The tool a dictionary names, in the OpenAI or the Anthropic shape.\<close>

definition named_tool :: "'w tool_env \<Rightarrow> pydict \<Rightarrow> string option" where
  "named_tool env d =
     (case dict_value d ''function'' of
        PDict f \<Rightarrow>
          if truthy_json (dict_value f ''name'') then Some (value_text env (dict_value f ''name''))
          else if dict_value d ''type'' = PStr ''tool'' \<and> truthy_json (dict_value d ''name'')
          then Some (value_text env (dict_value d ''name'')) else None
      | _ \<Rightarrow>
          if dict_value d ''type'' = PStr ''tool'' \<and> truthy_json (dict_value d ''name'')
          then Some (value_text env (dict_value d ''name'')) else None)"

definition normalize_tool_choice :: "'w tool_env \<Rightarrow> pyval \<Rightarrow> string set option \<Rightarrow> choice_error + tool_choice" where
  "normalize_tool_choice env choice available =
     (case choice of
        PNone \<Rightarrow> Inr AutoChoice
      | PStr s \<Rightarrow> normalize_choice_text available s
      | PDict d \<Rightarrow>
          (case named_tool env d of
             Some n \<Rightarrow> force_tool available n
           | None \<Rightarrow>
               normalize_choice_text available
                 (lower (case map_of d ''type'' of Some v \<Rightarrow> value_text env v | None \<Rightarrow> ''auto'')))
      | _ \<Rightarrow> Inl UnsupportedChoice)"

definition is_forced_tool_choice :: "'w tool_env \<Rightarrow> pyval \<Rightarrow> bool" where
  "is_forced_tool_choice env choice =
     (case choice of
        PStr s \<Rightarrow> lower (strip s) \<in> {''required'', ''any''}
      | PDict d \<Rightarrow>
          named_tool env d \<noteq> None \<or>
          lower (case map_of d ''type'' of Some v \<Rightarrow> value_text env v | None \<Rightarrow> []) \<in> {''required'', ''any''}
      | _ \<Rightarrow> False)"

definition select_tools :: "model_tier \<Rightarrow> string list option \<Rightarrow> (string \<times> 'w tool) list \<Rightarrow> 'w tool list" where
  "select_tools tier requested available =
     (case requested of
        None \<Rightarrow> filter (\<lambda>t. t_tier t \<le> int (tier_value tier)) (map snd available)
      | Some names \<Rightarrow>
          concat (map (\<lambda>n. case map_of available n of
              None \<Rightarrow> []
            | Some t \<Rightarrow> if t_tier t > int (tier_value tier) then [] else [t]) names))"

definition required_fields :: "pydict \<Rightarrow> string list" where
  "required_fields params =
     map fst (filter (\<lambda>(_, spec). case spec of PDict d \<Rightarrow> truthy_json (dict_value d ''required'') | _ \<Rightarrow> False) params)"

definition tool_schema :: "'w tool \<Rightarrow> pyval" where
  "tool_schema t =
     PDict [(''type'', PStr ''function''),
       (''function'', PDict [(''name'', PStr (t_name t)), (''description'', PStr (t_description t)),
          (''parameters'', PDict [(''type'', PStr ''object''),
             (''properties'', PDict (map (\<lambda>(n, spec). (n, PDict (parameter_spec_to_json_schema spec))) (t_parameters t))),
             (''required'', PList (map PStr (required_fields (t_parameters t))))])])]"

definition build_tool_contracts ::
  "'w tool_env \<Rightarrow> 'w tool list \<Rightarrow> model_tier \<Rightarrow> string list option \<Rightarrow> pyval \<Rightarrow>
    choice_error + pyval list \<times> (string \<times> 'w tool) list \<times> tool_choice" where
  "build_tool_contracts env tools tier requested choice =
     (let available = fold (\<lambda>t. AList.update (t_name t) t) tools [];
          selected = sort_key t_name (select_tools tier requested available);
          bound = fold (\<lambda>t. AList.update (t_name t) t) selected []
      in rbind (normalize_tool_choice env choice (Some (fst ` set bound)))
           (\<lambda>c. Inr (map tool_schema selected, bound, c)))"

section \<open>The tool loop\<close>

definition max_tool_calls_per_round :: nat where
  "max_tool_calls_per_round = 12"

definition max_tool_result_chars :: nat where
  "max_tool_result_chars = 12000"

definition truncate_tool_result :: "string \<Rightarrow> string" where
  "truncate_tool_result text =
     (if length text \<le> max_tool_result_chars then text
      else take max_tool_result_chars text @ [CHR 0x0A] @ ''[truncated]'')"

definition parse_tool_args :: "'w tool_env \<Rightarrow> pyval \<Rightarrow> pydict" where
  "parse_tool_args env raw =
     (case raw of
        PDict d \<Rightarrow> d
      | PStr s \<Rightarrow>
          if strip s = [] then []
          else (case json_loads env (strip s) of Some (PDict d) \<Rightarrow> d | _ \<Rightarrow> [])
      | _ \<Rightarrow> [])"

definition stripped_field :: "'w tool_env \<Rightarrow> pydict \<Rightarrow> string \<Rightarrow> string" where
  "stripped_field env d k = strip (case map_of d k of Some v \<Rightarrow> value_text env v | None \<Rightarrow> [])"

definition normalize_tool_call :: "'w tool_env \<Rightarrow> pydict \<Rightarrow> string \<times> string \<times> pydict" where
  "normalize_tool_call env call =
     (let (n, args) =
            (case dict_value call ''function'' of
               PDict f \<Rightarrow> (stripped_field env f ''name'', parse_tool_args env (dict_value f ''arguments''))
             | _ \<Rightarrow> (stripped_field env call ''name'', parse_tool_args env (dict_value call ''input'')));
          cid = stripped_field env call ''id''
      in (if cid = [] then call_id_for env n args else cid, n, args))"

text \<open>Token counts of a provider's usage report; \<open>int\<close> truncates towards zero, and a \<open>bool\<close> is an \<open>int\<close>.\<close>

definition number_of :: "pyval \<Rightarrow> int option" where
  "number_of v =
     (case v of
        PBool b \<Rightarrow> Some (if b then 1 else 0)
      | PInt i \<Rightarrow> Some i
      | PFloat x \<Rightarrow> Some (if x < 0 then - \<lfloor>- x\<rfloor> else \<lfloor>x\<rfloor>)
      | _ \<Rightarrow> None)"

definition first_number :: "pydict \<Rightarrow> string list \<Rightarrow> int option" where
  "first_number d ks = List.find (\<lambda>_. True) (List.map_filter (\<lambda>k. number_of (dict_value d k)) ks)"

definition present_or :: "pydict \<Rightarrow> string \<Rightarrow> string \<Rightarrow> pyval" where
  "present_or d k1 k2 = (case map_of d k1 of Some v \<Rightarrow> v | None \<Rightarrow> dict_value d k2)"

definition extract_usage_tokens :: "pyval \<Rightarrow> int" where
  "extract_usage_tokens usage =
     (case usage of
        PDict d \<Rightarrow>
          (case first_number d [''total_tokens'', ''totalTokenCount'', ''total''] of
             Some n \<Rightarrow> max 0 n
           | None \<Rightarrow>
               (case (number_of (present_or d ''prompt_tokens'' ''input_tokens''),
                      number_of (present_or d ''completion_tokens'' ''output_tokens'')) of
                  (Some p, Some c) \<Rightarrow> max 0 (p + c)
                | _ \<Rightarrow> 0))
      | _ \<Rightarrow> 0)"

lemma extract_usage_tokens_nonneg: "0 \<le> extract_usage_tokens usage"
  by (simp add: extract_usage_tokens_def split: pyval.splits option.splits prod.splits)

definition messages_to_text :: "'w tool_env \<Rightarrow> pydict list \<Rightarrow> string" where
  "messages_to_text env msgs =
     join [CHR 0x0A] (map (\<lambda>m.
       (case map_of m ''role'' of None \<Rightarrow> [] | Some v \<Rightarrow> value_text env v) @ '':'' @
       (case map_of m ''content'' of None \<Rightarrow> [] | Some (PStr s) \<Rightarrow> s | Some v \<Rightarrow> json_dumps env v)) msgs)"

text \<open>Which completion path \<open>complete_chat_with_fallback\<close> takes; both paths are outside calls. The
  native one passes the choice on only when there are tools.\<close>

datatype completion_path = NoBackend | ForcedChoiceRejected | ViaExecutionKit | ViaClient "pyval option"

definition completion_path_of :: "'w tool_env \<Rightarrow> bool \<Rightarrow> bool \<Rightarrow> bool \<Rightarrow> pyval list option \<Rightarrow> pyval \<Rightarrow> completion_path" where
  "completion_path_of env backend ek_provider ek_available tools choice =
     (let some_tools = (case tools of None \<Rightarrow> False | Some ts \<Rightarrow> ts \<noteq> [])
      in if \<not> backend then NoBackend
         else if ek_provider \<and> some_tools \<and> is_forced_tool_choice env choice then ForcedChoiceRejected
         else if ek_provider \<and> ek_available then ViaExecutionKit
         else ViaClient (if some_tools then Some choice else None))"

definition opt_str :: "string option \<Rightarrow> pyval" where
  "opt_str x = (case x of None \<Rightarrow> PNone | Some s \<Rightarrow> PStr s)"

definition serialize_tool_result :: "'w tool_env \<Rightarrow> tool_result \<Rightarrow> string" where
  "serialize_tool_result env r =
     truncate_tool_result (json_dumps env (PDict
       [(''success'', PBool (tr_success r)), (''data'', tr_data r), (''error'', opt_str (tr_error r)),
        (''metadata'', PDict (tr_metadata r)), (''execution_time_ms'', PFloat (tr_execution_time_ms r)),
        (''tool_name'', PStr (tr_tool_name r))]))"

definition failure_text :: "'w tool_env \<Rightarrow> string \<Rightarrow> pydict \<Rightarrow> string" where
  "failure_text env msg extra = json_dumps env (PDict ([(''success'', PBool False), (''error'', PStr msg)] @ extra))"

text \<open>The gate for a tool that is no \<open>BaseTool\<close>: \<open>Inr None\<close> lets the call go on, \<open>Inr (Some text)\<close> is a
  denial.\<close>

definition extra_gate ::
  "'w tool_env \<Rightarrow> 'w tool \<Rightarrow> string \<Rightarrow> pydict \<Rightarrow> 'w \<Rightarrow> (tool_exn + string option) eventually \<times> 'w" where
  "extra_gate env t n args w =
     (if is_base_tool t then (Ends (Inr None), w)
      else case evaluate_tool_approval (write_rat env) (settings env) (approver env) (t_requires_approval t) n args
                  (call_id_for env n args) None w of
             (GateHangs, w1) \<Rightarrow> (Hangs, w1)
           | (GateRaises e, w1) \<Rightarrow> (Ends (Inl e), w1)
           | (Outcome out, w1) \<Rightarrow>
               (Ends (Inr (if allowed out then None
                  else Some (json_dumps env (PDict [(''success'', PBool False), (''error'', opt_str (error_message out)),
                         (''metadata'', PDict (denial_metadata out))])))), w1))"

definition run_validated ::
  "'w tool_env \<Rightarrow> 'w tool \<Rightarrow> string \<Rightarrow> pydict \<Rightarrow> 'w \<Rightarrow> (tool_exn + string) eventually \<times> 'w" where
  "run_validated env t n args w =
     (case validate_parameters t args of
        Inl e \<Rightarrow> (Ends (Inl e), w)
      | Inr (Some err) \<Rightarrow> (Ends (Inr (failure_text env (''Invalid parameters for '' @ n @ '': '' @ err) [])), w)
      | Inr None \<Rightarrow>
          (case tool_execute env t args w of
             (Hangs, w1) \<Rightarrow> (Hangs, w1)
           | (Ends (Inr r), w1) \<Rightarrow> (Ends (Inr (serialize_tool_result env r)), w1)
           | (Ends (Inl ToolCancelled), w1) \<Rightarrow> (Ends (Inl ToolCancelled), w1)
           | (Ends (Inl (ToolExc ty txt)), w1) \<Rightarrow>
               (Ends (Inr (failure_text env (''Tool execution error for '' @ n @ '': '' @ txt) [])), w1)))"

definition dispatch_single_tool_call ::
  "'w tool_env \<Rightarrow> 'w tool option \<Rightarrow> string \<Rightarrow> pydict \<Rightarrow> 'w \<Rightarrow> (tool_exn + string) eventually \<times> 'w" where
  "dispatch_single_tool_call env t n args w =
     (case t of
        None \<Rightarrow> (Ends (Inr (failure_text env (''Unknown tool: '' @ n) [])), w)
      | Some tool \<Rightarrow>
          (case extra_gate env tool n args w of
             (Hangs, w1) \<Rightarrow> (Hangs, w1)
           | (Ends (Inl e), w1) \<Rightarrow> (Ends (Inl e), w1)
           | (Ends (Inr (Some text)), w1) \<Rightarrow> (Ends (Inr text), w1)
           | (Ends (Inr None), w1) \<Rightarrow> run_validated env tool n args w1))"

record tool_message =
  msg_call_id :: string
  msg_name :: string
  msg_content :: string

text \<open>The loop over the calls: how many were dispatched, the messages added, or the exception.\<close>

fun run_calls ::
  "'w tool_env \<Rightarrow> (string \<times> 'w tool) list \<Rightarrow> pyval list \<Rightarrow> nat \<Rightarrow> tool_message list \<Rightarrow> 'w \<Rightarrow>
    (tool_exn + nat) eventually \<times> tool_message list \<times> 'w" where
  "run_calls env bound [] executed msgs w = (Ends (Inr executed), msgs, w)"
| "run_calls env bound (PDict call # calls) executed msgs w =
     (case normalize_tool_call env call of (cid, n, args) \<Rightarrow>
        if n = [] then run_calls env bound calls executed msgs w
        else case dispatch_single_tool_call env (map_of bound n) n args w of
               (Hangs, w1) \<Rightarrow> (Hangs, msgs, w1)
             | (Ends (Inl e), w1) \<Rightarrow> (Ends (Inl e), msgs, w1)
             | (Ends (Inr text), w1) \<Rightarrow>
                 run_calls env bound calls (Suc executed)
                   (msgs @ [\<lparr>msg_call_id = cid, msg_name = n, msg_content = truncate_tool_result text\<rparr>]) w1)"
| "run_calls env bound (_ # calls) executed msgs w = run_calls env bound calls executed msgs w"

definition run_tool_calls ::
  "'w tool_env \<Rightarrow> pyval list \<Rightarrow> (string \<times> 'w tool) list \<Rightarrow> tool_message list \<Rightarrow> 'w \<Rightarrow>
    (tool_exn + nat) eventually \<times> tool_message list \<times> 'w" where
  "run_tool_calls env calls bound msgs w = run_calls env bound (take max_tool_calls_per_round calls) 0 msgs w"

section \<open>Runs\<close>

text \<open>What happens is noted in a log: questions to the provider with their answers, and the bodies
  that run.\<close>

datatype tool_event = Asked approval_request provider_answer | Ran string pydict

definition traced_tool :: "'w tool \<Rightarrow> ('w \<times> tool_event list) tool" where
  "traced_tool t =
     \<lparr>t_name = t_name t, t_description = t_description t, t_tier = t_tier t, t_parameters = t_parameters t,
      t_requires_approval = t_requires_approval t, is_base_tool = is_base_tool t,
      tool_body = (\<lambda>args wl. case tool_body t args (fst wl) of (r, w1) \<Rightarrow> (r, w1, snd wl @ [Ran (t_name t) args]))\<rparr>"

definition traced_env :: "'w tool_env \<Rightarrow> ('w \<times> tool_event list) tool_env" where
  "traced_env env =
     \<lparr>settings = settings env,
      approver = map_option (\<lambda>(label, ask). (label, \<lambda>req wl. case ask req (fst wl) of (a, w1) \<Rightarrow> (a, w1, snd wl @ [Asked req a])))
        (approver env),
      write_rat = write_rat env, json_dumps = json_dumps env, json_dumps_sorted = json_dumps_sorted env,
      json_loads = json_loads env, value_text = value_text env, digest16 = digest16 env\<rparr>"

definition needs :: "'w tool_env \<Rightarrow> 'w tool \<Rightarrow> bool" where
  "needs env t \<longleftrightarrow> tool_requires_approval (settings env) (t_requires_approval t) (t_name t)"

definition approves :: "'w tool_env \<Rightarrow> string \<Rightarrow> pydict \<Rightarrow> tool_event \<Rightarrow> bool" where
  "approves env n args ev \<longleftrightarrow>
     (\<exists>req secs. ev = Asked req (Answers APPROVED secs) \<and> req_tool_name req = n \<and> req_tool_args req = args \<and>
        (approval_timeout_seconds (settings env) > 0 \<longrightarrow> secs < approval_timeout_seconds (settings env)))"

text \<open>The gate adds nothing to the log, or the question; it allows a call that needs approval only
  after an approval.\<close>

lemma gate_log:
  assumes "evaluate_tool_approval sr (settings env) (approver (traced_env env)) flag n args cid ag (w, lg) = (res, w1, lg1)"
  shows "(\<exists>e. lg1 = lg @ e \<and> (\<forall>x\<in>set e. \<exists>q a. x = Asked q a)) \<and>
    (\<forall>out. res = Outcome out \<and> allowed out \<longrightarrow>
       (\<not> tool_requires_approval (settings env) flag n \<and> lg1 = lg) \<or>
       (\<exists>ev. lg1 = lg @ [ev] \<and> approves env n args ev))"
proof (cases "tool_requires_approval (settings env) flag n")
  case False
  then show ?thesis using assms by (simp add: evaluate_tool_approval_def)
next
  case True
  show ?thesis
  proof (cases "approver env")
    case None
    then show ?thesis using assms True by (auto simp: evaluate_tool_approval_def traced_env_def denied_outcome_def)
  next
    case (Some p)
    obtain label ask where p: "p = (label, ask)" by fastforce
    let ?req = "\<lparr>req_tool_name = n, req_tool_args = args, req_call_id = cid, req_agent_or_step = ag\<rparr>"
    obtain a w2 where a: "ask ?req w = (a, w2)" by fastforce
    have r: "res = judge_answer sr (settings env) n label a" "lg1 = lg @ [Asked ?req a]"
      using assms True Some p a by (auto simp: evaluate_tool_approval_def traced_env_def)
    show ?thesis using r allowed_needs_approval [of sr "settings env" n label a] by (auto simp: approves_def)
  qed
qed

definition step_log :: "'w tool_env \<Rightarrow> 'w tool \<Rightarrow> pydict \<Rightarrow> tool_event list \<Rightarrow> bool" where
  "step_log env t args e \<longleftrightarrow>
     (\<forall>x\<in>set e. \<exists>q a. x = Asked q a) \<or>
     (e = [Ran (t_name t) args] \<and> \<not> needs env t) \<or>
     (\<exists>ev. e = [ev, Ran (t_name t) args] \<and> approves env (t_name t) args ev)"

lemma traced_env_sel [simp]:
  "settings (traced_env env) = settings env" "write_rat (traced_env env) = write_rat env"
  by (simp_all add: traced_env_def)

lemma traced_tool_sel [simp]:
  "t_name (traced_tool t) = t_name t" "t_requires_approval (traced_tool t) = t_requires_approval t"
  "is_base_tool (traced_tool t) = is_base_tool t" "t_parameters (traced_tool t) = t_parameters t"
  by (simp_all add: traced_tool_def)

lemma traced_validate [simp]: "validate_parameters (traced_tool t) args = validate_parameters t args"
  unfolding validate_parameters_def traced_tool_sel by (rule refl)

lemma traced_body:
  "tool_body (traced_tool t) args (w, lg) = (r, w1, lg1) \<Longrightarrow> lg1 = lg @ [Ran (t_name t) args]"
  by (auto simp: traced_tool_def split: prod.splits)

lemma gated_execute_log:
  assumes "gated_execute (traced_env env) (traced_tool t) args (w, lg) = (res, w1, lg1)"
  shows "\<exists>e. lg1 = lg @ e \<and> step_log env t args e"
proof -
  obtain g w2 lg2 where g: "evaluate_tool_approval (write_rat env) (settings env) (approver (traced_env env))
      (t_requires_approval t) (t_name t) args (call_id_for (traced_env env) (t_name t) args) None (w, lg) = (g, w2, lg2)"
    by (metis prod_cases3)
  note k = gate_log [OF g]
  show ?thesis
  proof (cases "\<exists>out. g = Outcome out \<and> allowed out")
    case False
    then have "lg1 = lg2" using assms g by (auto simp: gated_execute_def split: gate_result.splits)
    with k show ?thesis by (auto simp: step_log_def)
  next
    case True
    then have "lg1 = lg2 @ [Ran (t_name t) args]"
      using assms g by (auto simp: gated_execute_def apfst_def map_prod_def split: prod.splits dest: traced_body)
    with k True show ?thesis by (auto simp: step_log_def needs_def)
  qed
qed

lemma run_validated_log:
  assumes "run_validated (traced_env env) (traced_tool t) n args (w, lg) = (res, w1, lg1)"
  shows "lg1 = lg \<or> (\<exists>r2. tool_execute (traced_env env) (traced_tool t) args (w, lg) = (r2, w1, lg1))"
  using assms
  by (auto simp: run_validated_def split: sum.splits option.splits eventually.splits prod.splits tool_exn.splits)

lemma dispatch_log:
  assumes "dispatch_single_tool_call (traced_env env) (Some (traced_tool t)) (t_name t) args (w, lg) = (res, w1, lg1)"
  shows "\<exists>e. lg1 = lg @ e \<and> step_log env t args e"
proof (cases "is_base_tool t")
  case True
  then have "run_validated (traced_env env) (traced_tool t) (t_name t) args (w, lg) = (res, w1, lg1)"
    using assms by (simp add: dispatch_single_tool_call_def extra_gate_def)
  from run_validated_log [OF this] show ?thesis
    using True gated_execute_log [of env t args w lg] by (auto simp: tool_execute_def step_log_def)
next
  case False
  obtain g w2 lg2 where g: "evaluate_tool_approval (write_rat env) (settings env) (approver (traced_env env))
      (t_requires_approval t) (t_name t) args (call_id_for (traced_env env) (t_name t) args) None (w, lg) = (g, w2, lg2)"
    by (metis prod_cases3)
  note k = gate_log [OF g]
  show ?thesis
  proof (cases "\<exists>out. g = Outcome out \<and> allowed out")
    case noway: False
    then have "lg1 = lg2"
      using assms g False by (auto simp: dispatch_single_tool_call_def extra_gate_def split: gate_result.splits)
    with k show ?thesis by (auto simp: step_log_def)
  next
    case True
    then have "run_validated (traced_env env) (traced_tool t) (t_name t) args (w2, lg2) = (res, w1, lg1)"
      using assms g False by (auto simp: dispatch_single_tool_call_def extra_gate_def)
    from run_validated_log [OF this] have "lg1 = lg2 \<or> lg1 = lg2 @ [Ran (t_name t) args]"
      using False by (auto simp: tool_execute_def apfst_def map_prod_def split: prod.splits dest: traced_body)
    with k True show ?thesis by (auto simp: step_log_def needs_def)
  qed
qed

text \<open>The logs of a round: one part per dispatched call.\<close>

inductive round_log :: "'w tool_env \<Rightarrow> (string \<times> 'w tool) list \<Rightarrow> nat \<Rightarrow> tool_event list \<Rightarrow> bool"
  for env bound where
  round_start: "round_log env bound 0 []"
| round_call: "round_log env bound k lg \<Longrightarrow> map_of bound n = Some t \<Longrightarrow> step_log env t args e \<Longrightarrow>
     round_log env bound (Suc k) (lg @ e)"
| round_skip: "round_log env bound k lg \<Longrightarrow> round_log env bound (Suc k) lg"

definition traced_bound :: "(string \<times> 'w tool) list \<Rightarrow> (string \<times> ('w \<times> tool_event list) tool) list" where
  "traced_bound bound = map (\<lambda>(k, t). (k, traced_tool t)) bound"

lemma map_of_traced: "map_of (traced_bound bound) n = map_option traced_tool (map_of bound n)"
  by (induction bound) (auto simp: traced_bound_def)

lemma round_log_skips: "round_log env bound k lg \<Longrightarrow> round_log env bound (k + j) lg"
  by (induction j) (auto dest: round_skip)

lemma bound_call_log:
  assumes d: "dispatch_single_tool_call (traced_env env) (map_of (traced_bound bound) n) n args (w, lg) = (d, w1, lg1)"
    and names: "\<And>n t. map_of bound n = Some t \<Longrightarrow> t_name t = n" and rl: "round_log env bound k lg"
  shows "round_log env bound (Suc k) lg1"
proof (cases "map_of bound n")
  case None
  then have "lg1 = lg" using d by (simp add: dispatch_single_tool_call_def map_of_traced)
  then show ?thesis using round_skip [OF rl] by simp
next
  case (Some t)
  with d names have "dispatch_single_tool_call (traced_env env) (Some (traced_tool t)) (t_name t) args (w, lg) = (d, w1, lg1)"
    by (simp add: map_of_traced)
  from dispatch_log [OF this] round_call [OF rl Some] show ?thesis by blast
qed

lemma run_calls_log:
  assumes names: "\<And>n t. map_of bound n = Some t \<Longrightarrow> t_name t = n"
  shows "run_calls (traced_env env) (traced_bound bound) calls x msgs (w, lg) = (res, msgs', w', lg') \<Longrightarrow>
    round_log env bound k lg \<Longrightarrow> round_log env bound (k + length calls) lg'"
proof (induction calls arbitrary: x msgs w lg k)
  case Nil
  then show ?case by simp
next
  case (Cons c calls)
  have skipped: "round_log env bound (k + length (c # calls)) lg'"
    if "run_calls (traced_env env) (traced_bound bound) calls x msgs (w, lg) = (res, msgs', w', lg')"
    using Cons.IH [OF that round_skip [OF Cons.prems(2)]] by simp
  show ?case
  proof (cases "\<exists>call. c = PDict call")
    case False
    then show ?thesis using skipped Cons.prems(1) by (cases c) auto
  next
    case True
    then obtain call where c: "c = PDict call" by blast
    obtain cid n args where n: "normalize_tool_call (traced_env env) call = (cid, n, args)" by (metis prod_cases3)
    show ?thesis
    proof (cases "n = []")
      case True
      then show ?thesis using skipped Cons.prems(1) c n by simp
    next
      case named: False
      obtain d w1 lg1 where d: "dispatch_single_tool_call (traced_env env) (map_of (traced_bound bound) n) n args (w, lg) = (d, w1, lg1)"
        by (metis prod_cases3)
      note rl = bound_call_log [OF d names Cons.prems(2)]
      show ?thesis
      proof (cases "\<exists>text. d = Ends (Inr text)")
        case True
        then show ?thesis using Cons.IH [OF _ rl] Cons.prems(1) c n named d by force
      next
        case False
        then have "lg' = lg1" using Cons.prems(1) c n named d by (cases d) (auto split: sum.splits)
        then show ?thesis using round_log_skips [OF rl, of "length calls"] by simp
      qed
    qed
  qed
qed

text \<open>What a log shows: a body runs only for a bound tool, and where the tool needs approval the event
  right before it is the approval of this call.\<close>

definition body_run :: "tool_event \<Rightarrow> bool" where
  "body_run ev \<longleftrightarrow> (case ev of Ran _ _ \<Rightarrow> True | _ \<Rightarrow> False)"

lemma body_run_simps [simp]: "body_run (Ran n args)" "\<not> body_run (Asked q a)"
  by (simp_all add: body_run_def)

lemma step_log_runs: "step_log env t args e \<Longrightarrow> length (filter body_run e) \<le> 1"
proof -
  assume "step_log env t args e"
  then consider "\<forall>x\<in>set e. \<exists>q a. x = Asked q a" | "e = [Ran (t_name t) args]"
    | ev where "e = [ev, Ran (t_name t) args]" "approves env (t_name t) args ev"
    unfolding step_log_def by blast
  then show ?thesis
  proof cases
    case 1
    then have "filter body_run e = []" by (auto simp: filter_empty_conv)
    then show ?thesis by simp
  qed (auto simp: approves_def)
qed

lemma round_log_count: "round_log env bound k lg \<Longrightarrow> length (filter body_run lg) \<le> k"
  by (induction rule: round_log.induct) (auto dest: step_log_runs)

lemma step_log_nth:
  assumes "step_log env t args e" "i < length e" "e ! i = Ran n as"
  shows "n = t_name t \<and> (needs env t \<longrightarrow> 0 < i \<and> approves env n as (e ! (i - 1)))"
  using assms(1) unfolding step_log_def
proof (elim disjE exE)
  assume "\<forall>x\<in>set e. \<exists>q a. x = Asked q a"
  then show ?thesis using nth_mem [OF assms(2)] assms(3) by auto
next
  fix ev assume "e = [ev, Ran (t_name t) args] \<and> approves env (t_name t) args ev"
  then show ?thesis using assms(2, 3) by (cases i) (auto simp: approves_def)
qed (use assms(2, 3) in auto)

lemma round_log_nth:
  assumes "round_log env bound k lg" "i < length lg" "lg ! i = Ran n as"
    and "\<And>n t. map_of bound n = Some t \<Longrightarrow> t_name t = n"
  shows "\<exists>t. map_of bound n = Some t \<and> (needs env t \<longrightarrow> 0 < i \<and> approves env n as (lg ! (i - 1)))"
  using assms(1-3)
proof (induction arbitrary: i rule: round_log.induct)
  case (round_call k lg n' t args e)
  show ?case
  proof (cases "i < length lg")
    case True
    then show ?thesis using round_call.IH [of i] round_call.prems by (auto simp: nth_append)
  next
    case False
    then have "e ! (i - length lg) = Ran n as" "i - length lg < length e"
      using round_call.prems by (auto simp: nth_append)
    from step_log_nth [OF round_call.hyps(3) this(2, 1)] assms(4) [OF round_call.hyps(2)] round_call.hyps(2) False
    show ?thesis by (auto simp: nth_append)
  qed
qed auto

lemma fold_update_names:
  "\<lbrakk>\<And>n t. map_of al n = Some t \<Longrightarrow> t_name t = n \<and> P t; \<forall>t\<in>set ts. P t\<rbrakk> \<Longrightarrow>
   map_of (fold (\<lambda>t. AList.update (t_name t) t) ts al) n = Some t \<Longrightarrow> t_name t = n \<and> P t"
proof (induction ts arbitrary: al)
  case (Cons x ts)
  show ?case
    by (rule Cons.IH [of "AList.update (t_name x) x al"]) (use Cons.prems in \<open>auto simp: update_conv' split: if_splits\<close>)
qed auto

lemma selected_tools:
  assumes "t \<in> set (select_tools tier requested available)"
    and "\<And>n t. map_of available n = Some t \<Longrightarrow> t_name t = n \<and> P t" "distinct (map fst available)"
  shows "P t \<and> t_tier t \<le> int (tier_value tier) \<and> (\<forall>names. requested = Some names \<longrightarrow> t_name t \<in> set names)"
  using assms by (auto simp: select_tools_def split: option.splits if_splits)

lemma contract_tools:
  assumes "build_tool_contracts env tools tier requested choice = Inr (schemas, bound, c)"
    and "map_of bound n = Some t"
  shows "t_name t = n \<and> t \<in> set tools \<and> t_tier t \<le> int (tier_value tier) \<and>
    (\<forall>names. requested = Some names \<longrightarrow> n \<in> set names)"
proof -
  let ?av = "fold (\<lambda>t. AList.update (t_name t) t) tools []"
  let ?sel = "select_tools tier requested ?av"
  have av: "\<And>n t. map_of ?av n = Some t \<Longrightarrow> t_name t = n \<and> t \<in> set tools"
    by (rule fold_update_names [of "[]" "\<lambda>t. t \<in> set tools" tools]) simp_all
  have dist: "distinct (map fst (fold (\<lambda>t. AList.update (t_name t) t) tools al))"
    if "distinct (map fst al)" for al :: "(string \<times> 'a tool) list"
    using that by (induction tools arbitrary: al) (auto simp: distinct_update)
  have sel: "\<forall>t\<in>set (sort_key t_name ?sel). t \<in> set tools \<and> t_tier t \<le> int (tier_value tier) \<and>
      (\<forall>names. requested = Some names \<longrightarrow> t_name t \<in> set names)"
  proof
    fix t assume "t \<in> set (sort_key t_name ?sel)"
    then have "t \<in> set ?sel" by simp
    from selected_tools [OF this av dist] show "t \<in> set tools \<and> t_tier t \<le> int (tier_value tier) \<and>
      (\<forall>names. requested = Some names \<longrightarrow> t_name t \<in> set names)" by simp
  qed
  have "bound = fold (\<lambda>t. AList.update (t_name t) t) (sort_key t_name ?sel) []"
    using assms(1) by (auto simp: build_tool_contracts_def Let_def rbind_def split: sum.splits)
  then have "t_name t = n \<and> t \<in> set tools \<and> t_tier t \<le> int (tier_value tier) \<and>
      (\<forall>names. requested = Some names \<longrightarrow> t_name t \<in> set names)"
    using assms(2) fold_update_names [OF _ sel, of "[]" n t, simplified] by argo
  then show ?thesis by blast
qed

text \<open>A call with an argument named \<open>self\<close> is not answered with an error for the model; its \<open>TypeError\<close>
  leaves the round, and the later calls of the round are lost.\<close>

lemma self_argument_raises:
  assumes "normalize_tool_call env call = (cid, n, args)" "n \<noteq> []" "map_of bound n = Some t" "is_base_tool t" "self_clash args"
  shows "run_calls env bound (PDict call # calls) executed msgs w = (Ends (Inl (self_clash_error ''validate_parameters'')), msgs, w)"
  using assms by (simp add: dispatch_single_tool_call_def extra_gate_def run_validated_def validate_parameters_def)


text \<open>The round of one call to a tool named for approval, with a provider that approves.\<close>

definition shell_settings :: approval_settings where
  "shell_settings =
     \<lparr>require_tool_approval = True, approval_required_tools = ''shell'', approval_timeout_seconds = 5\<rparr>"

definition approving_env :: "unit tool_env" where
  "approving_env =
     \<lparr>settings = shell_settings, approver = Some auto_approve, write_rat = (\<lambda>_. []), json_dumps = (\<lambda>_. []),
      json_dumps_sorted = (\<lambda>_. []), json_loads = (\<lambda>_. None),
      value_text = (\<lambda>v. case v of PStr s \<Rightarrow> s | _ \<Rightarrow> []), digest16 = (\<lambda>_. ''0'')\<rparr>"

definition shell_tool :: "unit tool" where
  "shell_tool =
     \<lparr>t_name = ''shell'', t_description = [], t_tier = 1, t_parameters = [], t_requires_approval = False,
      is_base_tool = True, tool_body = (\<lambda>_ w. (Inr (make_tool_result True PNone None 0 ''shell'' []), w))\<rparr>"

lemma shell_contract:
  "build_tool_contracts approving_env [shell_tool] TIER_1 None PNone =
     Inr ([tool_schema shell_tool], [(''shell'', shell_tool)], AutoChoice)"
  by (simp add: build_tool_contracts_def select_tools_def shell_tool_def normalize_tool_choice_def rbind_def)

lemma shell_round:
  "run_tool_calls (traced_env approving_env) [PDict [(''name'', PStr ''shell'')]]
     (traced_bound [(''shell'', shell_tool)]) [] ((), []) =
   (Ends (Inr 1), [\<lparr>msg_call_id = ''tool-0'', msg_name = ''shell'', msg_content = []\<rparr>], (),
     [Asked \<lparr>req_tool_name = ''shell'', req_tool_args = [], req_call_id = ''tool-0'', req_agent_or_step = None\<rparr>
        (Answers APPROVED 0), Ran ''shell'' []])"
  by code_simp

lemma shell_needs: "needs approving_env shell_tool"
  by code_simp


end
