(* ===== verification/Pipeline.thy ===== *)
theory Pipeline
  imports Step_Executor_Claims
begin

text \<open>
  Pipelines, \<open>engine/pipeline.py\<close>: ordered elements (steps, parallel groups, conditional branches),
  their builder, and \<open>PipelineExecutor\<close> with progress callback, periodic checkpoints, fail-fast and
  cancellation.

  Running one step is a parameter, so that whatever else the event loop runs meanwhile may change the
  context; \<^const>\<open>None\<close> stands for a step that never returns, and \<open>step_alone\<close> is
  \<open>StepExecutor.execute\<close> undisturbed. For a parallel group the parameter is what \<open>asyncio.wait\<close>
  delivers: batches of finished tasks, each in the order the set of done tasks is iterated. Another
  coroutine may call \<open>cancel\<close> during every await.
\<close>

section \<open>Elements\<close>

datatype pipeline_status = PlPending | PlRunning | PlPaused | PlSuccess | PlFailed | PlCancelled

record 'w parallel_group =
  pg_name :: name
  pg_steps :: "'w step_definition list"
  pg_fail_fast :: bool
  pg_max_concurrency :: "int option"

definition make_parallel_group ::
  "name \<Rightarrow> 'w step_definition list \<Rightarrow> bool \<Rightarrow> int option \<Rightarrow> exn + 'w parallel_group" where
  "make_parallel_group n sds ff k =
     (if sds = [] then Inl (value_error ''ParallelGroup must have at least one step'')
      else case k of
             None \<Rightarrow> Inr \<lparr>pg_name = n, pg_steps = sds, pg_fail_fast = ff, pg_max_concurrency = k\<rparr>
           | Some c \<Rightarrow>
               if c < 1
               then Inl (value_error (''ParallelGroup max_concurrency must be >= 1 or None, got '' @ show_int c))
               else Inr \<lparr>pg_name = n, pg_steps = sds, pg_fail_fast = ff, pg_max_concurrency = k\<rparr>)"

datatype 'w pipeline_element =
    ElemStep "'w step_definition"
  | ElemGroup "'w parallel_group"
  | ElemBranch name condition "'w pipeline_element list" "'w pipeline_element list"

record 'w pipeline =
  pl_name :: name
  pl_description :: string
  elements :: "'w pipeline_element list"
  checkpoint_interval :: int
  pl_fail_fast :: bool
  pl_tags :: "string list"
  pl_metadata :: pydict

definition new_pipeline :: "name \<Rightarrow> string \<Rightarrow> 'w pipeline" where
  "new_pipeline n d =
     \<lparr>pl_name = n, pl_description = d, elements = [], checkpoint_interval = 0, pl_fail_fast = True,
      pl_tags = [], pl_metadata = []\<rparr>"

definition add_element :: "'w pipeline_element \<Rightarrow> 'w pipeline \<Rightarrow> 'w pipeline" where
  "add_element e pl = pl\<lparr>elements := elements pl @ [e]\<rparr>"

definition add_pipeline_step :: "'w step_definition \<Rightarrow> 'w pipeline \<Rightarrow> 'w pipeline" where
  "add_pipeline_step sd = add_element (ElemStep sd)"

text \<open>\<open>name or f"..."\<close>: an empty name counts as none.\<close>

definition name_or :: "name option \<Rightarrow> string \<Rightarrow> name" where
  "name_or n d = (case n of None \<Rightarrow> d | Some s \<Rightarrow> if s = [] then d else s)"

definition add_parallel ::
  "'w step_definition list \<Rightarrow> name option \<Rightarrow> bool \<Rightarrow> 'w pipeline \<Rightarrow> exn + 'w pipeline" where
  "add_parallel sds n ff pl =
     rbind (make_parallel_group (name_or n (''parallel_'' @ show_nat (length (elements pl)))) sds ff None)
       (\<lambda>g. Inr (add_element (ElemGroup g) pl))"

definition add_branch ::
  "condition \<Rightarrow> 'w pipeline_element list \<Rightarrow> 'w pipeline_element list option \<Rightarrow> name option \<Rightarrow> 'w pipeline \<Rightarrow>
    'w pipeline" where
  "add_branch c ts es n pl =
     add_element (ElemBranch (name_or n (''branch_'' @ show_nat (length (elements pl)))) c ts
       (case es of None \<Rightarrow> [] | Some xs \<Rightarrow> xs)) pl"

fun count_element :: "'w pipeline_element \<Rightarrow> nat" where
  "count_element (ElemStep sd) = 1"
| "count_element (ElemGroup g) = length (pg_steps g)"
| "count_element (ElemBranch n c ts es) = sum_list (map count_element ts) + sum_list (map count_element es)"

definition total_steps :: "'w pipeline \<Rightarrow> nat" where
  "total_steps pl = sum_list (map count_element (elements pl))"

text \<open>\<open>PipelineBuilder\<close> forwards to the pipeline it holds.\<close>

datatype 'w build_call =
    BuildStep "'w step_definition"
  | BuildParallel "'w step_definition list" "name option" bool
  | BuildBranch condition "'w pipeline_element list" "'w pipeline_element list option" "name option"
  | BuildCheckpoints int
  | BuildFailFast bool
  | BuildTags "string list"

fun build_call_on :: "'w build_call \<Rightarrow> 'w pipeline \<Rightarrow> exn + 'w pipeline" where
  "build_call_on (BuildStep sd) pl = Inr (add_pipeline_step sd pl)"
| "build_call_on (BuildParallel sds n ff) pl = add_parallel sds n ff pl"
| "build_call_on (BuildBranch c ts es n) pl = Inr (add_branch c ts es n pl)"
| "build_call_on (BuildCheckpoints k) pl = Inr (pl\<lparr>checkpoint_interval := k\<rparr>)"
| "build_call_on (BuildFailFast b) pl = Inr (pl\<lparr>pl_fail_fast := b\<rparr>)"
| "build_call_on (BuildTags ts) pl = Inr (pl\<lparr>pl_tags := pl_tags pl @ ts\<rparr>)"

fun build_pipeline :: "'w build_call list \<Rightarrow> 'w pipeline \<Rightarrow> exn + 'w pipeline" where
  "build_pipeline [] pl = Inr pl"
| "build_pipeline (c # cs) pl = rbind (build_call_on c pl) (build_pipeline cs)"

section \<open>Running elements\<close>

type_synonym done_task = "nat \<times> (raised + step_result)"

record 'w pipe_env =
  run_step :: "'w step_definition \<Rightarrow> exec_context \<Rightarrow> 'w \<Rightarrow> ((raised + step_result) \<times> exec_context \<times> 'w) option"
  wait_batches :: "'w parallel_group \<Rightarrow> exec_context \<Rightarrow> 'w \<Rightarrow> done_task list list \<times> exec_context \<times> 'w"
  cancel_during :: "'w \<Rightarrow> 'w \<Rightarrow> bool"
  progress_callback :: "(name \<Rightarrow> nat \<Rightarrow> nat \<Rightarrow> step_result \<Rightarrow> 'w \<Rightarrow> exn option \<times> 'w) option"
  pe_digest :: digest
  pe_fates :: "nat \<Rightarrow> handler_fate"
  pe_stamp :: "'w \<Rightarrow> string"
  pe_now :: "'w \<Rightarrow> instant"
  pe_validation_text :: string

definition step_alone ::
  "'w step_env \<Rightarrow> 'w step_definition \<Rightarrow> exec_context \<Rightarrow> 'w \<Rightarrow> ((raised + step_result) \<times> exec_context \<times> 'w) option" where
  "step_alone env sd ctx w = map_option (\<lambda>(r, ctx', w', tr). (r, ctx', w')) (execute env sd ctx w)"

text \<open>One batch: \<open>task.result()\<close> raises what the task raised; \<^const>\<open>True\<close> at the first failure.\<close>

fun collect_done :: "done_task list \<Rightarrow> step_result list \<Rightarrow> raised + bool \<times> step_result list" where
  "collect_done [] acc = Inr (False, acc)"
| "collect_done ((i, Inl e) # ts) acc = Inl e"
| "collect_done ((i, Inr r) # ts) acc =
     (if is_failed r then Inr (True, acc @ [r]) else collect_done ts (acc @ [r]))"

fun gather_fail_fast ::
  "nat list \<Rightarrow> done_task list list \<Rightarrow> step_result list \<Rightarrow> (raised + step_result list) option" where
  "gather_fail_fast [] bs acc = Some (Inr acc)"
| "gather_fail_fast (p # ps) [] acc = None"
| "gather_fail_fast (p # ps) (b # bs) acc =
     (case collect_done b acc of
        Inl e \<Rightarrow> Some (Inl e)
      | Inr (True, rs) \<Rightarrow> Some (Inr rs)
      | Inr (False, rs) \<Rightarrow> gather_fail_fast (filter (\<lambda>i. i \<notin> fst ` set b) (p # ps)) bs rs)"

text \<open>\<open>asyncio.gather\<close>: the first exception is raised, the results are in the order of the steps.\<close>

fun first_raised :: "done_task list \<Rightarrow> raised option" where
  "first_raised [] = None"
| "first_raised ((i, Inl e) # ts) = Some e"
| "first_raised ((i, Inr r) # ts) = first_raised ts"

fun results_in_order :: "done_task list \<Rightarrow> nat list \<Rightarrow> step_result list option" where
  "results_in_order ts [] = Some []"
| "results_in_order ts (i # is) =
     (case map_of ts i of
        Some (Inr r) \<Rightarrow> map_option ((#) r) (results_in_order ts is)
      | _ \<Rightarrow> None)"

definition gather_all :: "nat \<Rightarrow> done_task list list \<Rightarrow> (raised + step_result list) option" where
  "gather_all n bs =
     (case first_raised (concat bs) of
        Some e \<Rightarrow> Some (Inl e)
      | None \<Rightarrow> map_option Inr (results_in_order (concat bs) [0..<n]))"

definition execute_parallel_group ::
  "'w pipe_env \<Rightarrow> 'w parallel_group \<Rightarrow> exec_context \<Rightarrow> 'w \<Rightarrow>
    ((raised + step_result list) \<times> exec_context \<times> 'w) option" where
  "execute_parallel_group env g ctx w =
     (case wait_batches env g ctx w of (bs, ctx', w') \<Rightarrow>
        map_option (\<lambda>r. (r, ctx', w'))
          (if pg_fail_fast g then gather_fail_fast [0..<length (pg_steps g)] bs []
           else gather_all (length (pg_steps g)) bs))"

fun execute_element ::
  "'w pipe_env \<Rightarrow> 'w pipeline_element \<Rightarrow> exec_context \<Rightarrow> 'w \<Rightarrow> ((raised + step_result list) \<times> exec_context \<times> 'w) option"
and execute_branch_steps ::
  "'w pipe_env \<Rightarrow> 'w pipeline_element list \<Rightarrow> step_result list \<Rightarrow> exec_context \<Rightarrow> 'w \<Rightarrow>
    ((raised + step_result list) \<times> exec_context \<times> 'w) option" where
  "execute_element env (ElemStep sd) ctx w =
     map_option (\<lambda>(r, cw). (map_sum id (\<lambda>x. [x]) r, cw)) (run_step env sd ctx w)"
| "execute_element env (ElemGroup g) ctx w = execute_parallel_group env g ctx w"
| "execute_element env (ElemBranch n c ts es) ctx w =
     (case c ctx of
        Inl e \<Rightarrow> Some (Inl (Raised e), ctx, w)
      | Inr b \<Rightarrow> if b then execute_branch_steps env ts [] ctx w else execute_branch_steps env es [] ctx w)"
| "execute_branch_steps env [] acc ctx w = Some (Inr acc, ctx, w)"
| "execute_branch_steps env (e # es) acc ctx w =
     (case execute_element env e ctx w of
        None \<Rightarrow> None
      | Some (Inl x, ctx1, w1) \<Rightarrow> Some (Inl x, ctx1, w1)
      | Some (Inr rs, ctx1, w1) \<Rightarrow>
          if list_ex is_failed rs then Some (Inr (acc @ rs), ctx1, w1)
          else execute_branch_steps env es (acc @ rs) ctx1 w1)"

section \<open>The executor\<close>

record 'w pipe_run =
  pr_status :: pipeline_status
  pr_cancelled :: bool
  pr_result :: workflow_result
  pr_completed :: nat
  pr_checkpoint :: nat
  pr_ctx :: exec_context
  pr_files :: files
  pr_world :: 'w

definition cancel_pipeline :: "'w pipe_run \<Rightarrow> 'w pipe_run" where
  "cancel_pipeline st = st\<lparr>pr_cancelled := True, pr_status := PlCancelled\<rparr>"

text \<open>The end of an await that began at \<open>w0\<close>.\<close>

definition resume_from :: "'w pipe_env \<Rightarrow> 'w \<Rightarrow> 'w pipe_run \<Rightarrow> 'w pipe_run" where
  "resume_from env w0 st = (if cancel_during env w0 (pr_world st) then cancel_pipeline st else st)"

definition on_wf :: "(workflow_result \<Rightarrow> workflow_result) \<Rightarrow> 'w pipe_run \<Rightarrow> 'w pipe_run" where
  "on_wf f st = st\<lparr>pr_result := f (pr_result st)\<rparr>"

definition set_wf_meta :: "string \<Rightarrow> pyval \<Rightarrow> workflow_result \<Rightarrow> workflow_result" where
  "set_wf_meta k v wr = wr\<lparr>wf_metadata := AList.update k v (wf_metadata wr)\<rparr>"

definition call_progress :: "'w pipe_env \<Rightarrow> nat \<Rightarrow> step_result \<Rightarrow> 'w pipe_run \<Rightarrow> exn option \<times> 'w pipe_run" where
  "call_progress env tot r st =
     (case progress_callback env of
        None \<Rightarrow> (None, st)
      | Some cb \<Rightarrow>
          (case cb (step_name r) (pr_completed st) tot r (pr_world st) of
             (x, w1) \<Rightarrow> (x, st\<lparr>pr_world := w1\<rparr>)))"

fun record_step_results ::
  "'w pipe_env \<Rightarrow> 'w pipeline \<Rightarrow> nat \<Rightarrow> step_result list \<Rightarrow> 'w pipe_run \<Rightarrow> (exn + bool) \<times> 'w pipe_run" where
  "record_step_results env pl tot [] st = (Inr False, st)"
| "record_step_results env pl tot (r # rs) st =
     (case call_progress env tot r ((on_wf (add_step r) st)\<lparr>pr_completed := Suc (pr_completed st)\<rparr>) of
        (Some e, st1) \<Rightarrow> (Inl e, st1)
      | (None, st1) \<Rightarrow>
          if is_failed r \<and> pl_fail_fast pl
          then (Inr True,
                (on_wf (\<lambda>wr. wf_mark_complete False (pe_now env (pr_world st1)) (wr\<lparr>overall_status := FAILED\<rparr>)) st1)
                  \<lparr>pr_status := PlFailed\<rparr>)
          else record_step_results env pl tot rs st1)"

definition maybe_checkpoint ::
  "'w pipe_env \<Rightarrow> 'w pipeline \<Rightarrow> nat \<Rightarrow> 'w pipe_run \<Rightarrow> (exn + unit) \<times> 'w pipe_run" where
  "maybe_checkpoint env pl n st =
     (if checkpoint_interval pl \<le> 0 then (Inr (), st)
      else
        let st1 = st\<lparr>pr_checkpoint := pr_checkpoint st + n\<rparr>
        in if int (pr_checkpoint st1) \<ge> checkpoint_interval pl
           then (case save_checkpoint (pe_digest env) (pe_fates env) (Some (''pipeline_'' @ show_nat (pr_completed st1))) []
                        (pe_stamp env (pr_world st1)) (pe_stamp env (pr_world st1)) (pr_ctx st1) (pr_files st1) of
                   Inl e \<Rightarrow> (Inl (value_error ''No checkpoint directory configured''), st1)
                 | Inr (path, fs, sent, cancelled) \<Rightarrow>
                     let st2 = resume_from env (pr_world st1) (st1\<lparr>pr_files := fs\<rparr>)
                     in if cancelled then (Inl cancelled_error, st2) else (Inr (), st2\<lparr>pr_checkpoint := 0\<rparr>))
           else (Inr (), st1))"

text \<open>The loop over the elements: how it ends.\<close>

datatype loop_end = LoopDone | LoopFailedFast | LoopThrew exn

fun run_elements ::
  "'w pipe_env \<Rightarrow> 'w pipeline \<Rightarrow> nat \<Rightarrow> 'w pipeline_element list \<Rightarrow> 'w pipe_run \<Rightarrow> (loop_end \<times> 'w pipe_run) option" where
  "run_elements env pl tot [] st = Some (LoopDone, st)"
| "run_elements env pl tot (e # es) st =
     (if pr_cancelled st
      then Some (LoopDone, on_wf (\<lambda>wr. set_wf_meta ''cancelled'' (PBool True) (wr\<lparr>overall_status := FAILED\<rparr>)) st)
      else case execute_element env e (pr_ctx st) (pr_world st) of
             None \<Rightarrow> None
           | Some (out, ctx1, w1) \<Rightarrow>
               let st1 = resume_from env (pr_world st) (st\<lparr>pr_ctx := ctx1, pr_world := w1\<rparr>)
               in (case out of
                     Inl x \<Rightarrow> Some (LoopThrew (exn_of x), st1)
                   | Inr rs \<Rightarrow>
                       (case record_step_results env pl tot rs st1 of
                          (Inl x, st2) \<Rightarrow> Some (LoopThrew x, st2)
                        | (Inr True, st2) \<Rightarrow> Some (LoopFailedFast, st2)
                        | (Inr False, st2) \<Rightarrow>
                            (case maybe_checkpoint env pl (length rs) st2 of
                               (Inl x, st3) \<Rightarrow> Some (LoopThrew x, st3)
                             | (Inr _, st3) \<Rightarrow> run_elements env pl tot es st3))))"

definition complete_run :: "'w pipe_env \<Rightarrow> 'w pipe_run \<Rightarrow> 'w pipe_run" where
  "complete_run env st =
     on_wf (\<lambda>wr. wf_mark_complete (overall_status wr = SUCCESS) (pe_now env (pr_world st)) wr) st"

definition settle_run :: "'w pipe_run \<Rightarrow> 'w pipe_run" where
  "settle_run st =
     (let st1 = on_wf (\<lambda>wr. if overall_status wr = RUNNING then wr\<lparr>overall_status := SUCCESS\<rparr> else wr) st
      in st1\<lparr>pr_status := (if overall_status (pr_result st1) = SUCCESS then PlSuccess else PlFailed)\<rparr>)"

definition fail_pipeline :: "exn \<Rightarrow> 'w pipe_run \<Rightarrow> 'w pipe_run" where
  "fail_pipeline x st =
     (on_wf (\<lambda>wr. set_wf_meta ''error'' (PStr (exn_msg x)) (wr\<lparr>overall_status := FAILED\<rparr>)) st)\<lparr>pr_status := PlFailed\<rparr>"

text \<open>\<open>execute\<close>: \<open>except Exception\<close> lets a cancellation pass. \<open>Inl\<close> is an exception that leaves the
  method, \<open>WorkflowResult\<close> rejecting an empty identifier or name included.\<close>

definition finish_loop :: "'w pipe_env \<Rightarrow> loop_end \<times> 'w pipe_run \<Rightarrow> (exn + workflow_result) \<times> 'w pipe_run" where
  "finish_loop env out =
     (case out of
        (LoopFailedFast, st) \<Rightarrow> (Inr (pr_result st), st)
      | (LoopDone, st) \<Rightarrow> (let st1 = complete_run env (settle_run st) in (Inr (pr_result st1), st1))
      | (LoopThrew x, st) \<Rightarrow>
          if isinstance_of x [''Exception'']
          then (let st1 = complete_run env (fail_pipeline x st) in (Inr (pr_result st1), st1))
          else (Inl x, st))"

definition initial_run :: "'w pipeline \<Rightarrow> exec_context \<Rightarrow> files \<Rightarrow> 'w \<Rightarrow> 'w pipe_run" where
  "initial_run pl ctx fs w =
     \<lparr>pr_status = PlRunning, pr_cancelled = False,
      pr_result = \<lparr>workflow_id = fr_workflow_id (hd ctx), workflow_name = pl_name pl, steps_of = [],
        overall_status = RUNNING, wf_end_time = None, final_output = [], wf_metadata = pl_metadata pl\<rparr>,
      pr_completed = 0, pr_checkpoint = 0, pr_ctx = ctx, pr_files = fs, pr_world = w\<rparr>"

definition execute_pipeline ::
  "'w pipe_env \<Rightarrow> 'w pipeline \<Rightarrow> exec_context \<Rightarrow> files \<Rightarrow> 'w \<Rightarrow>
    ((exn + workflow_result) \<times> 'w pipe_run) option" where
  "execute_pipeline env pl ctx fs w =
     (let st = initial_run pl ctx fs w
      in if pl_name pl = [] \<or> fr_workflow_id (hd ctx) = []
         then Some (Inl (exception [''ValidationError'', ''ValueError''] (pe_validation_text env)), st)
         else map_option (finish_loop env) (run_elements env pl (total_steps pl) (elements pl) st))"

section \<open>Properties\<close>

text \<open>What an event loop delivers for a group of \<open>n\<close> tasks: every task at most once.\<close>

definition legal_batches :: "nat \<Rightarrow> done_task list list \<Rightarrow> bool" where
  "legal_batches n bs \<longleftrightarrow> distinct (map fst (concat bs)) \<and> fst ` set (concat bs) \<subseteq> {..<n}"

definition legal_env :: "'w pipe_env \<Rightarrow> bool" where
  "legal_env env \<longleftrightarrow> (\<forall>g ctx w. legal_batches (length (pg_steps g)) (fst (wait_batches env g ctx w)))"

lemma legal_length: "legal_batches n bs \<Longrightarrow> length (concat bs) \<le> n"
proof -
  assume l: "legal_batches n bs"
  then have "length (concat bs) = card (fst ` set (concat bs))"
    unfolding legal_batches_def by (metis distinct_card length_map list.set_map)
  also have "\<dots> \<le> card {..<n}" using l unfolding legal_batches_def by (meson card_mono finite_lessThan)
  finally show ?thesis by simp
qed

lemma collect_done_length: "collect_done b acc = Inr (x, rs) \<Longrightarrow> length rs \<le> length acc + length b"
  by (induction b acc arbitrary: x rs rule: collect_done.induct) (auto split: if_splits)

lemma gather_fail_fast_length:
  "gather_fail_fast ps bs acc = Some (Inr rs) \<Longrightarrow> length rs \<le> length acc + length (concat bs)"
proof (induction ps bs acc rule: gather_fail_fast.induct)
  case (3 p ps b bs acc)
  then show ?case
    by (auto split: sum.splits prod.splits bool.splits dest!: collect_done_length simp del: filter.simps) force+
qed auto

lemma results_in_order_length: "results_in_order ts is = Some rs \<Longrightarrow> length rs = length is"
  by (induction "is" arbitrary: rs) (auto split: option.splits sum.splits)

lemma group_length:
  assumes "legal_env env" "execute_parallel_group env g ctx w = Some (Inr rs, cw)"
  shows "length rs \<le> length (pg_steps g)"
proof -
  obtain bs ctx' w' where b: "wait_batches env g ctx w = (bs, ctx', w')" by (metis prod_cases3)
  with assms(1) have l: "length (concat bs) \<le> length (pg_steps g)"
    unfolding legal_env_def by (metis fst_conv legal_length)
  show ?thesis
    using assms(2) b l
    by (auto simp: execute_parallel_group_def gather_all_def split: if_splits option.splits
        dest!: gather_fail_fast_length results_in_order_length)
qed

lemma element_length:
  "legal_env env \<Longrightarrow> execute_element env e ctx w = Some (Inr rs, cw) \<Longrightarrow> length rs \<le> count_element e"
  "legal_env env \<Longrightarrow> execute_branch_steps env es acc ctx w = Some (Inr rs, cw) \<Longrightarrow>
     length rs \<le> length acc + sum_list (map count_element es)"
proof (induction env e ctx w and env es acc ctx w arbitrary: rs cw and rs cw
    rule: execute_element_execute_branch_steps.induct)
  case (5 env e es acc ctx w)
  obtain rs1 ctx1 w1 where e: "execute_element env e ctx w = Some (Inr rs1, ctx1, w1)"
    using 5(4) by (auto split: option.splits sum.splits prod.splits)
  from 5(1) [OF 5(3) e] have l: "length rs1 \<le> count_element e" .
  show ?case
  proof (cases "list_ex is_failed rs1")
    case True
    then show ?thesis using 5(4) e l by auto
  next
    case False
    with 5(4) e have "execute_branch_steps env es (acc @ rs1) ctx1 w1 = Some (Inr rs, cw)" by simp
    from 5(2) [OF e refl refl refl False 5(3) this] l show ?thesis by simp
  qed
next
  case (1 env sd ctx w)
  then obtain r where "map_sum id (\<lambda>x. [x]) r = (Inr rs :: raised + step_result list)" by auto
  then show ?case by (cases r) auto
next
  case (3 env n c ts es ctx w)
  then obtain b where b: "c ctx = Inr b" by (auto split: sum.splits)
  show ?case
  proof (cases b)
    case True
    with 3(1) [OF b True 3(3)] 3(4) b show ?thesis by fastforce
  next
    case False
    with 3(2) [OF b False 3(3)] 3(4) b show ?thesis by fastforce
  qed
qed (auto simp: group_length)

text \<open>Recording keeps everything but the result, the counter, the status and the world.\<close>

lemma on_wf_sel [simp]:
  "pr_result (on_wf f st) = f (pr_result st)" "pr_status (on_wf f st) = pr_status st"
  "pr_cancelled (on_wf f st) = pr_cancelled st" "pr_completed (on_wf f st) = pr_completed st"
  "pr_checkpoint (on_wf f st) = pr_checkpoint st" "pr_ctx (on_wf f st) = pr_ctx st"
  "pr_files (on_wf f st) = pr_files st" "pr_world (on_wf f st) = pr_world st"
  by (simp_all add: on_wf_def)

lemma call_progress_keeps:
  "call_progress env tot r st = (x, st1) \<Longrightarrow> pr_result st1 = pr_result st \<and> pr_completed st1 = pr_completed st \<and>
     pr_checkpoint st1 = pr_checkpoint st"
  by (auto simp: call_progress_def split: option.splits prod.splits)

definition some_failed :: "step_result list \<Rightarrow> bool" where
  "some_failed rs \<longleftrightarrow> (\<exists>r\<in>set rs. is_failed r)"

lemma some_failed_simps [simp]:
  "some_failed [] \<longleftrightarrow> False" "some_failed (r # rs) \<longleftrightarrow> is_failed r \<or> some_failed rs"
  "some_failed (rs @ ts) \<longleftrightarrow> some_failed rs \<or> some_failed ts"
  by (auto simp: some_failed_def)

lemma some_failed_butlast: "\<not> some_failed rs \<Longrightarrow> \<not> some_failed (butlast rs)"
  by (auto simp: some_failed_def dest: in_set_butlastD)

text \<open>An element without branches that ends with no failed step has run all its steps.\<close>

fun plain :: "'w pipeline_element \<Rightarrow> bool" where
  "plain (ElemBranch n c ts es) = False"
| "plain _ = True"

lemma collect_done_outcome:
  "collect_done b acc = Inr (x, rs) \<Longrightarrow> (x \<longrightarrow> some_failed rs) \<and> (\<not> x \<longrightarrow> length rs = length acc + length b)"
  by (induction b acc arbitrary: x rs rule: collect_done.induct) (auto split: if_splits)

lemma pending_after:
  assumes "distinct ps" "distinct (map fst b)" "fst ` set b \<subseteq> set ps"
  shows "length (filter (\<lambda>i. i \<notin> fst ` set b) ps) + length b = length ps"
proof -
  have "length (filter (\<lambda>i. i \<in> fst ` set b) ps) = card (fst ` set b)"
    using assms(1, 3) by (subst distinct_card [symmetric]) (auto intro: arg_cong [where f = card])
  also have "\<dots> = length b" using assms(2) by (metis distinct_card length_map list.set_map)
  finally show ?thesis using sum_length_filter_compl [of "\<lambda>i. i \<in> fst ` set b" ps] by simp
qed

lemma gather_fail_fast_exact:
  "\<lbrakk>gather_fail_fast ps bs acc = Some (Inr rs); \<not> some_failed rs; distinct ps; distinct (map fst (concat bs));
    fst ` set (concat bs) \<subseteq> set ps\<rbrakk> \<Longrightarrow> length rs = length acc + length ps"
proof (induction ps bs acc rule: gather_fail_fast.induct)
  case (3 p ps b bs acc)
  let ?ps = "filter (\<lambda>i. i \<notin> fst ` set b) (p # ps)"
  obtain x rs1 where c: "collect_done b acc = Inr (x, rs1)"
    using "3.prems"(1) by (auto split: sum.splits)
  note o = collect_done_outcome [OF c]
  have nx: "\<not> x" using "3.prems"(1, 2) c o by (auto split: bool.splits)
  with "3.prems"(1) c have g: "gather_fail_fast ?ps bs rs1 = Some (Inr rs)" by (simp del: filter.simps)
  have "fst ` set b \<inter> fst ` set (concat bs) = {}" using "3.prems"(4) by auto
  moreover have "fst ` set (concat bs) \<subseteq> set (p # ps)" using "3.prems"(5) by (simp add: image_Un)
  moreover have "set ?ps = set (p # ps) - fst ` set b" by (simp only: set_filter) blast
  ultimately have sub: "fst ` set (concat bs) \<subseteq> set ?ps" by blast
  have dps: "distinct ?ps" using "3.prems"(3) by (simp only: distinct_filter)
  have "length rs = length rs1 + length ?ps"
    using "3.IH" [OF c refl _ g "3.prems"(2) dps _ sub] nx "3.prems"(4) by (simp del: filter.simps)
  moreover have "length ?ps + length b = length (p # ps)"
    using pending_after [of "p # ps" b] "3.prems"(3, 4, 5) by (auto simp del: filter.simps)
  ultimately show ?case using o nx by simp
qed auto

lemma element_exact:
  assumes legal: "legal_env env" and "plain e" "execute_element env e ctx w = Some (Inr rs, cw)" "\<not> some_failed rs"
  shows "length rs = count_element e"
proof (cases e)
  case (ElemStep sd)
  with assms(3) obtain r where "map_sum id (\<lambda>x. [x]) r = (Inr rs :: raised + step_result list)" by auto
  then show ?thesis using ElemStep by (cases r) auto
next
  case (ElemGroup g)
  obtain bs ctx' w' where b: "wait_batches env g ctx w = (bs, ctx', w')" by (metis prod_cases3)
  with legal have l: "legal_batches (length (pg_steps g)) bs" unfolding legal_env_def by (metis fst_conv)
  have x: "(if pg_fail_fast g then gather_fail_fast [0..<length (pg_steps g)] bs []
           else gather_all (length (pg_steps g)) bs) = Some (Inr rs)"
    using assms(3) ElemGroup b by (auto simp: execute_parallel_group_def)
  show ?thesis
  proof (cases "pg_fail_fast g")
    case True
    have "length rs = length ([] :: step_result list) + length [0..<length (pg_steps g)]"
      using x True l assms(4) by (intro gather_fail_fast_exact [where bs = bs]) (auto simp: legal_batches_def lessThan_atLeast0)
    then show ?thesis using ElemGroup by simp
  next
    case False
    then show ?thesis using x ElemGroup
      by (auto simp: gather_all_def split: option.splits dest!: results_in_order_length)
  qed
qed (use assms(2) in simp)

text \<open>A batch of results recorded up to \<open>rs1\<close>.\<close>

definition recorded :: "step_result list \<Rightarrow> 'w pipe_run \<Rightarrow> 'w pipe_run \<Rightarrow> bool" where
  "recorded rs1 st st' \<longleftrightarrow>
     steps_of (pr_result st') = steps_of (pr_result st) @ rs1 \<and>
     pr_completed st' = pr_completed st + length rs1 \<and> pr_checkpoint st' = pr_checkpoint st \<and>
     wf_metadata (pr_result st') = wf_metadata (pr_result st) \<and>
     overall_status (pr_result st') = (if some_failed rs1 then FAILED else overall_status (pr_result st))"

lemma record_step_results_spec:
  "record_step_results env pl tot rs st = (out, st') \<Longrightarrow>
    \<exists>rs1 rs2. rs = rs1 @ rs2 \<and> recorded rs1 st st' \<and>
      (pl_fail_fast pl \<longrightarrow> \<not> some_failed (butlast rs1)) \<and>
      (out = Inr False \<longrightarrow> rs2 = [] \<and> (pl_fail_fast pl \<longrightarrow> \<not> some_failed rs1)) \<and>
      (out = Inr True \<longrightarrow> pl_fail_fast pl \<and> some_failed rs1 \<and> pr_status st' = PlFailed \<and> wf_end_time (pr_result st') \<noteq> None)"
proof (induction env pl tot rs st rule: record_step_results.induct)
  case (1 env pl tot st)
  then show ?case by (auto simp: recorded_def)
next
  case (2 env pl tot r rs st)
  let ?st0 = "(on_wf (add_step r) st)\<lparr>pr_completed := Suc (pr_completed st)\<rparr>"
  obtain x st1 where c: "call_progress env tot r ?st0 = (x, st1)" by fastforce
  note k = call_progress_keeps [OF c]
  have one: "recorded [r] st st1" using k by (auto simp: recorded_def)
  show ?case
  proof (cases x)
    case (Some e)
    with 2(2) c have "out = Inl e" "st' = st1" by auto
    with one show ?thesis by (intro exI [of _ "[r]"] exI [of _ rs]) simp
  next
    case None
    show ?thesis
    proof (cases "is_failed r \<and> pl_fail_fast pl")
      case True
      with 2(2) c None have "out = Inr True"
        and st': "st' = (on_wf (\<lambda>wr. wf_mark_complete False (pe_now env (pr_world st1)) (wr\<lparr>overall_status := FAILED\<rparr>)) st1)
                  \<lparr>pr_status := PlFailed\<rparr>" by auto
      with one True show ?thesis
        by (intro exI [of _ "[r]"] exI [of _ rs]) (auto simp: recorded_def wf_mark_complete_def)
    next
      case False
      with 2(2) c None have "record_step_results env pl tot rs st1 = (out, st')" by auto
      from 2(1) [OF c [symmetric] None False this] obtain rs1 rs2 where
        h: "rs = rs1 @ rs2" "recorded rs1 st1 st'" "pl_fail_fast pl \<longrightarrow> \<not> some_failed (butlast rs1)"
        "out = Inr False \<longrightarrow> rs2 = [] \<and> (pl_fail_fast pl \<longrightarrow> \<not> some_failed rs1)"
        "out = Inr True \<longrightarrow> pl_fail_fast pl \<and> some_failed rs1 \<and> pr_status st' = PlFailed \<and> wf_end_time (pr_result st') \<noteq> None"
        by blast
      have "recorded (r # rs1) st st'" using one h(2) by (auto simp: recorded_def)
      with h False show ?thesis by (intro exI [of _ "r # rs1"] exI [of _ rs2]) auto
    qed
  qed
qed

text \<open>At the head of the loop over the elements, with \<open>es\<close> to come.\<close>

definition loop_ok :: "'w pipeline \<Rightarrow> 'w pipeline_element list \<Rightarrow> 'w pipe_run \<Rightarrow> bool" where
  "loop_ok pl es st \<longleftrightarrow>
     pr_completed st = length (steps_of (pr_result st)) \<and>
     length (steps_of (pr_result st)) + sum_list (map count_element es) \<le> total_steps pl \<and>
     overall_status (pr_result st) = (if some_failed (steps_of (pr_result st)) then FAILED else RUNNING) \<and>
     (pl_fail_fast pl \<longrightarrow> \<not> some_failed (steps_of (pr_result st))) \<and>
     (list_all plain (elements pl) \<and> \<not> some_failed (steps_of (pr_result st)) \<longrightarrow>
        length (steps_of (pr_result st)) + sum_list (map count_element es) = total_steps pl) \<and>
     (checkpoint_interval pl > 0 \<longrightarrow> int (pr_checkpoint st) < checkpoint_interval pl) \<and>
     wf_metadata (pr_result st) = pl_metadata pl"

text \<open>How the loop ends.\<close>

definition ended_ok :: "'w pipeline \<Rightarrow> loop_end \<Rightarrow> 'w pipe_run \<Rightarrow> bool" where
  "ended_ok pl en st \<longleftrightarrow>
     pr_completed st = length (steps_of (pr_result st)) \<and> length (steps_of (pr_result st)) \<le> total_steps pl \<and>
     (pl_fail_fast pl \<longrightarrow> \<not> some_failed (butlast (steps_of (pr_result st)))) \<and>
     (case en of
        LoopDone \<Rightarrow>
          (wf_metadata (pr_result st) = pl_metadata pl \<and>
           (list_all plain (elements pl) \<and> \<not> some_failed (steps_of (pr_result st)) \<longrightarrow>
              length (steps_of (pr_result st)) = total_steps pl) \<and>
           overall_status (pr_result st) = (if some_failed (steps_of (pr_result st)) then FAILED else RUNNING)) \<or>
          (map_of (wf_metadata (pr_result st)) ''cancelled'' = Some (PBool True) \<and> pr_cancelled st \<and>
           overall_status (pr_result st) = FAILED)
      | LoopFailedFast \<Rightarrow> pl_fail_fast pl \<and> some_failed (steps_of (pr_result st)) \<and> pr_status st = PlFailed \<and>
          overall_status (pr_result st) = FAILED \<and> wf_end_time (pr_result st) \<noteq> None \<and>
          wf_metadata (pr_result st) = pl_metadata pl
      | LoopThrew x \<Rightarrow> wf_metadata (pr_result st) = pl_metadata pl)"

lemma maybe_checkpoint_spec:
  assumes "maybe_checkpoint env pl n st = (out, st')"
  shows "pr_result st' = pr_result st \<and> pr_completed st' = pr_completed st \<and>
    (out = Inr () \<and> checkpoint_interval pl > 0 \<and> int (pr_checkpoint st) < checkpoint_interval pl \<longrightarrow>
      int (pr_checkpoint st') < checkpoint_interval pl)"
  using assms
  by (auto simp: maybe_checkpoint_def resume_from_def cancel_pipeline_def Let_def
      split: if_splits sum.splits prod.splits)

lemma resume_from_keeps [simp]:
  "pr_result (resume_from env w0 st) = pr_result st" "pr_completed (resume_from env w0 st) = pr_completed st"
  "pr_checkpoint (resume_from env w0 st) = pr_checkpoint st"
  by (simp_all add: resume_from_def cancel_pipeline_def)

lemma run_elements_ok:
  assumes legal: "legal_env env"
  shows "loop_ok pl es st \<Longrightarrow> set es \<subseteq> set (elements pl) \<Longrightarrow> run_elements env pl tot es st = Some (en, st') \<Longrightarrow> ended_ok pl en st'"
proof (induction es arbitrary: st)
  case Nil
  then show ?case by (auto simp: loop_ok_def ended_ok_def some_failed_butlast)
next
  case (Cons e es)
  show ?case
  proof (cases "pr_cancelled st")
    case True
    with Cons.prems show ?thesis
      by (auto simp: loop_ok_def ended_ok_def set_wf_meta_def map_of_update some_failed_butlast)
  next
    case False
    obtain out ctx1 w1 where x: "execute_element env e (pr_ctx st) (pr_world st) = Some (out, ctx1, w1)"
      using Cons.prems(3) False by (auto split: option.splits prod.splits)
    let ?st1 = "resume_from env (pr_world st) (st\<lparr>pr_ctx := ctx1, pr_world := w1\<rparr>)"
    have ok1: "loop_ok pl (e # es) ?st1" using Cons.prems(1) by (simp add: loop_ok_def)
    show ?thesis
    proof (cases out)
      case (Inl y)
      with Cons.prems(3) False x ok1 show ?thesis
        by (auto simp: loop_ok_def ended_ok_def some_failed_butlast)
    next
      case (Inr rs)
      then have len: "length rs \<le> count_element e" using element_length(1) [OF legal] x by blast
      obtain o2 st2 where r: "record_step_results env pl tot rs ?st1 = (o2, st2)" by fastforce
      from record_step_results_spec [OF r] obtain rs1 rs2 where h: "rs = rs1 @ rs2" "recorded rs1 ?st1 st2"
        "pl_fail_fast pl \<longrightarrow> \<not> some_failed (butlast rs1)"
        "o2 = Inr False \<longrightarrow> rs2 = [] \<and> (pl_fail_fast pl \<longrightarrow> \<not> some_failed rs1)"
        "o2 = Inr True \<longrightarrow> pl_fail_fast pl \<and> some_failed rs1 \<and> pr_status st2 = PlFailed \<and> wf_end_time (pr_result st2) \<noteq> None"
        by blast
      have exact: "length rs = count_element e" if "list_all plain (elements pl)" "\<not> some_failed rs"
        using element_exact [OF legal _ x [unfolded Inr] that(2)] that(1) Cons.prems(2) by (auto simp: list_all_iff)
      have ended: "ended_ok pl (LoopThrew y) st2 \<and> (o2 = Inr True \<longrightarrow> ended_ok pl LoopFailedFast st2)" for y
        using ok1 h len by (auto simp: loop_ok_def ended_ok_def recorded_def butlast_append some_failed_butlast)
      show ?thesis
      proof (cases o2)
        case (Inl y)
        with Cons.prems(3) False x \<open>out = Inr rs\<close> r ended [of y] show ?thesis by auto
      next
        case (Inr b)
        show ?thesis
        proof (cases b)
          case True
          with Inr Cons.prems(3) False x \<open>out = Inr rs\<close> r ended show ?thesis by simp
        next
          case nob: False
          obtain o3 st3 where m: "maybe_checkpoint env pl (length rs) st2 = (o3, st3)" by fastforce
          note k = maybe_checkpoint_spec [OF m]
          show ?thesis
          proof (cases o3)
            case (Inl y)
            with ended [of y] k have "ended_ok pl (LoopThrew y) st3" by (simp add: ended_ok_def)
            with Inl nob Inr Cons.prems(3) False x \<open>out = Inr rs\<close> r m show ?thesis by simp
          next
            case (Inr u)
            have "loop_ok pl es st3"
              using ok1 h k len exact Inr \<open>o2 = Inr b\<close> nob by (auto simp: loop_ok_def recorded_def)
            moreover have "run_elements env pl tot es st3 = Some (en, st')"
              using Inr nob \<open>o2 = Inr b\<close> Cons.prems(3) False x \<open>out = Inr rs\<close> r m by simp
            ultimately show ?thesis using Cons.IH Cons.prems(2) by simp
          qed
        qed
      qed
    qed
  qed
qed

text \<open>The end of the method.\<close>

definition meta_has :: "workflow_result \<Rightarrow> string \<Rightarrow> bool" where
  "meta_has wr k \<longleftrightarrow> map_of (wf_metadata wr) k \<noteq> None"

lemmas run_ends = finish_loop_def settle_run_def complete_run_def fail_pipeline_def wf_mark_complete_def set_wf_meta_def Let_def

lemma finished_ok:
  assumes "ended_ok pl en st1" "finish_loop env (en, st1) = (Inr wr, st)"
  shows "steps_of wr = steps_of (pr_result st1) \<and> wf_end_time wr \<noteq> None \<and>
    (overall_status wr = SUCCESS \<and> pr_status st = PlSuccess \<and> \<not> some_failed (steps_of wr) \<and>
       wf_metadata wr = pl_metadata pl \<and> (list_all plain (elements pl) \<longrightarrow> length (steps_of wr) = total_steps pl) \<or>
     overall_status wr = FAILED \<and> pr_status st = PlFailed \<and>
       (some_failed (steps_of wr) \<or> meta_has wr ''cancelled'' \<or> meta_has wr ''error''))"
proof (cases en)
  case LoopDone
  with assms show ?thesis by (auto simp: ended_ok_def run_ends meta_has_def split: if_splits)
next
  case LoopFailedFast
  with assms show ?thesis by (auto simp: ended_ok_def run_ends)
next
  case (LoopThrew x)
  with assms show ?thesis by (auto simp: ended_ok_def run_ends meta_has_def map_of_update split: if_splits)
qed

lemma initial_ok: "loop_ok pl (elements pl) (initial_run pl ctx fs w)"
  by (simp add: loop_ok_def initial_run_def total_steps_def)

lemma execute_pipeline_ended:
  assumes "legal_env env" "execute_pipeline env pl ctx fs w = Some (Inr wr, st)"
  obtains en st1 where "ended_ok pl en st1" "finish_loop env (en, st1) = (Inr wr, st)"
proof -
  obtain en st1 where r: "run_elements env pl (total_steps pl) (elements pl) (initial_run pl ctx fs w) = Some (en, st1)"
    and f: "finish_loop env (en, st1) = (Inr wr, st)"
    using assms(2) by (auto simp: execute_pipeline_def Let_def split: if_splits)
  from run_elements_ok [OF assms(1) initial_ok _ r] f that show ?thesis by simp
qed


text \<open>A pipeline never records more steps than it has, and the progress it reports stays within
  that total. A fail-fast pipeline records nothing after the first failed step.\<close>

theorem pipeline_fail_fast:
  assumes "legal_env env" "execute_pipeline env pl ctx fs w = Some (Inr wr, st)"
  shows "length (steps_of wr) \<le> total_steps pl \<and> pr_completed st = length (steps_of wr) \<and>
    (pl_fail_fast pl \<longrightarrow> (\<forall>i. Suc i < length (steps_of wr) \<longrightarrow> \<not> is_failed (steps_of wr ! i)))"
proof -
  obtain en st1 where e: "ended_ok pl en st1" "finish_loop env (en, st1) = (Inr wr, st)"
    using execute_pipeline_ended [OF assms] .
  have "steps_of wr = steps_of (pr_result st1)" using finished_ok [OF e] by simp
  moreover have "pr_completed st = pr_completed st1"
    using e(2) by (auto simp: run_ends split: loop_end.splits if_splits)
  moreover have "\<not> is_failed (steps_of wr ! i)" if "\<not> some_failed (butlast (steps_of wr))" "Suc i < length (steps_of wr)" for i
    using that nth_mem [of i "butlast (steps_of wr)"] by (auto simp: some_failed_def nth_butlast)
  ultimately show ?thesis using e(1) by (auto simp: ended_ok_def)
qed

section \<open>Termination\<close>

text \<open>The steps that the executor runs one at a time.\<close>

fun single_steps :: "'w pipeline_element \<Rightarrow> 'w step_definition list" where
  "single_steps (ElemStep sd) = [sd]"
| "single_steps (ElemGroup g) = []"
| "single_steps (ElemBranch n c ts es) = concat (map single_steps ts) @ concat (map single_steps es)"

text \<open>The event loop delivers every task of a group.\<close>

definition delivers :: "'w pipe_env \<Rightarrow> bool" where
  "delivers env \<longleftrightarrow> (\<forall>g ctx w. {..<length (pg_steps g)} \<subseteq> fst ` set (concat (fst (wait_batches env g ctx w))))"

definition step_bounded :: "'w step_env \<Rightarrow> int \<Rightarrow> 'w step_definition \<Rightarrow> bool" where
  "step_bounded senv L sd \<longleftrightarrow>
     (\<forall>ctx m. resolve_loop_max senv sd ctx = Inr m \<longrightarrow> m \<le> L) \<and> 0 \<le> max_retries (retry sd)"

lemma step_alone_returns: "step_bounded senv L sd \<Longrightarrow> step_alone senv sd ctx w \<noteq> None"
proof -
  assume b: "step_bounded senv L sd"
  then have "attempt_loop senv sd 0 st \<noteq> None" for st
    using attempt_loop_returns [of senv sd L 0 st] unfolding step_bounded_def by auto
  then show ?thesis
    by (auto simp: step_alone_def execute_cases returned_def split: sum.splits prod.splits bool.splits)
qed

lemma gather_fail_fast_returns:
  "set ps \<subseteq> fst ` set (concat bs) \<Longrightarrow> gather_fail_fast ps bs acc \<noteq> None"
proof (induction ps bs acc rule: gather_fail_fast.induct)
  case (3 p ps b bs acc)
  let ?ps = "filter (\<lambda>i. i \<notin> fst ` set b) (p # ps)"
  have "set ?ps \<subseteq> fst ` set (concat bs)"
    using "3.prems" by (simp only: set_filter concat.simps set_append image_Un) blast
  then show ?case using "3.IH" by (auto split: sum.splits bool.splits simp del: filter.simps)
qed auto

lemma first_raised_none: "first_raised ts = None \<Longrightarrow> (i, x) \<in> set ts \<Longrightarrow> \<exists>r. x = Inr r"
  by (induction ts rule: first_raised.induct) auto

lemma results_in_order_returns:
  "first_raised ts = None \<Longrightarrow> set is \<subseteq> fst ` set ts \<Longrightarrow> results_in_order ts is \<noteq> None"
proof (induction "is")
  case (Cons i "is")
  then obtain x where "map_of ts i = Some x" by (auto dest: weak_map_of_SomeI)
  then show ?case using Cons first_raised_none [OF Cons.prems(1) map_of_SomeD] by fastforce
qed simp

lemma group_returns: "delivers env \<Longrightarrow> execute_parallel_group env g ctx w \<noteq> None"
proof -
  assume d: "delivers env"
  obtain bs ctx' w' where b: "wait_batches env g ctx w = (bs, ctx', w')" by (metis prod_cases3)
  with d have "{..<length (pg_steps g)} \<subseteq> fst ` set (concat bs)" unfolding delivers_def by (metis fst_conv)
  then have s: "set [0..<length (pg_steps g)] \<subseteq> fst ` set (concat bs)" by (simp only: set_upt lessThan_atLeast0)
  show ?thesis
    using gather_fail_fast_returns [OF s, of "[]"] results_in_order_returns [OF _ s]
    by (auto simp: execute_parallel_group_def b gather_all_def split: option.splits)
qed

text \<open>What the executor needs of its step runner: it returns for the steps that are \<open>ok\<close>.\<close>

locale step_runner =
  fixes runner :: "'w step_definition \<Rightarrow> exec_context \<Rightarrow> 'w \<Rightarrow> ((raised + step_result) \<times> exec_context \<times> 'w) option"
    and ok :: "'w step_definition \<Rightarrow> bool"
  assumes runner_returns: "ok sd \<Longrightarrow> runner sd ctx w \<noteq> None"
begin

lemma element_returns:
  "delivers env \<Longrightarrow> run_step env = runner \<Longrightarrow> \<forall>sd\<in>set (single_steps e). ok sd \<Longrightarrow>
     execute_element env e ctx w \<noteq> None"
  "delivers env \<Longrightarrow> run_step env = runner \<Longrightarrow> \<forall>e\<in>set es. \<forall>sd\<in>set (single_steps e). ok sd \<Longrightarrow>
     execute_branch_steps env es acc ctx w \<noteq> None"
proof (induction env e ctx w and env es acc ctx w rule: execute_element_execute_branch_steps.induct)
  case (1 env sd ctx w)
  then show ?case using runner_returns [of sd ctx w] by simp
next
  case (2 env g ctx w)
  then show ?case using group_returns by simp
next
  case (3 env n c ts es ctx w)
  show ?case
  proof (cases "c ctx")
    case (Inr b)
    have "\<forall>e\<in>set ts. \<forall>sd\<in>set (single_steps e). ok sd"
      "\<forall>e\<in>set es. \<forall>sd\<in>set (single_steps e). ok sd" using 3(5) by auto
    with 3(1) [OF Inr _ 3(3, 4)] 3(2) [OF Inr _ 3(3, 4)] Inr show ?thesis by (cases b) simp_all
  qed simp
next
  case (5 env e es acc ctx w)
  then obtain out ctx1 w1 where x: "execute_element env e ctx w = Some (out, ctx1, w1)" by (metis list.set_intros(1) not_None_eq prod_cases3)
  show ?case
  proof (cases out)
    case (Inr rs)
    then show ?thesis using x 5(2) [OF x refl Inr refl] 5(3-5) by (cases "list_ex is_failed rs") auto
  qed (use x in simp)
qed simp

lemma run_elements_returns:
  "delivers env \<Longrightarrow> run_step env = runner \<Longrightarrow>
    \<forall>e\<in>set es. \<forall>sd\<in>set (single_steps e). ok sd \<Longrightarrow> run_elements env pl tot es st \<noteq> None"
proof (induction es arbitrary: st)
  case (Cons e es)
  obtain out ctx1 w1 where x: "execute_element env e (pr_ctx st) (pr_world st) = Some (out, ctx1, w1)"
    using element_returns(1) [OF Cons.prems(1, 2), of e] Cons.prems(3) by (metis list.set_intros(1) not_None_eq prod_cases3)
  have "run_elements env pl tot es st3 \<noteq> None" for st3 using Cons by simp
  then show ?case using x by (auto simp: Let_def split: sum.splits prod.splits bool.splits)
qed simp

end

interpretation alone: step_runner "step_alone senv" "step_bounded senv L" for senv L
  by unfold_locales (rule step_alone_returns)

text \<open>C29. A pipeline run returns: the executor that runs each step with \<open>StepExecutor.execute\<close> reaches
  the end of the method, with a result or an exception, when no refinement loop of a step is
  unbounded and the event loop delivers the tasks of every parallel group.\<close>

theorem pipeline_returns:
  assumes "delivers env" "run_step env = step_alone senv"
    and "\<forall>e\<in>set (elements pl). \<forall>sd\<in>set (single_steps e). step_bounded senv L sd"
  shows "\<exists>out st. execute_pipeline env pl ctx fs w = Some (out, st)"
proof -
  obtain out where "run_elements env pl (total_steps pl) (elements pl) (initial_run pl ctx fs w) = Some out"
    using alone.run_elements_returns [OF assms] by blast
  then show ?thesis by (cases "finish_loop env out") (simp add: execute_pipeline_def Let_def)
qed

section \<open>Examples\<close>

text \<open>A step that needs two retries, then a group of two.\<close>

definition sample_pipe_env :: "nat pipe_env" where
  "sample_pipe_env =
     \<lparr>run_step = step_alone sample_env,
      wait_batches = (\<lambda>g ctx w. ([map (\<lambda>i. (i, Inr (new_step_result ''g'' SUCCESS 0))) [0..<length (pg_steps g)]], ctx, w)),
      cancel_during = (\<lambda>_ _. False), progress_callback = None, pe_digest = (\<lambda>_. None), pe_fates = (\<lambda>_. HandlerReturns),
      pe_stamp = (\<lambda>_. []), pe_now = (\<lambda>_. 0), pe_validation_text = []\<rparr>"

definition sample_pipeline :: "nat pipeline" where
  "sample_pipeline =
     (new_pipeline ''p'' [])\<lparr>elements :=
        [ElemStep (sample_step flaky),
         ElemGroup \<lparr>pg_name = ''g'', pg_steps = [sample_step flaky, sample_step flaky], pg_fail_fast = True,
           pg_max_concurrency = None\<rparr>]\<rparr>"

lemma sample_pipe_legal: "legal_env sample_pipe_env" "delivers sample_pipe_env"
  by (auto simp: legal_env_def delivers_def legal_batches_def sample_pipe_env_def comp_def image_image)

definition pipeline_summary ::
  "((exn + workflow_result) \<times> 'w pipe_run) option \<Rightarrow> (step_status \<times> pipeline_status \<times> step_status list) option" where
  "pipeline_summary out =
     (case out of Some (Inr wr, st) \<Rightarrow> Some (overall_status wr, pr_status st, map status (steps_of wr)) | _ \<Rightarrow> None)"

lemma sample_pipeline_run:
  "pipeline_summary (execute_pipeline sample_pipe_env sample_pipeline [sample_frame] [] 0) =
     Some (SUCCESS, PlSuccess, [SUCCESS, SUCCESS, SUCCESS])"
  by code_simp

lemma sample_pipeline_result:
  obtains wr st where "execute_pipeline sample_pipe_env sample_pipeline [sample_frame] [] 0 = Some (Inr wr, st)"
    "overall_status wr = SUCCESS" "map status (steps_of wr) = [SUCCESS, SUCCESS, SUCCESS]"
  using sample_pipeline_run by (auto simp: pipeline_summary_def split: option.splits sum.splits prod.splits)


theorem pipeline_fail_fast_witness:
  "\<exists>wr st. execute_pipeline sample_pipe_env sample_pipeline [sample_frame] [] 0 = Some (Inr wr, st) \<and>
     length (steps_of wr) \<le> 3 \<and> pr_completed st = 3 \<and> \<not> is_failed (steps_of wr ! 1)"
proof -
  obtain wr st where x: "execute_pipeline sample_pipe_env sample_pipeline [sample_frame] [] 0 = Some (Inr wr, st)"
    "map status (steps_of wr) = [SUCCESS, SUCCESS, SUCCESS]" using sample_pipeline_result .
  have "length (steps_of wr) = 3" using arg_cong [OF x(2), of length] by simp
  moreover have "pl_fail_fast sample_pipeline" "total_steps sample_pipeline = 3"
    by (simp_all add: sample_pipeline_def new_pipeline_def total_steps_def)
  ultimately show ?thesis using pipeline_fail_fast [OF sample_pipe_legal(1) x(1)] x(1) by auto
qed

theorem pipeline_returns_witness:
  "\<exists>out st. execute_pipeline sample_pipe_env sample_pipeline [sample_frame] [] 0 = Some (out, st)"
proof -
  have "step_bounded sample_env 3 (sample_step flaky)"
    using static_loop_max [of "sample_step flaky" sample_env]
    by (simp add: step_bounded_def sample_step_def new_step_def default_retry_def)
  then show ?thesis
    by (intro pipeline_returns [OF sample_pipe_legal(2), of sample_env _ 3])
      (simp_all add: sample_pipe_env_def sample_pipeline_def)
qed

text \<open>The pipeline does not fail fast, yet a failure inside a branch ends the branch: of its two steps
  only the failed one is recorded.\<close>

definition first_fails :: "nat step_definition \<Rightarrow> exec_context \<Rightarrow> nat \<Rightarrow> ((raised + step_result) \<times> exec_context \<times> nat) option" where
  "first_fails sd ctx w = Some (Inr (new_step_result (sd_name sd) (if w = 0 then FAILED else SUCCESS) 0), ctx, Suc w)"

lemma branch_stops_on_failure:
  "pipeline_summary (execute_pipeline (sample_pipe_env\<lparr>run_step := first_fails\<rparr>)
       ((new_pipeline ''p'' [])\<lparr>pl_fail_fast := False,
          elements := [ElemBranch ''b'' (\<lambda>_. Inr True) [ElemStep (sample_step broken), ElemStep (sample_step flaky)] [],
            ElemStep (sample_step flaky)]\<rparr>) [sample_frame] [] 0) =
   Some (FAILED, PlFailed, [FAILED, SUCCESS])"
  by code_simp

text \<open>A cancelled pipeline ends with the status failed, not cancelled.\<close>

lemma cancelled_status_lost:
  "pipeline_summary (execute_pipeline (sample_pipe_env\<lparr>cancel_during := \<lambda>_ _. True\<rparr>) sample_pipeline [sample_frame] [] 0) =
     Some (FAILED, PlFailed, [SUCCESS])"
  by code_simp

end
