(* ===== verification/Audit_Log.thy ===== *)
theory Audit_Log
  imports Exec_Context "HOL-Library.Char_ord" "HOL-Library.List_Lexorder"
begin

text \<open>
  The tamper-evident audit log, \<open>server/audit_log.py\<close>: records linked by a hash chain, the logger, the
  three stores and the verification of a chain. The hash of a canonical value (SHA-256 of its compact
  JSON text) is a parameter \<open>sha\<close>; the canonical value has sorted keys and lists for tuples, as
  \<open>json.dumps(..., sort_keys=True)\<close> writes it and \<open>json.loads\<close> reads it back. Identifiers and times are
  part of the event.
\<close>

section \<open>Canonical values\<close>

text \<open>What \<open>json.dumps\<close> accepts without a default.\<close>

fun dumpable :: "pyval \<Rightarrow> bool" where
  "dumpable (PList xs) = list_all dumpable xs"
| "dumpable (PTuple xs) = list_all dumpable xs"
| "dumpable (PDict d) = list_all (\<lambda>kv. dumpable (snd kv)) d"
| "dumpable (PDatetime t) = False"
| "dumpable (PPath p) = False"
| "dumpable (PObject s) = False"
| "dumpable v = True"

fun json_safe :: "pyval \<Rightarrow> pyval" where
  "json_safe (PDict d) = (if dumpable (PDict d) then PDict d else PDict (map (\<lambda>kv. (fst kv, json_safe (snd kv))) d))"
| "json_safe (PList xs) = (if dumpable (PList xs) then PList xs else PList (map json_safe xs))"
| "json_safe (PTuple xs) = (if dumpable (PTuple xs) then PTuple xs else PList (map json_safe xs))"
| "json_safe (PDatetime t) = PStr t"
| "json_safe (PPath p) = PStr p"
| "json_safe (PObject s) = PStr s"
| "json_safe v = v"

fun canonical :: "pyval \<Rightarrow> pyval" where
  "canonical (PDict d) = PDict (sort_key fst (map (\<lambda>kv. (fst kv, canonical (snd kv))) d))"
| "canonical (PList xs) = PList (map canonical xs)"
| "canonical (PTuple xs) = PList (map canonical xs)"
| "canonical v = v"

definition stored_form :: "pydict \<Rightarrow> pydict" where
  "stored_form d = sort_key fst (map (\<lambda>kv. (fst kv, canonical (snd kv))) d)"

definition audit_payload :: "pydict \<Rightarrow> pyval" where
  "audit_payload r = canonical (PDict (filter (\<lambda>kv. fst kv \<noteq> ''hash'') r))"

definition compute_audit_hash :: "(pyval \<Rightarrow> string) \<Rightarrow> pydict \<Rightarrow> string" where
  "compute_audit_hash sha r = sha (audit_payload r)"

definition genesis_hash :: string where
  "genesis_hash = replicate 64 (CHR ''0'')"

text \<open>A record that passes has a text as its hash, so \<open>str(record["hash"])\<close> is that text.\<close>

fun verify_from :: "(pyval \<Rightarrow> string) \<Rightarrow> string \<Rightarrow> pydict list \<Rightarrow> bool" where
  "verify_from sha expected [] = True"
| "verify_from sha expected (r # rs) =
     (map_of r ''prev_hash'' = Some (PStr expected) \<and>
      map_of r ''hash'' = Some (PStr (compute_audit_hash sha r)) \<and>
      verify_from sha (compute_audit_hash sha r) rs)"

definition verify_audit_chain :: "(pyval \<Rightarrow> string) \<Rightarrow> pydict list \<Rightarrow> bool" where
  "verify_audit_chain sha rs = verify_from sha genesis_hash rs"

section \<open>Records\<close>

record audit_event =
  ae_id :: string
  ae_timestamp :: string
  ae_type :: string
  ae_outcome :: string
  ae_actor :: "pydict option"
  ae_target :: "pydict option"
  ae_tenant :: "string option"
  ae_run :: "string option"
  ae_request :: "string option"
  ae_metadata :: "pydict option"

definition optional_text :: "string option \<Rightarrow> pyval" where
  "optional_text x = (case x of None \<Rightarrow> PNone | Some s \<Rightarrow> PStr s)"

definition optional_dict :: "pydict option \<Rightarrow> pyval" where
  "optional_dict x = json_safe (PDict (case x of None \<Rightarrow> [] | Some d \<Rightarrow> d))"

definition record_body :: "audit_event \<Rightarrow> string \<Rightarrow> pydict" where
  "record_body e prev =
     [(''schema_version'', PStr ''audit.v1''), (''id'', PStr (ae_id e)), (''timestamp'', PStr (ae_timestamp e)),
      (''event_type'', PStr (ae_type e)), (''outcome'', PStr (ae_outcome e)), (''actor'', optional_dict (ae_actor e)),
      (''target'', optional_dict (ae_target e)), (''tenant_id'', optional_text (ae_tenant e)),
      (''run_id'', optional_text (ae_run e)), (''request_id'', optional_text (ae_request e)),
      (''metadata'', optional_dict (ae_metadata e)), (''prev_hash'', PStr prev)]"

definition build_record :: "(pyval \<Rightarrow> string) \<Rightarrow> audit_event \<Rightarrow> string \<Rightarrow> pydict" where
  "build_record sha e prev =
     record_body e prev @ [(''hash'', PStr (compute_audit_hash sha (record_body e prev)))]"

definition record_hash :: "pydict \<Rightarrow> string" where
  "record_hash r = (case map_of r ''hash'' of Some (PStr h) \<Rightarrow> h | _ \<Rightarrow> [])"

section \<open>The logger\<close>

text \<open>A store is its state with \<open>append\<close>, which ends or raises, and \<open>get_last_hash\<close>.\<close>

datatype append_result = Appended | AppendRaised

record 's audit_logger =
  al_store :: 's
  al_enabled :: bool
  al_last :: "string option"

definition audit ::
  "(pyval \<Rightarrow> string) \<Rightarrow> (pydict \<Rightarrow> 's \<Rightarrow> append_result \<times> 's) \<Rightarrow> ('s \<Rightarrow> string option \<times> 's) \<Rightarrow> audit_event \<Rightarrow>
    's audit_logger \<Rightarrow> pydict option \<times> 's audit_logger" where
  "audit sha put get_last_hash e lg =
     (let (prev, s0) = (case al_last lg of
                    Some h \<Rightarrow> (h, al_store lg)
                  | None \<Rightarrow> (case get_last_hash (al_store lg) of
                              (None, s) \<Rightarrow> (genesis_hash, s)
                            | (Some h, s) \<Rightarrow> (if h = [] then genesis_hash else h, s)));
          r = build_record sha e prev;
          lg1 = lg\<lparr>al_store := s0, al_last := Some prev\<rparr>
      in if al_enabled lg
         then (case put r s0 of
                 (Appended, s) \<Rightarrow> (Some r, lg1\<lparr>al_store := s, al_last := Some (record_hash r)\<rparr>)
               | (AppendRaised, s) \<Rightarrow> (None, lg1\<lparr>al_store := s\<rparr>))
         else (Some r, lg1\<lparr>al_last := Some (record_hash r)\<rparr>))"

section \<open>Stores\<close>

definition null_append :: "pydict \<Rightarrow> unit \<Rightarrow> append_result \<times> unit" where
  "null_append r s = (Appended, s)"

definition null_last_hash :: "unit \<Rightarrow> string option \<times> unit" where
  "null_last_hash s = (None, s)"

text \<open>The lines of the file: a record, a blank line or text that is no JSON. A write ends, fails
  without effect, or takes effect and then fails (in \<open>fsync\<close> or \<open>close\<close>); torn writes are left out.\<close>

datatype audit_line = RecordLine pydict | BlankLine | JunkLine

datatype write_fate = WriteDone | WriteFailed | WriteDoneThenFailed

definition file_append :: "write_fate \<Rightarrow> pydict \<Rightarrow> audit_line list \<Rightarrow> append_result \<times> audit_line list" where
  "file_append fate r ls =
     (case fate of
        WriteDone \<Rightarrow> (Appended, ls @ [RecordLine (stored_form r)])
      | WriteFailed \<Rightarrow> (AppendRaised, ls)
      | WriteDoneThenFailed \<Rightarrow> (AppendRaised, ls @ [RecordLine (stored_form r)]))"

definition file_last_hash :: "audit_line list \<Rightarrow> string option \<times> audit_line list" where
  "file_last_hash ls =
     (case filter (\<lambda>l. l \<noteq> BlankLine) ls of
        [] \<Rightarrow> None
      | xs \<Rightarrow>
          (case last xs of
             RecordLine r \<Rightarrow> (case map_of r ''hash'' of Some (PStr h) \<Rightarrow> if h = [] then None else Some h | _ \<Rightarrow> None)
           | _ \<Rightarrow> None), ls)"

fun file_records :: "audit_line list \<Rightarrow> pydict list" where
  "file_records [] = []"
| "file_records (RecordLine r # ls) = r # file_records ls"
| "file_records (_ # ls) = file_records ls"

text \<open>The stream: whether the client is connected, the bound on its length, and its entries. Trimming is
  approximate: how many of the oldest entries go is a parameter. A failing command is answered with an
  empty identifier, not with an exception.\<close>

record redis_audit =
  ra_connected :: bool
  ra_stream :: "pydict list"

datatype xadd_fate = XaddDone nat | XaddFailed bool

definition redis_append :: "xadd_fate \<Rightarrow> pydict \<Rightarrow> redis_audit \<Rightarrow> append_result \<times> redis_audit" where
  "redis_append fate r s =
     (if \<not> ra_connected s then (Appended, s)
      else case fate of
             XaddDone trimmed \<Rightarrow> (Appended, s\<lparr>ra_stream := drop trimmed (ra_stream s @ [stored_form r])\<rparr>)
           | XaddFailed connection \<Rightarrow> (Appended, if connection then s\<lparr>ra_connected := False\<rparr> else s))"

definition redis_last_hash :: "xadd_fate \<Rightarrow> redis_audit \<Rightarrow> string option \<times> redis_audit" where
  "redis_last_hash fate s =
     (if \<not> ra_connected s then (None, s)
      else case fate of
             XaddFailed connection \<Rightarrow> (None, if connection then s\<lparr>ra_connected := False\<rparr> else s)
           | XaddDone _ \<Rightarrow> (if ra_stream s = [] then None else Some (record_hash (last (ra_stream s))), s))"

text \<open>\<open>build_audit_logger\<close>: the backend of the settings, with the file as fallback.\<close>

datatype audit_backend = NullBackend | FileBackend | RedisBackend

definition choose_backend :: "bool \<Rightarrow> string \<Rightarrow> bool \<Rightarrow> bool \<Rightarrow> audit_backend" where
  "choose_backend enabled backend has_url connects =
     (if \<not> enabled then NullBackend
      else if lower (strip backend) = ''redis'' \<and> has_url \<and> connects then RedisBackend
      else FileBackend)"

text \<open>\<open>audit_request_event\<close>: failures of the logger never reach the request.\<close>

definition request_metadata :: "pyval \<Rightarrow> pydict option \<Rightarrow> pydict" where
  "request_metadata client_ip md =
     fold (\<lambda>(k, v). AList.update k v) (case md of None \<Rightarrow> [] | Some d \<Rightarrow> d) [(''client_ip'', client_ip)]"

definition request_id_of :: "string option \<Rightarrow> string option \<Rightarrow> string option" where
  "request_id_of x_request_id traceparent =
     (case x_request_id of Some s \<Rightarrow> if s = [] then traceparent else Some s | None \<Rightarrow> traceparent)"

definition audit_request_event ::
  "(pyval \<Rightarrow> string) \<Rightarrow> (pydict \<Rightarrow> 's \<Rightarrow> append_result \<times> 's) \<Rightarrow> ('s \<Rightarrow> string option \<times> 's) \<Rightarrow> audit_event \<Rightarrow> pyval \<Rightarrow>
    string option \<Rightarrow> string option \<Rightarrow> 's audit_logger option \<Rightarrow> 's audit_logger option" where
  "audit_request_event sha put get_last_hash e client_ip x_request_id traceparent lg =
     map_option (\<lambda>l. snd (audit sha put get_last_hash
        (e\<lparr>ae_request := request_id_of x_request_id traceparent,
           ae_metadata := Some (request_metadata client_ip (ae_metadata e))\<rparr>) l)) lg"

section \<open>Canonical forms\<close>

lemma map_insort_key:
  "(\<And>y. fst (h y) = fst y) \<Longrightarrow> map h (insort_key fst x xs) = insort_key fst (h x) (map h xs)"
  by (induction xs) auto

lemma map_sort_key: "(\<And>y. fst (h y) = fst y) \<Longrightarrow> map h (sort_key fst xs) = sort_key fst (map h xs)"
  by (induction xs) (auto simp: map_insort_key)

lemma sort_key_idem [simp]: "sort_key fst (sort_key fst xs) = sort_key fst xs"
  by (simp add: sort_key_id_if_sorted)

lemma canonical_idem [simp]: "canonical (canonical v) = canonical v"
proof (induction v rule: canonical.induct)
  case (1 d)
  let ?f = "\<lambda>kv. (fst kv, canonical (snd kv))"
  have "map ?f (map ?f d) = map ?f d" using 1 by auto
  then show ?case by (simp add: map_sort_key del: map_map)
qed auto

lemma payload_stored [simp]: "audit_payload (stored_form r) = audit_payload r"
proof -
  let ?f = "\<lambda>kv. (fst kv, canonical (snd kv))"
  have "map ?f (filter P (sort_key fst (map ?f r))) = sort_key fst (map ?f (filter P r))"
    if "P = (\<lambda>kv. fst kv \<noteq> ''hash'')" for P
  proof -
    have "map ?f (filter P (sort_key fst (map ?f r))) = sort_key fst (map ?f (filter P (map ?f r)))"
      by (simp add: filter_sort map_sort_key)
    also have "map ?f (filter P (map ?f r)) = map ?f (filter P r)"
      using that by (induction r) auto
    finally show ?thesis .
  qed
  then show ?thesis by (simp add: audit_payload_def stored_form_def)
qed

lemma hash_stored [simp]: "compute_audit_hash sha (stored_form r) = compute_audit_hash sha r"
  by (simp add: compute_audit_hash_def)

lemma map_of_stored:
  assumes "distinct (map fst r)"
  shows "map_of (stored_form r) k = map_option canonical (map_of r k)"
proof -
  let ?f = "\<lambda>kv. (fst kv, canonical (snd kv))"
  have d: "distinct (map fst (map ?f r))" using assms by (simp add: comp_def)
  then have "distinct (map fst (sort_key fst (map ?f r)))"
    by (simp add: distinct_map del: map_map)
  with d have "map_of (stored_form r) = map_of (map ?f r)"
    unfolding stored_form_def by (subst map_of_inject_set) simp_all
  moreover have "map_of (map ?f r) k = map_option canonical (map_of r k)" by (induction r) auto
  ultimately show ?thesis by simp
qed

section \<open>The chain\<close>

definition head_hash :: "(pyval \<Rightarrow> string) \<Rightarrow> string \<Rightarrow> pydict list \<Rightarrow> string" where
  "head_hash sha start rs = (if rs = [] then start else compute_audit_hash sha (last rs))"

lemma verify_from_snoc:
  "verify_from sha start (rs @ [r]) \<longleftrightarrow>
     verify_from sha start rs \<and> map_of r ''prev_hash'' = Some (PStr (head_hash sha start rs)) \<and>
     map_of r ''hash'' = Some (PStr (compute_audit_hash sha r))"
  by (induction rs arbitrary: start) (auto simp: head_hash_def)

lemma build_record_fields:
  "distinct (map fst (build_record sha e prev))"
  "map_of (build_record sha e prev) ''prev_hash'' = Some (PStr prev)"
  "map_of (build_record sha e prev) ''hash'' = Some (PStr (compute_audit_hash sha (build_record sha e prev)))"
  by (simp_all add: build_record_def record_body_def compute_audit_hash_def audit_payload_def)

lemma record_hash_built [simp]: "record_hash (build_record sha e prev) = compute_audit_hash sha (build_record sha e prev)"
  by (simp add: record_hash_def build_record_fields)

lemma stored_fields:
  "map_of (stored_form (build_record sha e prev)) ''prev_hash'' = Some (PStr prev)"
  "map_of (stored_form (build_record sha e prev)) ''hash'' = Some (PStr (compute_audit_hash sha (build_record sha e prev)))"
  by (simp_all add: map_of_stored build_record_fields)

text \<open>
  What the logger needs of its store: \<open>records\<close> is what can be read back, an append that ends adds the
  record at the end, one that raises adds nothing, and the last hash is that of the last record.
\<close>

locale durable_store =
  fixes records :: "'s \<Rightarrow> pydict list"
    and put :: "pydict \<Rightarrow> 's \<Rightarrow> append_result \<times> 's"
    and get_last_hash :: "'s \<Rightarrow> string option \<times> 's"
    and good :: "'s \<Rightarrow> bool"
  assumes put_appended: "good s \<Longrightarrow> put r s = (Appended, s') \<Longrightarrow> records s' = records s @ [stored_form r] \<and> good s'"
    and put_raised: "good s \<Longrightarrow> put r s = (AppendRaised, s') \<Longrightarrow> records s' = records s \<and> good s'"
    and last_hash: "good s \<Longrightarrow> get_last_hash s = (x, s') \<Longrightarrow>
      records s' = records s \<and> good s' \<and>
      (if records s = [] then x = None else \<forall>h. map_of (last (records s)) ''hash'' = Some (PStr h) \<and> h \<noteq> [] \<longrightarrow> x = Some h)"
begin

definition chained :: "(pyval \<Rightarrow> string) \<Rightarrow> 's audit_logger \<Rightarrow> bool" where
  "chained sha lg \<longleftrightarrow>
     good (al_store lg) \<and> al_enabled lg \<and> verify_audit_chain sha (records (al_store lg)) \<and>
     (al_last lg = None \<or> al_last lg = Some (head_hash sha genesis_hash (records (al_store lg))))"

lemma verified_last:
  "verify_audit_chain sha rs \<Longrightarrow> rs \<noteq> [] \<Longrightarrow> map_of (last rs) ''hash'' = Some (PStr (compute_audit_hash sha (last rs)))"
  by (induction rs rule: rev_induct) (auto simp: verify_audit_chain_def verify_from_snoc)

lemma audit_chained:
  assumes "chained sha lg" "audit sha put get_last_hash e lg = (res, lg')" "\<And>v. sha v \<noteq> []"
  shows "chained sha lg' \<and>
    records (al_store lg') = records (al_store lg) @ (case res of None \<Rightarrow> [] | Some r \<Rightarrow> [stored_form r])"
proof -
  let ?rs = "records (al_store lg)"
  obtain prev s0 where p: "(case al_last lg of Some h \<Rightarrow> (h, al_store lg)
      | None \<Rightarrow> (case get_last_hash (al_store lg) of (None, s) \<Rightarrow> (genesis_hash, s)
                 | (Some h, s) \<Rightarrow> (if h = [] then genesis_hash else h, s))) = (prev, s0)" by fastforce
  have ok: "good s0 \<and> records s0 = ?rs \<and> prev = head_hash sha genesis_hash ?rs"
  proof (cases "al_last lg")
    case None
    obtain x s where x: "get_last_hash (al_store lg) = (x, s)" by fastforce
    have g: "good (al_store lg)" "verify_audit_chain sha ?rs" using assms(1) by (simp_all add: chained_def)
    note lh = last_hash [OF g(1) x]
    have keep: "records s = ?rs" "good s" using lh by simp_all
    show ?thesis
    proof (cases "?rs = []")
      case True
      then have "x = None" using lh by simp
      with p None x have "prev = genesis_hash" "s0 = s" by simp_all
      then show ?thesis using keep True by (simp add: head_hash_def)
    next
      case False
      have h: "compute_audit_hash sha (last ?rs) \<noteq> []" unfolding compute_audit_hash_def by (rule assms(3))
      have "x = Some (compute_audit_hash sha (last ?rs))"
        using lh verified_last [OF g(2) False] False h by metis
      with p None x h have "prev = compute_audit_hash sha (last ?rs)" "s0 = s" by simp_all
      then show ?thesis using keep False by (simp add: head_hash_def)
    qed
  next
    case (Some h)
    with p assms(1) show ?thesis by (auto simp: chained_def)
  qed
  have enabled: "al_enabled lg" using assms(1) by (simp add: chained_def)
  let ?r = "build_record sha e prev"
  obtain a s1 where a: "put ?r s0 = (a, s1)" by fastforce
  show ?thesis
  proof (cases a)
    case Appended
    with put_appended ok a have s1: "good s1" "records s1 = ?rs @ [stored_form ?r]" by auto
    have "verify_audit_chain sha (records s1) \<and> head_hash sha genesis_hash (records s1) = compute_audit_hash sha ?r"
      using assms(1) ok s1(2) by (simp add: chained_def verify_audit_chain_def verify_from_snoc stored_fields head_hash_def)
    moreover have "audit sha put get_last_hash e lg =
        (Some ?r, lg\<lparr>al_store := s1, al_last := Some (compute_audit_hash sha ?r)\<rparr>)"
      unfolding audit_def Let_def p using a Appended enabled by simp
    ultimately show ?thesis using s1 assms(2) enabled by (auto simp: chained_def)
  next
    case AppendRaised
    with put_raised ok a have "good s1" "records s1 = ?rs" by auto
    moreover have "audit sha put get_last_hash e lg = (None, lg\<lparr>al_store := s1, al_last := Some prev\<rparr>)"
      unfolding audit_def Let_def p using a AppendRaised enabled by simp
    ultimately show ?thesis using assms(1, 2) ok enabled by (auto simp: chained_def)
  qed
qed

end

text \<open>A file of records, where a write ends or fails without effect; a stream that is reachable and not
  trimmed.\<close>

definition records_only :: "audit_line list \<Rightarrow> bool" where
  "records_only ls \<longleftrightarrow> list_all (\<lambda>l. case l of RecordLine _ \<Rightarrow> True | _ \<Rightarrow> False) ls"

lemma records_only_map: "records_only ls \<longleftrightarrow> ls = map RecordLine (file_records ls)"
  by (induction ls rule: file_records.induct) (auto simp: records_only_def)

lemma file_records_append: "file_records (ls @ ms) = file_records ls @ file_records ms"
  by (induction ls rule: file_records.induct) auto

lemma file_last_hash_records:
  assumes "records_only ls"
  shows "fst (file_last_hash ls) =
    (if file_records ls = [] then None
     else case map_of (last (file_records ls)) ''hash'' of Some (PStr h) \<Rightarrow> if h = [] then None else Some h | _ \<Rightarrow> None)"
proof -
  have f: "filter (\<lambda>l. l \<noteq> BlankLine) (map RecordLine rs) = map RecordLine rs" for rs by (induction rs) auto
  obtain rs where "ls = map RecordLine rs" using assms by (auto simp: records_only_map)
  moreover have "file_records (map RecordLine rs) = rs" for rs by (induction rs) auto
  ultimately show ?thesis by (cases rs) (simp_all add: file_last_hash_def f last_map split: list.split)
qed

definition file_put :: "bool \<Rightarrow> pydict \<Rightarrow> audit_line list \<Rightarrow> append_result \<times> audit_line list" where
  "file_put ok = file_append (if ok then WriteDone else WriteFailed)"

lemma file_last_hash_law:
  assumes "records_only s" "file_last_hash s = (x, s')"
  shows "file_records s' = file_records s \<and> records_only s' \<and>
    (if file_records s = [] then x = None
     else \<forall>h. map_of (last (file_records s)) ''hash'' = Some (PStr h) \<and> h \<noteq> [] \<longrightarrow> x = Some h)"
proof -
  have "x = fst (file_last_hash s)" using assms(2) by simp
  moreover have "s' = s" using arg_cong [OF assms(2), of snd] by (simp add: file_last_hash_def)
  ultimately have "s' = s" "x = fst (file_last_hash s)" by simp_all
  then show ?thesis using assms(1) file_last_hash_records [OF assms(1)] by simp
qed

interpretation file_log: durable_store file_records "file_put ok" file_last_hash records_only for ok
proof unfold_locales
  show "file_records s' = file_records s @ [stored_form r] \<and> records_only s'"
    if "records_only s" "file_put ok r s = (Appended, s')" for s r s'
    using that by (cases ok) (auto simp: file_put_def file_append_def file_records_append records_only_def)
  show "file_records s' = file_records s \<and> records_only s'"
    if "records_only s" "file_put ok r s = (AppendRaised, s')" for s r s'
    using that by (cases ok) (auto simp: file_put_def file_append_def)
qed (rule file_last_hash_law)

interpretation stream_log: durable_store ra_stream "redis_append (XaddDone 0)" "redis_last_hash (XaddDone 0)" ra_connected
  by unfold_locales (auto simp: redis_append_def redis_last_hash_def record_hash_def)

section \<open>Claims\<close>

text \<open>The life of a file log: events that are written or whose write fails, and restarts of the process.\<close>

inductive file_log_step :: "(pyval \<Rightarrow> string) \<Rightarrow> audit_line list audit_logger \<Rightarrow> audit_line list audit_logger \<Rightarrow> bool"
  for sha where
  logs: "audit sha (file_put ok) file_last_hash e lg = (res, lg') \<Longrightarrow> file_log_step sha lg lg'"
| restarts: "file_log_step sha lg (lg\<lparr>al_last := None\<rparr>)"

definition fresh_log :: "audit_line list audit_logger" where
  "fresh_log = \<lparr>al_store = [], al_enabled = True, al_last = None\<rparr>"

lemma fresh_chained: "file_log.chained sha fresh_log"
  by (simp add: file_log.chained_def fresh_log_def records_only_def verify_audit_chain_def)

lemma file_log_chained:
  assumes "(file_log_step sha)\<^sup>*\<^sup>* fresh_log lg" "\<And>v. sha v \<noteq> []"
  shows "file_log.chained sha lg"
  using assms(1)
proof (induction rule: rtranclp_induct)
  case base
  show ?case by (rule fresh_chained)
next
  case (step lg1 lg2)
  from step(2, 3) show ?case
  proof (cases rule: file_log_step.cases)
    case (logs ok e res)
    then show ?thesis using file_log.audit_chained [OF step(3) _ assms(2)] by blast
  next
    case restarts
    then show ?thesis using step(3) by (simp add: file_log.chained_def)
  qed
qed


lemma payload_prev:
  assumes "distinct (map fst r)" "map_of r ''prev_hash'' = Some (PStr h)"
  shows "\<exists>d. audit_payload r = PDict d \<and> map_of d ''prev_hash'' = Some (PStr h)"
proof -
  let ?r = "filter (\<lambda>kv. fst kv \<noteq> ''hash'') r"
  have "distinct (map fst ?r)" using assms(1) by (rule distinct_map_filter)
  moreover have "map_of ?r ''prev_hash'' = Some (PStr h)" using assms(2) by (induction r) (auto split: if_splits)
  ultimately have "map_of (stored_form ?r) ''prev_hash'' = Some (PStr h)" by (simp add: map_of_stored)
  moreover have "audit_payload r = PDict (stored_form ?r)" by (simp add: audit_payload_def stored_form_def)
  ultimately show ?thesis by blast
qed

lemma chains_equal:
  "\<lbrakk>head_hash sha genesis_hash xs = head_hash sha genesis_hash ys; verify_audit_chain sha xs; verify_audit_chain sha ys;
    inj_on sha (audit_payload ` (set xs \<union> set ys)); genesis_hash \<notin> sha ` audit_payload ` (set xs \<union> set ys);
    \<forall>r \<in> set xs \<union> set ys. distinct (map fst r)\<rbrakk> \<Longrightarrow> map audit_payload xs = map audit_payload ys"
proof (induction xs arbitrary: ys rule: rev_induct)
  case Nil
  have "ys = []" if "ys \<noteq> []"
    using Nil.prems(1, 5) that imageI [OF imageI [OF last_in_set [OF that], of audit_payload], of sha]
    by (simp add: head_hash_def compute_audit_hash_def)
  then show ?case by auto
next
  case (snoc x xs)
  have "ys \<noteq> []" using snoc.prems(1, 5) by (auto simp: head_hash_def compute_audit_hash_def)
  then obtain zs y where ys: "ys = zs @ [y]" by (metis rev_exhaust)
  have p: "audit_payload x = audit_payload y"
    using inj_onD [OF snoc.prems(4), of "audit_payload x" "audit_payload y"] snoc.prems(1) ys
    by (simp add: head_hash_def compute_audit_hash_def)
  have vx: "verify_audit_chain sha xs" "map_of x ''prev_hash'' = Some (PStr (head_hash sha genesis_hash xs))"
    and vy: "verify_audit_chain sha zs" "map_of y ''prev_hash'' = Some (PStr (head_hash sha genesis_hash zs))"
    using snoc.prems(2, 3) ys by (simp_all add: verify_audit_chain_def verify_from_snoc)
  have "distinct (map fst x)" "distinct (map fst y)" using snoc.prems(6) ys by simp_all
  from payload_prev [OF this(1) vx(2)] payload_prev [OF this(2) vy(2)] p
  have h: "head_hash sha genesis_hash xs = head_hash sha genesis_hash zs" by auto
  have "map audit_payload xs = map audit_payload zs"
    using snoc.IH [OF h vx(1) vy(1) inj_on_subset [OF snoc.prems(4)]] snoc.prems(5, 6) ys by auto
  then show ?case using p ys by simp
qed


section \<open>Examples\<close>

text \<open>A stand-in for the hash that tells the records of these examples apart.\<close>

definition toy_sha :: "pyval \<Rightarrow> string" where
  "toy_sha v = CHR ''h'' # (case v of PDict d \<Rightarrow> (case map_of d ''id'' of Some (PStr s) \<Rightarrow> s | _ \<Rightarrow> []) | _ \<Rightarrow> [])"

definition toy_event :: "string \<Rightarrow> audit_event" where
  "toy_event i =
     \<lparr>ae_id = i, ae_timestamp = ''t'', ae_type = ''run.started'', ae_outcome = ''success'', ae_actor = None,
      ae_target = Some [(''path'', PPath ''a'')], ae_tenant = None, ae_run = None, ae_request = None, ae_metadata = None\<rparr>"

definition log_file :: "bool \<Rightarrow> string \<Rightarrow> audit_line list audit_logger \<Rightarrow> audit_line list audit_logger" where
  "log_file ok i lg = snd (audit toy_sha (file_put ok) file_last_hash (toy_event i) lg)"

lemma log_file_step: "file_log_step toy_sha lg (log_file ok i lg)"
  by (metis log_file_def logs prod.collapse)


definition toy_chain :: "pydict list" where
  "toy_chain = [build_record toy_sha (toy_event ''a'') genesis_hash, build_record toy_sha (toy_event ''b'') ''ha'']"

lemma toy_chain_facts:
  "verify_audit_chain toy_sha toy_chain" "verify_audit_chain toy_sha (map stored_form toy_chain)"
  "map (\<lambda>r. toy_sha (audit_payload r)) toy_chain = [''ha'', ''hb'']"
  "genesis_hash \<notin> {''ha'', ''hb''}"
  "\<forall>r\<in>set toy_chain. distinct (map fst r)" "\<forall>r\<in>set (map stored_form toy_chain). distinct (map fst r)"
  "map_of (last toy_chain) ''hash'' = map_of (last (map stored_form toy_chain)) ''hash''"
  by code_simp+


text \<open>
  The stream store does not raise when a record is lost, so the logger advances and the next record does
  not fit: the stream no longer verifies. Nor does it once its oldest entries are trimmed. A write that
  takes effect and then raises leaves a record that the next one does not follow. Two processes that log
  to the same file fork the chain.
\<close>

definition log_redis :: "xadd_fate \<Rightarrow> string \<Rightarrow> redis_audit audit_logger \<Rightarrow> redis_audit audit_logger" where
  "log_redis fate i lg = snd (audit toy_sha (redis_append fate) (redis_last_hash (XaddDone 0)) (toy_event i) lg)"

definition fresh_stream :: "redis_audit audit_logger" where
  "fresh_stream = \<lparr>al_store = \<lparr>ra_connected = True, ra_stream = []\<rparr>, al_enabled = True, al_last = None\<rparr>"

lemma lost_entry_breaks_stream:
  "verify_audit_chain toy_sha (ra_stream (al_store (log_redis (XaddDone 0) ''b'' (log_redis (XaddDone 0) ''a'' fresh_stream))))"
  "\<not> verify_audit_chain toy_sha (ra_stream (al_store
      (log_redis (XaddDone 0) ''c'' (log_redis (XaddFailed False) ''b'' (log_redis (XaddDone 0) ''a'' fresh_stream)))))"
  by code_simp+

lemma trimming_breaks_stream:
  "\<not> verify_audit_chain toy_sha (ra_stream (al_store (log_redis (XaddDone 1) ''b'' (log_redis (XaddDone 0) ''a'' fresh_stream))))"
  by code_simp

lemma failed_fsync_breaks_file:
  "\<not> verify_audit_chain toy_sha (file_records (al_store (log_file True ''b''
      (snd (audit toy_sha (file_append WriteDoneThenFailed) file_last_hash (toy_event ''a'') fresh_log)))))"
  by code_simp

lemma two_writers_break_file:
  "let lg1 = log_file True ''a'' fresh_log;
       lg2 = log_file True ''b'' (fresh_log\<lparr>al_store := al_store lg1\<rparr>);
       lg3 = log_file True ''c'' (lg1\<lparr>al_store := al_store lg2\<rparr>)
   in verify_audit_chain toy_sha (file_records (al_store lg2)) \<and> \<not> verify_audit_chain toy_sha (file_records (al_store lg3))"
  by code_simp

end
