(* ===== verification/Conversation_Memory.thy ===== *)
theory Conversation_Memory
  imports Py_Strings "HOL-Library.Multiset" "HOL-Library.Char_ord" "HOL-Library.List_Lexorder"
begin

text \<open>
  Conversation memory, \<open>agents/memory.py\<close>: the bounded message window with its summaries, the durable
  case facts, the projection of tool results, compaction and the crash-recovery manifest. The token
  counter, JSON and the text of values are parameters. A message object occurs once in the window, so
  \<open>id(m)\<close> is its position; \<open>in\<close> compares messages by their fields, as dataclasses do.
\<close>

section \<open>Messages and facts\<close>

record conv_message =
  cm_role :: string
  cm_content :: string
  cm_timestamp :: instant
  cm_tool_call_id :: "string option"
  cm_tool_name :: "string option"
  cm_metadata :: pydict

definition message_to_dict :: "conv_message \<Rightarrow> pydict" where
  "message_to_dict m =
     [(''role'', PStr (cm_role m)), (''content'', PStr (cm_content m))] @
     (case cm_tool_call_id m of Some i \<Rightarrow> if i = [] then [] else [(''tool_call_id'', PStr i)] | None \<Rightarrow> []) @
     (case cm_tool_name m of
        Some n \<Rightarrow> if n \<noteq> [] \<and> cm_role m = ''tool'' then [(''name'', PStr n)] else []
      | None \<Rightarrow> [])"

record case_facts =
  findings :: "string list"
  key_numbers :: pydict
  key_dates :: "(string \<times> string) list"
  open_questions :: "string list"
  updated_at :: instant

definition no_facts :: "instant \<Rightarrow> case_facts" where
  "no_facts now = \<lparr>findings = [], key_numbers = [], key_dates = [], open_questions = [], updated_at = now\<rparr>"

definition facts_empty :: "case_facts \<Rightarrow> bool" where
  "facts_empty f \<longleftrightarrow> \<not> (findings f \<noteq> [] \<or> key_numbers f \<noteq> [] \<or> key_dates f \<noteq> [] \<or> open_questions f \<noteq> [])"

definition with_finding :: "instant \<Rightarrow> string \<Rightarrow> case_facts \<Rightarrow> case_facts" where
  "with_finding now s f =
     (if strip s = [] \<or> strip s \<in> set (findings f) then f
      else f\<lparr>findings := findings f @ [strip s], updated_at := now\<rparr>)"

definition with_number :: "instant \<Rightarrow> string \<Rightarrow> pyval \<Rightarrow> case_facts \<Rightarrow> case_facts" where
  "with_number now n v f = f\<lparr>key_numbers := AList.update n v (key_numbers f), updated_at := now\<rparr>"

definition with_date :: "instant \<Rightarrow> string \<Rightarrow> string \<Rightarrow> case_facts \<Rightarrow> case_facts" where
  "with_date now n v f = f\<lparr>key_dates := AList.update n v (key_dates f), updated_at := now\<rparr>"

definition with_open_question :: "instant \<Rightarrow> string \<Rightarrow> case_facts \<Rightarrow> case_facts" where
  "with_open_question now q f =
     (if strip q = [] \<or> strip q \<in> set (open_questions f) then f
      else f\<lparr>open_questions := open_questions f @ [strip q], updated_at := now\<rparr>)"

definition resolve_question :: "instant \<Rightarrow> string \<Rightarrow> case_facts \<Rightarrow> case_facts" where
  "resolve_question now q f =
     (if q \<notin> set (open_questions f) then f
      else f\<lparr>open_questions := filter (\<lambda>x. x \<noteq> q) (open_questions f), updated_at := now\<rparr>)"

definition bullet_block :: "string \<Rightarrow> string list \<Rightarrow> string list" where
  "bullet_block title ls = (if ls = [] then [] else title # map (\<lambda>l. ''  - '' @ l) ls)"

definition render_facts :: "(pyval \<Rightarrow> string) \<Rightarrow> case_facts \<Rightarrow> string" where
  "render_facts show_value f =
     join [CHR 0x0A]
       ([''CASE FACTS (durable; do not discard):''] @
        bullet_block ''Findings:'' (findings f) @
        bullet_block ''Key numbers:'' (map (\<lambda>(k, v). k @ '': '' @ show_value v) (key_numbers f)) @
        bullet_block ''Key dates:'' (map (\<lambda>(k, v). k @ '': '' @ v) (key_dates f)) @
        bullet_block ''Open questions:'' (open_questions f))"

section \<open>Tool results\<close>

record field_reduction =
  fr_kept :: pydict
  fr_dropped_count :: nat
  fr_dropped_fields :: "string list"

definition reduce_tool_result :: "pydict \<Rightarrow> string list \<Rightarrow> field_reduction" where
  "reduce_tool_result result allowlist =
     (let dropped = sort (filter (\<lambda>k. k \<notin> set allowlist) (map fst result))
      in \<lparr>fr_kept = filter (\<lambda>kv. fst kv \<in> set allowlist) result, fr_dropped_count = length dropped, fr_dropped_fields = dropped\<rparr>)"

definition render_reduction :: "(pydict \<Rightarrow> string) \<Rightarrow> string option \<Rightarrow> field_reduction \<Rightarrow> string" where
  "render_reduction dumps_sorted tool_name r =
     (let label = (case tool_name of Some n \<Rightarrow> if n = [] then ''result'' else n @ '' result'' | None \<Rightarrow> ''result'');
          body = dumps_sorted (fr_kept r)
      in if fr_dropped_count r = 0 then body
         else ''['' @ label @ '': reduced to '' @ show_nat (length (fr_kept r)) @ '' field(s); dropped '' @
              show_nat (fr_dropped_count r) @ '' verbose field(s)]'' @ [CHR 0x0A] @ body)"

section \<open>The memory\<close>

record conv_memory =
  cv_messages :: "conv_message list"
  max_messages :: int
  max_tokens :: int
  summaries :: "string list"
  max_summaries :: int
  token_counter :: "(string \<Rightarrow> int option) option"
  cv_facts :: case_facts

definition new_memory :: "instant \<Rightarrow> conv_memory" where
  "new_memory now =
     \<lparr>cv_messages = [], max_messages = 50, max_tokens = 8000, summaries = [], max_summaries = 5, token_counter = None,
      cv_facts = no_facts now\<rparr>"

text \<open>A counter that raises is \<^const>\<open>None\<close>.\<close>

definition estimate_tokens :: "conv_memory \<Rightarrow> string \<Rightarrow> int" where
  "estimate_tokens m text =
     (if text = [] then 0
      else case (case token_counter m of None \<Rightarrow> None | Some c \<Rightarrow> c text) of
             Some n \<Rightarrow> max 0 n
           | None \<Rightarrow> max 1 (int (length text) div 4))"

definition message_tokens :: "conv_memory \<Rightarrow> int" where
  "message_tokens m = sum_list (map (\<lambda>x. estimate_tokens m (cm_content x)) (cv_messages m))"

definition summary_tokens :: "conv_memory \<Rightarrow> int" where
  "summary_tokens m = sum_list (map (estimate_tokens m) (summaries m))"

definition total_tokens :: "conv_memory \<Rightarrow> int" where
  "total_tokens m = message_tokens m + summary_tokens m"

text \<open>\<open>str.split()\<close> without a separator.\<close>

function split_space :: "string \<Rightarrow> string list" where
  "split_space s =
     (let t = dropWhile is_space s
      in if t = [] then [] else takeWhile (\<lambda>c. \<not> is_space c) t # split_space (dropWhile (\<lambda>c. \<not> is_space c) t))"
  by pat_completeness auto
termination
proof (relation "measure length")
  fix s t :: string
  assume t: "t = dropWhile is_space s" "t \<noteq> []"
  then have "\<not> is_space (hd t)" using hd_dropWhile [of is_space s] by simp
  with t(2) have "length (dropWhile (\<lambda>c. \<not> is_space c) t) < length t"
    by (cases t) (auto simp: le_imp_less_Suc length_dropWhile_le)
  also have "length t \<le> length s" unfolding t(1) by (rule length_dropWhile_le)
  finally show "(dropWhile (\<lambda>c. \<not> is_space c) t, s) \<in> measure length" by simp
qed simp

definition preview :: "string \<Rightarrow> string" where
  "preview text =
     (let cleaned = join '' '' (split_space text)
      in if length cleaned \<le> 160 then cleaned else take 157 cleaned @ ''...'')"

definition summary_line :: "conv_message \<Rightarrow> string" where
  "summary_line m =
     (if cm_role m = ''tool''
      then ''tool('' @ (case cm_tool_name m of Some n \<Rightarrow> if n = [] then ''tool'' else n | None \<Rightarrow> ''tool'') @ ''): '' @ preview (cm_content m)
      else cm_role m @ '': '' @ preview (cm_content m))"

definition build_summary :: "conv_message list \<Rightarrow> string" where
  "build_summary ms =
     (if ms = [] then []
      else let lines = map summary_line ms;
               shown = take 30 lines;
               omitted = length lines - length shown
           in ''[Summary of '' @ show_nat (length ms) @ '' messages]'' @ [CHR 0x0A] @
              join [CHR 0x0A] (shown @ (if omitted > 0 then [''... ('' @ show_nat omitted @ '' more omitted) ...''] else [])))"

text \<open>\<open>summaries[-k:]\<close>, where the whole list is meant by \<open>-0\<close>.\<close>

definition tail_slice :: "int \<Rightarrow> 'a list \<Rightarrow> 'a list" where
  "tail_slice k xs = (if k > 0 then drop (length xs - nat k) xs else drop (nat (- k)) xs)"

fun drop_summaries :: "conv_memory \<Rightarrow> string list \<Rightarrow> string list" where
  "drop_summaries m [] = []"
| "drop_summaries m (s # ss) =
     (if sum_list (map (estimate_tokens m) (s # ss)) > max_tokens m div 2 then drop_summaries m ss else s # ss)"

definition compact_summaries :: "conv_memory \<Rightarrow> conv_memory" where
  "compact_summaries m =
     (let ss = (if int (length (summaries m)) > max_summaries m then tail_slice (max_summaries m) (summaries m) else summaries m)
      in m\<lparr>summaries := drop_summaries m ss\<rparr>)"

definition add_summary :: "conv_message list \<Rightarrow> conv_memory \<Rightarrow> conv_memory" where
  "add_summary ms m =
     (let s = build_summary ms in if s = [] then m else compact_summaries (m\<lparr>summaries := summaries m @ [s]\<rparr>))"

text \<open>The stable core: the most recent \<open>k\<close> messages and the first system message; and the others.\<close>

definition split_kept :: "nat \<Rightarrow> conv_message list \<Rightarrow> conv_message list \<times> conv_message list" where
  "split_kept k ms =
     (let older = take (length ms - k) ms;
          recent = drop (length ms - k) ms
      in case List.find (\<lambda>m. cm_role m = ''system'') ms of
           None \<Rightarrow> (recent, older)
         | Some fs \<Rightarrow>
             if fs \<in> set recent then (recent, older)
             else (fs # recent,
                   takeWhile (\<lambda>m. cm_role m \<noteq> ''system'') older @ tl (dropWhile (\<lambda>m. cm_role m \<noteq> ''system'') older)))"

definition over_budget :: "conv_memory \<Rightarrow> bool" where
  "over_budget m \<longleftrightarrow> int (length (cv_messages m)) > max_messages m \<or> total_tokens m > max_tokens m"

text \<open>The loop that enforces the budget: the oldest message goes, a leading system message last.\<close>

definition pop_index :: "conv_message list \<Rightarrow> nat" where
  "pop_index ms = (if ms \<noteq> [] \<and> cm_role (hd ms) = ''system'' \<and> length ms > 1 then 1 else 0)"

definition without_nth :: "nat \<Rightarrow> 'a list \<Rightarrow> 'a list" where
  "without_nth i xs = take i xs @ drop (Suc i) xs"

lemma pop_index_less: "ms \<noteq> [] \<Longrightarrow> pop_index ms < length ms"
  by (auto simp: pop_index_def)

lemma length_without_nth: "i < length xs \<Longrightarrow> length (without_nth i xs) = length xs - 1"
  by (simp add: without_nth_def)

function trim_loop :: "conv_memory \<Rightarrow> conv_message list \<Rightarrow> conv_memory \<times> conv_message list" where
  "trim_loop m extra =
     (if cv_messages m \<noteq> [] \<and> over_budget m
      then let i = pop_index (cv_messages m)
           in trim_loop (m\<lparr>cv_messages := without_nth i (cv_messages m)\<rparr>) (extra @ [cv_messages m ! i])
      else (m, extra))"
  by pat_completeness auto
termination
  by (relation "measure (\<lambda>(m, _). length (cv_messages m))") (auto simp: length_without_nth pop_index_less)

declare trim_loop.simps [simp del] split_space.simps [simp del]

definition summarize_and_trim :: "conv_memory \<Rightarrow> conv_memory" where
  "summarize_and_trim m =
     (if cv_messages m = [] then m
      else case split_kept (nat (max 4 (max_messages m div 2))) (cv_messages m) of
             (kept, old) \<Rightarrow>
               (case trim_loop (add_summary old (m\<lparr>cv_messages := kept\<rparr>)) [] of
                  (m1, extra) \<Rightarrow> add_summary extra m1))"

definition memory_add :: "conv_message \<Rightarrow> conv_memory \<Rightarrow> conv_memory" where
  "memory_add x m =
     (let m1 = m\<lparr>cv_messages := cv_messages m @ [x]\<rparr>
      in if over_budget m1 then summarize_and_trim m1 else m1)"

definition reduced_message ::
  "(pydict \<Rightarrow> string) \<Rightarrow> instant \<Rightarrow> string \<Rightarrow> pydict \<Rightarrow> string \<Rightarrow> string list \<Rightarrow> conv_message" where
  "reduced_message dumps_sorted now tool_name result call_id allowlist =
     (let r = reduce_tool_result result allowlist
      in \<lparr>cm_role = ''tool'', cm_content = render_reduction dumps_sorted (Some tool_name) r, cm_timestamp = now,
          cm_tool_call_id = Some call_id, cm_tool_name = Some tool_name,
          cm_metadata = [(''reduced'', PBool (fr_dropped_count r > 0)),
            (''kept_fields'', PList (map PStr (sort (map fst (fr_kept r))))),
            (''dropped_count'', PInt (int (fr_dropped_count r))),
            (''dropped_fields'', PList (map PStr (fr_dropped_fields r)))]\<rparr>)"

definition get_messages :: "(pyval \<Rightarrow> string) \<Rightarrow> bool \<Rightarrow> conv_memory \<Rightarrow> pydict list" where
  "get_messages show_value include_system m =
     (if facts_empty (cv_facts m) then []
      else [[(''role'', PStr ''system''), (''content'', PStr (render_facts show_value (cv_facts m)))]]) @
     (if summaries m = [] then []
      else [[(''role'', PStr ''system''),
             (''content'', PStr (''Previous conversation summary:'' @ [CHR 0x0A] @ join [CHR 0x0A, CHR 0x0A] (summaries m)))]]) @
     map message_to_dict (filter (\<lambda>x. include_system \<or> cm_role x \<noteq> ''system'') (cv_messages m))"

definition memory_compact :: "int option \<Rightarrow> conv_memory \<Rightarrow> nat \<times> conv_memory" where
  "memory_compact keep_recent m =
     (if cv_messages m = [] then (0, m)
      else let k = max 0 (case keep_recent of None \<Rightarrow> max 2 (max_messages m div 4) | Some k \<Rightarrow> k)
           in case split_kept (nat k) (cv_messages m) of
                (kept, old) \<Rightarrow>
                  if old = [] then (0, m) else (length old, add_summary old (m\<lparr>cv_messages := kept\<rparr>)))"

definition on_facts :: "(case_facts \<Rightarrow> case_facts) \<Rightarrow> conv_memory \<Rightarrow> conv_memory" where
  "on_facts f m = m\<lparr>cv_facts := f (cv_facts m)\<rparr>"

definition memory_clear :: "instant \<Rightarrow> conv_memory \<Rightarrow> conv_memory" where
  "memory_clear now m = m\<lparr>cv_messages := [], summaries := [], cv_facts := no_facts now\<rparr>"

section \<open>The manifest\<close>

text \<open>
  The manifest by its fields, of the types \<open>to_manifest\<close> writes; \<^const>\<open>None\<close> is a field that is missing or
  null. \<open>to_iso\<close> and \<open>from_iso\<close> are \<open>isoformat\<close> and \<open>fromisoformat\<close>, which may raise.
\<close>

record manifest_message =
  mm_role :: "string option"
  mm_content :: "string option"
  mm_timestamp :: "string option"
  mm_tool_call_id :: "string option"
  mm_tool_name :: "string option"
  mm_metadata :: "pydict option"

record manifest_facts =
  mf_findings :: "string list option"
  mf_key_numbers :: "pydict option"
  mf_key_dates :: "(string \<times> string) list option"
  mf_open_questions :: "string list option"
  mf_updated_at :: "string option"

record manifest =
  mf_version :: "int option"
  mf_saved_at :: string
  mf_config :: "(string \<times> int) list"
  mf_messages :: "manifest_message list"
  mf_summaries :: "string list"
  mf_facts :: manifest_facts

datatype manifest_error = UnsupportedVersion "int option" | MissingRole | BadTimestamp string

definition manifest_version :: int where
  "manifest_version = 1"

definition message_to_manifest :: "(instant \<Rightarrow> string) \<Rightarrow> conv_message \<Rightarrow> manifest_message" where
  "message_to_manifest to_iso m =
     \<lparr>mm_role = Some (cm_role m), mm_content = Some (cm_content m), mm_timestamp = Some (to_iso (cm_timestamp m)),
      mm_tool_call_id = cm_tool_call_id m, mm_tool_name = cm_tool_name m, mm_metadata = Some (cm_metadata m)\<rparr>"

definition read_timestamp :: "(string \<Rightarrow> instant option) \<Rightarrow> instant \<Rightarrow> string option \<Rightarrow> manifest_error + instant" where
  "read_timestamp from_iso now raw =
     (case raw of
        None \<Rightarrow> Inr now
      | Some s \<Rightarrow> (case from_iso s of None \<Rightarrow> Inl (BadTimestamp s) | Some t \<Rightarrow> Inr t))"

definition message_from_manifest ::
  "(string \<Rightarrow> instant option) \<Rightarrow> instant \<Rightarrow> manifest_message \<Rightarrow> manifest_error + conv_message" where
  "message_from_manifest from_iso now d =
     rbind (read_timestamp from_iso now (mm_timestamp d)) (\<lambda>t.
       case mm_role d of
         None \<Rightarrow> Inl MissingRole
       | Some role \<Rightarrow>
           Inr \<lparr>cm_role = role, cm_content = (case mm_content d of None \<Rightarrow> [] | Some c \<Rightarrow> c), cm_timestamp = t,
             cm_tool_call_id = mm_tool_call_id d, cm_tool_name = mm_tool_name d,
             cm_metadata = (case mm_metadata d of None \<Rightarrow> [] | Some md \<Rightarrow> md)\<rparr>)"

definition facts_to_manifest :: "(instant \<Rightarrow> string) \<Rightarrow> case_facts \<Rightarrow> manifest_facts" where
  "facts_to_manifest to_iso f =
     \<lparr>mf_findings = Some (findings f), mf_key_numbers = Some (key_numbers f), mf_key_dates = Some (key_dates f),
      mf_open_questions = Some (open_questions f), mf_updated_at = Some (to_iso (updated_at f))\<rparr>"

definition or_empty :: "'a list option \<Rightarrow> 'a list" where
  "or_empty x = (case x of None \<Rightarrow> [] | Some xs \<Rightarrow> xs)"

definition facts_from_manifest ::
  "(string \<Rightarrow> instant option) \<Rightarrow> instant \<Rightarrow> manifest_facts \<Rightarrow> manifest_error + case_facts" where
  "facts_from_manifest from_iso now d =
     rbind (read_timestamp from_iso now (mf_updated_at d)) (\<lambda>t.
       Inr \<lparr>findings = or_empty (mf_findings d), key_numbers = or_empty (mf_key_numbers d),
         key_dates = or_empty (mf_key_dates d), open_questions = or_empty (mf_open_questions d), updated_at = t\<rparr>)"

definition memory_to_manifest :: "(instant \<Rightarrow> string) \<Rightarrow> instant \<Rightarrow> conv_memory \<Rightarrow> manifest" where
  "memory_to_manifest to_iso now m =
     \<lparr>mf_version = Some manifest_version, mf_saved_at = to_iso now,
      mf_config = [(''max_messages'', max_messages m), (''max_tokens'', max_tokens m), (''max_summaries'', max_summaries m)],
      mf_messages = map (message_to_manifest to_iso) (cv_messages m), mf_summaries = summaries m,
      mf_facts = facts_to_manifest to_iso (cv_facts m)\<rparr>"

fun messages_from_manifest ::
  "(string \<Rightarrow> instant option) \<Rightarrow> instant \<Rightarrow> manifest_message list \<Rightarrow> manifest_error + conv_message list" where
  "messages_from_manifest from_iso now [] = Inr []"
| "messages_from_manifest from_iso now (d # ds) =
     rbind (message_from_manifest from_iso now d) (\<lambda>m.
       rbind (messages_from_manifest from_iso now ds) (\<lambda>ms. Inr (m # ms)))"

definition config_value :: "(string \<times> int) list \<Rightarrow> string \<Rightarrow> int \<Rightarrow> int" where
  "config_value c k d = (case map_of c k of None \<Rightarrow> d | Some v \<Rightarrow> v)"

definition memory_from_manifest ::
  "(string \<Rightarrow> instant option) \<Rightarrow> instant \<Rightarrow> manifest \<Rightarrow> (string \<Rightarrow> int option) option \<Rightarrow> manifest_error + conv_memory" where
  "memory_from_manifest from_iso now mf counter =
     (if mf_version mf \<noteq> Some manifest_version then Inl (UnsupportedVersion (mf_version mf))
      else rbind (messages_from_manifest from_iso now (mf_messages mf)) (\<lambda>ms.
             rbind (facts_from_manifest from_iso now (mf_facts mf)) (\<lambda>f.
               Inr \<lparr>cv_messages = ms, max_messages = config_value (mf_config mf) ''max_messages'' 50,
                 max_tokens = config_value (mf_config mf) ''max_tokens'' 8000, summaries = mf_summaries mf,
                 max_summaries = config_value (mf_config mf) ''max_summaries'' 5, token_counter = counter, cv_facts = f\<rparr>)))"

section \<open>Bounds\<close>

lemma estimate_nonneg [simp]: "0 \<le> estimate_tokens m t"
  by (simp add: estimate_tokens_def le_max_iff_disj split: option.splits)

lemma estimate_same: "token_counter m' = token_counter m \<Longrightarrow> estimate_tokens m' = estimate_tokens m"
  by (simp add: fun_eq_iff estimate_tokens_def)

lemma estimate_upd [simp]:
  "estimate_tokens (m\<lparr>cv_messages := ms\<rparr>) = estimate_tokens m" "estimate_tokens (m\<lparr>summaries := ss\<rparr>) = estimate_tokens m"
  "estimate_tokens (m\<lparr>cv_facts := f\<rparr>) = estimate_tokens m"
  by (rule estimate_same, simp)+

lemma tokens_nonneg: "0 \<le> message_tokens m" "0 \<le> summary_tokens m"
  by (auto simp: message_tokens_def summary_tokens_def intro!: sum_list_nonneg)

definition window_tokens :: "conv_memory \<Rightarrow> conv_message list \<Rightarrow> int" where
  "window_tokens m ms = sum_list (map (\<lambda>x. estimate_tokens m (cm_content x)) ms)"

lemma window_tokens_mono: "mset ms \<subseteq># mset ns \<Longrightarrow> window_tokens m ms \<le> window_tokens m ns"
proof -
  assume "mset ms \<subseteq># mset ns"
  then obtain rs where "mset ns = mset (ms @ rs)" by (metis ex_mset mset_append subset_mset.add_diff_inverse)
  then have "window_tokens m ns = window_tokens m (ms @ rs)"
    unfolding window_tokens_def sum_mset_sum_list [symmetric] mset_map by simp
  moreover have "0 \<le> window_tokens m rs" unfolding window_tokens_def by (rule sum_list_nonneg) auto
  ultimately show ?thesis by (simp add: window_tokens_def)
qed

lemma drop_summaries_spec:
  "sum_list (map (estimate_tokens m) (drop_summaries m ss)) \<le> max 0 (max_tokens m div 2)"
  "length (drop_summaries m ss) \<le> length ss"
  by (induction ss) auto

lemma tail_slice_length: "k > 0 \<Longrightarrow> int (length (tail_slice k xs)) \<le> k"
  by (simp add: tail_slice_def)

text \<open>What an operation on the window keeps.\<close>

definition same_config :: "conv_memory \<Rightarrow> conv_memory \<Rightarrow> bool" where
  "same_config m m' \<longleftrightarrow>
     max_messages m' = max_messages m \<and> max_tokens m' = max_tokens m \<and> max_summaries m' = max_summaries m \<and>
     token_counter m' = token_counter m \<and> cv_facts m' = cv_facts m"

lemma same_config_trans: "same_config a b \<Longrightarrow> same_config b c \<Longrightarrow> same_config a c"
  by (simp add: same_config_def)

lemma add_summary_spec:
  "same_config m (add_summary ms m)" "cv_messages (add_summary ms m) = cv_messages m"
  "ms \<noteq> [] \<Longrightarrow> summary_tokens (add_summary ms m) \<le> max 0 (max_tokens m div 2)"
  "ms = [] \<Longrightarrow> add_summary ms m = m"
  "max_summaries m > 0 \<Longrightarrow> int (length (summaries m)) \<le> max_summaries m \<Longrightarrow>
     int (length (summaries (add_summary ms m))) \<le> max_summaries m"
proof -
  have ne: "build_summary ms = [] \<longleftrightarrow> ms = []" by (simp add: build_summary_def Let_def)
  show "same_config m (add_summary ms m)" "cv_messages (add_summary ms m) = cv_messages m"
    by (simp_all add: add_summary_def compact_summaries_def same_config_def Let_def)
  show "add_summary ms m = m" if "ms = []" using that ne by (simp add: add_summary_def)
  show "summary_tokens (add_summary ms m) \<le> max 0 (max_tokens m div 2)" if "ms \<noteq> []"
  proof -
    have "estimate_tokens (m\<lparr>summaries := a\<rparr>) = estimate_tokens m" for a by simp
    then show ?thesis using that ne drop_summaries_spec(1) [of "m\<lparr>summaries := summaries m @ [build_summary ms]\<rparr>"]
      by (simp add: add_summary_def compact_summaries_def summary_tokens_def Let_def)
  qed
  show "int (length (summaries (add_summary ms m))) \<le> max_summaries m"
    if "max_summaries m > 0" "int (length (summaries m)) \<le> max_summaries m"
  proof -
    have "int (length (drop_summaries n (tail_slice (max_summaries m) xs))) \<le> max_summaries m" for n xs
      using drop_summaries_spec(2) [of n "tail_slice (max_summaries m) xs"] tail_slice_length [OF that(1), of xs] by simp
    moreover have "int (length (drop_summaries n xs)) \<le> max_summaries m" if "int (length xs) \<le> max_summaries m" for n xs
      using drop_summaries_spec(2) [of n xs] that by simp
    ultimately show ?thesis using that(2) by (auto simp: add_summary_def compact_summaries_def Let_def)
  qed
qed

lemma split_kept_mset:
  assumes "split_kept k ms = (kept, old)"
  shows "mset kept + mset old = mset ms" "ms \<noteq> [] \<Longrightarrow> k > 0 \<Longrightarrow> kept \<noteq> []"
proof -
  let ?older = "take (length ms - k) ms" and ?recent = "drop (length ms - k) ms"
  let ?sys = "\<lambda>m. cm_role m = ''system''"
  have whole: "mset ?recent + mset ?older = mset ms" by (metis add.commute append_take_drop_id mset_append)
  show "mset kept + mset old = mset ms"
  proof (cases "List.find ?sys ms")
    case None
    then show ?thesis using assms whole by (auto simp: split_kept_def Let_def)
  next
    case (Some fs)
    show ?thesis
    proof (cases "fs \<in> set ?recent")
      case True
      then show ?thesis using assms whole Some by (auto simp: split_kept_def Let_def)
    next
      case False
      have "fs \<in> set ms" "?sys fs" using Some by (auto simp: find_Some_iff)
      then have o: "fs \<in> set ?older" using False by (metis Un_iff append_take_drop_id set_append)
      have "List.find ?sys ?older \<noteq> None" using o \<open>?sys fs\<close> by (auto simp: find_None_iff)
      then have "List.find ?sys ?older = Some fs"
        using find_append [of ?sys ?older ?recent] Some by auto
      then have "dropWhile (\<lambda>m. \<not> ?sys m) ?older = fs # tl (dropWhile (\<lambda>m. \<not> ?sys m) ?older)"
        by (auto simp: find_dropWhile comp_def split: list.splits)
      then have "mset ?older = add_mset fs (mset (takeWhile (\<lambda>m. \<not> ?sys m) ?older @ tl (dropWhile (\<lambda>m. \<not> ?sys m) ?older)))"
        by (metis (no_types, lifting) mset.simps(2) mset_append takeWhile_dropWhile_id union_mset_add_mset_right)
      then show ?thesis using assms whole Some False by (auto simp: split_kept_def Let_def)
    qed
  qed
  show "kept \<noteq> []" if "ms \<noteq> []" "k > 0"
  proof -
    have "length ms - k < length ms" using that by (simp add: diff_less)
    then have "?recent \<noteq> []" by simp
    then show ?thesis using assms unfolding split_kept_def Let_def by (auto split: option.splits if_splits)
  qed
qed

lemma trim_loop_spec:
  "trim_loop m extra = (m', extra') \<Longrightarrow>
     m' = m\<lparr>cv_messages := cv_messages m'\<rparr> \<and> (cv_messages m' = [] \<or> \<not> over_budget m') \<and>
     mset (cv_messages m') + mset extra' = mset (cv_messages m) + mset extra"
proof (induction m extra arbitrary: m' extra' rule: trim_loop.induct)
  case (1 m extra)
  show ?case
  proof (cases "cv_messages m \<noteq> [] \<and> over_budget m")
    case True
    let ?i = "pop_index (cv_messages m)"
    let ?m = "m\<lparr>cv_messages := without_nth ?i (cv_messages m)\<rparr>"
    have "trim_loop ?m (extra @ [cv_messages m ! ?i]) = (m', extra')"
      using "1.prems" True by (simp add: trim_loop.simps [of m extra] Let_def)
    note ih = "1.IH" [OF True refl this]
    have "mset (cv_messages m) = add_mset (cv_messages m ! ?i) (mset (without_nth ?i (cv_messages m)))"
      using pop_index_less True unfolding without_nth_def
      by (metis id_take_nth_drop mset.simps(2) mset_append union_mset_add_mset_right)
    with ih show ?thesis by (cases m) simp
  next
    case False
    have "m' = m" "extra' = extra"
      using "1.prems" unfolding trim_loop.simps [of m extra] if_not_P [OF False] by simp_all
    with False show ?thesis by auto
  qed
qed

definition memory_ok :: "conv_memory \<Rightarrow> bool" where
  "memory_ok m \<longleftrightarrow>
     int (length (cv_messages m)) \<le> max_messages m \<and> message_tokens m \<le> max_tokens m \<and>
     total_tokens m \<le> max_tokens m + max_tokens m div 2 \<and> int (length (summaries m)) \<le> max_summaries m"

definition config_ok :: "conv_memory \<Rightarrow> bool" where
  "config_ok m \<longleftrightarrow> 0 \<le> max_messages m \<and> 0 \<le> max_tokens m \<and> 0 < max_summaries m"

lemma message_tokens_window: "token_counter n = token_counter m \<Longrightarrow> message_tokens m = window_tokens n (cv_messages m)"
  unfolding message_tokens_def window_tokens_def using estimate_same [of n m] by simp

lemma add_summary_ok:
  assumes c: "config_ok m" and s: "int (length (summaries m)) \<le> max_summaries m"
    and w: "int (length (cv_messages m)) \<le> max_messages m" "message_tokens m \<le> max_tokens m"
    and x: "xs = [] \<Longrightarrow> total_tokens m \<le> max_tokens m"
  shows "memory_ok (add_summary xs m)"
proof -
  let ?m = "add_summary xs m"
  have same: "same_config m ?m" by (rule add_summary_spec)
  have msgs: "cv_messages ?m = cv_messages m" by (rule add_summary_spec)
  have mt: "message_tokens ?m = message_tokens m"
    using message_tokens_window [of m ?m] message_tokens_window [of m m] same msgs by (simp add: same_config_def)
  have div: "0 \<le> max_tokens m div 2" using c by (simp add: config_ok_def)
  have "total_tokens ?m \<le> max_tokens m + max_tokens m div 2"
  proof (cases "xs = []")
    case True
    then show ?thesis using x div add_summary_spec(4) [OF True, of m] by simp
  next
    case False
    then show ?thesis using add_summary_spec(3) [OF False, of m] mt w(2) div by (simp add: total_tokens_def)
  qed
  moreover have "int (length (summaries ?m)) \<le> max_summaries m"
    using add_summary_spec(5) [OF _ s] c by (simp add: config_ok_def)
  ultimately show ?thesis using w mt msgs same by (simp add: memory_ok_def same_config_def)
qed

lemma trimmed_window:
  assumes "config_ok m" "cv_messages m = [] \<or> \<not> over_budget m"
  shows "int (length (cv_messages m)) \<le> max_messages m" "message_tokens m \<le> max_tokens m"
    "cv_messages m \<noteq> [] \<Longrightarrow> total_tokens m \<le> max_tokens m"
  using assms tokens_nonneg [of m] by (auto simp: config_ok_def over_budget_def total_tokens_def message_tokens_def)

lemma config_ok_same: "same_config m m' \<Longrightarrow> config_ok m \<Longrightarrow> config_ok m'"
  by (simp add: same_config_def config_ok_def)

lemma summarize_and_trim_ok:
  assumes "config_ok m" "int (length (summaries m)) \<le> max_summaries m"
  shows "memory_ok (summarize_and_trim m) \<or> cv_messages m = []" "same_config m (summarize_and_trim m)"
proof -
  obtain kept old where sk: "split_kept (nat (max 4 (max_messages m div 2))) (cv_messages m) = (kept, old)" by fastforce
  let ?m1 = "add_summary old (m\<lparr>cv_messages := kept\<rparr>)"
  obtain m2 extra where t: "trim_loop ?m1 [] = (m2, extra)" by fastforce
  note ts = trim_loop_spec [OF t]
  have c1: "same_config m ?m1" using add_summary_spec(1) [of "m\<lparr>cv_messages := kept\<rparr>" old] by (simp add: same_config_def)
  have c2: "same_config m m2"
  proof -
    have "same_config ?m1 (?m1\<lparr>cv_messages := cv_messages m2\<rparr>)" by (simp add: same_config_def)
    then have "same_config ?m1 m2" using ts by metis
    with c1 show ?thesis by (rule same_config_trans)
  qed
  have c3: "same_config m (add_summary extra m2)" using c2 add_summary_spec(1) by (rule same_config_trans)
  have sat: "summarize_and_trim m = (if cv_messages m = [] then m else add_summary extra m2)"
    using sk t by (simp add: summarize_and_trim_def)
  show "same_config m (summarize_and_trim m)" using c3 sat by (simp add: same_config_def)
  have "memory_ok (add_summary extra m2)" if ne: "cv_messages m \<noteq> []"
  proof -
    have k: "kept \<noteq> []" using split_kept_mset(2) [OF sk ne] by simp
    have s1: "int (length (summaries ?m1)) \<le> max_summaries m"
      using add_summary_spec(5) [of "m\<lparr>cv_messages := kept\<rparr>" old] assms by (simp add: config_ok_def)
    have "summaries m2 = summaries ?m1" using ts by (metis conv_memory.select_convs(4) conv_memory.surjective conv_memory.update_convs(1))
    then have s2: "int (length (summaries m2)) \<le> max_summaries m2" using s1 c2 by (simp add: same_config_def)
    have ex: "extra \<noteq> []" if "cv_messages m2 = []"
      using ts that k add_summary_spec(2) [of old "m\<lparr>cv_messages := kept\<rparr>"] by auto
    note w = trimmed_window [OF config_ok_same [OF c2 assms(1)]]
    show ?thesis using ts ex by (intro add_summary_ok [OF config_ok_same [OF c2 assms(1)] s2] w) auto
  qed
  then show "memory_ok (summarize_and_trim m) \<or> cv_messages m = []" using sat by auto
qed

text \<open>The operations on a memory; a reload goes through the manifest.\<close>

datatype mem_op =
    OpAdd conv_message
  | OpCompact "int option"
  | OpFinding instant string
  | OpNumber instant string pyval
  | OpDate instant string string
  | OpQuestion instant string
  | OpResolve instant string
  | OpClear instant

fun run_op :: "mem_op \<Rightarrow> conv_memory \<Rightarrow> conv_memory" where
  "run_op (OpAdd x) m = memory_add x m"
| "run_op (OpCompact k) m = snd (memory_compact k m)"
| "run_op (OpFinding now s) m = on_facts (with_finding now s) m"
| "run_op (OpNumber now n v) m = on_facts (with_number now n v) m"
| "run_op (OpDate now n v) m = on_facts (with_date now n v) m"
| "run_op (OpQuestion now q) m = on_facts (with_open_question now q) m"
| "run_op (OpResolve now q) m = on_facts (resolve_question now q) m"
| "run_op (OpClear now) m = memory_clear now m"

lemma memory_add_ok:
  assumes "config_ok m" "memory_ok m"
  shows "memory_ok (memory_add x m)" "same_config m (memory_add x m)"
proof -
  let ?m = "m\<lparr>cv_messages := cv_messages m @ [x]\<rparr>"
  have c: "same_config m ?m" by (simp add: same_config_def)
  have s: "int (length (summaries ?m)) \<le> max_summaries ?m" using assms(2) by (simp add: memory_ok_def)
  note st = summarize_and_trim_ok [OF config_ok_same [OF c assms(1)] s]
  show "same_config m (memory_add x m)"
    using st(2) c same_config_trans by (auto simp: memory_add_def Let_def)
  have "memory_ok ?m" if no: "\<not> over_budget ?m"
  proof -
    have "total_tokens ?m \<le> max_tokens m" using no by (simp add: over_budget_def)
    also have "\<dots> \<le> max_tokens m + max_tokens m div 2" using assms(1) by (simp add: config_ok_def)
    finally show ?thesis
      using trimmed_window [OF config_ok_same [OF c assms(1)]] no s by (simp add: memory_ok_def)
  qed
  then show "memory_ok (memory_add x m)" using st(1) by (auto simp: memory_add_def Let_def)
qed

lemma memory_compact_ok:
  assumes "config_ok m" "memory_ok m"
  shows "memory_ok (snd (memory_compact k m))" "same_config m (snd (memory_compact k m))"
proof -
  obtain kept old where sk: "split_kept (nat (max 0 (case k of None \<Rightarrow> max 2 (max_messages m div 4) | Some k \<Rightarrow> k))) (cv_messages m) = (kept, old)"
    by fastforce
  let ?m = "m\<lparr>cv_messages := kept\<rparr>"
  have sub: "mset kept \<subseteq># mset (cv_messages m)" using split_kept_mset(1) [OF sk] by (metis mset_subset_eq_add_left)
  have c: "same_config m ?m" by (simp add: same_config_def)
  have "message_tokens ?m \<le> message_tokens m"
    using window_tokens_mono [OF sub, of m] message_tokens_window [of m ?m] message_tokens_window [of m m] by simp
  moreover have "length kept \<le> length (cv_messages m)" using size_mset_mono [OF sub] by simp
  ultimately have ok: "memory_ok (add_summary old ?m)" if "old \<noteq> []"
    using assms that by (intro add_summary_ok config_ok_same [OF c assms(1)]) (auto simp: memory_ok_def)
  have r: "snd (memory_compact k m) = (if cv_messages m = [] \<or> old = [] then m else add_summary old ?m)"
    using sk by (simp add: memory_compact_def Let_def)
  show "memory_ok (snd (memory_compact k m))" using ok assms r by simp
  show "same_config m (snd (memory_compact k m))"
    using r same_config_trans [OF c add_summary_spec(1)] by (simp add: same_config_def)
qed

lemma facts_update_ok: "memory_ok (m\<lparr>cv_facts := f\<rparr>) \<longleftrightarrow> memory_ok m"
  by (simp add: memory_ok_def total_tokens_def message_tokens_def summary_tokens_def)

lemma run_op_ok: "config_ok m \<Longrightarrow> memory_ok m \<Longrightarrow> memory_ok (run_op p m) \<and> config_ok (run_op p m)"
proof (cases p)
  case (OpAdd x)
  assume "config_ok m" "memory_ok m"
  with OpAdd memory_add_ok [OF this] config_ok_same show ?thesis by auto
next
  case (OpCompact k)
  assume "config_ok m" "memory_ok m"
  with OpCompact memory_compact_ok [OF this] config_ok_same show ?thesis by auto
next
  case (OpClear now)
  assume "config_ok m"
  then show ?thesis using OpClear
    by (simp add: memory_clear_def memory_ok_def config_ok_def total_tokens_def message_tokens_def summary_tokens_def)
qed (auto simp: on_facts_def facts_update_ok config_ok_def)

text \<open>
  C32. Conversation memory is bounded: whatever is added, compacted and recorded, after every operation
  there are at most \<open>max_messages\<close> messages within \<open>max_tokens\<close> tokens and at most \<open>max_summaries\<close>
  summaries; messages and summaries together stay within one and a half times \<open>max_tokens\<close>.
\<close>

theorem memory_bounded:
  assumes "0 \<le> max_messages m" "0 \<le> max_tokens m" "0 < max_summaries m"
    and "cv_messages m = []" "summaries m = []"
  shows "let m' = fold run_op ops m
    in int (length (cv_messages m')) \<le> max_messages m' \<and> message_tokens m' \<le> max_tokens m' \<and>
       int (length (summaries m')) \<le> max_summaries m' \<and> 2 * total_tokens m' \<le> 3 * max_tokens m'"
proof -
  have start: "config_ok m \<and> memory_ok m"
    using assms by (simp add: config_ok_def memory_ok_def total_tokens_def message_tokens_def summary_tokens_def)
  have "config_ok n \<and> memory_ok n \<Longrightarrow> memory_ok (fold run_op ops n)" for n
    by (induction ops arbitrary: n) (auto dest: run_op_ok)
  with start have "memory_ok (fold run_op ops m)" by blast
  then show ?thesis by (auto simp: memory_ok_def Let_def)
qed

section \<open>Durable facts\<close>

lemma facts_add_summary [simp]: "cv_facts (add_summary xs m) = cv_facts m"
  using add_summary_spec(1) [of m xs] by (simp add: same_config_def)

lemma facts_trim: "trim_loop m xs = (m', ys) \<Longrightarrow> cv_facts m' = cv_facts m"
proof -
  assume "trim_loop m xs = (m', ys)"
  from trim_loop_spec [OF this] have e: "m' = m\<lparr>cv_messages := cv_messages m'\<rparr>" by blast
  show ?thesis by (subst e) simp
qed

lemma facts_summarize [simp]: "cv_facts (summarize_and_trim m) = cv_facts m"
  by (auto simp: summarize_and_trim_def split: prod.splits dest!: facts_trim)

lemma run_op_facts:
  "cv_facts (run_op p m) =
     (case p of
        OpFinding now s \<Rightarrow> with_finding now s (cv_facts m) | OpNumber now n v \<Rightarrow> with_number now n v (cv_facts m)
      | OpDate now n v \<Rightarrow> with_date now n v (cv_facts m) | OpQuestion now q \<Rightarrow> with_open_question now q (cv_facts m)
      | OpResolve now q \<Rightarrow> resolve_question now q (cv_facts m) | OpClear now \<Rightarrow> no_facts now | _ \<Rightarrow> cv_facts m)"
  by (cases p) (simp_all add: memory_add_def memory_compact_def memory_clear_def on_facts_def Let_def split: prod.splits)

lemma finding_kept: "f \<in> set (findings (cv_facts m)) \<Longrightarrow> \<forall>now. p \<noteq> OpClear now \<Longrightarrow> f \<in> set (findings (cv_facts (run_op p m)))"
  by (cases p)
    (auto simp: run_op_facts with_finding_def with_number_def with_date_def with_open_question_def resolve_question_def
      simp del: run_op.simps)

lemma findings_kept:
  "f \<in> set (findings (cv_facts m)) \<Longrightarrow> \<forall>p\<in>set ops. \<forall>now. p \<noteq> OpClear now \<Longrightarrow> f \<in> set (findings (cv_facts (fold run_op ops m)))"
  by (induction ops arbitrary: m) (auto intro: finding_kept)

lemma join_member: "x \<in> set xs \<Longrightarrow> \<exists>pre post. join sep xs = pre @ x @ post"
proof (induction sep xs rule: join.induct)
  case (3 sep a b xs)
  show ?case
  proof (cases "x = a")
    case True
    then show ?thesis by (intro exI [of _ "[]"] exI [of _ "sep @ join sep (b # xs)"]) simp
  next
    case False
    with "3.prems" "3.IH" obtain pre post where "join sep (b # xs) = pre @ x @ post" by auto
    then show ?thesis by (intro exI [of _ "a @ sep @ pre"] exI [of _ post]) simp
  qed
qed (auto intro: exI [of _ "[]"])

text \<open>
  Recorded findings survive: however much is added, summarised and compacted afterwards, as long as
  the memory is not cleared, the first message for the model is a system message that contains the finding.
\<close>

theorem findings_survive:
  assumes "strip s \<noteq> []" "\<forall>p\<in>set ops. \<forall>now. p \<noteq> OpClear now"
  shows "\<exists>pre post. hd (get_messages show_value include_system (fold run_op ops (run_op (OpFinding now s) m))) =
    [(''role'', PStr ''system''), (''content'', PStr (pre @ strip s @ post))]"
proof -
  let ?m = "fold run_op ops (run_op (OpFinding now s) m)"
  have "strip s \<in> set (findings (cv_facts (run_op (OpFinding now s) m)))"
    using assms(1) by (auto simp: run_op_facts with_finding_def simp del: run_op.simps)
  from findings_kept [OF this assms(2)] have f: "strip s \<in> set (findings (cv_facts ?m))" .
  then have ne: "\<not> facts_empty (cv_facts ?m)" by (auto simp: facts_empty_def)
  have "''  - '' @ strip s \<in> set (bullet_block ''Findings:'' (findings (cv_facts ?m)))"
    using f by (auto simp: bullet_block_def)
  then have "''  - '' @ strip s \<in> set ([t] @ bullet_block ''Findings:'' (findings (cv_facts ?m)) @ rest)" for t rest by simp
  from join_member [OF this] obtain pre post
    where "render_facts show_value (cv_facts ?m) = pre @ (''  - '' @ strip s) @ post" unfolding render_facts_def by blast
  then show ?thesis using ne
    by (intro exI [of _ "pre @ ''  - ''"] exI [of _ post]) (simp add: get_messages_def)
qed

section \<open>Recovery\<close>

lemma messages_round_trip:
  "\<forall>m\<in>set ms. from_iso (to_iso (cm_timestamp m)) = Some (cm_timestamp m) \<Longrightarrow> messages_from_manifest from_iso now (map (message_to_manifest to_iso) ms) = Inr ms"
  by (induction ms) (simp_all add: message_to_manifest_def message_from_manifest_def read_timestamp_def rbind_def)

text \<open>
  A memory survives a crash: reading the manifest of a memory gives the memory back, with the token
  counter supplied again, when timestamps survive their ISO form.
\<close>

theorem manifest_round_trip:
  assumes "\<forall>t \<in> insert (updated_at (cv_facts m)) (cm_timestamp ` set (cv_messages m)). from_iso (to_iso t) = Some t"
  shows "memory_from_manifest from_iso later (memory_to_manifest to_iso now m) counter = Inr (m\<lparr>token_counter := counter\<rparr>)"
  using assms
  by (simp add: memory_from_manifest_def memory_to_manifest_def messages_round_trip facts_from_manifest_def
      facts_to_manifest_def read_timestamp_def config_value_def or_empty_def rbind_def)

section \<open>Examples\<close>

definition sample_message :: "string \<Rightarrow> string \<Rightarrow> conv_message" where
  "sample_message role text =
     \<lparr>cm_role = role, cm_content = text, cm_timestamp = 0, cm_tool_call_id = None, cm_tool_name = None, cm_metadata = []\<rparr>"

definition small_memory :: conv_memory where
  "small_memory = (new_memory 0)\<lparr>max_messages := 4, max_tokens := 40\<rparr>"

definition chatter :: "mem_op list" where
  "chatter = map (\<lambda>r. OpAdd (sample_message r ''aaaabbbbccccddddeeee'')) [''system'', ''user'', ''user'', ''user'', ''user'', ''user'']"

theorem memory_bounded_witness:
  "let m' = fold run_op chatter small_memory
   in summaries m' \<noteq> [] \<and> int (length (cv_messages m')) \<le> 4 \<and> 2 * total_tokens m' \<le> 120"
proof -
  have "summaries (fold run_op chatter small_memory) \<noteq> []" by code_simp
  moreover have "max_messages (fold run_op chatter small_memory) = 4" "max_tokens (fold run_op chatter small_memory) = 40"
    by code_simp+
  ultimately show ?thesis
    using memory_bounded [of small_memory chatter] by (simp add: Let_def small_memory_def new_memory_def)
qed

theorem findings_survive_witness:
  "\<exists>pre post. hd (get_messages (\<lambda>_. []) True (fold run_op chatter (run_op (OpFinding 1 ''root cause: dns'') small_memory))) =
     [(''role'', PStr ''system''), (''content'', PStr (pre @ ''root cause: dns'' @ post))]"
proof -
  have s: "strip ''root cause: dns'' = ''root cause: dns''" by code_simp
  have "\<forall>p\<in>set chatter. \<forall>now. p \<noteq> OpClear now" by (auto simp: chatter_def)
  from findings_survive [of "''root cause: dns''" chatter "\<lambda>_. []" True 1 small_memory] this s show ?thesis by simp
qed

theorem manifest_round_trip_witness:
  "memory_from_manifest (\<lambda>_. Some 0) 5 (memory_to_manifest (\<lambda>_. ''t'') 3
      (small_memory\<lparr>cv_messages := [sample_message ''user'' ''hi'']\<rparr>)) None =
     Inr (small_memory\<lparr>cv_messages := [sample_message ''user'' ''hi'']\<rparr>)"
  using manifest_round_trip [of "small_memory\<lparr>cv_messages := [sample_message ''user'' ''hi'']\<rparr>" "\<lambda>_. Some 0" "\<lambda>_. ''t''" 5 3 None]
  by (simp add: small_memory_def new_memory_def no_facts_def sample_message_def)

text \<open>A trim may leave more than \<open>max_tokens\<close> tokens: the summary of the messages removed last is added after
  the budget was enforced. With \<open>max_summaries\<close> 0 nothing is dropped, for \<open>[-0:]\<close> is the whole list.\<close>

lemma trim_exceeds_budget:
  "total_tokens (fold run_op [OpAdd (sample_message ''user'' ''hello there!''),
     OpAdd (sample_message ''user'' (replicate 152 (CHR ''x'')))] small_memory) > max_tokens small_memory"
  by code_simp

lemma zero_summaries_kept: "tail_slice 0 xs = xs"
  by (simp add: tail_slice_def)

end
