(* ===== verification/Workflow_Executor.thy ===== *)
theory Workflow_Executor
  imports Pipeline Dag_Executor_Runs "HOL-Library.Sublist"
begin

text \<open>
  \<open>WorkflowExecutor\<close> of \<open>engine/executor.py\<close>: the entry point that runs a step, a list of steps, a
  pipeline or a graph with a global timeout, a history, event listeners and clean-up.

  The executors it calls, the listeners, the clock and the deadline are fields of an environment;
  \<^const>\<open>None\<close> stands for a run that never returns. Another coroutine may call \<open>cancel\<close> during
  every await. The arguments of \<open>execute\<close> are untyped in the code, so foreign objects are values of
  their types here; the elements of a pipeline have the types their constructors declare. The set of
  listeners is not changed by a listener, and the context handed over is a root context.
\<close>

section \<open>Configuration, history and listeners\<close>

datatype executor_event =
  EvWorkflowStart | EvWorkflowEnd | EvStepStart | EvStepEnd | EvError | EvCancelled | EvCheckpoint

record execution_config =
  xc_global_timeout :: "rat option"
  xc_step_timeout :: rat
  xc_max_global_retries :: int
  xc_enable_checkpoints :: bool
  xc_checkpoint_interval :: int
  xc_max_memory_mb :: "int option"
  xc_max_variables :: int
  xc_cleanup :: bool
  xc_debug_mode :: bool
  xc_trace_steps :: bool

definition default_config :: execution_config where
  "default_config =
     \<lparr>xc_global_timeout = None, xc_step_timeout = 300, xc_max_global_retries = 0, xc_enable_checkpoints = False,
      xc_checkpoint_interval = 5, xc_max_memory_mb = None, xc_max_variables = 1000, xc_cleanup = True,
      xc_debug_mode = False, xc_trace_steps = False\<rparr>"

definition check_config :: "(rat \<Rightarrow> string) \<Rightarrow> execution_config \<Rightarrow> exn + execution_config" where
  "check_config repr c =
     (if xc_step_timeout c \<le> 0
      then Inl (value_error (''step_default_timeout_seconds must be > 0, got '' @ repr (xc_step_timeout c)))
      else Inr c)"

record history_entry =
  he_timestamp :: string
  he_event :: string
  he_step :: "name option"
  he_data :: pydict

definition get_step_history :: "name \<Rightarrow> history_entry list \<Rightarrow> history_entry list" where
  "get_step_history n hs = filter (\<lambda>e. he_step e = Some n) hs"

definition get_errors :: "history_entry list \<Rightarrow> history_entry list" where
  "get_errors hs = filter (\<lambda>e. he_event e = ''error'') hs"

datatype listener_fate = ListenerReturns | ListenerRaises | ListenerCancelled

record 'w wx_env =
  we_listener :: "nat \<Rightarrow> executor_event \<Rightarrow> pydict \<Rightarrow> 'w \<Rightarrow> listener_fate \<times> 'w"
  we_step :: "'w step_definition \<Rightarrow> exec_context \<Rightarrow> 'w \<Rightarrow> ((raised + step_result) \<times> exec_context \<times> 'w) option"
  we_pipeline :: "'w pipeline \<Rightarrow> exec_context \<Rightarrow> 'w \<Rightarrow> ((exn + workflow_result) \<times> exec_context \<times> 'w) option"
  we_dag :: "'w dag \<Rightarrow> pyval \<Rightarrow> exec_context \<Rightarrow> 'w \<Rightarrow> ((exn + workflow_result) \<times> exec_context \<times> 'w) option"
  we_cancel_during :: "'w \<Rightarrow> 'w \<Rightarrow> bool"
  we_deadline :: "rat \<Rightarrow> 'w \<Rightarrow> 'w \<Rightarrow> bool"
  we_new_context :: "'w \<Rightarrow> exec_context"
  we_now :: "'w \<Rightarrow> instant"
  we_stamp :: "'w \<Rightarrow> string"
  we_repr :: "rat \<Rightarrow> string"
  we_traceback :: "exn \<Rightarrow> string"
  we_invalid_result :: string

text \<open>The executor; \<open>wx_log\<close> is the log of the calls that listeners received. \<open>wx_context\<close> is the context
  of the run and \<open>wx_current\<close> tells whether \<open>_current_ctx\<close> refers to it.\<close>

record 'w wx =
  wx_config :: execution_config
  wx_listeners :: "nat list"
  wx_history :: "history_entry list"
  wx_cancelled :: bool
  wx_current :: bool
  wx_context :: exec_context
  wx_result :: workflow_result
  wx_started :: instant
  wx_log :: "(nat \<times> executor_event \<times> pydict) list"
  wx_world :: 'w

definition add_listener :: "nat \<Rightarrow> 'w wx \<Rightarrow> 'w wx" where
  "add_listener l st = st\<lparr>wx_listeners := wx_listeners st @ [l]\<rparr>"

definition remove_listener :: "nat \<Rightarrow> 'w wx \<Rightarrow> 'w wx" where
  "remove_listener l st = (if l \<in> set (wx_listeners st) then st\<lparr>wx_listeners := remove1 l (wx_listeners st)\<rparr> else st)"

definition wx_record :: "'w wx_env \<Rightarrow> string \<Rightarrow> name option \<Rightarrow> pydict \<Rightarrow> 'w wx \<Rightarrow> 'w wx" where
  "wx_record env ev n d st =
     st\<lparr>wx_history := wx_history st @
          [\<lparr>he_timestamp = we_stamp env (wx_world st), he_event = ev, he_step = n, he_data = d\<rparr>]\<rparr>"

text \<open>The end of an await that began at \<open>w0\<close>.\<close>

definition wx_resume :: "'w wx_env \<Rightarrow> 'w \<Rightarrow> 'w wx \<Rightarrow> 'w wx" where
  "wx_resume env w0 st = (if we_cancel_during env w0 (wx_world st) then st\<lparr>wx_cancelled := True\<rparr> else st)"

text \<open>\<open>_emit\<close>: \<^const>\<open>True\<close> when a cancellation is raised, other exceptions are logged.\<close>

fun emit_to :: "'w wx_env \<Rightarrow> nat list \<Rightarrow> executor_event \<Rightarrow> pydict \<Rightarrow> 'w wx \<Rightarrow> bool \<times> 'w wx" where
  "emit_to env [] ev d st = (False, st)"
| "emit_to env (l # ls) ev d st =
     (case we_listener env l ev d (wx_world st) of (fate, w1) \<Rightarrow>
        let st1 = wx_resume env (wx_world st) (st\<lparr>wx_log := wx_log st @ [(l, ev, d)], wx_world := w1\<rparr>)
        in if fate = ListenerCancelled then (True, st1) else emit_to env ls ev d st1)"

definition emit_event :: "'w wx_env \<Rightarrow> executor_event \<Rightarrow> pydict \<Rightarrow> 'w wx \<Rightarrow> bool \<times> 'w wx" where
  "emit_event env ev d st = emit_to env (wx_listeners st) ev d st"

section \<open>Validation of the arguments\<close>

datatype 'w list_item = ItemStep "'w step_definition" | ItemOther name

datatype 'w workflow =
    WfStep "'w step_definition"
  | WfPipeline "'w pipeline"
  | WfDag "'w dag"
  | WfList "'w list_item list"
  | WfOther name

datatype context_arg = NoContext | GivenContext exec_context | OtherContext name
datatype vars_arg = VarsMapping pydict | VarsOther name

datatype wx_error = InvalidGraph dag_error | Threw exn

definition type_error :: "string \<Rightarrow> wx_error" where
  "type_error m = Threw (exception [''TypeError''] m)"

definition get_workflow_name :: "'w workflow \<Rightarrow> string" where
  "get_workflow_name flow =
     (case flow of
        WfDag g \<Rightarrow> ''dag:'' @ dag_name g
      | WfStep sd \<Rightarrow> ''step:'' @ sd_name sd
      | WfPipeline pl \<Rightarrow> pl_name pl
      | WfList xs \<Rightarrow> ''sequence:'' @ show_nat (length xs) @ ''_steps''
      | WfOther t \<Rightarrow> ''unknown'')"

definition validate_parallel_group :: "'w parallel_group \<Rightarrow> string \<Rightarrow> exn + unit" where
  "validate_parallel_group g path =
     (if pg_steps g = [] then Inl (value_error (path @ '' parallel group has no steps'')) else Inr ())"

fun validate_pipeline_element :: "'w pipeline_element \<Rightarrow> string \<Rightarrow> exn + unit"
and validate_children :: "string \<Rightarrow> nat \<Rightarrow> 'w pipeline_element list \<Rightarrow> exn + unit" where
  "validate_pipeline_element (ElemStep sd) path = Inr ()"
| "validate_pipeline_element (ElemGroup g) path = validate_parallel_group g path"
| "validate_pipeline_element (ElemBranch n c ts es) path =
     (case validate_children (path @ ''.then['') 0 ts of
        Inl x \<Rightarrow> Inl x
      | Inr u \<Rightarrow> validate_children (path @ ''.else['') 0 es)"
| "validate_children path i [] = Inr ()"
| "validate_children path i (e # es) =
     (case validate_pipeline_element e (path @ show_nat i @ '']'') of
        Inl x \<Rightarrow> Inl x
      | Inr u \<Rightarrow> validate_children path (Suc i) es)"

fun validate_elements :: "nat \<Rightarrow> 'w pipeline_element list \<Rightarrow> exn + unit" where
  "validate_elements i [] = Inr ()"
| "validate_elements i (e # es) =
     rbind (validate_pipeline_element e (''Pipeline element '' @ show_nat i)) (\<lambda>_. validate_elements (Suc i) es)"

definition validate_pipeline_definition :: "'w pipeline \<Rightarrow> exn + unit" where
  "validate_pipeline_definition pl =
     (let quoted = ''Pipeline '' @ [CHR 39] @ pl_name pl @ [CHR 39]
      in if elements pl = [] then Inl (value_error (quoted @ '' has no elements''))
         else rbind (validate_elements 0 (elements pl))
           (\<lambda>_. if total_steps pl = 0 then Inl (value_error (quoted @ '' has no executable steps'')) else Inr ()))"

fun first_other :: "nat \<Rightarrow> 'w list_item list \<Rightarrow> (nat \<times> name) option" where
  "first_other i [] = None"
| "first_other i (ItemStep sd # xs) = first_other (Suc i) xs"
| "first_other i (ItemOther t # xs) = Some (i, t)"

definition validate_workflow_definition :: "'w workflow \<Rightarrow> wx_error + unit" where
  "validate_workflow_definition flow =
     (case flow of
        WfDag g \<Rightarrow> (case validate g of Inl e \<Rightarrow> Inl (InvalidGraph e) | Inr u \<Rightarrow> Inr ())
      | WfStep sd \<Rightarrow> Inr ()
      | WfPipeline pl \<Rightarrow> (case validate_pipeline_definition pl of Inl e \<Rightarrow> Inl (Threw e) | Inr u \<Rightarrow> Inr ())
      | WfList xs \<Rightarrow>
          (case first_other 0 xs of
             None \<Rightarrow> Inr ()
           | Some (i, t) \<Rightarrow>
               Inl (type_error (''workflow step list items must be StepDefinition instances; item '' @ show_nat i @ '' is '' @ t)))
      | WfOther t \<Rightarrow>
          Inl (type_error (''workflow must be a StepDefinition, Pipeline, DAG, or list of StepDefinition instances, got '' @ t)))"

definition validate_execute_inputs :: "'w workflow \<Rightarrow> context_arg \<Rightarrow> vars_arg \<Rightarrow> wx_error + pydict" where
  "validate_execute_inputs flow ctx vars =
     (case ctx of
        OtherContext t \<Rightarrow> Inl (type_error (''ctx must be an ExecutionContext, got '' @ t))
      | _ \<Rightarrow>
          (case vars of
             VarsOther t \<Rightarrow> Inl (type_error (''initial_vars must be a mapping, got '' @ t))
           | VarsMapping d \<Rightarrow> rbind (validate_workflow_definition flow) (\<lambda>_. Inr d)))"

section \<open>Running a step\<close>

definition apply_default_timeout :: "'w wx_env \<Rightarrow> 'w wx \<Rightarrow> 'w step_definition \<Rightarrow> exn + 'w step_definition" where
  "apply_default_timeout env st sd =
     (if timeout_seconds sd = None
      then (case with_timeout (xc_step_timeout (wx_config st)) sd of
              Inl (BadTimeout t) \<Rightarrow> Inl (value_error (''timeout_seconds must be > 0, got '' @ we_repr env t))
            | Inr sd' \<Rightarrow> Inr sd')
      else Inr sd)"

definition opt_float :: "rat option \<Rightarrow> pyval" where
  "opt_float x = (case x of None \<Rightarrow> PNone | Some r \<Rightarrow> PFloat r)"

definition warn_context_size :: "'w wx \<Rightarrow> step_result \<Rightarrow> step_result" where
  "warn_context_size st r =
     (let lim = xc_max_variables (wx_config st); n = length (all_variables (wx_context st))
      in if lim \<noteq> 0 \<and> int n > lim
         then set_meta ''warning'' (PStr (''Context has '' @ show_nat n @ '' variables (limit: '' @ show_int lim @ '')'')) r
         else r)"

definition execute_step :: "'w wx_env \<Rightarrow> 'w step_definition \<Rightarrow> 'w wx \<Rightarrow> ((exn + step_result) \<times> 'w wx) option" where
  "execute_step env sd st =
     (case emit_event env EvStepStart [(''step'', PStr (sd_name sd))] (wx_record env ''step_start'' (Some (sd_name sd)) [] st) of
        (True, st1) \<Rightarrow> Some (Inl cancelled_error, st1)
      | (False, st1) \<Rightarrow>
          (case apply_default_timeout env st1 sd of
             Inl e \<Rightarrow> Some (Inl e, st1)
           | Inr sd' \<Rightarrow>
               (case we_step env sd' (wx_context st1) (wx_world st1) of
                  None \<Rightarrow> None
                | Some (out, ctx2, w2) \<Rightarrow>
                    let st2 = wx_resume env (wx_world st1) (st1\<lparr>wx_context := ctx2, wx_world := w2\<rparr>)
                    in (case out of
                          Inl x \<Rightarrow> Some (Inl (exn_of x), st2)
                        | Inr r \<Rightarrow>
                            let st3 = wx_record env ''step_end'' (Some (sd_name sd))
                                  [(''status'', PStr (step_status_value (status r))), (''duration_ms'', opt_float (duration_ms r))] st2
                            in (case emit_event env EvStepEnd
                                     [(''step'', PStr (sd_name sd)), (''status'', PStr (step_status_value (status r)))] st3 of
                                  (True, st4) \<Rightarrow> Some (Inl cancelled_error, st4)
                                | (False, st4) \<Rightarrow> Some (Inr (warn_context_size st4 r), st4))))))"

section \<open>Dispatch\<close>

definition on_wx_result :: "(workflow_result \<Rightarrow> workflow_result) \<Rightarrow> 'w wx \<Rightarrow> 'w wx" where
  "on_wx_result f st = st\<lparr>wx_result := f (wx_result st)\<rparr>"

text \<open>The sequence of steps; the \<open>else\<close> clause of the loop runs only without a \<open>break\<close>.\<close>

fun run_sequence :: "'w wx_env \<Rightarrow> 'w step_definition list \<Rightarrow> 'w wx \<Rightarrow> ((exn + unit) \<times> 'w wx) option" where
  "run_sequence env [] st = Some (Inr (), on_wx_result (\<lambda>r. r\<lparr>overall_status := SUCCESS\<rparr>) st)"
| "run_sequence env (sd # sds) st =
     (if wx_cancelled st then Some (Inr (), st)
      else case execute_step env sd st of
             None \<Rightarrow> None
           | Some (Inl e, st1) \<Rightarrow> Some (Inl e, st1)
           | Some (Inr r, st1) \<Rightarrow>
               let st2 = on_wx_result (add_step r) st1
               in if is_failed r then Some (Inr (), on_wx_result (\<lambda>q. q\<lparr>overall_status := FAILED\<rparr>) st2)
                  else run_sequence env sds st2)"

text \<open>Take the steps, status and output of another executor's result.\<close>

definition take_over ::
  "'w wx_env \<Rightarrow> 'w wx \<Rightarrow> ((exn + workflow_result) \<times> exec_context \<times> 'w) option \<Rightarrow> ((exn + unit) \<times> 'w wx) option" where
  "take_over env st res =
     (case res of
        None \<Rightarrow> None
      | Some (out, ctx1, w1) \<Rightarrow>
          let st1 = wx_resume env (wx_world st) (st\<lparr>wx_context := ctx1, wx_world := w1\<rparr>)
          in (case out of
                Inl e \<Rightarrow> Some (Inl e, st1)
              | Inr wr \<Rightarrow>
                  Some (Inr (), on_wx_result (\<lambda>r. r\<lparr>steps_of := steps_of wr, overall_status := overall_status wr,
                                   final_output := final_output wr\<rparr>) st1)))"

definition items_steps :: "'w list_item list \<Rightarrow> 'w step_definition list" where
  "items_steps xs = concat (map (\<lambda>x. case x of ItemStep sd \<Rightarrow> [sd] | ItemOther t \<Rightarrow> []) xs)"

definition run_workflow :: "'w wx_env \<Rightarrow> 'w workflow \<Rightarrow> pyval option \<Rightarrow> 'w wx \<Rightarrow> ((exn + unit) \<times> 'w wx) option" where
  "run_workflow env flow mc st =
     (case flow of
        WfDag g \<Rightarrow>
          take_over env st (we_dag env g (case mc of None \<Rightarrow> PInt 10 | Some v \<Rightarrow> v) (wx_context st) (wx_world st))
      | WfStep sd \<Rightarrow>
          (case execute_step env sd st of
             None \<Rightarrow> None
           | Some (Inl e, st1) \<Rightarrow> Some (Inl e, st1)
           | Some (Inr r, st1) \<Rightarrow>
               Some (Inr (), on_wx_result (\<lambda>q. (add_step r q)\<lparr>overall_status := if is_success r then SUCCESS else FAILED\<rparr>) st1))
      | WfPipeline pl \<Rightarrow> take_over env st (we_pipeline env pl (wx_context st) (wx_world st))
      | WfList xs \<Rightarrow> run_sequence env (items_steps xs) st
      | WfOther t \<Rightarrow> Some (Inr (), st))"

definition execute_workflow :: "'w wx_env \<Rightarrow> 'w workflow \<Rightarrow> pyval option \<Rightarrow> 'w wx \<Rightarrow> ((exn + unit) \<times> 'w wx) option" where
  "execute_workflow env flow mc st =
     map_option (\<lambda>(out, st1). case out of
         Inl e \<Rightarrow> (Inl e, st1)
       | Inr u \<Rightarrow> (Inr (), on_wx_result (\<lambda>r. r\<lparr>final_output := all_variables (wx_context st1)\<rparr>) st1))
       (run_workflow env flow mc st)"

section \<open>The run\<close>

text \<open>\<open>asyncio.wait_for\<close>: a timeout of zero or less cancels the coroutine before it starts; otherwise
  the cancellation at the deadline becomes a \<open>TimeoutError\<close>, unless the coroutine swallows it.\<close>

definition with_deadline :: "'w wx_env \<Rightarrow> 'w workflow \<Rightarrow> pyval option \<Rightarrow> 'w wx \<Rightarrow> ((exn + unit) \<times> 'w wx) option" where
  "with_deadline env flow mc st =
     (case xc_global_timeout (wx_config st) of
        None \<Rightarrow> execute_workflow env flow mc st
      | Some t \<Rightarrow>
          if t = 0 then execute_workflow env flow mc st
          else if t < 0 then Some (Inl timeout_error, st)
          else map_option (\<lambda>(out, st1). case out of
                   Inl e \<Rightarrow> (Inl (if isinstance_of e [''CancelledError''] \<and> we_deadline env t (wx_world st) (wx_world st1)
                                 then timeout_error else e), st1)
                 | Inr u \<Rightarrow> (Inr (), st1)) (execute_workflow env flow mc st))"

fun seed_variables :: "pydict \<Rightarrow> exec_context \<Rightarrow> exn option \<times> exec_context" where
  "seed_variables [] ctx = (None, ctx)"
| "seed_variables ((k, v) # kvs) ctx =
     (case set_sync k v ctx of Inl e \<Rightarrow> (Some (exn_of (ctx_raised e)), ctx) | Inr ctx1 \<Rightarrow> seed_variables kvs ctx1)"

definition inject_services :: "exec_context \<Rightarrow> exec_context" where
  "inject_services = on_frame (\<lambda>f. f\<lparr>services :=
     register_singleton ''ToolRegistry'' (PObject ''tools'')
       (register_singleton ''SmartModelRouter'' (PObject ''router'') (services f))\<rparr>)"

definition begin_run :: "'w wx_env \<Rightarrow> 'w workflow \<Rightarrow> context_arg \<Rightarrow> pydict \<Rightarrow> 'w wx \<Rightarrow> (exn + unit) \<times> 'w wx" where
  "begin_run env flow ctx vars st =
     (let c0 = (case ctx of GivenContext c \<Rightarrow> c | _ \<Rightarrow> we_new_context env (wx_world st));
          st0 = st\<lparr>wx_context := c0, wx_current := True, wx_cancelled := False\<rparr>
      in case seed_variables vars c0 of
           (Some e, c1) \<Rightarrow> (Inl e, st0\<lparr>wx_context := c1\<rparr>)
         | (None, c1) \<Rightarrow>
             let st1 = st0\<lparr>wx_context := inject_services c1\<rparr>; name = get_workflow_name flow
             in if name = [] \<or> fr_workflow_id (hd c0) = []
                then (Inl (exception [''ValidationError'', ''ValueError''] (we_invalid_result env)), st1)
                else
                  let st2 = st1\<lparr>wx_started := we_now env (wx_world st1),
                        wx_result := \<lparr>workflow_id = fr_workflow_id (hd c0), workflow_name = name, steps_of = [],
                          overall_status = RUNNING, wf_end_time = None, final_output = [], wf_metadata = []\<rparr>\<rparr>
                  in (case emit_event env EvWorkflowStart [(''workflow'', PStr name)]
                         (wx_record env ''workflow_start'' None [(''name'', PStr name)] st2) of
                        (True, st3) \<Rightarrow> (Inl cancelled_error, st3)
                      | (False, st3) \<Rightarrow> (Inr (), st3)))"

definition end_data :: "'w wx \<Rightarrow> pydict" where
  "end_data st =
     [(''status'', PStr (step_status_value (overall_status (wx_result st)))),
      (''duration_ms'', opt_float (map_option (\<lambda>e. (e - wx_started st) * 1000) (wf_end_time (wx_result st))))]"

definition mark_ended :: "'w wx_env \<Rightarrow> bool \<Rightarrow> 'w wx \<Rightarrow> 'w wx" where
  "mark_ended env ok st =
     on_wx_result (\<lambda>r. set_wf_meta ''history_entries'' (PInt (int (length (wx_history st))))
       (wf_mark_complete ok (we_now env (wx_world st)) r)) st"

definition record_end :: "'w wx_env \<Rightarrow> 'w wx \<Rightarrow> 'w wx" where
  "record_end env st = wx_record env ''workflow_end'' None [(''status'', PStr (step_status_value (overall_status (wx_result st))))] st"

definition clean_up :: "'w wx \<Rightarrow> 'w wx" where
  "clean_up st = (if xc_cleanup (wx_config st) then st\<lparr>wx_current := False\<rparr> else st)"

definition conclude :: "'w wx_env \<Rightarrow> 'w wx \<Rightarrow> (exn + workflow_result) \<times> 'w wx" where
  "conclude env st =
     (let st1 = record_end env (mark_ended env (overall_status (wx_result st) = SUCCESS) st)
      in case emit_event env EvWorkflowEnd (end_data st1) st1 of
           (True, st2) \<Rightarrow> (Inl cancelled_error, st2)
         | (False, st2) \<Rightarrow> (Inr (wx_result st2), clean_up st2))"

definition fail_with :: "(string \<times> pyval) list \<Rightarrow> 'w wx \<Rightarrow> 'w wx" where
  "fail_with kvs = on_wx_result (\<lambda>r. fold (\<lambda>(k, v). set_wf_meta k v) kvs (r\<lparr>overall_status := FAILED\<rparr>))"

definition timed_out :: "'w wx_env \<Rightarrow> 'w wx \<Rightarrow> 'w wx" where
  "timed_out env st =
     wx_record env ''error'' None [(''type'', PStr ''timeout'')]
       (fail_with [(''error'', PStr (''Global timeout after '' @
            (case xc_global_timeout (wx_config st) of None \<Rightarrow> ''None'' | Some t \<Rightarrow> we_repr env t) @ ''s'')),
          (''error_type'', PStr ''timeout'')] st)"

text \<open>Both terminal events are sent even when the first is cancelled again.\<close>

definition was_cancelled :: "'w wx_env \<Rightarrow> 'w wx \<Rightarrow> 'w wx" where
  "was_cancelled env st =
     (let st1 = mark_ended env False (fail_with [(''cancelled'', PBool True)] st);
          st2 = clean_up (record_end env (wx_record env ''cancelled'' None [] st1));
          st3 = snd (emit_event env EvCancelled [] st2)
      in snd (emit_event env EvWorkflowEnd (end_data st3) st3))"

definition crashed :: "'w wx_env \<Rightarrow> exn \<Rightarrow> 'w wx \<Rightarrow> bool \<times> 'w wx" where
  "crashed env e st =
     emit_event env EvError [(''error'', PStr (exn_msg e))]
       (wx_record env ''error'' None [(''type'', PStr (exn_type_name e)), (''message'', PStr (exn_msg e))]
         (fail_with [(''error'', PStr (exn_msg e)), (''traceback'', PStr (we_traceback env e))] st))"

definition finish_execute :: "'w wx_env \<Rightarrow> (exn + unit) \<times> 'w wx \<Rightarrow> (exn + workflow_result) \<times> 'w wx" where
  "finish_execute env out =
     (case out of
        (Inr u, st) \<Rightarrow> conclude env st
      | (Inl e, st) \<Rightarrow>
          if isinstance_of e [''TimeoutError''] then conclude env (timed_out env st)
          else if isinstance_of e [''CancelledError''] then (Inl e, was_cancelled env st)
          else if isinstance_of e [''Exception'']
          then (case crashed env e st of (True, st1) \<Rightarrow> (Inl cancelled_error, st1) | (False, st1) \<Rightarrow> conclude env st1)
          else (Inl e, st))"

definition lift_exn :: "exn + 'a \<Rightarrow> wx_error + 'a" where
  "lift_exn r = (case r of Inl e \<Rightarrow> Inl (Threw e) | Inr a \<Rightarrow> Inr a)"

definition execute_any ::
  "'w wx_env \<Rightarrow> 'w workflow \<Rightarrow> context_arg \<Rightarrow> vars_arg \<Rightarrow> pyval option \<Rightarrow> 'w wx \<Rightarrow>
    ((wx_error + workflow_result) \<times> 'w wx) option" where
  "execute_any env flow ctx vars mc st =
     (case validate_execute_inputs flow ctx vars of
        Inl e \<Rightarrow> Some (Inl e, st)
      | Inr d \<Rightarrow>
          (case begin_run env flow ctx d st of
             (Inl e, st1) \<Rightarrow> Some (Inl (Threw e), st1)
           | (Inr u, st1) \<Rightarrow>
               map_option (\<lambda>o1. case finish_execute env o1 of (r, st2) \<Rightarrow> (lift_exn r, st2)) (with_deadline env flow mc st1)))"

definition new_executor :: "execution_config \<Rightarrow> 'w \<Rightarrow> 'w wx" where
  "new_executor c w =
     \<lparr>wx_config = c, wx_listeners = [], wx_history = [], wx_cancelled = False, wx_current = False, wx_context = [],
      wx_result = \<lparr>workflow_id = [], workflow_name = [], steps_of = [], overall_status = PENDING, wf_end_time = None,
        final_output = [], wf_metadata = []\<rparr>,
      wx_started = 0, wx_log = [], wx_world = w\<rparr>"

text \<open>The module's \<open>run\<close>: the first step result, or a failed one when there is none.\<close>

definition run_module_step ::
  "'w wx_env \<Rightarrow> 'w step_definition \<Rightarrow> pydict \<Rightarrow> 'w wx \<Rightarrow> ((wx_error + step_result) \<times> 'w wx) option" where
  "run_module_step env sd vars st =
     map_option (\<lambda>(out, st1). (case out of
           Inl e \<Rightarrow> Inl e
         | Inr wr \<Rightarrow> Inr (case steps_of wr of
               r # rs \<Rightarrow> r
             | [] \<Rightarrow> (new_step_result (sd_name sd) FAILED (we_now env (wx_world st1)))\<lparr>error := Some ''No step result''\<rparr>), st1))
       (execute_any env (WfStep sd) NoContext (VarsMapping vars) None st)"

section \<open>What every part of a run keeps\<close>

definition extends :: "'w wx \<Rightarrow> 'w wx \<Rightarrow> bool" where
  "extends s t \<longleftrightarrow> wx_config t = wx_config s \<and> wx_listeners t = wx_listeners s \<and> wx_current t = wx_current s \<and>
     wx_started t = wx_started s \<and> prefix (wx_history s) (wx_history t) \<and> prefix (wx_log s) (wx_log t)"

lemma extends_refl [simp, intro]: "extends s s"
  by (simp add: extends_def)

lemma extends_trans [trans]: "extends s t \<Longrightarrow> extends t u \<Longrightarrow> extends s u"
  by (auto simp: extends_def)

lemma resume_result [simp]: "wx_result (wx_resume env w0 st) = wx_result st" "wx_history (wx_resume env w0 st) = wx_history st"
  "wx_listeners (wx_resume env w0 st) = wx_listeners st" "wx_log (wx_resume env w0 st) = wx_log st"
  "wx_config (wx_resume env w0 st) = wx_config st" "wx_current (wx_resume env w0 st) = wx_current st"
  "wx_started (wx_resume env w0 st) = wx_started st" "wx_context (wx_resume env w0 st) = wx_context st"
  by (simp_all add: wx_resume_def)

lemma record_fields [simp]:
  "wx_result (wx_record env ev n d st) = wx_result st" "wx_listeners (wx_record env ev n d st) = wx_listeners st"
  "wx_log (wx_record env ev n d st) = wx_log st" "wx_config (wx_record env ev n d st) = wx_config st"
  "wx_current (wx_record env ev n d st) = wx_current st" "wx_started (wx_record env ev n d st) = wx_started st"
  "extends st (wx_record env ev n d st)"
  by (simp_all add: wx_record_def extends_def)

lemma on_wx_result_fields [simp]:
  "wx_result (on_wx_result f st) = f (wx_result st)" "wx_listeners (on_wx_result f st) = wx_listeners st"
  "wx_log (on_wx_result f st) = wx_log st" "wx_config (on_wx_result f st) = wx_config st"
  "wx_current (on_wx_result f st) = wx_current st" "wx_started (on_wx_result f st) = wx_started st"
  "wx_history (on_wx_result f st) = wx_history st" "extends st (on_wx_result f st)"
  by (simp_all add: on_wx_result_def extends_def)

lemma emit_to_spec:
  "emit_to env ls ev d st = (c, st') \<Longrightarrow>
     extends st st' \<and> wx_result st' = wx_result st \<and> wx_history st' = wx_history st \<and> wx_context st' = wx_context st \<and>
     (\<not> c \<longrightarrow> wx_log st' = wx_log st @ map (\<lambda>l. (l, ev, d)) ls)"
proof (induction ls arbitrary: st)
  case (Cons l ls)
  obtain fate w1 where l: "we_listener env l ev d (wx_world st) = (fate, w1)" by fastforce
  let ?s = "wx_resume env (wx_world st) (st\<lparr>wx_log := wx_log st @ [(l, ev, d)], wx_world := w1\<rparr>)"
  have "extends st ?s" by (simp add: extends_def)
  with Cons.IH [of ?s] Cons.prems l show ?case
    by (auto simp: Let_def split: if_splits intro: extends_trans)
qed simp

lemma emit_spec:
  assumes "emit_event env ev d st = (c, st')"
  shows "extends st st'" "wx_result st' = wx_result st" "wx_history st' = wx_history st" "wx_context st' = wx_context st"
    "\<not> c \<Longrightarrow> wx_log st' = wx_log st @ map (\<lambda>l. (l, ev, d)) (wx_listeners st)"
  using emit_to_spec [OF assms [unfolded emit_event_def]] by auto

lemma execute_step_keeps:
  assumes "execute_step env sd st = Some (out, st')"
  shows "extends st st'" "wx_result st' = wx_result st"
proof -
  let ?r = "wx_record env ''step_start'' (Some (sd_name sd)) [] st"
  obtain c st1 where e: "emit_event env EvStepStart [(''step'', PStr (sd_name sd))] ?r = (c, st1)" by fastforce
  note e1 = emit_spec [OF e]
  have s1: "extends st st1" "wx_result st1 = wx_result st" using e1 extends_trans [OF record_fields(7) e1(1)] by simp_all
  have "extends st st' \<and> wx_result st' = wx_result st"
  proof (cases "c \<or> (\<exists>x. apply_default_timeout env st1 sd = Inl x)")
    case True
    with assms e s1 show ?thesis by (auto simp: execute_step_def split: bool.splits)
  next
    case False
    then obtain sd' where sd': "apply_default_timeout env st1 sd = Inr sd'" by (cases "apply_default_timeout env st1 sd") auto
    obtain r ctx2 w2 where w: "we_step env sd' (wx_context st1) (wx_world st1) = Some (r, ctx2, w2)"
      using assms e False sd' by (cases "we_step env sd' (wx_context st1) (wx_world st1)") (auto simp: execute_step_def)
    define st2 where "st2 = wx_resume env (wx_world st1) (st1\<lparr>wx_context := ctx2, wx_world := w2\<rparr>)"
    have s2: "extends st1 st2" "wx_result st2 = wx_result st1" by (simp_all add: st2_def extends_def)
    show ?thesis
    proof (cases r)
      case (Inl x)
      with assms e False sd' w s1 s2 show ?thesis by (auto simp: execute_step_def Let_def st2_def [symmetric] intro: extends_trans)
    next
      case (Inr q)
      define st3 where "st3 = wx_record env ''step_end'' (Some (sd_name sd))
         [(''status'', PStr (step_status_value (status q))), (''duration_ms'', opt_float (duration_ms q))] st2"
      obtain c4 st4 where e4: "emit_event env EvStepEnd
          [(''step'', PStr (sd_name sd)), (''status'', PStr (step_status_value (status q)))] st3 = (c4, st4)" by fastforce
      have "st' = st4" using assms e False sd' w Inr e4
        by (auto simp: execute_step_def Let_def st2_def [symmetric] st3_def [symmetric] split: bool.splits)
      moreover have "extends st2 st3" "wx_result st3 = wx_result st2" by (simp_all add: st3_def)
      ultimately show ?thesis using s1 s2 emit_spec(1, 2) [OF e4] by (metis extends_trans)
    qed
  qed
  then show "extends st st'" "wx_result st' = wx_result st" by simp_all
qed

section \<open>Sequences\<close>

text \<open>What a sequence adds to a result that was running.\<close>

definition ran_steps :: "nat \<Rightarrow> step_result list \<Rightarrow> exn + unit \<Rightarrow> workflow_result \<Rightarrow> workflow_result \<Rightarrow> bool" where
  "ran_steps n rs out r r' \<longleftrightarrow>
     steps_of r' = steps_of r @ rs \<and> wf_metadata r' = wf_metadata r \<and> length rs \<le> n \<and> \<not> some_failed (butlast rs) \<and>
     (out = Inr () \<longrightarrow>
        (overall_status r' = SUCCESS \<and> length rs = n \<and> \<not> some_failed rs) \<or>
        (overall_status r' = FAILED \<and> some_failed rs) \<or>
        (overall_status r' = RUNNING \<and> length rs < n \<and> \<not> some_failed rs))"

lemma run_sequence_spec:
  "run_sequence env sds st = Some (out, st') \<Longrightarrow> overall_status (wx_result st) = RUNNING \<Longrightarrow>
     extends st st' \<and> (\<exists>rs. ran_steps (length sds) rs out (wx_result st) (wx_result st'))"
proof (induction sds arbitrary: st)
  case Nil
  then show ?case by (auto simp: ran_steps_def)
next
  case (Cons sd sds)
  show ?case
  proof (cases "wx_cancelled st")
    case True
    with Cons.prems show ?thesis by (auto simp: ran_steps_def intro!: exI [of _ "[]"])
  next
    case False
    then obtain o1 st1 where x: "execute_step env sd st = Some (o1, st1)"
      using Cons.prems by (auto split: option.splits)
    note k = execute_step_keeps [OF x]
    show ?thesis
    proof (cases o1)
      case (Inl e)
      with Cons.prems False x k show ?thesis by (auto simp: ran_steps_def)
    next
      case (Inr r)
      let ?st2 = "on_wx_result (add_step r) st1"
      have e2: "extends st ?st2" using extends_trans [OF k(1) on_wx_result_fields(8)] .
      show ?thesis
      proof (cases "is_failed r")
        case True
        with Inr Cons.prems False x k e2 show ?thesis
          by (auto simp: ran_steps_def Let_def intro!: exI [of _ "[r]"] extends_trans [OF e2])
      next
        case ok: False
        have "run_sequence env sds ?st2 = Some (out, st')" using Inr Cons.prems(1) False x ok by (simp add: Let_def)
        from Cons.IH [OF this] ok Cons.prems(2) k(2) obtain rs where
          rs: "extends ?st2 st'" "ran_steps (length sds) rs out (wx_result ?st2) (wx_result st')" by auto
        then have "ran_steps (length (sd # sds)) (r # rs) out (wx_result st) (wx_result st')"
          using ok k(2) by (auto simp: ran_steps_def)
        with rs(1) e2 show ?thesis using extends_trans by blast
      qed
    qed
  qed
qed

section \<open>The executors below\<close>

text \<open>What the dispatcher relies on: the results another executor returns are final, and a success means
  that no step failed and the steps are complete.\<close>

locale sub_executor =
  fixes returned :: "'a \<Rightarrow> workflow_result \<Rightarrow> bool" and complete :: "'a \<Rightarrow> step_result list \<Rightarrow> bool"
  assumes settled: "returned a wr \<Longrightarrow> overall_status wr \<in> {SUCCESS, FAILED}"
    and honest: "returned a wr \<Longrightarrow> overall_status wr = SUCCESS \<Longrightarrow> \<not> some_failed (steps_of wr) \<and> complete a (steps_of wr)"
begin

lemma taken_over:
  assumes "take_over env st res = Some (out, st1)" "\<And>wr ctx w. res = Some (Inr wr, ctx, w) \<Longrightarrow> returned a wr"
    and "overall_status (wx_result st) = RUNNING"
  shows "extends st st1 \<and> wf_metadata (wx_result st1) = wf_metadata (wx_result st) \<and>
    (overall_status (wx_result st1) = SUCCESS \<longrightarrow> \<not> some_failed (steps_of (wx_result st1)) \<and> complete a (steps_of (wx_result st1)))"
proof -
  obtain o1 ctx w where res: "res = Some (o1, ctx, w)" using assms(1) by (auto simp: take_over_def split: option.splits)
  have e: "extends st (wx_resume env (wx_world st) (st\<lparr>wx_context := ctx, wx_world := w\<rparr>))" by (simp add: extends_def)
  show ?thesis
  proof (cases o1)
    case (Inl x)
    with assms(1, 3) res e show ?thesis by (auto simp: take_over_def Let_def)
  next
    case (Inr wr)
    with honest [OF assms(2)] res have "overall_status wr = SUCCESS \<longrightarrow> \<not> some_failed (steps_of wr) \<and> complete a (steps_of wr)"
      by simp
    with Inr assms(1) res e show ?thesis
      by (auto simp: take_over_def Let_def intro: extends_trans [OF e])
  qed
qed

end

definition dag_returned :: "'w dag \<Rightarrow> workflow_result \<Rightarrow> bool" where
  "dag_returned g wr \<longleftrightarrow>
     (\<exists>c acts p s fate. run_of c g acts (p, s) \<and> p \<in> {pc.LoopDone, TimeoutDone} \<and> wr = fst (finish_run fate s))"

definition dag_complete :: "'w dag \<Rightarrow> step_result list \<Rightarrow> bool" where
  "dag_complete g rs \<longleftrightarrow> length rs = length (dag_nodes g)"

definition pipeline_returned :: "'w pipeline \<Rightarrow> workflow_result \<Rightarrow> bool" where
  "pipeline_returned pl wr \<longleftrightarrow>
     (\<exists>env ctx fs w st. legal_env env \<and> execute_pipeline env pl ctx fs w = Some (Inr wr, st))"

definition pipeline_complete :: "'w pipeline \<Rightarrow> step_result list \<Rightarrow> bool" where
  "pipeline_complete pl rs \<longleftrightarrow> (list_all plain (elements pl) \<longrightarrow> length rs = total_steps pl)"

lemma dag_returned_recorded:
  assumes "dag_returned g wr"
  obtains s fate where "all_recorded s" "rs_dag s = g" "wr = fst (finish_run fate s)"
proof -
  obtain c acts p s fate where r: "run_of c g acts (p, s)" "p \<in> {pc.LoopDone, TimeoutDone}" "wr = fst (finish_run fate s)"
    using assms by (auto simp: dag_returned_def)
  have "all_recorded s" using run_of_inv(1) [OF r(1)] r(2) all_recorded_LoopDone [of s] by auto
  with that r(3) run_of_inv(2) [OF r(1)] show ?thesis by blast
qed

interpretation dag_runs: sub_executor dag_returned dag_complete
proof unfold_locales
  fix g :: "'a dag" and wr
  assume "dag_returned g wr"
  then obtain s fate where s: "all_recorded s" "rs_dag s = g" "wr = fst (finish_run fate s)" using dag_returned_recorded by blast
  note f = finish_run_result [OF s(1), of fate]
  show "overall_status wr \<in> {SUCCESS, FAILED}" using f(2) s(3) by simp
  assume "overall_status wr = SUCCESS"
  then have none: "failed_set s = {}" using s(1, 3) f(2) by (auto simp: all_recorded_def split: if_splits)
  have "\<not> is_failed (the (map_of (results s) n))" if n: "n \<in> set (dag_nodes g)" for n
  proof -
    obtain q where "map_of (results s) n = Some q" using n s(1, 2) unfolding all_recorded_def by blast
    with none show ?thesis by (auto simp: failed_set_def is_failed_def)
  qed
  then show "\<not> some_failed (steps_of wr) \<and> dag_complete g (steps_of wr)"
    unfolding s(3) f(1) s(2) by (simp add: some_failed_def dag_complete_def)
qed

interpretation pipeline_runs: sub_executor pipeline_returned pipeline_complete
proof unfold_locales
  fix pl :: "'a pipeline" and wr
  assume "pipeline_returned pl wr"
  then obtain env ctx fs w st where x: "legal_env env" "execute_pipeline env pl ctx fs w = Some (Inr wr, st)"
    by (auto simp: pipeline_returned_def)
  obtain en st1 where "ended_ok pl en st1" "finish_loop env (en, st1) = (Inr wr, st)"
    using execute_pipeline_ended [OF x] .
  note f = finished_ok [OF this]
  show "overall_status wr \<in> {SUCCESS, FAILED}" using f by auto
  assume "overall_status wr = SUCCESS"
  with f show "\<not> some_failed (steps_of wr) \<and> pipeline_complete pl (steps_of wr)" by (auto simp: pipeline_complete_def)
qed

text \<open>An environment whose sub-executors are the \<open>DAGExecutor\<close> and the \<open>PipelineExecutor\<close>.\<close>

definition genuine :: "'w wx_env \<Rightarrow> bool" where
  "genuine env \<longleftrightarrow>
     (\<forall>g mc ctx w wr ctx' w'. we_dag env g mc ctx w = Some (Inr wr, ctx', w') \<longrightarrow> dag_returned g wr) \<and>
     (\<forall>pl ctx w wr ctx' w'. we_pipeline env pl ctx w = Some (Inr wr, ctx', w') \<longrightarrow> pipeline_returned pl wr)"

section \<open>Runs\<close>

definition recorded_all :: "'w workflow \<Rightarrow> step_result list \<Rightarrow> bool" where
  "recorded_all flow rs =
     (case flow of
        WfDag g \<Rightarrow> dag_complete g rs
      | WfStep sd \<Rightarrow> length rs = 1 \<and> list_all is_success rs
      | WfPipeline pl \<Rightarrow> pipeline_complete pl rs
      | WfList xs \<Rightarrow> length rs = length xs
      | WfOther t \<Rightarrow> False)"

definition well_typed :: "'w workflow \<Rightarrow> bool" where
  "well_typed flow = (case flow of WfList xs \<Rightarrow> first_other 0 xs = None | WfOther t \<Rightarrow> False | _ \<Rightarrow> True)"

lemma items_steps_length: "first_other i xs = None \<Longrightarrow> length (items_steps xs) = length xs"
  by (induction i xs rule: first_other.induct) (auto simp: items_steps_def)

text \<open>What the body of a run leaves in the result.\<close>

definition body_ok :: "'w workflow \<Rightarrow> exn + unit \<Rightarrow> workflow_result \<Rightarrow> bool" where
  "body_ok flow out r \<longleftrightarrow> wf_metadata r = [] \<and>
     (out = Inr () \<and> overall_status r = SUCCESS \<longrightarrow> \<not> some_failed (steps_of r) \<and> recorded_all flow (steps_of r)) \<and>
     (\<forall>xs. flow = WfList xs \<longrightarrow> \<not> some_failed (butlast (steps_of r)) \<and>
        (out = Inr () \<and> length (steps_of r) = length xs \<and> \<not> some_failed (steps_of r) \<longrightarrow> overall_status r = SUCCESS))"

definition fresh_result :: "workflow_result \<Rightarrow> bool" where
  "fresh_result r \<longleftrightarrow> steps_of r = [] \<and> overall_status r = RUNNING \<and> wf_metadata r = [] \<and> wf_end_time r = None"

lemma run_workflow_ok:
  assumes g: "genuine env" and t: "well_typed flow" and f: "fresh_result (wx_result st)"
    and r: "run_workflow env flow mc st = Some (out, st')"
  shows "extends st st' \<and> body_ok flow out (wx_result st')"
proof (cases flow)
  case (WfStep sd)
  then obtain o1 st1 where x: "execute_step env sd st = Some (o1, st1)"
    using r by (auto simp: run_workflow_def split: option.splits)
  note k = execute_step_keeps [OF x]
  show ?thesis using r WfStep x k f extends_trans [OF k(1) on_wx_result_fields(8)]
    by (cases o1) (auto simp: run_workflow_def body_ok_def recorded_all_def fresh_result_def is_success_def is_failed_def split: if_splits)
next
  case (WfPipeline pl)
  then show ?thesis using pipeline_runs.taken_over [of env st _ out st' pl] r g f
    by (fastforce simp: run_workflow_def genuine_def body_ok_def recorded_all_def fresh_result_def)
next
  case (WfDag gr)
  then show ?thesis using dag_runs.taken_over [of env st _ out st' gr] r g f
    by (fastforce simp: run_workflow_def genuine_def body_ok_def recorded_all_def fresh_result_def)
next
  case (WfList xs)
  then have "run_sequence env (items_steps xs) st = Some (out, st')" "length (items_steps xs) = length xs"
    using r t by (auto simp: run_workflow_def well_typed_def intro: items_steps_length)
  then show ?thesis using run_sequence_spec [of env "items_steps xs" st out st'] f WfList
    by (fastforce simp: ran_steps_def body_ok_def recorded_all_def fresh_result_def)
next
  case (WfOther ty)
  with t show ?thesis by (simp add: well_typed_def)
qed

lemma with_deadline_ok:
  assumes "genuine env" "well_typed flow" "fresh_result (wx_result st)" "with_deadline env flow mc st = Some (out, st')"
  shows "extends st st' \<and> body_ok flow out (wx_result st')"
proof -
  have timeout: "body_ok flow (Inl e) (wx_result st)" for e using assms(3) by (auto simp: body_ok_def fresh_result_def)
  have raised: "body_ok flow (Inl e) r \<Longrightarrow> body_ok flow (Inl e') r" for e e' r by (auto simp: body_ok_def)
  have body: "extends st st1 \<and> body_ok flow o1 (wx_result st1)" if w: "execute_workflow env flow mc st = Some (o1, st1)" for o1 st1
  proof -
    obtain o2 st2 where x: "run_workflow env flow mc st = Some (o2, st2)"
      using w by (cases "run_workflow env flow mc st") (auto simp: execute_workflow_def)
    note k = run_workflow_ok [OF assms(1-3) x]
    show ?thesis
    proof (cases o2)
      case (Inl e)
      with k w x show ?thesis by (simp add: execute_workflow_def)
    next
      case (Inr u)
      let ?st = "on_wx_result (\<lambda>r. r\<lparr>final_output := all_variables (wx_context st2)\<rparr>) st2"
      have "o1 = Inr () \<and> st1 = ?st" using Inr w x by (simp add: execute_workflow_def)
      moreover have "body_ok flow (Inr ()) (wx_result ?st)" using k Inr by (simp add: body_ok_def)
      ultimately show ?thesis using k extends_trans [of st st2 ?st] by simp
    qed
  qed
  show ?thesis
  proof (cases "execute_workflow env flow mc st")
    case None
    with assms(4) timeout show ?thesis by (auto simp: with_deadline_def split: option.splits if_splits)
  next
    case (Some x)
    obtain o1 st1 where x: "x = (o1, st1)" by fastforce
    note b = body [OF Some [unfolded x]]
    show ?thesis
      using assms(4) b timeout Some x
      by (cases o1) (auto simp: with_deadline_def split: option.splits if_splits intro: raised)
  qed
qed

lemma clean_up_fields [simp]:
  "wx_result (clean_up st) = wx_result st" "wx_history (clean_up st) = wx_history st" "wx_log (clean_up st) = wx_log st"
  "wx_started (clean_up st) = wx_started st" "wx_config (clean_up st) = wx_config st"
  "wx_listeners (clean_up st) = wx_listeners st" "xc_cleanup (wx_config st) \<Longrightarrow> \<not> wx_current (clean_up st)"
  by (simp_all add: clean_up_def)

lemma begin_run_spec:
  assumes "begin_run env flow ctx d st = (Inr u, st1)"
  shows "fresh_result (wx_result st1)" "wx_config st1 = wx_config st" "wx_listeners st1 = wx_listeners st"
    "\<exists>h. wx_history st1 = wx_history st @ [h] \<and> he_event h = ''workflow_start'' \<and>
       he_data h = [(''name'', PStr (get_workflow_name flow))]"
    "wx_log st1 = wx_log st @ map (\<lambda>l. (l, EvWorkflowStart, [(''workflow'', PStr (get_workflow_name flow))])) (wx_listeners st)"
proof -
  let ?name = "get_workflow_name flow"
  obtain st2 where e: "emit_event env EvWorkflowStart [(''workflow'', PStr ?name)]
      (wx_record env ''workflow_start'' None [(''name'', PStr ?name)] st2) = (False, st1)"
    and st2: "fresh_result (wx_result st2)" "wx_config st2 = wx_config st" "wx_listeners st2 = wx_listeners st"
      "wx_history st2 = wx_history st" "wx_log st2 = wx_log st"
    using assms by (fastforce simp: begin_run_def Let_def fresh_result_def split: prod.splits option.splits if_splits bool.splits)
  note k = emit_spec [OF e]
  show "fresh_result (wx_result st1)" "wx_config st1 = wx_config st" "wx_listeners st1 = wx_listeners st"
    using k st2 by (simp_all add: extends_def)
  show "\<exists>h. wx_history st1 = wx_history st @ [h] \<and> he_event h = ''workflow_start'' \<and> he_data h = [(''name'', PStr ?name)]"
    using k(3) st2(4) by (simp add: wx_record_def)
  show "wx_log st1 = wx_log st @ map (\<lambda>l. (l, EvWorkflowStart, [(''workflow'', PStr ?name)])) (wx_listeners st)"
    using k(5) st2(3, 5) by simp
qed

definition conclusion :: "'w wx \<Rightarrow> workflow_result \<Rightarrow> 'w wx \<Rightarrow> bool" where
  "conclusion st wr st' \<longleftrightarrow>
     wr = wx_result st' \<and> wf_end_time wr \<noteq> None \<and> steps_of wr = steps_of (wx_result st) \<and>
     overall_status wr = (if overall_status (wx_result st) = SUCCESS then SUCCESS else FAILED) \<and>
     wf_metadata wr = AList.update ''history_entries'' (PInt (int (length (wx_history st)))) (wf_metadata (wx_result st)) \<and>
     wx_config st' = wx_config st \<and> wx_listeners st' = wx_listeners st \<and>
     (\<exists>h. wx_history st' = wx_history st @ [h] \<and> he_event h = ''workflow_end'' \<and>
        he_data h = [(''status'', PStr (step_status_value (overall_status wr)))]) \<and>
     wx_log st' = wx_log st @ map (\<lambda>l. (l, EvWorkflowEnd, end_data st')) (wx_listeners st) \<and>
     (xc_cleanup (wx_config st) \<longrightarrow> \<not> wx_current st')"

lemma conclude_spec:
  assumes "conclude env st = (Inr wr, st')"
  shows "conclusion st wr st'"
proof -
  define st1 where "st1 = record_end env (mark_ended env (overall_status (wx_result st) = SUCCESS) st)"
  obtain st2 where e: "emit_event env EvWorkflowEnd (end_data st1) st1 = (False, st2)" and st': "wr = wx_result st2" "st' = clean_up st2"
    using assms by (auto simp: conclude_def Let_def st1_def [symmetric] split: prod.splits bool.splits)
  note k = emit_spec [OF e]
  have d: "end_data st' = end_data st1" using k by (simp add: end_data_def st' extends_def)
  have s1: "wx_config st1 = wx_config st" "wx_listeners st1 = wx_listeners st" "wx_log st1 = wx_log st"
    "steps_of (wx_result st1) = steps_of (wx_result st)" "wf_end_time (wx_result st1) \<noteq> None"
    "overall_status (wx_result st1) = (if overall_status (wx_result st) = SUCCESS then SUCCESS else FAILED)"
    "wf_metadata (wx_result st1) = AList.update ''history_entries'' (PInt (int (length (wx_history st)))) (wf_metadata (wx_result st))"
    by (simp_all add: st1_def record_end_def mark_ended_def set_wf_meta_def wf_mark_complete_def)
  have h: "\<exists>h. wx_history st1 = wx_history st @ [h] \<and> he_event h = ''workflow_end'' \<and>
        he_data h = [(''status'', PStr (step_status_value (overall_status (wx_result st1))))]"
    by (simp add: st1_def record_end_def wx_record_def mark_ended_def)
  from k s1 h show ?thesis by (auto simp: conclusion_def st' d [unfolded st'] extends_def)
qed

lemma fail_with_fields:
  "wx_history (fail_with kvs st) = wx_history st" "extends st (fail_with kvs st)"
  "overall_status (wx_result (fail_with kvs st)) = FAILED" "steps_of (wx_result (fail_with kvs st)) = steps_of (wx_result st)"
  "(k, v) \<in> set kvs \<Longrightarrow> meta_has (wx_result (fail_with kvs st)) k"
proof -
  have keep: "overall_status (fold (\<lambda>(k, v). set_wf_meta k v) kvs r) = overall_status r \<and>
      steps_of (fold (\<lambda>(k, v). set_wf_meta k v) kvs r) = steps_of r \<and>
      (meta_has r k \<or> (k, v) \<in> set kvs \<longrightarrow> meta_has (fold (\<lambda>(k, v). set_wf_meta k v) kvs r) k)" for r
    by (induction kvs arbitrary: r) (auto simp: set_wf_meta_def meta_has_def map_of_update)
  show "wx_history (fail_with kvs st) = wx_history st" "extends st (fail_with kvs st)" by (simp_all add: fail_with_def)
  show "overall_status (wx_result (fail_with kvs st)) = FAILED" "steps_of (wx_result (fail_with kvs st)) = steps_of (wx_result st)"
    "(k, v) \<in> set kvs \<Longrightarrow> meta_has (wx_result (fail_with kvs st)) k"
    using keep [of "(wx_result st)\<lparr>overall_status := FAILED\<rparr>"] by (simp_all add: fail_with_def)
qed

lemma finish_execute_spec:
  assumes "finish_execute env (out, st) = (Inr wr, st')"
  obtains st1 where "conclusion st1 wr st'" "extends st st1" "steps_of (wx_result st1) = steps_of (wx_result st)"
    "out = Inr () \<and> st1 = st \<or> overall_status (wx_result st1) = FAILED \<and> meta_has (wx_result st1) ''error''"
proof (cases out)
  case (Inr u)
  with assms that [of st] show ?thesis by (auto simp: finish_execute_def intro: conclude_spec)
next
  case (Inl e)
  show ?thesis
  proof (cases "isinstance_of e [''TimeoutError'']")
    case True
    let ?kvs = "[(''error'', PStr (''Global timeout after '' @
            (case xc_global_timeout (wx_config st) of None \<Rightarrow> ''None'' | Some t \<Rightarrow> we_repr env t) @ ''s'')),
          (''error_type'', PStr ''timeout'')]"
    have c: "conclusion (timed_out env st) wr st'" using assms Inl True by (simp add: finish_execute_def conclude_spec)
    show ?thesis
    proof (rule that [OF c])
      show "extends st (timed_out env st)"
        unfolding timed_out_def by (rule extends_trans [OF fail_with_fields(2) record_fields(7)])
    qed (use fail_with_fields(3, 4) [of ?kvs st] fail_with_fields(5) [of "''error''" _ ?kvs st] in \<open>simp_all add: timed_out_def\<close>)
  next
    case False
    let ?kvs = "[(''error'', PStr (exn_msg e)), (''traceback'', PStr (we_traceback env e))]"
    obtain st1 where x: "crashed env e st = (False, st1)" "conclude env st1 = (Inr wr, st')"
      using assms Inl False by (auto simp: finish_execute_def split: if_splits prod.splits bool.splits)
    note k = emit_spec [OF x(1) [unfolded crashed_def]]
    show ?thesis
    proof (rule that [OF conclude_spec [OF x(2)]])
      show "extends st st1" using extends_trans [OF extends_trans [OF fail_with_fields(2) record_fields(7)] k(1)] .
    qed (use k(2) fail_with_fields(3, 4) [of ?kvs st] fail_with_fields(5) [of "''error''" _ ?kvs st] in simp_all)
  qed
qed

section \<open>Properties\<close>

lemma execute_any_cases:
  assumes "execute_any env flow ctx vars mc st = Some (Inr wr, st')"
  obtains d st1 out st2 where "begin_run env flow ctx d st = (Inr (), st1)" "with_deadline env flow mc st1 = Some (out, st2)"
    "finish_execute env (out, st2) = (Inr wr, st')" "well_typed flow"
proof -
  obtain d where d: "validate_execute_inputs flow ctx vars = Inr d"
    using assms by (auto simp: execute_any_def split: sum.splits)
  then have t: "well_typed flow"
    by (auto simp: validate_execute_inputs_def validate_workflow_definition_def well_typed_def rbind_def
        split: context_arg.splits vars_arg.splits workflow.splits sum.splits option.splits)
  obtain st1 where b: "begin_run env flow ctx d st = (Inr (), st1)"
    using assms d by (auto simp: execute_any_def split: sum.splits prod.splits)
  obtain o1 st2 where w: "with_deadline env flow mc st1 = Some (o1, st2)"
    using assms d b by (auto simp: execute_any_def)
  obtain r st3 where f: "finish_execute env (o1, st2) = (r, st3)" by fastforce
  have "r = Inr wr" "st3 = st'" using assms d b w f by (auto simp: execute_any_def lift_exn_def split: sum.splits)
  with that b w f t show ?thesis by blast
qed

lemma execute_any_result:
  assumes "execute_any env flow ctx vars mc st = Some (Inr wr, st')"
  shows "wr = wx_result st'"
proof -
  obtain out st2 where f: "finish_execute env (out, st2) = (Inr wr, st')" using execute_any_cases [OF assms] by metis
  obtain st3 where "conclusion st3 wr st'" using finish_execute_spec [OF f] by metis
  then show ?thesis by (simp add: conclusion_def)
qed

text \<open>C33. A workflow run that returns is concluded, whichever way it went: the verdict is SUCCESS or
  FAILED with an end time, the history gains one entry for the start, one for the end with that
  verdict and only entries of the run in between, every listener hears the start first and the end
  last, and the reference to the context is dropped when the configuration says so.\<close>

theorem workflow_run_concluded:
  assumes "genuine env" "execute_any env flow ctx vars mc st = Some (Inr wr, st')"
  shows "wr = wx_result st' \<and> wf_end_time wr \<noteq> None \<and> overall_status wr \<in> {SUCCESS, FAILED} \<and>
    (\<exists>h0 hs h1. wx_history st' = wx_history st @ h0 # hs @ [h1] \<and>
       he_event h0 = ''workflow_start'' \<and> he_data h0 = [(''name'', PStr (get_workflow_name flow))] \<and>
       he_event h1 = ''workflow_end'' \<and> he_data h1 = [(''status'', PStr (step_status_value (overall_status wr)))]) \<and>
    map_of (wf_metadata wr) ''history_entries'' = Some (PInt (int (length (wx_history st')) - 1)) \<and>
    (\<exists>ls. wx_log st' =
       wx_log st @ map (\<lambda>l. (l, EvWorkflowStart, [(''workflow'', PStr (get_workflow_name flow))])) (wx_listeners st) @
       ls @ map (\<lambda>l. (l, EvWorkflowEnd, end_data st')) (wx_listeners st)) \<and>
    wx_listeners st' = wx_listeners st \<and> (xc_cleanup (wx_config st) \<longrightarrow> \<not> wx_current st')"
proof -
  obtain d st1 out st2 where b: "begin_run env flow ctx d st = (Inr (), st1)" and
    w: "with_deadline env flow mc st1 = Some (out, st2)" and f: "finish_execute env (out, st2) = (Inr wr, st')" and
    t: "well_typed flow" using execute_any_cases [OF assms(2)] .
  note bs = begin_run_spec [OF b]
  have "extends st1 st2" using with_deadline_ok [OF assms(1) t bs(1) w] by simp
  moreover obtain st3 where c: "conclusion st3 wr st'" "extends st2 st3" using finish_execute_spec [OF f] by metis
  ultimately have "extends st1 st3" using extends_trans by blast
  with bs(2-5) c(1) show ?thesis
    by (auto simp: conclusion_def extends_def prefix_def map_of_update split: if_splits)
qed

text \<open>C34. Success is never claimed for work that was not done: when the verdict is SUCCESS no recorded
  step failed and the record is complete (every step of the list or of the graph, the single step
  with its own success, every step of a pipeline without branches). A list of steps stops at its first
  failure, and is a success exactly when all of it ran, nothing failed and nothing was raised.\<close>

theorem workflow_success_honest:
  assumes "genuine env" "execute_any env flow ctx vars mc st = Some (Inr wr, st')"
  shows "(overall_status wr = SUCCESS \<longrightarrow> \<not> some_failed (steps_of wr) \<and> recorded_all flow (steps_of wr)) \<and>
    (\<forall>xs. flow = WfList xs \<longrightarrow> \<not> some_failed (butlast (steps_of wr)) \<and>
       (overall_status wr = SUCCESS \<longleftrightarrow>
          length (steps_of wr) = length xs \<and> \<not> some_failed (steps_of wr) \<and> \<not> meta_has wr ''error''))"
proof -
  obtain d st1 out st2 where b: "begin_run env flow ctx d st = (Inr (), st1)" and
    w: "with_deadline env flow mc st1 = Some (out, st2)" and f: "finish_execute env (out, st2) = (Inr wr, st')" and
    t: "well_typed flow" using execute_any_cases [OF assms(2)] .
  have ok: "body_ok flow out (wx_result st2)" using with_deadline_ok [OF assms(1) t begin_run_spec(1) [OF b] w] by simp
  obtain st3 where c: "conclusion st3 wr st'" "steps_of (wx_result st3) = steps_of (wx_result st2)"
    "out = Inr () \<and> st3 = st2 \<or> overall_status (wx_result st3) = FAILED \<and> meta_has (wx_result st3) ''error''"
    using finish_execute_spec [OF f] by metis
  have eqs: "steps_of wr = steps_of (wx_result st2)" "meta_has wr ''error'' \<longleftrightarrow> meta_has (wx_result st3) ''error''"
    "overall_status wr = SUCCESS \<longleftrightarrow> overall_status (wx_result st3) = SUCCESS"
    using c(1, 2) by (auto simp: conclusion_def meta_has_def map_of_update split: if_splits)
  have list: "recorded_all (WfList xs) rs \<longleftrightarrow> length rs = length xs" for xs :: "'a list_item list" and rs
    by (simp add: recorded_all_def)
  show ?thesis unfolding eqs
    using c(3) ok by (auto simp: body_ok_def list meta_has_def)
qed

text \<open>The cancellation of a run is recorded before it is passed on, even when the listeners are cancelled
  once more.\<close>

theorem cancelled_run_recorded:
  assumes "validate_execute_inputs flow ctx vars = Inr d" "begin_run env flow ctx d st = (Inr (), st1)"
    and "with_deadline env flow mc st1 = Some (Inl cancelled_error, st2)"
  shows "\<exists>st'. execute_any env flow ctx vars mc st = Some (Inl (Threw cancelled_error), st') \<and>
    overall_status (wx_result st') = FAILED \<and> wf_end_time (wx_result st') \<noteq> None \<and> meta_has (wx_result st') ''cancelled'' \<and>
    map he_event (wx_history st') = map he_event (wx_history st2) @ [''cancelled'', ''workflow_end''] \<and>
    (xc_cleanup (wx_config st2) \<longrightarrow> \<not> wx_current st')"
proof -
  define a where "a = mark_ended env False (fail_with [(''cancelled'', PBool True)] st2)"
  define b where "b = clean_up (record_end env (wx_record env ''cancelled'' None [] a))"
  obtain x c where c: "emit_event env EvCancelled [] b = (x, c)" by fastforce
  obtain y st' where e: "emit_event env EvWorkflowEnd (end_data c) c = (y, st')" by fastforce
  have "was_cancelled env st2 = st'" using c e by (simp add: was_cancelled_def Let_def a_def [symmetric] b_def [symmetric])
  then have "execute_any env flow ctx vars mc st = Some (Inl (Threw cancelled_error), st')"
    using assms by (simp add: execute_any_def finish_execute_def isinstance_of_def cancelled_error_def lift_exn_def)
  moreover have "overall_status (wx_result a) = FAILED" "wf_end_time (wx_result a) \<noteq> None" "meta_has (wx_result a) ''cancelled''"
    "wx_history a = wx_history st2" "wx_config a = wx_config st2"
    by (simp_all add: a_def mark_ended_def fail_with_def set_wf_meta_def wf_mark_complete_def meta_has_def map_of_update)
  then have "overall_status (wx_result b) = FAILED" "wf_end_time (wx_result b) \<noteq> None" "meta_has (wx_result b) ''cancelled''"
    "map he_event (wx_history b) = map he_event (wx_history st2) @ [''cancelled'', ''workflow_end'']"
    "xc_cleanup (wx_config st2) \<longrightarrow> \<not> wx_current b"
    by (simp_all add: b_def record_end_def wx_record_def clean_up_def)
  ultimately show ?thesis using emit_spec(1-3) [OF c] emit_spec(1-3) [OF e] by (auto simp: extends_def)
qed

section \<open>Examples\<close>

text \<open>Graphs run with one schedule, pipelines with the sample event loop, and listeners as given.\<close>

definition solo_config :: run_config where
  "solo_config =
     \<lparr>cf_ctx = [sample_frame], cf_on_update = False, cf_timeout = None, cf_kw_timeout = None, cf_max_concurrency = None,
      cf_clock = of_nat, cf_handler_fates = (\<lambda>_. HandlerReturns), cf_iter_set = sorted_list_of_set,
      cf_show_timeout = (\<lambda>_. []), cf_start_fate = ObserverReturns\<rparr>"

definition solo_run :: "action list" where
  "solo_run = [Scheduler ObserverReturns, TaskStarts ''s'' ObserverReturns,
     WaitReturns [(''s'', TaskReturned (new_step_result ''s'' SUCCESS 0))],
     Scheduler ObserverReturns, Scheduler ObserverReturns, Scheduler ObserverReturns, Scheduler ObserverReturns]"

definition solo_dag :: "nat dag" where
  "solo_dag = \<lparr>dag_name = ''d'', dag_description = [], dag_steps = [(''s'', sample_step flaky)]\<rparr>"

definition sample_wx_env ::
  "(nat \<Rightarrow> executor_event \<Rightarrow> listener_fate) \<Rightarrow>
    (nat step_definition \<Rightarrow> exec_context \<Rightarrow> nat \<Rightarrow> ((raised + step_result) \<times> exec_context \<times> nat) option) \<Rightarrow> nat wx_env" where
  "sample_wx_env fates steps =
     \<lparr>we_listener = (\<lambda>l ev d w. (fates l ev, Suc w)), we_step = steps,
      we_pipeline = (\<lambda>pl ctx w. map_option (\<lambda>(r, st). (r, pr_ctx st, pr_world st)) (execute_pipeline sample_pipe_env pl ctx [] w)),
      we_dag = (\<lambda>g mc ctx w.
        if dag_wf g
        then (case execute_run solo_config g solo_run ObserverReturns of
                Some (wr, evs) \<Rightarrow> Some (Inr wr, ctx, w)
              | None \<Rightarrow> Some (Inl cancelled_error, ctx, w))
        else Some (Inl (value_error []), ctx, w)),
      we_cancel_during = (\<lambda>_ _. False), we_deadline = (\<lambda>_ _ _. False), we_new_context = (\<lambda>_. [sample_frame]),
      we_now = of_nat, we_stamp = (\<lambda>_. []), we_repr = (\<lambda>_. []), we_traceback = (\<lambda>_. []), we_invalid_result = []\<rparr>"

lemma sample_wx_genuine: "genuine (sample_wx_env fates steps)"
proof -
  have "dag_returned g wr" if w: "dag_wf g" and r: "execute_run solo_config g solo_run ObserverReturns = Some (wr, evs)"
    for g :: "nat dag" and wr evs
  proof -
    obtain m p s where m: "execute_begin solo_config g = Inr m" "perform_all solo_run m = Some (p, s)"
      "p \<in> {pc.LoopDone, TimeoutDone}" "wr = fst (finish_run ObserverReturns s)"
      using r by (auto simp: execute_run_def split: sum.splits option.splits prod.splits pc.splits)
    then have "run_of solo_config g solo_run (p, s)"
      using w by (auto simp: run_of_def enumerates_def solo_config_def)
    with m show ?thesis unfolding dag_returned_def by blast
  qed
  moreover have "pipeline_returned pl wr"
    if "execute_pipeline sample_pipe_env pl ctx [] w = Some (Inr wr, st)" for pl ctx w wr st
    using that sample_pipe_legal(1) unfolding pipeline_returned_def by blast
  ultimately show ?thesis
    by (fastforce simp: genuine_def sample_wx_env_def split: if_splits option.splits prod.splits)
qed

definition quiet_listeners :: "nat \<Rightarrow> executor_event \<Rightarrow> listener_fate" where
  "quiet_listeners l ev = (if l = 0 then ListenerReturns else ListenerRaises)"

definition start_wx :: "nat list \<Rightarrow> nat wx" where
  "start_wx ls = (new_executor default_config 0)\<lparr>wx_listeners := ls\<rparr>"

definition flow_summary ::
  "((wx_error + workflow_result) \<times> 'w wx) option \<Rightarrow> (step_status option \<times> step_status list \<times> string list \<times> bool) option" where
  "flow_summary out =
     map_option (\<lambda>(r, st). (case r of Inl e \<Rightarrow> None | Inr wr \<Rightarrow> Some (overall_status wr),
        map status (steps_of (wx_result st)), map he_event (wx_history st), wx_current st)) out"

lemma flow_summary_result:
  assumes "flow_summary out = Some (Some s, ss, hs, c)"
  obtains wr st' where "out = Some (Inr wr, st')" "overall_status wr = s" "map status (steps_of (wx_result st')) = ss"
    "map he_event (wx_history st') = hs"
proof -
  obtain r st' where o: "out = Some (r, st')" using assms by (auto simp: flow_summary_def)
  with assms that show ?thesis by (cases r) (auto simp: flow_summary_def)
qed

definition named_steps ::
  "(name \<Rightarrow> raised + step_status) \<Rightarrow> nat step_definition \<Rightarrow> exec_context \<Rightarrow> nat \<Rightarrow>
    ((raised + step_result) \<times> exec_context \<times> nat) option" where
  "named_steps f sd ctx w = Some (map_sum id (\<lambda>s. new_step_result (sd_name sd) s 0) (f (sd_name sd)), ctx, Suc w)"

definition sample_fate :: "name \<Rightarrow> raised + step_status" where
  "sample_fate n =
     (if n = ''bad'' then Inr FAILED else if n = ''skip'' then Inr SKIPPED
      else if n = ''crash'' then Inl (Raised (value_error ''boom'')) else Inr SUCCESS)"

definition sample_flow ::
  "(nat \<Rightarrow> executor_event \<Rightarrow> listener_fate) \<Rightarrow> nat workflow \<Rightarrow> ((wx_error + workflow_result) \<times> nat wx) option" where
  "sample_flow fates flow =
     execute_any (sample_wx_env fates (named_steps sample_fate)) flow NoContext (VarsMapping [(''x'', PInt 1)]) None (start_wx [0, 1])"

definition steps_named :: "name list \<Rightarrow> nat workflow" where
  "steps_named ns = WfList (map (\<lambda>n. ItemStep (new_step n)) ns)"

lemma dag_flow:
  "flow_summary (sample_flow quiet_listeners (WfDag solo_dag)) =
     Some (Some SUCCESS, [SUCCESS], [''workflow_start'', ''workflow_end''], False)"
  by code_simp

lemma list_flow:
  "flow_summary (sample_flow quiet_listeners (steps_named [''good'', ''bad'', ''good''])) =
     Some (Some FAILED, [SUCCESS, FAILED],
       [''workflow_start'', ''step_start'', ''step_end'', ''step_start'', ''step_end'', ''workflow_end''], False)"
  by code_simp

theorem workflow_run_concluded_witness:
  "\<exists>wr st'. sample_flow quiet_listeners (WfDag solo_dag) = Some (Inr wr, st') \<and> overall_status wr = SUCCESS \<and>
     wf_end_time wr \<noteq> None \<and> map_of (wf_metadata wr) ''history_entries'' = Some (PInt 1) \<and> \<not> wx_current st'"
proof -
  obtain wr st' where x: "sample_flow quiet_listeners (WfDag solo_dag) = Some (Inr wr, st')" "overall_status wr = SUCCESS"
    "map he_event (wx_history st') = [''workflow_start'', ''workflow_end'']"
    using flow_summary_result [OF dag_flow] .
  have "length (wx_history st') = 2" using arg_cong [OF x(3), of length] by simp
  with workflow_run_concluded [OF sample_wx_genuine x(1) [unfolded sample_flow_def]] x show ?thesis
    by (auto simp: start_wx_def new_executor_def default_config_def)
qed

theorem workflow_success_honest_witness:
  "\<exists>wr st'. sample_flow quiet_listeners (steps_named [''good'', ''bad'', ''good'']) = Some (Inr wr, st') \<and>
     overall_status wr = FAILED \<and> \<not> some_failed (butlast (steps_of wr)) \<and> length (steps_of wr) = 2"
proof -
  obtain wr st' where x: "sample_flow quiet_listeners (steps_named [''good'', ''bad'', ''good'']) = Some (Inr wr, st')"
    "overall_status wr = FAILED" "map status (steps_of (wx_result st')) = [SUCCESS, FAILED]"
    using flow_summary_result [OF list_flow] .
  note h = workflow_success_honest [OF sample_wx_genuine x(1) [unfolded sample_flow_def]]
  have "wr = wx_result st'" using execute_any_result [OF x(1) [unfolded sample_flow_def]] .
  then have "length (steps_of wr) = 2" using arg_cong [OF x(3), of length] by simp
  with h x show ?thesis by (auto simp: steps_named_def)
qed

lemma cancelled_run_example:
  "flow_summary (sample_flow (\<lambda>l ev. if ev = EvWorkflowStart then ListenerReturns else ListenerCancelled) (steps_named [''good''])) =
     Some (None, [], [''workflow_start'', ''step_start'', ''cancelled'', ''workflow_end''], False)"
  by code_simp

text \<open>A step that is skipped by its condition is a success in a list but a failure on its own.\<close>

lemma skipped_alone_fails:
  "flow_summary (sample_flow quiet_listeners (steps_named [''skip''])) =
     Some (Some SUCCESS, [SKIPPED], [''workflow_start'', ''step_start'', ''step_end'', ''workflow_end''], False)"
  "flow_summary (sample_flow quiet_listeners (WfStep (new_step ''skip''))) =
     Some (Some FAILED, [SKIPPED], [''workflow_start'', ''step_start'', ''step_end'', ''workflow_end''], False)"
  by code_simp+

text \<open>A cancellation that strikes while an error is reported skips the terminal entries and the clean-up.\<close>

lemma error_report_cancelled:
  "flow_summary (sample_flow (\<lambda>l ev. if ev = EvError then ListenerCancelled else ListenerReturns) (steps_named [''crash''])) =
     Some (None, [], [''workflow_start'', ''step_start'', ''error''], True)"
  by code_simp

text \<open>The reason a pipeline failed is not taken over: the result has no error entry.\<close>

lemma pipeline_reason_lost:
  "(case execute_pipeline sample_pipe_env ((new_pipeline ''p'' [])\<lparr>elements := [ElemBranch ''b'' (\<lambda>_. Inl (value_error ''boom'')) [ElemStep (new_step ''s'')] []]\<rparr>)
       [sample_frame] [] 0 of Some (Inr wr, st) \<Rightarrow> map_of (wf_metadata wr) ''error'' | _ \<Rightarrow> None) = Some (PStr ''boom'')"
  "(case sample_flow quiet_listeners (WfPipeline ((new_pipeline ''p'' [])\<lparr>elements := [ElemBranch ''b'' (\<lambda>_. Inl (value_error ''boom'')) [ElemStep (new_step ''s'')] []]\<rparr>)) of
      Some (Inr wr, st) \<Rightarrow> (overall_status wr, map_of (wf_metadata wr) ''error'') | _ \<Rightarrow> (PENDING, None)) = (FAILED, None)"
  by code_simp+

end
