(* ===== verification/Replay_Store.thy ===== *)
theory Replay_Store
  imports Audit_Log "HOL-Library.Sublist"
begin

text \<open>
  The replay buffers of \<open>server/replay_store.py\<close>: the events of each run, kept for clients that connect
  late, in memory, in a Redis list or in an SQLite table. The fate of every command that leaves the
  process is an argument, so a Redis pipeline or an SQLite transaction may stop half way. JSON text is
  represented by the value it reads back as; corrupt text is text written by something else.
\<close>

section \<open>Events as JSON\<close>

fun loaded :: "pyval \<Rightarrow> pyval" where
  "loaded (PDict d) = PDict (map (\<lambda>kv. (fst kv, loaded (snd kv))) d)"
| "loaded (PList xs) = PList (map loaded xs)"
| "loaded (PTuple xs) = PList (map loaded xs)"
| "loaded v = v"

datatype raw_event = Encoded pydict | Corrupt string

definition dump_event :: "pydict \<Rightarrow> raw_event option" where
  "dump_event e = (if dumpable (PDict e) then Some (Encoded (map (\<lambda>kv. (fst kv, loaded (snd kv))) e)) else None)"

fun decode_events :: "raw_event list \<Rightarrow> pydict list" where
  "decode_events [] = []"
| "decode_events (Encoded e # rs) = e # decode_events rs"
| "decode_events (Corrupt t # rs) = decode_events rs"

text \<open>How \<open>append\<close> ends: what the code does not catch leaves the method.\<close>

datatype append_end = AppendReturns | AppendValueError | AppendTypeError

section \<open>In memory\<close>

record memory_replay =
  mr_max :: int
  mr_buffers :: "(name \<times> pydict list) list"

definition new_memory_replay :: "int \<Rightarrow> memory_replay" where
  "new_memory_replay n = \<lparr>mr_max = n, mr_buffers = []\<rparr>"

text \<open>What a \<open>deque(maxlen=n)\<close> holds of a list.\<close>

definition keep_last :: "nat \<Rightarrow> 'a list \<Rightarrow> 'a list" where
  "keep_last n xs = drop (length xs - n) xs"

definition ram_get :: "name \<Rightarrow> memory_replay \<Rightarrow> pydict list" where
  "ram_get r s = (case map_of (mr_buffers s) r of None \<Rightarrow> [] | Some b \<Rightarrow> b)"

definition ram_append :: "name \<Rightarrow> pydict \<Rightarrow> memory_replay \<Rightarrow> append_end \<times> memory_replay" where
  "ram_append r e s =
     (if map_of (mr_buffers s) r = None \<and> mr_max s < 0 then (AppendValueError, s)
      else (AppendReturns, s\<lparr>mr_buffers := AList.update r (keep_last (nat (mr_max s)) (ram_get r s @ [e])) (mr_buffers s)\<rparr>))"

definition ram_clear :: "name \<Rightarrow> memory_replay \<Rightarrow> memory_replay" where
  "ram_clear r s = s\<lparr>mr_buffers := AList.delete r (mr_buffers s)\<rparr>"

section \<open>Redis\<close>

record redis_entry =
  rl_items :: "raw_event list"
  rl_expires :: "instant option"

type_synonym redis_keys = "(string \<times> redis_entry) list"

record redis_replay =
  rr_max :: int
  rr_ttl :: int
  rr_connected :: bool
  rr_server :: redis_keys

definition replay_key :: "name \<Rightarrow> string" where
  "replay_key r = ''agentic:replay:'' @ r"

text \<open>The commands of the server: a key whose time has come is gone.\<close>

definition live_entry :: "instant \<Rightarrow> string \<Rightarrow> redis_keys \<Rightarrow> redis_entry option" where
  "live_entry now k srv =
     (case map_of srv k of
        None \<Rightarrow> None
      | Some e \<Rightarrow> (case rl_expires e of None \<Rightarrow> Some e | Some t \<Rightarrow> if t \<le> now then None else Some e))"

definition cmd_rpush :: "raw_event \<Rightarrow> instant \<Rightarrow> string \<Rightarrow> redis_keys \<Rightarrow> redis_keys" where
  "cmd_rpush x now k srv =
     (let e = (case live_entry now k srv of None \<Rightarrow> \<lparr>rl_items = [], rl_expires = None\<rparr> | Some e \<Rightarrow> e)
      in AList.update k (e\<lparr>rl_items := rl_items e @ [x]\<rparr>) srv)"

definition list_range :: "int \<Rightarrow> int \<Rightarrow> 'a list \<Rightarrow> 'a list" where
  "list_range start stop xs =
     (let n = int (length xs);
          a = (if start < 0 then max 0 (start + n) else start);
          b = (if stop < 0 then stop + n else stop)
      in if a > b \<or> a \<ge> n then [] else take (nat (min b (n - 1) - a + 1)) (drop (nat a) xs))"

definition cmd_ltrim :: "int \<Rightarrow> int \<Rightarrow> instant \<Rightarrow> string \<Rightarrow> redis_keys \<Rightarrow> redis_keys" where
  "cmd_ltrim start stop now k srv =
     (case live_entry now k srv of
        None \<Rightarrow> srv
      | Some e \<Rightarrow>
          let xs = list_range start stop (rl_items e)
          in if xs = [] then AList.delete k srv else AList.update k (e\<lparr>rl_items := xs\<rparr>) srv)"

definition cmd_expire :: "int \<Rightarrow> instant \<Rightarrow> string \<Rightarrow> redis_keys \<Rightarrow> redis_keys" where
  "cmd_expire ttl now k srv =
     (case live_entry now k srv of
        None \<Rightarrow> srv
      | Some e \<Rightarrow>
          if ttl \<le> 0 then AList.delete k srv else AList.update k (e\<lparr>rl_expires := Some (now + of_int ttl)\<rparr>) srv)"

datatype redis_failure = ConnectionClass | OtherFailure

text \<open>A pipeline that is no transaction: it is done, or fails after its first commands took effect.\<close>

datatype pipe_fate = PipeDone | PipeFails nat redis_failure

definition connection_loss :: "redis_failure \<Rightarrow> redis_replay \<Rightarrow> redis_replay" where
  "connection_loss f s = (if f = ConnectionClass then s\<lparr>rr_connected := False\<rparr> else s)"

definition append_commands :: "raw_event \<Rightarrow> redis_replay \<Rightarrow> (instant \<Rightarrow> string \<Rightarrow> redis_keys \<Rightarrow> redis_keys) list" where
  "append_commands x s = [cmd_rpush x, cmd_ltrim (- rr_max s) (- 1), cmd_expire (rr_ttl s)]"

definition run_commands ::
  "(instant \<Rightarrow> string \<Rightarrow> redis_keys \<Rightarrow> redis_keys) list \<Rightarrow> instant \<Rightarrow> string \<Rightarrow> redis_keys \<Rightarrow> redis_keys" where
  "run_commands cs now k srv = fold (\<lambda>c. c now k) cs srv"

definition redis_replay_append ::
  "pipe_fate \<Rightarrow> instant \<Rightarrow> name \<Rightarrow> pydict \<Rightarrow> redis_replay \<Rightarrow> append_end \<times> redis_replay" where
  "redis_replay_append fate now r e s =
     (if \<not> rr_connected s then (AppendReturns, s)
      else case dump_event e of
             None \<Rightarrow> (AppendTypeError, s)
           | Some x \<Rightarrow>
               (case fate of
                  PipeDone \<Rightarrow> (AppendReturns, s\<lparr>rr_server := run_commands (append_commands x s) now (replay_key r) (rr_server s)\<rparr>)
                | PipeFails k f \<Rightarrow>
                    (AppendReturns, connection_loss f
                       (s\<lparr>rr_server := run_commands (take k (append_commands x s)) now (replay_key r) (rr_server s)\<rparr>))))"

definition redis_replay_get ::
  "redis_failure option \<Rightarrow> instant \<Rightarrow> name \<Rightarrow> redis_replay \<Rightarrow> pydict list \<times> redis_replay" where
  "redis_replay_get fail now r s =
     (if \<not> rr_connected s then ([], s)
      else case fail of
             Some f \<Rightarrow> ([], connection_loss f s)
           | None \<Rightarrow>
               (case live_entry now (replay_key r) (rr_server s) of
                  None \<Rightarrow> []
                | Some e \<Rightarrow> decode_events (list_range 0 (- 1) (rl_items e)), s))"

definition redis_replay_clear :: "redis_failure option \<Rightarrow> name \<Rightarrow> redis_replay \<Rightarrow> redis_replay" where
  "redis_replay_clear fail r s =
     (if \<not> rr_connected s then s
      else case fail of
             Some f \<Rightarrow> connection_loss f s
           | None \<Rightarrow> s\<lparr>rr_server := AList.delete (replay_key r) (rr_server s)\<rparr>)"

definition redis_replay_close :: "redis_replay \<Rightarrow> redis_replay" where
  "redis_replay_close s = s\<lparr>rr_connected := False\<rparr>"

text \<open>\<open>connect\<close>: without the package or without an answer to the ping the store stays disconnected.\<close>

definition redis_replay_connect :: "bool \<Rightarrow> bool \<Rightarrow> int \<Rightarrow> int \<Rightarrow> redis_keys \<Rightarrow> redis_replay" where
  "redis_replay_connect available ping n ttl srv =
     \<lparr>rr_max = n, rr_ttl = ttl, rr_connected = (available \<and> ping), rr_server = srv\<rparr>"

section \<open>SQLite\<close>

record event_row =
  er_run :: name
  er_seq :: int
  er_event :: raw_event
  er_created :: instant

text \<open>The table as the connection sees it, and as it was last committed.\<close>

record sqlite_replay =
  sr_max :: int
  sr_retention :: rat
  sr_open :: bool
  sr_view :: "event_row list"
  sr_committed :: "event_row list"

definition rows_of :: "name \<Rightarrow> event_row list \<Rightarrow> event_row list" where
  "rows_of r rows = filter (\<lambda>x. er_run x = r) rows"

definition commit :: "sqlite_replay \<Rightarrow> sqlite_replay" where
  "commit s = s\<lparr>sr_committed := sr_view s\<rparr>"

text \<open>\<open>_purge_expired\<close>: the number of the statement that raises, if one does.\<close>

definition purge_expired :: "nat option \<Rightarrow> instant \<Rightarrow> sqlite_replay \<Rightarrow> sqlite_replay" where
  "purge_expired fail now s =
     (if sr_retention s \<le> 0 \<or> fail = Some 0 then s
      else
        let s1 = s\<lparr>sr_view := filter (\<lambda>x. \<not> er_created x < now - sr_retention s) (sr_view s)\<rparr>
        in if fail = None then commit s1 else s1)"

definition next_seq :: "name \<Rightarrow> event_row list \<Rightarrow> int" where
  "next_seq r rows = foldr (\<lambda>x m. max (er_seq x) m) (rows_of r rows) (- 1) + 1"

text \<open>The primary key: \<^const>\<open>None\<close> is an integrity error.\<close>

definition insert_row :: "event_row \<Rightarrow> event_row list \<Rightarrow> event_row list option" where
  "insert_row x rows =
     (if list_ex (\<lambda>y. er_run y = er_run x \<and> er_seq y = er_seq x) rows then None else Some (rows @ [x]))"

text \<open>\<open>ORDER BY seq DESC LIMIT 1 OFFSET k\<close>, where a negative offset counts as zero; no row compares as
  unknown and deletes nothing.\<close>

definition cap_threshold :: "name \<Rightarrow> int \<Rightarrow> event_row list \<Rightarrow> int option" where
  "cap_threshold r k rows =
     (let seqs = rev (sort (map er_seq (rows_of r rows)))
      in if nat k < length seqs then Some (seqs ! nat k) else None)"

definition trim_rows :: "name \<Rightarrow> int \<Rightarrow> event_row list \<Rightarrow> event_row list" where
  "trim_rows r n rows =
     (case cap_threshold r (n - 1) rows of
        None \<Rightarrow> rows
      | Some t \<Rightarrow> filter (\<lambda>x. \<not> (er_run x = r \<and> er_seq x < t)) rows)"

text \<open>The statements of \<open>append\<close>: 0 selects, 1 inserts, 2 trims, 3 commits.\<close>

datatype sql_fate = SqlDone "nat option" | SqlFails nat

definition sqlite_append ::
  "sql_fate \<Rightarrow> instant \<Rightarrow> instant \<Rightarrow> name \<Rightarrow> pydict \<Rightarrow> sqlite_replay \<Rightarrow> append_end \<times> sqlite_replay" where
  "sqlite_append fate now later r e s =
     (AppendReturns,
      if \<not> sr_open s then s
      else case dump_event e of
             None \<Rightarrow> s
           | Some x \<Rightarrow>
               (case insert_row \<lparr>er_run = r, er_seq = next_seq r (sr_view s), er_event = x, er_created = now\<rparr> (sr_view s) of
                  None \<Rightarrow> s
                | Some rows \<Rightarrow>
                    (case fate of
                       SqlFails k \<Rightarrow>
                         if k \<le> 1 then s
                         else if k = 2 then s\<lparr>sr_view := rows\<rparr>
                         else s\<lparr>sr_view := trim_rows r (sr_max s) rows\<rparr>
                     | SqlDone p \<Rightarrow> purge_expired p later (commit (s\<lparr>sr_view := trim_rows r (sr_max s) rows\<rparr>)))))"

definition sqlite_get ::
  "nat option \<Rightarrow> bool \<Rightarrow> instant \<Rightarrow> name \<Rightarrow> sqlite_replay \<Rightarrow> pydict list \<times> sqlite_replay" where
  "sqlite_get pfail sfail now r s =
     (if \<not> sr_open s then ([], s)
      else
        let s1 = purge_expired pfail now s
        in (if sfail then [] else decode_events (map er_event (sort_key er_seq (rows_of r (sr_view s1)))), s1))"

definition sqlite_clear :: "nat option \<Rightarrow> name \<Rightarrow> sqlite_replay \<Rightarrow> sqlite_replay" where
  "sqlite_clear fail r s =
     (if \<not> sr_open s \<or> fail = Some 0 then s
      else
        let s1 = s\<lparr>sr_view := filter (\<lambda>x. er_run x \<noteq> r) (sr_view s)\<rparr>
        in if fail = None then commit s1 else s1)"

text \<open>\<open>connect\<close> to a database file that holds \<open>rows\<close>, and \<open>close\<close>, which drops what was not committed.\<close>

definition sqlite_connect :: "nat option \<Rightarrow> instant \<Rightarrow> int \<Rightarrow> rat \<Rightarrow> event_row list \<Rightarrow> sqlite_replay" where
  "sqlite_connect pfail now n keep rows =
     purge_expired pfail now \<lparr>sr_max = n, sr_retention = keep, sr_open = True, sr_view = rows, sr_committed = rows\<rparr>"

definition sqlite_close :: "sqlite_replay \<Rightarrow> sqlite_replay" where
  "sqlite_close s = s\<lparr>sr_open := False, sr_view := sr_committed s\<rparr>"

section \<open>Choice of a backend\<close>

datatype replay_store = MemoryStore memory_replay | RedisStore redis_replay | SqliteStore sqlite_replay

record replay_settings =
  rs_backend :: string
  rs_max_events :: int
  rs_ttl :: int
  rs_retention :: rat
  rs_redis_url :: "string option"

text \<open>What is installed and reachable; \<open>sqlite_rows\<close> is \<^const>\<open>None\<close> when opening the file raises.\<close>

record replay_world =
  redis_installed :: bool
  redis_answers :: bool
  redis_keyspace :: redis_keys
  sqlite_installed :: bool
  sqlite_rows :: "event_row list option"
  world_now :: instant

definition has_url :: "replay_settings \<Rightarrow> bool" where
  "has_url c = (case rs_redis_url c of None \<Rightarrow> False | Some u \<Rightarrow> u \<noteq> [])"

definition connect_redis :: "replay_settings \<Rightarrow> replay_world \<Rightarrow> redis_replay" where
  "connect_redis c w = redis_replay_connect (redis_installed w) (redis_answers w) (rs_max_events c) (rs_ttl c) (redis_keyspace w)"

definition memory_store :: "replay_settings \<Rightarrow> replay_store" where
  "memory_store c = MemoryStore (new_memory_replay (rs_max_events c))"

definition build_explicit_redis :: "replay_settings \<Rightarrow> replay_world \<Rightarrow> replay_store" where
  "build_explicit_redis c w =
     (if \<not> has_url c then memory_store c
      else if rr_connected (connect_redis c w) then RedisStore (connect_redis c w) else memory_store c)"

definition build_explicit_sqlite :: "replay_settings \<Rightarrow> replay_world \<Rightarrow> replay_store" where
  "build_explicit_sqlite c w =
     (if \<not> sqlite_installed w then memory_store c
      else case sqlite_rows w of
             None \<Rightarrow> memory_store c
           | Some rows \<Rightarrow> SqliteStore (sqlite_connect None (world_now w) (rs_max_events c) (rs_retention c) rows))"

definition build_auto_store :: "replay_settings \<Rightarrow> replay_world \<Rightarrow> replay_store" where
  "build_auto_store c w =
     (if has_url c \<and> redis_installed w \<and> rr_connected (connect_redis c w) then RedisStore (connect_redis c w)
      else build_explicit_sqlite c w)"

definition build_replay_store :: "replay_settings \<Rightarrow> replay_world \<Rightarrow> replay_store" where
  "build_replay_store c w =
     (if rs_backend c = ''redis'' then build_explicit_redis c w
      else if rs_backend c = ''sqlite'' then build_explicit_sqlite c w
      else if rs_backend c = ''memory'' then memory_store c
      else build_auto_store c w)"

section \<open>The contract\<close>

datatype replay_op = OpAppend instant name pydict | OpRead instant name | OpClear name

text \<open>The events of a run since it was last cleared.\<close>

fun since_clear :: "name \<Rightarrow> replay_op list \<Rightarrow> pydict list \<Rightarrow> pydict list" where
  "since_clear r [] acc = acc"
| "since_clear r (OpAppend t q e # ops) acc = since_clear r ops (if q = r then acc @ [e] else acc)"
| "since_clear r (OpRead t q # ops) acc = since_clear r ops acc"
| "since_clear r (OpClear q # ops) acc = since_clear r ops (if q = r then [] else acc)"

lemma keep_last_Nil [simp]: "keep_last n [] = []"
  by (simp add: keep_last_def)

lemma keep_last_append [simp]: "keep_last n (keep_last n xs @ [x]) = keep_last n (xs @ [x])"
proof (cases n)
  case (Suc m)
  have "length xs - (length xs - Suc m + m) + (length xs - Suc m) = length xs - m" by arith
  then show ?thesis by (simp add: keep_last_def Suc)
qed (simp add: keep_last_def)

lemma keep_last_length: "length (keep_last n xs) \<le> n"
  by (simp add: keep_last_def)

lemma map_keep_last: "map f (keep_last n xs) = keep_last n (map f xs)"
  by (simp add: keep_last_def drop_map)

text \<open>
  What a buffer promises within a time window: an event that can be stored is added at the end of its
  run, of which at most \<open>cap\<close> events are kept; clearing empties a run; reading changes nothing visible.
\<close>

locale replay_buffer =
  fixes events :: "instant \<Rightarrow> name \<Rightarrow> 's \<Rightarrow> pydict list"
    and put :: "instant \<Rightarrow> name \<Rightarrow> pydict \<Rightarrow> 's \<Rightarrow> 's"
    and look :: "instant \<Rightarrow> name \<Rightarrow> 's \<Rightarrow> 's"
    and wipe :: "name \<Rightarrow> 's \<Rightarrow> 's"
    and cap :: nat and ok :: "'s \<Rightarrow> bool" and window :: "instant \<Rightarrow> bool" and storable :: "pydict \<Rightarrow> bool"
  assumes put_law: "ok s \<Longrightarrow> window t \<Longrightarrow> storable e \<Longrightarrow> ok (put t r e s) \<and>
      (\<forall>t' q. window t' \<longrightarrow> events t' q (put t r e s) = (if q = r then keep_last cap (events t' r s @ [e]) else events t' q s))"
    and look_law: "ok s \<Longrightarrow> window t \<Longrightarrow> ok (look t r s) \<and> (\<forall>t' q. window t' \<longrightarrow> events t' q (look t r s) = events t' q s)"
    and wipe_law: "ok s \<Longrightarrow> ok (wipe r s) \<and>
      (\<forall>t' q. window t' \<longrightarrow> events t' q (wipe r s) = (if q = r then [] else events t' q s))"
begin

fun apply_op :: "replay_op \<Rightarrow> 's \<Rightarrow> 's" where
  "apply_op (OpAppend t r e) s = put t r e s"
| "apply_op (OpRead t r) s = look t r s"
| "apply_op (OpClear r) s = wipe r s"

fun legal_op :: "replay_op \<Rightarrow> bool" where
  "legal_op (OpAppend t r e) \<longleftrightarrow> window t \<and> storable e"
| "legal_op (OpRead t r) \<longleftrightarrow> window t"
| "legal_op (OpClear r) \<longleftrightarrow> True"

lemma run_keeps:
  "ok s \<Longrightarrow> list_all legal_op ops \<Longrightarrow> window t \<Longrightarrow> events t r s = keep_last cap acc \<Longrightarrow>
     ok (fold apply_op ops s) \<and> events t r (fold apply_op ops s) = keep_last cap (since_clear r ops acc)"
proof (induction r ops acc arbitrary: s rule: since_clear.induct)
  case (2 r u q e ops acc)
  then show ?case using put_law [of s u e q] by auto
next
  case (3 r u q ops acc)
  then show ?case using look_law [of s u q] by auto
next
  case (4 r q ops acc)
  then show ?case using wipe_law [of s q] by auto
qed simp

end

section \<open>Memory and Redis\<close>

definition ram_ok :: "nat \<Rightarrow> memory_replay \<Rightarrow> bool" where
  "ram_ok n s \<longleftrightarrow> mr_max s = int n"

interpretation ram_log: replay_buffer "\<lambda>t. ram_get" "\<lambda>t r e s. snd (ram_append r e s)" "\<lambda>t r s. s" ram_clear
  n "ram_ok n" "\<lambda>t. True" "\<lambda>e. True" for n
  by unfold_locales (auto simp: ram_ok_def ram_append_def ram_get_def ram_clear_def delete_conv')

fun encoded :: "raw_event \<Rightarrow> bool" where
  "encoded (Encoded e) = True"
| "encoded (Corrupt t) = False"

lemma decode_append [simp]: "decode_events (xs @ ys) = decode_events xs @ decode_events ys"
  by (induction xs rule: decode_events.induct) auto

lemma decode_keep_last: "list_all encoded xs \<Longrightarrow> decode_events (keep_last n xs) = keep_last n (decode_events xs)"
proof -
  assume "list_all encoded xs"
  then have "\<exists>es. xs = map Encoded es"
  proof (induction xs)
    case (Cons x xs)
    then show ?case by (cases x) (auto intro: exI [of _ "_ # _"])
  qed simp
  then obtain es where es: "xs = map Encoded es" ..
  have d: "decode_events (map Encoded fs) = fs" for fs by (induction fs) auto
  show ?thesis by (simp add: es d flip: map_keep_last)
qed

lemma encoded_keep_last: "list_all encoded xs \<Longrightarrow> list_all encoded (keep_last n xs)"
  by (auto simp: keep_last_def list_all_iff dest: in_set_dropD)

text \<open>An event that survives the trip through JSON.\<close>

definition plain_event :: "pydict \<Rightarrow> bool" where
  "plain_event e \<longleftrightarrow> dump_event e = Some (Encoded e)"

lemma list_range_all [simp]: "list_range 0 (- 1) xs = xs"
  by (cases "xs = []") (auto simp: list_range_def Let_def nat_diff_distrib)

lemma list_range_tail:
  assumes "0 < n" "xs \<noteq> []"
  shows "list_range (- int n) (- 1) xs = keep_last n xs" "keep_last n xs \<noteq> []"
proof -
  have "0 < length xs" using assms(2) by simp
  then have a: "max 0 (- int n + int (length xs)) = int (length xs - n)" "int (length xs - n) < int (length xs)"
    using assms(1) by linarith+
  have "nat (min (- 1 + int (length xs)) (int (length xs) - 1) - int (length xs - n) + 1) = length xs - (length xs - n)"
    using \<open>0 < length xs\<close> by linarith
  with a assms(1) show "list_range (- int n) (- 1) xs = keep_last n xs"
    by (auto simp: list_range_def keep_last_def Let_def)
  have "\<not> length xs \<le> length xs - n" using assms(1) \<open>0 < length xs\<close> by linarith
  then show "keep_last n xs \<noteq> []" by (simp add: keep_last_def)
qed

definition redis_ok :: "instant \<Rightarrow> nat \<Rightarrow> redis_replay \<Rightarrow> bool" where
  "redis_ok stop n s \<longleftrightarrow> rr_connected s \<and> rr_max s = int n \<and> 0 < n \<and> 0 < rr_ttl s \<and>
     (\<forall>k e. map_of (rr_server s) k = Some e \<longrightarrow> list_all encoded (rl_items e) \<and> (\<exists>x. rl_expires e = Some x \<and> stop \<le> x))"

definition redis_items :: "name \<Rightarrow> redis_keys \<Rightarrow> raw_event list" where
  "redis_items r srv = (case map_of srv (replay_key r) of None \<Rightarrow> [] | Some e \<Rightarrow> rl_items e)"

lemma replay_key_inj [simp]: "replay_key r = replay_key q \<longleftrightarrow> r = q"
  by (simp add: replay_key_def)

lemma redis_ok_live: "redis_ok stop n s \<Longrightarrow> t < stop \<Longrightarrow> live_entry t k (rr_server s) = map_of (rr_server s) k"
  by (force simp: redis_ok_def live_entry_def split: option.splits)

lemma redis_events:
  "redis_ok stop n s \<Longrightarrow> t < stop \<Longrightarrow> fst (redis_replay_get None t r s) = decode_events (redis_items r (rr_server s))"
  using redis_ok_live [of stop n s t "replay_key r"]
  by (auto simp: redis_replay_get_def redis_items_def redis_ok_def split: option.splits)

lemma append_commands_effect:
  assumes "redis_ok stop n s" "t < stop"
  shows "map_of (run_commands (append_commands x s) t (replay_key r) (rr_server s)) =
    (map_of (rr_server s))(replay_key r \<mapsto> \<lparr>rl_items = keep_last n (redis_items r (rr_server s) @ [x]), rl_expires = Some (t + of_int (rr_ttl s))\<rparr>)"
proof -
  let ?k = "replay_key r" and ?xs = "redis_items r (rr_server s) @ [x]"
  define e where "e = (case map_of (rr_server s) ?k of None \<Rightarrow> \<lparr>rl_items = [], rl_expires = None\<rparr> | Some e \<Rightarrow> e)"
  have e: "rl_items e = redis_items r (rr_server s)" "\<And>u. rl_expires e = Some u \<Longrightarrow> t < u"
    using assms by (force simp: e_def redis_items_def redis_ok_def split: option.splits)+
  have n: "0 < n" "rr_max s = int n" "0 < rr_ttl s" using assms(1) by (simp_all add: redis_ok_def)
  have live: "live_entry t ?k srv = Some f" if "map_of srv ?k = Some f" "rl_expires f = rl_expires e" for srv f
    using that e(2) by (auto simp: live_entry_def split: option.splits)
  define s1 where "s1 = cmd_rpush x t ?k (rr_server s)"
  have s1: "map_of s1 = (map_of (rr_server s))(?k \<mapsto> e\<lparr>rl_items := ?xs\<rparr>)"
    using e(1) by (simp add: s1_def cmd_rpush_def Let_def redis_ok_live [OF assms] e_def [symmetric])
  define s2 where "s2 = cmd_ltrim (- rr_max s) (- 1) t ?k s1"
  have s2: "map_of s2 = (map_of (rr_server s))(?k \<mapsto> e\<lparr>rl_items := keep_last n ?xs\<rparr>)"
    using list_range_tail [OF n(1), of ?xs] live [of s1 "e\<lparr>rl_items := ?xs\<rparr>"] s1 n(2)
    by (simp add: s2_def cmd_ltrim_def Let_def)
  have "map_of (cmd_expire (rr_ttl s) t ?k s2) =
      (map_of (rr_server s))(?k \<mapsto> e\<lparr>rl_items := keep_last n ?xs, rl_expires := Some (t + of_int (rr_ttl s))\<rparr>)"
    using live [of s2 "e\<lparr>rl_items := keep_last n ?xs\<rparr>"] s2 n(3) by (simp add: cmd_expire_def)
  then show ?thesis by (cases e) (simp add: run_commands_def append_commands_def s1_def s2_def)
qed

interpretation redis_log: replay_buffer "\<lambda>t r s. fst (redis_replay_get None t r s)"
  "\<lambda>t r e s. snd (redis_replay_append PipeDone t r e s)" "\<lambda>t r s. snd (redis_replay_get None t r s)" "redis_replay_clear None"
  n "\<lambda>s. redis_ok (start + of_int ttl) n s \<and> rr_ttl s = ttl" "\<lambda>t. start \<le> t \<and> t < start + of_int ttl" plain_event for start ttl n
proof unfold_locales
  fix s :: redis_replay and t e r
  assume ok: "redis_ok (start + of_int ttl) n s \<and> rr_ttl s = ttl" and t: "start \<le> t \<and> t < start + of_int ttl" and e: "plain_event e"
  let ?s = "snd (redis_replay_append PipeDone t r e s)"
  note f = append_commands_effect [OF conjunct1 [OF ok] conjunct2 [OF t], of "Encoded e" r]
  have s: "?s = s\<lparr>rr_server := run_commands (append_commands (Encoded e) s) t (replay_key r) (rr_server s)\<rparr>"
    using ok e by (simp add: redis_replay_append_def plain_event_def redis_ok_def)
  have enc: "list_all encoded (redis_items r (rr_server s))"
    using ok by (auto simp: redis_ok_def redis_items_def split: option.splits)
  have ok': "redis_ok (start + of_int ttl) n ?s \<and> rr_ttl ?s = ttl"
    using ok t enc by (auto simp: s f redis_ok_def encoded_keep_last)
  have "redis_items q (rr_server ?s) = (if q = r then keep_last n (redis_items r (rr_server s) @ [Encoded e]) else redis_items q (rr_server s))" for q
    by (simp add: redis_items_def s f)
  with ok ok' enc show "(redis_ok (start + of_int ttl) n ?s \<and> rr_ttl ?s = ttl) \<and>
      (\<forall>t' q. start \<le> t' \<and> t' < start + of_int ttl \<longrightarrow> fst (redis_replay_get None t' q ?s) =
         (if q = r then keep_last n (fst (redis_replay_get None t' r s) @ [e]) else fst (redis_replay_get None t' q s)))"
    by (auto simp: redis_events decode_keep_last)
next
  fix s :: redis_replay and t r
  assume "redis_ok (start + of_int ttl) n s \<and> rr_ttl s = ttl"
  moreover have "snd (redis_replay_get None t r s) = s" by (simp add: redis_replay_get_def)
  ultimately show "(redis_ok (start + of_int ttl) n (snd (redis_replay_get None t r s)) \<and> rr_ttl (snd (redis_replay_get None t r s)) = ttl) \<and>
      (\<forall>t' q. start \<le> t' \<and> t' < start + of_int ttl \<longrightarrow>
         fst (redis_replay_get None t' q (snd (redis_replay_get None t r s))) = fst (redis_replay_get None t' q s))" by simp
next
  fix s :: redis_replay and r
  assume ok: "redis_ok (start + of_int ttl) n s \<and> rr_ttl s = ttl"
  let ?s = "redis_replay_clear None r s"
  have s: "?s = s\<lparr>rr_server := AList.delete (replay_key r) (rr_server s)\<rparr>" using ok by (simp add: redis_replay_clear_def redis_ok_def)
  have ok': "redis_ok (start + of_int ttl) n ?s \<and> rr_ttl ?s = ttl"
    using ok by (auto simp: s redis_ok_def delete_conv' split: if_splits)
  have "redis_items q (rr_server ?s) = (if q = r then [] else redis_items q (rr_server s))" for q
    by (simp add: redis_items_def s delete_conv')
  with ok ok' show "(redis_ok (start + of_int ttl) n ?s \<and> rr_ttl ?s = ttl) \<and>
      (\<forall>t' q. start \<le> t' \<and> t' < start + of_int ttl \<longrightarrow>
         fst (redis_replay_get None t' q ?s) = (if q = r then [] else fst (redis_replay_get None t' q s)))"
    by (auto simp: redis_events)
qed

section \<open>The table\<close>

definition seq_ordered :: "event_row list \<Rightarrow> bool" where
  "seq_ordered rows \<longleftrightarrow> (\<forall>r. sorted_wrt (<) (map er_seq (rows_of r rows)))"

lemma rows_of_simps [simp]:
  "rows_of r [] = []" "rows_of r (x # rows) = (if er_run x = r then x # rows_of r rows else rows_of r rows)"
  "rows_of r (rows @ rows') = rows_of r rows @ rows_of r rows'"
  by (simp_all add: rows_of_def)

lemma next_seq_above: "x \<in> set (rows_of r rows) \<Longrightarrow> er_seq x < next_seq r rows"
proof -
  have "x \<in> set xs \<Longrightarrow> er_seq x \<le> foldr (\<lambda>x m. max (er_seq x) m) xs (- 1)" for xs
    by (induction xs) auto
  then show "x \<in> set (rows_of r rows) \<Longrightarrow> er_seq x < next_seq r rows" by (fastforce simp: next_seq_def)
qed

lemma insert_next: "er_run x = r \<Longrightarrow> er_seq x = next_seq r rows \<Longrightarrow> insert_row x rows = Some (rows @ [x])"
  using next_seq_above [of _ r rows] by (fastforce simp: insert_row_def list_ex_iff rows_of_def)

lemma seq_ordered_insert:
  "seq_ordered rows \<Longrightarrow> er_seq x = next_seq (er_run x) rows \<Longrightarrow> seq_ordered (rows @ [x])"
  using next_seq_above by (auto simp: seq_ordered_def sorted_wrt_append)

lemma seq_ordered_filter: "seq_ordered rows \<Longrightarrow> seq_ordered (filter P rows)"
proof -
  have "sorted_wrt (<) (map er_seq (filter Q xs))" if "sorted_wrt (<) (map er_seq xs)" for Q xs
    using that by (induction xs) auto
  moreover have "rows_of r (filter P rows) = filter P (rows_of r rows)" for r by (simp add: rows_of_def conj_commute)
  ultimately show "seq_ordered rows \<Longrightarrow> seq_ordered (filter P rows)" by (metis seq_ordered_def)
qed

lemma filter_from_nth:
  assumes "sorted_wrt (<) (map f xs)" "k < length xs"
  shows "filter (\<lambda>x. \<not> f x < (f (xs ! k) :: int)) xs = drop k xs"
proof -
  have "f x < f (xs ! k)" if x: "x \<in> set (take k xs)" for x
  proof -
    obtain i where "i < k" "x = xs ! i" using x assms(2) by (auto simp: in_set_conv_nth)
    then show ?thesis using assms sorted_wrt_nth_less [of "(<)" "map f xs" i k] by simp
  qed
  moreover have "\<not> f x < f (xs ! k)" if x: "x \<in> set (drop k xs)" for x
  proof -
    obtain i where "k + i < length xs" "x = xs ! (k + i)" using x assms(2) by (auto simp: in_set_conv_nth less_diff_conv add.commute)
    then show ?thesis using assms sorted_wrt_nth_less [of "(<)" "map f xs" k "k + i"] by (cases "i = 0") auto
  qed
  ultimately have "filter (\<lambda>x. \<not> f x < f (xs ! k)) (take k xs) = []" "filter (\<lambda>x. \<not> f x < f (xs ! k)) (drop k xs) = drop k xs"
    by (simp_all add: filter_empty_conv filter_id_conv)
  then show ?thesis using filter_append [of "\<lambda>x. \<not> f x < f (xs ! k)" "take k xs" "drop k xs"] by simp
qed

lemma trim_rows_spec:
  assumes "seq_ordered rows" "0 < n"
  shows "rows_of q (trim_rows r (int n) rows) = (if q = r then keep_last n (rows_of r rows) else rows_of q rows)"
    and "seq_ordered (trim_rows r (int n) rows)" "set (trim_rows r (int n) rows) \<subseteq> set rows"
proof -
  let ?R = "rows_of r rows" and ?k = "length (rows_of r rows) - n"
  have s: "sorted_wrt (<) (map er_seq ?R)" using assms(1) by (simp add: seq_ordered_def)
  then have sort: "sort (map er_seq ?R) = map er_seq ?R"
    by (simp add: sorted_wrt_mono_rel [of _ "(<)" "(\<le>)"] sort_key_id_if_sorted strict_sorted_imp_sorted)
  have t: "trim_rows r (int n) rows =
      (if length ?R < n then rows else filter (\<lambda>x. \<not> (er_run x = r \<and> er_seq x < er_seq (?R ! ?k))) rows)"
    using assms(2) by (auto simp: trim_rows_def cap_threshold_def Let_def sort rev_nth nat_diff_distrib Suc_diff_Suc)
  show "seq_ordered (trim_rows r (int n) rows)" "set (trim_rows r (int n) rows) \<subseteq> set rows"
    using assms(1) by (auto simp: t seq_ordered_filter)
  show "rows_of q (trim_rows r (int n) rows) = (if q = r then keep_last n (rows_of r rows) else rows_of q rows)"
  proof (cases "length ?R < n")
    case True
    then show ?thesis by (simp add: t keep_last_def)
  next
    case False
    have "rows_of q (filter (\<lambda>x. \<not> (er_run x = r \<and> er_seq x < v)) rows) =
        (if q = r then filter (\<lambda>x. \<not> er_seq x < v) ?R else rows_of q rows)" for v
      by (auto simp: rows_of_def intro: filter_cong)
    moreover have "filter (\<lambda>x. \<not> er_seq x < er_seq (?R ! ?k)) ?R = drop ?k ?R"
      using filter_from_nth [OF s, of ?k] False assms(2) by (simp add: not_less)
    ultimately show ?thesis using False by (simp add: t keep_last_def)
  qed
qed

lemma rows_filter: "rows_of r (filter P rows) = filter P (rows_of r rows)"
  by (simp add: rows_of_def conj_commute)

text \<open>A table in which everything was written after \<open>start\<close> and committed.\<close>

definition sqlite_ok :: "instant \<Rightarrow> rat \<Rightarrow> nat \<Rightarrow> sqlite_replay \<Rightarrow> bool" where
  "sqlite_ok start width n s \<longleftrightarrow> sr_open s \<and> sr_max s = int n \<and> 0 < n \<and> (sr_retention s \<le> 0 \<or> width \<le> sr_retention s) \<and>
     sr_committed s = sr_view s \<and> seq_ordered (sr_view s) \<and> (\<forall>x \<in> set (sr_view s). start \<le> er_created x \<and> encoded (er_event x))"

lemma sqlite_not_purged:
  assumes "sqlite_ok start width n s" "t < start + width"
  shows "purge_expired None t s = s"
proof -
  have "filter (\<lambda>x. \<not> er_created x < t - sr_retention s) (sr_view s) = sr_view s" if "0 < sr_retention s"
    using assms that by (intro filter_True) (fastforce simp: sqlite_ok_def)
  then show ?thesis using assms(1) by (simp add: purge_expired_def commit_def Let_def sqlite_ok_def)
qed

lemma sqlite_events:
  assumes "sqlite_ok start width n s" "t < start + width"
  shows "fst (sqlite_get None False t r s) = decode_events (map er_event (rows_of r (sr_view s)))"
    "snd (sqlite_get None False t r s) = s"
proof -
  have "sorted (map er_seq (rows_of r (sr_view s)))"
    using assms(1) by (auto simp: sqlite_ok_def seq_ordered_def intro: strict_sorted_imp_sorted)
  then show "fst (sqlite_get None False t r s) = decode_events (map er_event (rows_of r (sr_view s)))"
    "snd (sqlite_get None False t r s) = s"
    using assms by (simp_all add: sqlite_get_def sqlite_not_purged [OF assms] Let_def sort_key_id_if_sorted sqlite_ok_def)
qed

lemma sqlite_append_effect:
  assumes ok: "sqlite_ok start width n s" and t: "start \<le> t" "t < start + width" and e: "plain_event e"
    and s'_def: "s' = snd (sqlite_append (SqlDone None) t t r e s)"
  shows "sqlite_ok start width n s'"
    "map er_event (rows_of q (sr_view s')) =
       (if q = r then keep_last n (map er_event (rows_of r (sr_view s)) @ [Encoded e]) else map er_event (rows_of q (sr_view s)))"
proof -
  let ?x = "\<lparr>er_run = r, er_seq = next_seq r (sr_view s), er_event = Encoded e, er_created = t\<rparr>"
  let ?rows = "sr_view s @ [?x]"
  define s1 where "s1 = commit (s\<lparr>sr_view := trim_rows r (int n) ?rows\<rparr>)"
  have o: "seq_ordered ?rows" using ok by (intro seq_ordered_insert) (simp_all add: sqlite_ok_def)
  have n: "0 < n" "sr_max s = int n" using ok by (simp_all add: sqlite_ok_def)
  note tr = trim_rows_spec [OF o n(1)]
  have ok1: "sqlite_ok start width n s1"
  proof -
    have "start \<le> er_created x \<and> encoded (er_event x)" if "x \<in> set (trim_rows r (int n) ?rows)" for x
      using subsetD [OF tr(3) that] ok t(1) by (auto simp: sqlite_ok_def)
    then show ?thesis using ok tr(2) by (simp add: sqlite_ok_def s1_def commit_def)
  qed
  have "s' = purge_expired None t s1"
    using ok e n(2) insert_next [of ?x r "sr_view s"]
    by (simp add: s'_def s1_def sqlite_append_def sqlite_ok_def plain_event_def)
  then have s': "s' = s1" using sqlite_not_purged [OF ok1 t(2)] by simp
  show "sqlite_ok start width n s'" using ok1 s' by simp
  show "map er_event (rows_of q (sr_view s')) =
       (if q = r then keep_last n (map er_event (rows_of r (sr_view s)) @ [Encoded e]) else map er_event (rows_of q (sr_view s)))"
    by (simp add: s' s1_def commit_def tr(1) map_keep_last)
qed

lemma sqlite_encoded: "sqlite_ok start width n s \<Longrightarrow> list_all encoded (map er_event (rows_of r (sr_view s)))"
  by (auto simp: sqlite_ok_def list_all_iff rows_of_def)

lemma sqlite_clear_effect:
  assumes "sqlite_ok start width n s"
  shows "sqlite_ok start width n (sqlite_clear None r s)"
    "rows_of q (sr_view (sqlite_clear None r s)) = (if q = r then [] else rows_of q (sr_view s))"
proof -
  have "sqlite_clear None r s = commit (s\<lparr>sr_view := filter (\<lambda>x. er_run x \<noteq> r) (sr_view s)\<rparr>)"
    using assms by (simp add: sqlite_clear_def sqlite_ok_def)
  then show "sqlite_ok start width n (sqlite_clear None r s)"
    "rows_of q (sr_view (sqlite_clear None r s)) = (if q = r then [] else rows_of q (sr_view s))"
    using assms by (auto simp: sqlite_ok_def commit_def seq_ordered_filter rows_of_def intro: filter_cong)
qed

interpretation sqlite_log: replay_buffer "\<lambda>t r s. fst (sqlite_get None False t r s)"
  "\<lambda>t r e s. snd (sqlite_append (SqlDone None) t t r e s)" "\<lambda>t r s. snd (sqlite_get None False t r s)" "sqlite_clear None"
  n "sqlite_ok start width n" "\<lambda>t. start \<le> t \<and> t < start + width" plain_event for start width n
proof unfold_locales
  fix s :: sqlite_replay and t e r
  assume ok: "sqlite_ok start width n s" and t: "start \<le> t \<and> t < start + width" and e: "plain_event e"
  note f = sqlite_append_effect [OF ok conjunct1 [OF t] conjunct2 [OF t] e refl]
  from f ok sqlite_encoded [OF ok] show "sqlite_ok start width n (snd (sqlite_append (SqlDone None) t t r e s)) \<and>
      (\<forall>t' q. start \<le> t' \<and> t' < start + width \<longrightarrow>
         fst (sqlite_get None False t' q (snd (sqlite_append (SqlDone None) t t r e s))) =
         (if q = r then keep_last n (fst (sqlite_get None False t' r s) @ [e]) else fst (sqlite_get None False t' q s)))"
    by (simp add: sqlite_events(1) [OF f(1)] sqlite_events(1) [OF ok] decode_keep_last)
next
  fix s :: sqlite_replay and t r
  assume "sqlite_ok start width n s" "start \<le> t \<and> t < start + width"
  then show "sqlite_ok start width n (snd (sqlite_get None False t r s)) \<and>
      (\<forall>t' q. start \<le> t' \<and> t' < start + width \<longrightarrow>
         fst (sqlite_get None False t' q (snd (sqlite_get None False t r s))) = fst (sqlite_get None False t' q s))"
    by (simp add: sqlite_events)
next
  fix s :: sqlite_replay and r
  assume ok: "sqlite_ok start width n s"
  note f = sqlite_clear_effect [OF ok]
  from f ok show "sqlite_ok start width n (sqlite_clear None r s) \<and>
      (\<forall>t' q. start \<le> t' \<and> t' < start + width \<longrightarrow>
         fst (sqlite_get None False t' q (sqlite_clear None r s)) = (if q = r then [] else fst (sqlite_get None False t' q s)))"
    by (simp add: sqlite_events(1) [OF f(1)] sqlite_events(1) [OF ok])
qed

section \<open>Agreement of the backends\<close>

text \<open>One operation on each backend when nothing fails.\<close>

fun ram_op :: "replay_op \<Rightarrow> memory_replay \<Rightarrow> memory_replay" where
  "ram_op (OpAppend t r e) s = snd (ram_append r e s)"
| "ram_op (OpRead t r) s = s"
| "ram_op (OpClear r) s = ram_clear r s"

fun redis_op :: "replay_op \<Rightarrow> redis_replay \<Rightarrow> redis_replay" where
  "redis_op (OpAppend t r e) s = snd (redis_replay_append PipeDone t r e s)"
| "redis_op (OpRead t r) s = snd (redis_replay_get None t r s)"
| "redis_op (OpClear r) s = redis_replay_clear None r s"

fun sqlite_op :: "replay_op \<Rightarrow> sqlite_replay \<Rightarrow> sqlite_replay" where
  "sqlite_op (OpAppend t r e) s = snd (sqlite_append (SqlDone None) t t r e s)"
| "sqlite_op (OpRead t r) s = snd (sqlite_get None False t r s)"
| "sqlite_op (OpClear r) s = sqlite_clear None r s"

fun op_within :: "instant \<Rightarrow> rat \<Rightarrow> replay_op \<Rightarrow> bool" where
  "op_within start width (OpAppend t r e) \<longleftrightarrow> start \<le> t \<and> t < start + width \<and> plain_event e"
| "op_within start width (OpRead t r) \<longleftrightarrow> start \<le> t \<and> t < start + width"
| "op_within start width (OpClear r) \<longleftrightarrow> True"

lemma backend_ops:
  "ram_op = ram_log.apply_op" "redis_op = redis_log.apply_op" "sqlite_op = sqlite_log.apply_op"
proof -
  have "ram_op op s = ram_log.apply_op op s" "redis_op op s' = redis_log.apply_op op s'"
    "sqlite_op op s'' = sqlite_log.apply_op op s''" for op s s' s''
    by (cases op; simp)+
  then show "ram_op = ram_log.apply_op" "redis_op = redis_log.apply_op" "sqlite_op = sqlite_log.apply_op"
    by (intro ext; simp)+
qed

lemma ops_legal:
  assumes "list_all (op_within start width) ops"
  shows "list_all ram_log.legal_op ops" "width \<le> of_int ttl \<Longrightarrow> list_all (redis_log.legal_op start ttl) ops"
    "list_all (sqlite_log.legal_op start width) ops"
proof -
  have "op_within start width op \<Longrightarrow> ram_log.legal_op op \<and> (width \<le> of_int ttl \<longrightarrow> redis_log.legal_op start ttl op) \<and>
      sqlite_log.legal_op start width op" for op
    by (cases op) auto
  with assms show "list_all ram_log.legal_op ops" "width \<le> of_int ttl \<Longrightarrow> list_all (redis_log.legal_op start ttl) ops"
    "list_all (sqlite_log.legal_op start width) ops" by (simp_all add: list_all_iff)
qed

text \<open>C35. Whatever backend is chosen, a late client is shown the same history: while nothing fails and no
  event has reached its time to live, each of the three stores returns the last \<open>max_events\<close> events of the
  run since it was last cleared, in the order they were appended; the SQLite store still does after it
  was closed and the file opened again.\<close>

theorem replay_stores_agree:
  assumes "0 < n" "0 < ttl" "width \<le> of_int ttl" "retention \<le> 0 \<or> width \<le> retention"
    and ops: "list_all (op_within start width) ops" and t: "start \<le> t" "t < start + width"
  shows "ram_get r (fold ram_op ops (new_memory_replay (int n))) = keep_last n (since_clear r ops []) \<and>
    fst (redis_replay_get None t r (fold redis_op ops (redis_replay_connect True True (int n) ttl []))) = keep_last n (since_clear r ops []) \<and>
    fst (sqlite_get None False t r (fold sqlite_op ops (sqlite_connect None start (int n) retention []))) = keep_last n (since_clear r ops []) \<and>
    fst (sqlite_get None False t r (sqlite_connect None t (int n) retention
        (sr_committed (sqlite_close (fold sqlite_op ops (sqlite_connect None start (int n) retention [])))))) =
      keep_last n (since_clear r ops [])"
proof (intro conjI)
  note legal = ops_legal [OF ops]
  let ?m = "new_memory_replay (int n)" and ?d = "redis_replay_connect True True (int n) ttl []"
  let ?q = "sqlite_connect None start (int n) retention []"
  have m: "ram_ok n ?m" "ram_get r ?m = []" by (simp_all add: ram_ok_def new_memory_replay_def ram_get_def)
  show "ram_get r (fold ram_op ops ?m) = keep_last n (since_clear r ops [])"
    using ram_log.run_keeps [OF m(1) legal(1), of r "[]"] m(2) by (simp add: backend_ops)
  have d: "redis_ok (start + of_int ttl) n ?d \<and> rr_ttl ?d = ttl" "fst (redis_replay_get None t r ?d) = []"
    using assms(1, 2) by (simp_all add: redis_ok_def redis_replay_connect_def redis_replay_get_def live_entry_def)
  show "fst (redis_replay_get None t r (fold redis_op ops ?d)) = keep_last n (since_clear r ops [])"
    using redis_log.run_keeps [OF d(1) legal(2) [OF assms(3)], of t r "[]"] d(2) t assms(3) by (simp add: backend_ops)
  have q: "sqlite_ok start width n ?q"
    using assms(1, 4) by (auto simp: sqlite_ok_def sqlite_connect_def purge_expired_def commit_def Let_def seq_ordered_def)
  have "fst (sqlite_get None False t r ?q) = []" using sqlite_events(1) [OF q t(2), of r]
    by (simp add: sqlite_connect_def purge_expired_def commit_def Let_def)
  then have run: "sqlite_ok start width n (fold sqlite_op ops ?q)"
    "fst (sqlite_get None False t r (fold sqlite_op ops ?q)) = keep_last n (since_clear r ops [])"
    using sqlite_log.run_keeps [OF q legal(3), of t r "[]"] t by (simp_all add: backend_ops)
  show "fst (sqlite_get None False t r (fold sqlite_op ops ?q)) = keep_last n (since_clear r ops [])" by (rule run(2))
  let ?s = "\<lparr>sr_max = int n, sr_retention = retention, sr_open = True, sr_view = sr_view (fold sqlite_op ops ?q),
     sr_committed = sr_view (fold sqlite_op ops ?q)\<rparr>"
  have s: "sqlite_ok start width n ?s" using run(1) assms(4) by (simp add: sqlite_ok_def)
  have "sqlite_connect None t (int n) retention (sr_committed (sqlite_close (fold sqlite_op ops ?q))) = ?s"
    using sqlite_not_purged [OF s t(2)] run(1) by (simp add: sqlite_connect_def sqlite_close_def sqlite_ok_def)
  then show "fst (sqlite_get None False t r (sqlite_connect None t (int n) retention
      (sr_committed (sqlite_close (fold sqlite_op ops ?q))))) = keep_last n (since_clear r ops [])"
    using run(2) sqlite_events(1) [OF s t(2)] sqlite_events(1) [OF run(1) t(2)] by simp
qed

section \<open>Failures\<close>

text \<open>Operations on the SQLite store with the fate of every statement, and restarts of the process.\<close>

datatype faulty_op =
    FaultyAppend sql_fate instant instant name pydict
  | FaultyRead "nat option" bool instant name
  | FaultyClear "nat option" name
  | Restart "nat option" instant

fun sqlite_faulty :: "faulty_op \<Rightarrow> sqlite_replay \<Rightarrow> sqlite_replay" where
  "sqlite_faulty (FaultyAppend f t t' r e) s = snd (sqlite_append f t t' r e s)"
| "sqlite_faulty (FaultyRead p b t r) s = snd (sqlite_get p b t r s)"
| "sqlite_faulty (FaultyClear p r) s = sqlite_clear p r s"
| "sqlite_faulty (Restart p t) s = sqlite_connect p t (sr_max s) (sr_retention s) (sr_committed (sqlite_close s))"

fun appended :: "name \<Rightarrow> faulty_op list \<Rightarrow> raw_event list" where
  "appended r [] = []"
| "appended r (FaultyAppend f t t' q e # ops) =
     (case dump_event e of Some x \<Rightarrow> if q = r then [x] else [] | None \<Rightarrow> []) @ appended r ops"
| "appended r (_ # ops) = appended r ops"

definition faithful :: "name \<Rightarrow> raw_event list \<Rightarrow> event_row list \<Rightarrow> bool" where
  "faithful r xs rows \<longleftrightarrow> seq_ordered rows \<and> subseq (map er_event (rows_of r rows)) xs"

lemma faithful_filter: "faithful r xs rows \<Longrightarrow> faithful r xs (filter P rows)"
proof -
  have "subseq (map er_event (filter P (rows_of r rows))) (map er_event (rows_of r rows))"
    by (intro subseq_map subseq_filter_left)
  then show "faithful r xs rows \<Longrightarrow> faithful r xs (filter P rows)"
    by (auto simp: faithful_def rows_filter seq_ordered_filter intro: subseq_order.order_trans)
qed

lemma faithful_more: "faithful r xs rows \<Longrightarrow> faithful r (xs @ ys) rows"
  unfolding faithful_def by (metis subseq_rev_drop_many)

lemma faithful_trim: "faithful r xs rows \<Longrightarrow> faithful r xs (trim_rows q k rows)"
  by (auto simp: trim_rows_def faithful_filter split: option.splits)

lemma faithful_insert:
  assumes "faithful r xs rows" "er_seq x = next_seq (er_run x) rows"
  shows "faithful r (xs @ (if er_run x = r then [er_event x] else [])) (rows @ [x])"
  using assms seq_ordered_insert [of rows x] by (auto simp: faithful_def intro: list_emb_append_mono)

definition table_ok :: "name \<Rightarrow> raw_event list \<Rightarrow> sqlite_replay \<Rightarrow> bool" where
  "table_ok r xs s \<longleftrightarrow> faithful r xs (sr_view s) \<and> faithful r xs (sr_committed s)"

lemma table_ok_purge: "table_ok r xs s \<Longrightarrow> table_ok r xs (purge_expired p t s)"
  by (auto simp: table_ok_def purge_expired_def commit_def Let_def faithful_filter)

lemma table_ok_step:
  assumes "table_ok r xs s"
  shows "table_ok r (xs @ appended r [op]) (sqlite_faulty op s)"
proof (cases op)
  case (FaultyAppend f t t' q e)
  show ?thesis
  proof (cases "sr_open s \<and> dump_event e \<noteq> None")
    case True
    then obtain d where d: "dump_event e = Some d" by blast
    define x where "x = \<lparr>er_run = q, er_seq = next_seq q (sr_view s), er_event = d, er_created = t\<rparr>"
    have i: "insert_row x (sr_view s) = Some (sr_view s @ [x])" by (simp add: insert_next x_def)
    define ys where "ys = xs @ appended r [op]"
    have "appended r [op] = (if er_run x = r then [er_event x] else [])" by (simp add: FaultyAppend d x_def)
    then have f: "faithful r ys (sr_view s @ [x])" "table_ok r ys s"
      using assms faithful_insert [of r xs "sr_view s" x] faithful_more by (simp_all add: ys_def table_ok_def x_def)
    then have "table_ok r ys (s\<lparr>sr_view := sr_view s @ [x]\<rparr>)"
      "table_ok r ys (s\<lparr>sr_view := trim_rows q (sr_max s) (sr_view s @ [x])\<rparr>)"
      "table_ok r ys (commit (s\<lparr>sr_view := trim_rows q (sr_max s) (sr_view s @ [x])\<rparr>))"
      by (simp_all add: table_ok_def faithful_trim commit_def)
    with f(2) have "table_ok r ys (sqlite_faulty op s)" using True d i
      by (simp add: FaultyAppend sqlite_append_def x_def [symmetric] table_ok_purge split: sql_fate.split)
    then show ?thesis by (simp add: ys_def)
  next
    case False
    then show ?thesis using assms faithful_more
      by (auto simp: FaultyAppend sqlite_append_def table_ok_def split: option.splits)
  qed
next
  case (FaultyRead p b t q)
  then show ?thesis using assms by (simp add: sqlite_get_def Let_def table_ok_purge)
next
  case (FaultyClear p q)
  then show ?thesis using assms by (simp add: sqlite_clear_def Let_def table_ok_def commit_def faithful_filter)
next
  case (Restart p t)
  then show ?thesis using assms table_ok_purge [of r xs "\<lparr>sr_max = sr_max s, sr_retention = sr_retention s, sr_open = True,
      sr_view = sr_committed s, sr_committed = sr_committed s\<rparr>"]
    by (simp add: sqlite_connect_def sqlite_close_def table_ok_def)
qed

lemma table_ok_run: "table_ok r xs s \<Longrightarrow> table_ok r (xs @ appended r ops) (fold sqlite_faulty ops s)"
proof (induction ops arbitrary: xs s)
  case (Cons op ops)
  have "appended r (op # ops) = appended r [op] @ appended r ops" by (cases op) (simp_all split: option.split)
  then show ?case using Cons.IH [OF table_ok_step [OF Cons.prems, of op]] by simp
qed simp

lemma decode_subseq: "subseq xs ys \<Longrightarrow> subseq (decode_events xs) (decode_events ys)"
proof (induction rule: list_emb.induct)
  case (list_emb_Cons xs ys y)
  then show ?case by (cases y) auto
next
  case (list_emb_Cons2 x y xs ys)
  then show ?case by (cases y) auto
qed simp

text \<open>C36. Whatever statements fail and whenever the process is restarted, the SQLite store invents,
  repeats and reorders nothing: what it returns for a run is a subsequence of the events that were
  appended to the run, and sequence numbers increase in the order of insertion.\<close>

theorem replay_never_invents:
  "let s = fold sqlite_faulty ops (sqlite_connect p start n retention [])
   in subseq (fst (sqlite_get q b t r s)) (decode_events (appended r ops)) \<and>
      seq_ordered (sr_view s) \<and> seq_ordered (sr_committed s)"
proof -
  define s where "s = fold sqlite_faulty ops (sqlite_connect p start n retention [])"
  have "table_ok r [] (sqlite_connect p start n retention [])"
    unfolding sqlite_connect_def by (rule table_ok_purge) (simp add: table_ok_def faithful_def seq_ordered_def)
  from table_ok_run [OF this, of ops] have k: "table_ok r (appended r ops) s" by (simp add: s_def)
  define s1 where "s1 = purge_expired q t s"
  have k1: "table_ok r (appended r ops) s1" using table_ok_purge [OF k] by (simp add: s1_def)
  then have "sorted (map er_seq (rows_of r (sr_view s1)))"
    by (auto simp: table_ok_def faithful_def seq_ordered_def intro: strict_sorted_imp_sorted)
  then have "fst (sqlite_get q b t r s) \<in> {[], decode_events (map er_event (rows_of r (sr_view s1)))}"
    by (simp add: sqlite_get_def s1_def [symmetric] Let_def sort_key_id_if_sorted)
  moreover have "subseq (decode_events (map er_event (rows_of r (sr_view s1)))) (decode_events (appended r ops))"
    using k1 decode_subseq by (simp add: table_ok_def faithful_def)
  ultimately have "subseq (fst (sqlite_get q b t r s)) (decode_events (appended r ops))" by auto
  with k show ?thesis by (simp add: Let_def s_def [symmetric] table_ok_def faithful_def)
qed

section \<open>Examples\<close>

definition ev :: "int \<Rightarrow> pydict" where
  "ev i = [(''n'', PInt i)]"

definition sample_ops :: "replay_op list" where
  "sample_ops = [OpAppend 1 ''a'' (ev 0), OpClear ''a'', OpAppend 2 ''a'' (ev 1), OpAppend 2 ''b'' (ev 9), OpRead 3 ''a'',
     OpAppend 3 ''a'' (ev 2), OpAppend 4 ''a'' (ev 3)]"

theorem replay_stores_agree_witness:
  "ram_get ''a'' (fold ram_op sample_ops (new_memory_replay 2)) = [ev 2, ev 3] \<and>
   fst (redis_replay_get None 5 ''a'' (fold redis_op sample_ops (redis_replay_connect True True 2 60 []))) = [ev 2, ev 3] \<and>
   fst (sqlite_get None False 5 ''a'' (fold sqlite_op sample_ops (sqlite_connect None 0 2 30 []))) = [ev 2, ev 3]"
proof -
  have "list_all (op_within 0 10) sample_ops"
    by (simp add: sample_ops_def plain_event_def dump_event_def ev_def)
  moreover have "keep_last 2 (since_clear ''a'' sample_ops []) = [ev 2, ev 3]"
    by (simp add: sample_ops_def keep_last_def)
  ultimately show ?thesis
    using replay_stores_agree [of 2 60 10 30 0 sample_ops 5 "''a''"] by simp
qed

text \<open>With a limit of zero the three stores differ: nothing, everything and one event are kept.\<close>

lemma zero_limit_differs:
  "let ops = [OpAppend 1 ''a'' (ev 1), OpAppend 2 ''a'' (ev 2)]
   in map length [ram_get ''a'' (fold ram_op ops (new_memory_replay 0)),
        fst (redis_replay_get None 3 ''a'' (fold redis_op ops (redis_replay_connect True True 0 60 []))),
        fst (sqlite_get None False 3 ''a'' (fold sqlite_op ops (sqlite_connect None 0 0 60 [])))] = [0, 2, 1]"
  by code_simp

text \<open>An event that is no JSON raises out of the Redis store and only there.\<close>

lemma redis_append_raises:
  "fst (redis_replay_append PipeDone 0 ''a'' [(''when'', PDatetime [])] (redis_replay_connect True True 5 60 [])) = AppendTypeError"
  "fst (sqlite_append (SqlDone None) 0 0 ''a'' [(''when'', PDatetime [])] s) = AppendReturns"
  "fst (ram_append ''a'' [(''when'', PDatetime [])] (new_memory_replay 5)) = AppendReturns"
  by (simp_all add: redis_replay_append_def redis_replay_connect_def dump_event_def sqlite_append_def ram_append_def new_memory_replay_def)

text \<open>An append whose commit fails is reported as failed; the next commit stores its event after all.\<close>

lemma failed_append_appears:
  "map length [fst (sqlite_get None False 2 ''a'' (sqlite_faulty (Restart None 2) (sqlite_faulty (FaultyAppend (SqlFails 3) 1 1 ''a'' (ev 1)) s))),
     fst (sqlite_get None False 2 ''a'' (sqlite_faulty (Restart None 2) (sqlite_faulty (FaultyClear None ''b'')
       (sqlite_faulty (FaultyAppend (SqlFails 3) 1 1 ''a'' (ev 1)) s))))] = [0, 1]"
  if "s = sqlite_connect None 0 5 60 []"
  unfolding that by code_simp

end
