(* ===== verification/Sanitization_Dispatch.thy ===== *)
theory Sanitization_Dispatch
  imports Sanitization
begin

text \<open>
  Where the sanitizers meet the model clients: \<open>models/sanitization_dispatch.py\<close>, which cleans prompts, chat
  messages and content blocks, and \<open>langchain/response_sanitization.py\<close>. The \<open>source\<close> and \<open>tier\<close> arguments only
  reach the context of the middleware, which the chain does not read.
\<close>

section \<open>Prompts\<close>

datatype dispatch_error = SanitizerRaised chain_error | PromptBlocked classification

definition sanitize_prompt :: "san_env \<Rightarrow> san_middleware option \<Rightarrow> string \<Rightarrow> dispatch_error + string" where
  "sanitize_prompt env sanitization prompt =
     (case sanitization of
        None \<Rightarrow> Inr prompt
      | Some m \<Rightarrow>
          (case middleware_process env m prompt of
             Inl e \<Rightarrow> Inl (SanitizerRaised e)
           | Inr r \<Rightarrow>
               if \<not> is_safe r then Inl (PromptBlocked (sa_class r))
               else Inr (case sa_text r of Some t \<Rightarrow> t | None \<Rightarrow> prompt)))"

section \<open>Content blocks and messages\<close>

text \<open>The text of a block \<open>{"type": "text", "text": ...}\<close>.\<close>

definition text_block :: "pyval \<Rightarrow> ((string \<times> pyval) list \<times> string) option" where
  "text_block v =
     (case v of
        PDict d \<Rightarrow>
          (if map_of d ''type'' = Some (PStr ''text'')
           then (case map_of d ''text'' of Some (PStr s) \<Rightarrow> Some (d, s) | _ \<Rightarrow> None)
           else None)
      | _ \<Rightarrow> None)"

fun sanitize_content_blocks :: "san_env \<Rightarrow> san_middleware option \<Rightarrow> pyval list \<Rightarrow> dispatch_error + pyval list \<times> bool" where
  "sanitize_content_blocks env sanitization [] = Inr ([], False)"
| "sanitize_content_blocks env sanitization (block # blocks) =
     (case text_block block of
        None \<Rightarrow>
          rbind (sanitize_content_blocks env sanitization blocks) (\<lambda>(cleaned, mutated). Inr (block # cleaned, mutated))
      | Some (d, s) \<Rightarrow>
          rbind (sanitize_prompt env sanitization s) (\<lambda>cleaned_text.
          rbind (sanitize_content_blocks env sanitization blocks) (\<lambda>(cleaned, mutated).
            if cleaned_text \<noteq> s then Inr (PDict (AList.update ''text'' (PStr cleaned_text) d) # cleaned, True)
            else Inr (block # cleaned, mutated))))"

type_synonym message = "(string \<times> pyval) list"

definition sanitize_message :: "san_env \<Rightarrow> san_middleware option \<Rightarrow> message \<Rightarrow> dispatch_error + message" where
  "sanitize_message env sanitization msg =
     (case map_of msg ''content'' of
        Some (PStr content) \<Rightarrow>
          (if content = [] then Inr msg
           else rbind (sanitize_prompt env sanitization content) (\<lambda>cleaned.
             if cleaned = content then Inr msg else Inr (AList.update ''content'' (PStr cleaned) msg)))
      | Some (PList blocks) \<Rightarrow>
          rbind (sanitize_content_blocks env sanitization blocks) (\<lambda>(cleaned, mutated).
            if mutated then Inr (AList.update ''content'' (PList cleaned) msg) else Inr msg)
      | _ \<Rightarrow> Inr msg)"

fun sanitize_each :: "san_env \<Rightarrow> san_middleware option \<Rightarrow> message list \<Rightarrow> dispatch_error + message list" where
  "sanitize_each env sanitization [] = Inr []"
| "sanitize_each env sanitization (msg # msgs) =
     rbind (sanitize_message env sanitization msg) (\<lambda>m.
     rbind (sanitize_each env sanitization msgs) (\<lambda>ms. Inr (m # ms)))"

definition sanitize_messages :: "san_env \<Rightarrow> san_middleware option \<Rightarrow> message list \<Rightarrow> dispatch_error + message list" where
  "sanitize_messages env sanitization messages =
     (if sanitization = None then Inr messages else sanitize_each env sanitization messages)"

section \<open>Responses\<close>

definition sanitize_response_str :: "san_env \<Rightarrow> char unicode_data \<Rightarrow> response_config option \<Rightarrow> string \<Rightarrow> string" where
  "sanitize_response_str env u sanitizer response =
     (case sanitizer of
        None \<Rightarrow> response
      | Some c \<Rightarrow> (case sa_text (sanitize_response env u c response) of Some t \<Rightarrow> t | None \<Rightarrow> response))"

definition sanitize_response_blocks :: "san_env \<Rightarrow> char unicode_data \<Rightarrow> response_config option \<Rightarrow> pyval list \<Rightarrow> pyval list" where
  "sanitize_response_blocks env u sanitizer blocks =
     map (\<lambda>block. case text_block block of
        None \<Rightarrow> block
      | Some (d, s) \<Rightarrow> PDict (AList.update ''text'' (PStr (sanitize_response_str env u sanitizer s)) d)) blocks"

definition sanitize_agent_response_text :: "san_env \<Rightarrow> char unicode_data \<Rightarrow> bool \<Rightarrow> bool \<Rightarrow> string \<Rightarrow> string" where
  "sanitize_agent_response_text env u no_llm sanitize_agent_loop s =
     (if s = [] \<or> no_llm then s
      else if \<not> sanitize_agent_loop then s
      else case sa_text (sanitize_response env u \<lparr>check_secrets = True, normalize_unicode = True\<rparr> s) of Some t \<Rightarrow> t | None \<Rightarrow> s)"

section \<open>The texts of a message\<close>

definition block_texts :: "pyval \<Rightarrow> string list" where
  "block_texts b = (case text_block b of None \<Rightarrow> [] | Some (_, s) \<Rightarrow> [s])"

definition message_texts :: "message \<Rightarrow> string list" where
  "message_texts m =
     (case map_of m ''content'' of
        Some (PStr s) \<Rightarrow> if s = [] then [] else [s]
      | Some (PList bs) \<Rightarrow> concat (map block_texts bs)
      | _ \<Rightarrow> [])"

text \<open>A message with \<open>f\<close> applied to each of its texts and everything else as it was.\<close>

definition map_block :: "(string \<Rightarrow> string) \<Rightarrow> pyval \<Rightarrow> pyval" where
  "map_block f b = (case text_block b of None \<Rightarrow> b | Some (d, s) \<Rightarrow> PDict (AList.update ''text'' (PStr (f s)) d))"

definition map_texts :: "(string \<Rightarrow> string) \<Rightarrow> message \<Rightarrow> message" where
  "map_texts f m =
     (case map_of m ''content'' of
        Some (PStr s) \<Rightarrow> if s = [] then m else AList.update ''content'' (PStr (f s)) m
      | Some (PList bs) \<Rightarrow> AList.update ''content'' (PList (map (map_block f) bs)) m
      | _ \<Rightarrow> m)"

definition prompt_safe :: "san_env \<Rightarrow> san_middleware \<Rightarrow> string \<Rightarrow> bool" where
  "prompt_safe env m s = (case middleware_process env m s of Inl _ \<Rightarrow> False | Inr r \<Rightarrow> is_safe r)"

definition prompt_error :: "san_env \<Rightarrow> san_middleware \<Rightarrow> string \<Rightarrow> dispatch_error" where
  "prompt_error env m s = (case middleware_process env m s of Inl e \<Rightarrow> SanitizerRaised e | Inr r \<Rightarrow> PromptBlocked (sa_class r))"

definition normal_text :: "san_middleware \<Rightarrow> string \<Rightarrow> string" where
  "normal_text m s = fst (chain_input (sm_unicode m) s)"

lemma safe_text_normal:
  assumes "middleware_process env m s = Inr r" "is_safe r" shows "sa_text r = Some (normal_text m s)"
proof -
  obtain q where q: "chain_process env (sm_policy m) (sm_unicode m) (sm_detectors m) s = Inr q"
      "r = (if sm_dry_run m \<and> \<not> is_safe q then q\<lparr>sa_text := Some s\<rparr> else q)"
    using assms(1) by (auto simp: middleware_process_def split: sum.splits)
  then have "r = q" using assms(2) by (auto simp: is_safe_def split: if_splits)
  moreover have "sa_text q = (if sa_class q = ClsBlocked then None else Some (normal_text m s))"
    using chain_process_outcome [where env = env and pol = "sm_policy m" and uni = "sm_unicode m" and ds = "sm_detectors m" and content = s]
    unfolding q(1) sum.case normal_text_def by blast
  ultimately show ?thesis using assms(2) by (auto simp: is_safe_def)
qed

lemma sanitize_prompt_outcome:
  "sanitize_prompt env (Some m) s = (if prompt_safe env m s then Inr (normal_text m s) else Inl (prompt_error env m s))"
  by (auto simp: sanitize_prompt_def prompt_safe_def prompt_error_def safe_text_normal split: sum.splits)

lemma map_block_text: "text_block b = Some (d, s) \<Longrightarrow> b = PDict d \<and> map_of d ''text'' = Some (PStr s)"
  by (auto simp: text_block_def split: pyval.splits if_splits option.splits)

lemma blocks_outcome:
  "case List.find (\<lambda>s. \<not> prompt_safe env m s) (concat (map block_texts bs)) of
     Some s \<Rightarrow> sanitize_content_blocks env (Some m) bs = Inl (prompt_error env m s)
   | None \<Rightarrow> \<exists>mut. sanitize_content_blocks env (Some m) bs = Inr (map (map_block (normal_text m)) bs, mut) \<and>
       (mut \<or> map (map_block (normal_text m)) bs = bs)"
proof (induction bs)
  case (Cons b bs)
  show ?case
  proof (cases "text_block b")
    case None
    then show ?thesis using Cons by (auto simp: block_texts_def map_block_def split: option.splits)
  next
    case (Some p)
    obtain d s where p: "p = (d, s)" by (cases p)
    have b: "b = PDict d" "AList.update ''text'' (PStr s) d = d" using map_block_text Some p by (auto simp: update_triv)
    have mb: "map_block (normal_text m) b = PDict (AList.update ''text'' (PStr (normal_text m s)) d)" "block_texts b = [s]"
      using Some p by (simp_all add: map_block_def block_texts_def)
    show ?thesis using Cons Some p b mb by (auto simp: sanitize_prompt_outcome split: option.splits)
  qed
qed auto

lemma message_outcome:
  "sanitize_message env (Some m) msg =
     (case List.find (\<lambda>s. \<not> prompt_safe env m s) (message_texts msg) of
        None \<Rightarrow> Inr (map_texts (normal_text m) msg)
      | Some s \<Rightarrow> Inl (prompt_error env m s))"
proof (cases "map_of msg ''content''")
  case (Some v)
  show ?thesis
  proof (cases v)
    case (PStr s)
    then show ?thesis using Some
      by (auto simp: sanitize_message_def message_texts_def map_texts_def sanitize_prompt_outcome update_triv)
  next
    case (PList bs)
    then show ?thesis using Some blocks_outcome [of env m bs]
      by (auto simp: sanitize_message_def message_texts_def map_texts_def update_triv split: option.splits)
  qed (use Some in \<open>simp_all add: sanitize_message_def message_texts_def map_texts_def\<close>)
qed (simp add: sanitize_message_def message_texts_def map_texts_def)


text \<open>A dry run still blocks: the result keeps its class, and \<open>sanitize_prompt\<close> raises on it.\<close>

theorem dry_run_blocks:
  "sanitize_prompt san_sample (Some (build_default_chain latin_data None True)) ''guidance'' = Inl (PromptBlocked ClsBlocked)"
  by code_simp

text \<open>A secret that is only REDACTED is handed on as it is.\<close>

theorem redacted_prompt_unchanged:
  "sanitize_prompt san_sample (Some (build_default_chain latin_data None False)) ''token: swordfish'' = Inr ''token: swordfish''"
  by code_simp

text \<open>Every block of a response is masked, and nothing else of it is touched.\<close>

lemma response_blocks_masked:
  "sanitize_response_blocks env u sanitizer blocks = map (map_block (sanitize_response_str env u sanitizer)) blocks"
  by (simp add: sanitize_response_blocks_def map_block_def)

lemma agent_response_masked:
  "sanitize_agent_response_text env u False True s =
     sanitize_response_str env u (Some \<lparr>check_secrets = True, normalize_unicode = True\<rparr>) s \<or> s = []"
  by (auto simp: sanitize_agent_response_text_def sanitize_response_str_def split: option.splits)

end
