(* ===== verification/Spec2Isabelle.thy ===== *)
theory Spec2Isabelle
  imports Dag_Executor_Claims Step_Executor_Claims Expressions_Props Artifact_Props Rate_Limit Circuit_Breaker Verification_Loop Consensus
    Bulkhead Redis_State Url_Guard Tool_Dispatch Pipeline Audit_Log Conversation_Memory Workflow_Executor Replay_Store Sanitization_Dispatch
begin

text \<open>
  \<^bold>\<open>Verification of the workflow runtime of the agentic runtime platform.\<close> All source paths are below
  \<open>agentic-workflows-v2/agentic_v2/\<close>.

  \<^bold>\<open>The program.\<close> A workflow is a graph of steps. \<open>engine/dag.py\<close> holds and validates the graph,
  \<open>engine/dag_executor.py\<close> schedules its steps, \<open>engine/step.py\<close> runs one step with retries, refinement
  rounds, contracts and the verification gate of \<open>engine/verification.py\<close>, and \<open>engine/context.py\<close> carries
  the variables, checkpoints and step bookkeeping. Conditions and input mappings are small expressions
  (\<open>engine/expressions.py\<close>); outputs are checked by \<open>artifact_contracts.py\<close>. \<open>engine/pipeline.py\<close> runs
  ordered sequences of steps instead of graphs, and \<open>engine/executor.py\<close> is the entry point that runs any of
  these under a deadline and records the run. Steps call language models through the router
  (\<open>models/router.py\<close>, \<open>models/smart_router.py\<close>, \<open>models/fallback_selector.py\<close>), which keeps statistics and
  a circuit breaker per model (\<open>models/model_stats.py\<close>), shares them between workers
  (\<open>models/redis_state.py\<close>), tracks rate limits (\<open>models/rate_limit_tracker.py\<close>) and reads the curated
  registry (\<open>models/model_registry.py\<close>). Tool calls pass the approval gate (\<open>governance/approval.py\<close>) and
  outgoing requests the address guard (\<open>security/url_guard.py\<close>). Prompts and responses pass the sanitizers
  below \<open>middleware/\<close>. Agents keep their conversation in \<open>agents/memory.py\<close>; the server records decisions in a
  hash-chained log (\<open>server/audit_log.py\<close>) and keeps the events of a run for clients that reconnect
  (\<open>server/replay_store.py\<close>).

  \<^bold>\<open>Shared theories.\<close>
  \<^item> \<open>Prelude\<close>: Python values (\<open>pyval\<close>), results as sums with \<open>rbind\<close> and \<open>rfold\<close>, dictionaries as
    association lists (\<open>AList.update\<close> keeps the position of a key as a Python dict does), and the
    collection \<open>result_simps\<close>.
  \<^item> \<open>Py_Strings\<close>, \<open>Py_Numbers\<close>, \<open>Py_Regex\<close>, \<open>Py_Values\<close>: what the sources use of Python's strings, number
    parsing, regular expressions (a backtracking matcher in the order of \<open>re\<close>, with look-around of one character) and values in expressions.

  \<^bold>\<open>Workflow graphs and scheduling.\<close>
  \<^item> \<open>Dag\<close>: \<open>DAG.add\<close>, \<open>validate\<close> (missing dependencies, depth-first cycle search \<open>dfs_loop\<close>), \<open>build_adjacency_list\<close>,
    \<open>get_execution_order\<close> (\<open>kahn_loop\<close>), ready steps. \<open>Dag_Props\<close> proves validation sound and complete,
    the reported cycle a cycle, and the order topological; its locale \<open>task_graph\<close> is the interface the
    executor uses, interpreted as \<open>dag_graph\<close>.
  \<^item> \<open>Contracts\<close>, \<open>Step_State\<close>: \<open>StepResult\<close>, \<open>WorkflowResult\<close>, the status enumerations and their
    normalisation, \<open>StepStateManager\<close> with its transitions.
  \<^item> \<open>Dag_Executor\<close>: one definition per method of \<open>DAGExecutor\<close>. Awaiting is a step relation: a run is a
    sequence of scheduling rounds in which tasks finish in any order. \<open>Dag_Executor_Props\<close> holds the
    invariant, \<open>Dag_Executor_Runs\<close> the runs, \<open>Dag_Executor_Claims\<close> the properties: running steps are safe,
    every schedule records what the sequential one records, results are complete, timeouts are
    recovered, no deadlock.

  \<^bold>\<open>Steps.\<close>
  \<^item> \<open>Step_Def\<close>, \<open>Step_Executor\<close>: \<open>RetryConfig\<close>, \<open>StepDefinition\<close>, \<open>StepExecutor.execute\<close> as a state and
    exception monad over a record of the run; step functions, hooks and clocks are parameters.
    \<open>attempt_loop\<close> is a \<open>partial_function\<close> in \<open>option\<close>; \<open>step_execution_returns\<close> proves that it returns,
    with the bound on the calls of the step function. \<open>Step_Executor_Props\<close> has the locales
    \<open>outside_relation\<close> and \<open>quiet_relation\<close> (what an operation leaves alone), interpreted three times.
  \<^item> \<open>Exec_Context\<close>: scopes, variables, masking, events, checkpoints, services; its locale
    \<open>variable_store\<close> is interpreted on the context (\<open>ctx_store\<close>).
  \<^item> \<open>Verification_Loop\<close>, \<open>Token_Budget\<close>, \<open>Consensus\<close>: the gate and correction loop, budgets (locale \<open>budget\<close>
    with two interpretations), voting and self-consistency.
  \<^item> \<open>Expressions\<close>, \<open>Expressions_Props\<close>: the interpreter of the expression language over its syntax tree, and
    that it is a sandbox. \<open>Artifact_Contracts\<close>, \<open>Artifact_Props\<close>: validation of declared outputs and file maps.
  \<^item> \<open>Pipeline\<close>: elements, builder and \<open>PipelineExecutor\<close> of \<open>engine/pipeline.py\<close>; the batches that \<open>asyncio.wait\<close>
    delivers and the step runner are parameters, the latter through the locale \<open>step_runner\<close>, interpreted
    on \<open>StepExecutor.execute\<close> (\<open>alone\<close>). Shown: the verdict, the bound on recorded steps and fail-fast, and
    that a run returns.
  \<^item> \<open>Workflow_Executor\<close>: \<open>WorkflowExecutor.execute\<close> with validation, start, deadline, history, listeners,
    cancellation and the dispatch to steps, lists, graphs and pipelines. The locale \<open>sub_executor\<close> is what it relies on from
    an inner executor, interpreted on the graph executor (\<open>dag_runs\<close>) and the pipeline executor (\<open>pipeline_runs\<close>). Shown: a run that
    returns is concluded in result, history and events, and SUCCESS is reported only when it is true.
  \<^item> \<open>Approval\<close>, \<open>Tool_Dispatch\<close>: the approval gate, tools with their gated \<open>execute\<close>, the registry, tool
    contracts and a round of tool calls. A log of the questions asked and the bodies run is added to
    the environment (\<open>traced_env\<close>, \<open>traced_tool\<close>); gated bodies run only directly after their approval.
  \<^item> \<open>Conversation_Memory\<close>: the bounded window of messages with its summaries, the case facts, compaction and
    the manifest. Shown: the window keeps its bounds whatever is added, and a manifest restores the
    memory it was written from.
  \<^item> \<open>Audit_Log\<close>: records, stores and verification of the hash chain; SHA-256 of the canonical JSON text is a
    parameter. The locale \<open>durable_store\<close> is interpreted on the file and the Redis stream. Shown: what
    the logger writes verifies, and a chain that verifies was not altered unless the hash collides.
  \<^item> \<open>Replay_Store\<close>: the event buffers in memory, in Redis and in SQLite, with failing statements, expiry and restarts, and the
    choice of a backend. The locale \<open>replay_buffer\<close> is the contract, interpreted three times (\<open>ram_log\<close>, \<open>redis_log\<close>,
    \<open>sqlite_log\<close>). Shown: the three stores return the same events, and none is ever invented or moved.
  \<^item> \<open>Sanitization\<close>: findings, policy, the detectors with their regular expressions, masking, the Unicode passes, the
    detector chain, the middleware and the response path; \<open>Sanitization_Dispatch\<close>: the cleaning of prompts, messages and
    content blocks. Shown: secrets found in a response are masked and the rest is kept, the chain and the chat path fail
    closed, the passes leave no dangerous character, and the entropy test in integers is the one with logarithms. The
    verdict of the policy is proved as coded, where severities are ordered as strings.

  \<^bold>\<open>Models.\<close>
  \<^item> \<open>Circuit_Breaker\<close>: \<open>ModelStats\<close> with the step relation \<open>stats_step\<close> and its invariant. \<open>Rate_Limit\<close>: token
    buckets (locale \<open>rate_limiter\<close>, interpreted on a bucket and on the tracker) and the header parsers.
  \<^item> \<open>Model_Registry\<close>, \<open>Model_Router\<close>: cost lanes, the ceiling, chains, availability, routing, scoped chains.
  \<^item> \<open>Llm_Errors\<close>, \<open>Smart_Router\<close>: error classification, selection with degradation, recording of outcomes,
    bulkheads, fallback loops (the fuel of \<open>call_loop\<close> and \<open>fallback_loop\<close> is \<open>max_retries\<close> itself).
    \<open>Smart_Router_Props\<close> has the locale \<open>router_view\<close> (what a selection does not change) with five
    interpretations; \<open>Bulkhead\<close> the interleavings of calls in flight.
  \<^item> \<open>Redis_State\<close>: the shared store with compare-and-swap and the merging of counters; \<open>shared_step\<close>
    interleaves workers, and the shared counts stay the sum of what the workers persisted.

  \<^bold>\<open>Outgoing requests.\<close> \<open>Net_Address\<close> models what \<open>security/url_guard.py\<close> uses of \<open>ipaddress\<close> (addresses as
  words of 32 and 128 bits), \<open>inet_aton\<close> and \<open>urlparse\<close>; \<open>Url_Guard\<close> the guard itself. Soundness is
  stated over bit prefixes of the forbidden ranges.

  \<^bold>\<open>Conventions and limits.\<close> Strings are lists of characters of one byte, and case mapping and white space
  are those of ASCII. Floats are rationals, so rounding, infinities and not-a-number are left out.
  Clocks, random numbers, hashes, the Unicode database, date and YAML parsers, subprocesses, model providers, sockets and Redis are
  parameters. The code between two awaits is one atomic step; \<open>Dag_Executor\<close>, \<open>Bulkhead\<close> and \<open>Redis_State\<close>
  interleave such steps and \<open>Pipeline\<close> takes the batches in which branches finish, while inside one step execution (\<open>Step_Executor\<close>) the effects of other steps at its
  awaits are not modelled. Loops recurse on data or have a measure; the only loop that may run forever is
  \<open>attempt_loop\<close>, and what calls it returns an option. Entropies are real numbers.

  \<^bold>\<open>Not modelled.\<close> Logging, metrics and tracing; the HTTP server (its audit log and replay stores apart), CLI and user interface; provider clients
  and model discovery (network I/O); the LangChain engine (its response sanitization apart), which drives a third-party graph library; agents (their memory apart),
  prompts and MCP integrations; built-in tools; scoring and evaluation code; the development tools below
  \<open>tools/\<close> and the evaluation packages. \<open>PROJECT.json\<close> lists them one by one.
\<close>

end
